(* ===== verification/BSD_Prelude.thy ===== *)
theory BSD_Prelude
  imports Main "HOL-Library.Word"
begin

unbundle bit_operations_syntax

text \<open>
  Shared vocabulary of the development: the widths of the C integer types on amd64, the
  outcome of a C function (a value, a process exit, undefined behaviour), little-endian
  byte encodings of unsigned integers, the C string functions the programs call, and
  the list facts the components share. Nothing here models a file of the repository; it
  models the language and its standard library.
\<close>

section \<open>Types\<close>

type_synonym u8 = "8 word"
type_synonym u16 = "16 word"
type_synonym u32 = "32 word"
type_synonym u64 = "64 word"

text \<open>The rules that carry the proofs about byte layouts and about outcomes.\<close>

named_theorems layout \<open>lengths and projections of encoded structures\<close>
named_theorems text_eval \<open>definitions that evaluate string functions on literals\<close>
named_theorems outcome_simps \<open>rewriting of composed outcomes\<close>

section \<open>Outcomes of C code\<close>

text \<open>
  \<open>Ret x\<close>: the function returned. \<open>Exit n\<close>: the process ended with status \<open>n\<close>
  (\<open>exit\<close>, \<open>err\<close>, \<open>errx\<close>). \<open>Undef\<close>: the C program has no defined behaviour from
  here on (an access outside an object, a null dereference, a conversion out of range).
  \<open>Hang\<close>: the function loops for ever.
\<close>

datatype 'a outcome = Ret 'a | Exit int | Undef | Hang

fun obind :: "'a outcome \<Rightarrow> ('a \<Rightarrow> 'b outcome) \<Rightarrow> 'b outcome" where
  "obind (Ret x) f = f x"
| "obind (Exit n) f = Exit n"
| "obind Undef f = Undef"
| "obind Hang f = Hang"

lemma obind_eq_Ret [outcome_simps]:
  "obind m f = Ret y \<longleftrightarrow> (\<exists>x. m = Ret x \<and> f x = Ret y)"
  by (cases m) auto

lemma obind_eq_Undef [outcome_simps]:
  "obind m f = Undef \<longleftrightarrow> m = Undef \<or> (\<exists>x. m = Ret x \<and> f x = Undef)"
  by (cases m) auto

lemma obind_eq_Exit [outcome_simps]:
  "obind m f = Exit n \<longleftrightarrow> m = Exit n \<or> (\<exists>x. m = Ret x \<and> f x = Exit n)"
  by (cases m) auto

lemma obind_eq_Hang [outcome_simps]:
  "obind m f = Hang \<longleftrightarrow> m = Hang \<or> (\<exists>x. m = Ret x \<and> f x = Hang)"
  by (cases m) auto

lemma obind_cong [fundef_cong]:
  "m = m' \<Longrightarrow> (\<And>x. m' = Ret x \<Longrightarrow> f x = g x) \<Longrightarrow> obind m f = obind m' g"
  by (cases m') auto

text \<open>An access to element \<open>i\<close> of an array of known extent.\<close>

definition aget :: "'a list \<Rightarrow> nat \<Rightarrow> 'a outcome" where
  "aget xs i = (if i < length xs then Ret (xs ! i) else Undef)"

definition aset :: "'a list \<Rightarrow> nat \<Rightarrow> 'a \<Rightarrow> 'a list outcome" where
  "aset xs i v = (if i < length xs then Ret (xs[i := v]) else Undef)"

lemma aget_Ret [outcome_simps]: "aget xs i = Ret x \<longleftrightarrow> i < length xs \<and> x = xs ! i"
  by (auto simp: aget_def)

lemma aset_Ret [outcome_simps]: "aset xs i v = Ret ys \<longleftrightarrow> i < length xs \<and> ys = xs[i := v]"
  by (auto simp: aset_def)

lemma aget_not_Exit [outcome_simps]: "aget xs i \<noteq> Exit n"
  by (simp add: aget_def)

lemma aset_not_Exit [outcome_simps]: "aset xs i v \<noteq> Exit n"
  by (simp add: aset_def)

section \<open>Words read as numbers\<close>

lemma sint_small:
  assumes "unat (w :: 'a::len word) < 2 ^ (LENGTH('a) - 1)"
  shows "sint w = int (unat w)"
proof -
  have u: "uint w = int (unat w)" by simp
  have "int (unat w) < 2 ^ (LENGTH('a) - 1)"
    using assms by (metis of_nat_less_iff of_nat_numeral of_nat_power)
  moreover have "- (2 ^ (LENGTH('a) - 1)) \<le> int (unat w)"
    by (rule order_trans [of _ 0]) simp_all
  ultimately show ?thesis
    unfolding sint_uint u by (intro signed_take_bit_int_eq_self) simp_all
qed

lemma unat_of_nat_small: "n < 2 ^ LENGTH('a) \<Longrightarrow> unat (of_nat n :: 'a::len word) = n"
  by (simp add: unat_of_nat)

lemma unat_plus_small:
  "unat (a :: 'a::len word) + unat b < 2 ^ LENGTH('a) \<Longrightarrow> unat (a + b) = unat a + unat b"
  by (rule iffD1 [OF unat_add_lem])

lemma unat_minus_small: "b \<le> (a :: 'a::len word) \<Longrightarrow> unat (a - b) = unat a - unat b"
  by (rule unat_sub)

lemma unat_scast_small:
  assumes "unat (w :: u32) < 2 ^ 31"
  shows "unat (scast w :: u64) = unat w"
proof -
  have s: "sint w = int (unat w)"
    using assms by (intro sint_small) simp
  have "(scast w :: u64) = word_of_int (sint w)"
    by simp
  also have "\<dots> = of_nat (unat w)"
    unfolding s by simp
  finally show ?thesis
    using assms by (simp add: unat_of_nat del: of_nat_unat)
qed

lemma unat_inc: "(w :: 'a::len word) \<noteq> - 1 \<Longrightarrow> unat (w + 1) = unat w + 1"
  using unatSuc [of w] by (metis Suc_eq_plus1 add.commute add_eq_0_iff)

lemma unat_dec: "(v :: 'a::len word) < w \<Longrightarrow> unat (w - 1) = unat w - 1"
  by (intro unat_minus_one) auto

section \<open>Little-endian encodings\<close>

lemma unat_word_less: "unat (w :: 'a::len word) < 2 ^ LENGTH('a)"
  by (fact unsigned_less)

lemma unat_u8_less: "unat (b :: u8) < 256"
  using unat_word_less [of b] by simp

lemma unat_ucast_64: "unat (ucast (w :: u32) :: u64) = unat w"
proof -
  have "unat w < 2 ^ 64" using unat_word_less [of w] by simp
  then show ?thesis using unat_of_nat_small [of "unat w", where 'a = 64] by simp
qed


fun le_enc :: "nat \<Rightarrow> nat \<Rightarrow> u8 list" where
  "le_enc 0 v = []"
| "le_enc (Suc n) v = of_nat v # le_enc n (v div 256)"

fun le_dec :: "u8 list \<Rightarrow> nat" where
  "le_dec [] = 0"
| "le_dec (b # bs) = unat b + 256 * le_dec bs"

lemma length_le_enc [simp, layout]: "length (le_enc n v) = n"
  by (induction n v rule: le_enc.induct) auto

lemma le_dec_enc: "le_dec (le_enc n v) = v mod 256 ^ n"
proof (induction n v rule: le_enc.induct)
  case (2 n v)
  have "unat (of_nat v :: u8) = v mod 256"
    by (simp add: unat_of_nat)
  then show ?case
    using 2 by (simp add: mod_mult2_eq)
qed simp

lemma le_dec_bound: "le_dec bs < 256 ^ length bs"
proof (induction bs)
  case (Cons b bs)
  have "unat b < 256"
    using unat_u8_less [of b] by simp
  with Cons show ?case by simp
qed simp

lemma u8_256: "(256 :: u8) = 0"
  by (rule word_unat_eq_iff [THEN iffD2]) code_simp

lemma le_enc_dec: "le_enc (length bs) (le_dec bs) = bs"
proof (induction bs)
  case (Cons b bs)
  have "unat b < 256"
    using unat_u8_less [of b] by simp
  then have "(unat b + 256 * le_dec bs) div 256 = le_dec bs"
    by simp
  moreover have "(of_nat (unat b + 256 * le_dec bs) :: u8) = b"
    by (simp add: u8_256)
  ultimately show ?case
    using Cons by simp
qed simp

lemma le_dec_enc_u16 [simp]: "le_dec (le_enc 2 (unat (w :: u16))) = unat w"
  using unat_word_less [of w] by (simp add: le_dec_enc)

lemma le_dec_enc_u32 [simp]: "le_dec (le_enc 4 (unat (w :: u32))) = unat w"
  using unat_word_less [of w] by (simp add: le_dec_enc)

lemma le_dec_enc_u64 [simp]: "le_dec (le_enc 8 (unat (w :: u64))) = unat w"
  using unat_word_less [of w] by (simp add: le_dec_enc)

text \<open>A field of \<open>n\<close> bytes at offset \<open>off\<close> of a byte buffer.\<close>

definition bytes_at :: "nat \<Rightarrow> nat \<Rightarrow> 'a list \<Rightarrow> 'a list" where
  "bytes_at off n bs = take n (drop off bs)"

lemma bytes_at_0 [layout]: "length xs = n \<Longrightarrow> bytes_at 0 n (xs @ ys) = xs"
  by (simp add: bytes_at_def)

lemma bytes_at_skip [layout]:
  "length xs \<le> off \<Longrightarrow> bytes_at off n (xs @ ys) = bytes_at (off - length xs) n ys"
  by (simp add: bytes_at_def)

lemma bytes_at_all [layout]: "length xs = n \<Longrightarrow> bytes_at 0 n xs = xs"
  by (simp add: bytes_at_def)

lemma length_bytes_at [layout]: "off + n \<le> length bs \<Longrightarrow> length (bytes_at off n bs) = n"
  by (simp add: bytes_at_def)

lemma bytes_at_append_left [layout]:
  "off + n \<le> length xs \<Longrightarrow> bytes_at off n (xs @ ys) = bytes_at off n xs"
  by (simp add: bytes_at_def)

text \<open>\<open>memcpy(buf + off, src, n)\<close> inside a buffer.\<close>

definition overlay :: "'a list \<Rightarrow> nat \<Rightarrow> 'a list \<Rightarrow> 'a list" where
  "overlay buf off src = take off buf @ src @ drop (off + length src) buf"

lemma length_overlay [layout]: "off + length src \<le> length buf \<Longrightarrow> length (overlay buf off src) = length buf"
  by (simp add: overlay_def)

text \<open>The same into an object of known extent.\<close>

definition put_bytes :: "'a list \<Rightarrow> nat \<Rightarrow> 'a list \<Rightarrow> 'a list outcome" where
  "put_bytes buf off src = (if off + length src \<le> length buf then Ret (overlay buf off src) else Undef)"

lemma put_bytes_Ret [outcome_simps]:
  "put_bytes buf off src = Ret b \<longleftrightarrow> off + length src \<le> length buf \<and> b = overlay buf off src"
  by (auto simp: put_bytes_def)

text \<open>A read of \<open>n\<close> bytes of an object of known extent.\<close>

definition obj_bytes :: "u8 list \<Rightarrow> nat \<Rightarrow> nat \<Rightarrow> u8 list outcome" where
  "obj_bytes buf off n = (if off + n \<le> length buf then Ret (bytes_at off n buf) else Undef)"

text \<open>The block size of the device interface.\<close>

definition DEV_BSIZE :: nat where "DEV_BSIZE = 512"

section \<open>Sectors\<close>

text \<open>\<open>n\<close> sectors of 512 bytes of a medium, from sector \<open>a\<close>.\<close>

definition secs :: "(nat \<Rightarrow> u8 list) \<Rightarrow> nat \<Rightarrow> nat \<Rightarrow> u8 list" where
  "secs m a n = concat (map m [a..<a + n])"

lemma length_secs [layout]: "(\<And>i. length (m i) = 512) \<Longrightarrow> length (secs m a n) = 512 * n"
  by (induction n) (simp_all add: secs_def)

lemma secs_append: "secs m a i @ secs m (a + i) j = secs m a (i + j)"
proof -
  have "[a..<a + (i + j)] = [a..<a + i] @ [a + i..<a + i + j]"
    by (metis add.assoc le_add1 upt_add_eq_append)
  then show ?thesis by (simp add: secs_def)
qed

lemma secs_0 [simp]: "secs m a 0 = []"
  by (simp add: secs_def)

lemma take_secs:
  assumes "\<And>i. length (m i) = 512" "j \<le> n"
  shows "take (512 * j) (secs m a n) = secs m a j"
proof -
  have "secs m a n = secs m a j @ secs m (a + j) (n - j)" using assms(2) by (simp add: secs_append)
  then show ?thesis using assms(1) by (simp add: length_secs)
qed

section \<open>Powers of two as words\<close>

lemma unat_two_power: "k < LENGTH('a) \<Longrightarrow> unat (2 ^ k :: 'a::len word) = 2 ^ k"
  using unat_of_nat_small [of "2 ^ k", where 'a = 'a] by simp

lemma unat_mask_small:
  assumes "k \<le> LENGTH('a)"
  shows "unat (mask k :: 'a::len word) = 2 ^ k - 1"
proof -
  have "mask k < (2 :: nat) ^ LENGTH('a)"
    using assms unfolding mask_eq_exp_minus_1
    by (metis One_nat_def diff_Suc_less less_le_trans one_le_numeral power_increasing zero_less_numeral zero_less_power)
  then have "unat (of_nat (mask k) :: 'a word) = mask k" by (rule unat_of_nat_small)
  then show ?thesis by (simp add: of_nat_mask_eq mask_eq_exp_minus_1)
qed

lemma unat_and_not_mask: "unat ((w :: 'a::len word) AND NOT (mask k)) = unat w div 2 ^ k * 2 ^ k"
proof -
  have e: "w AND NOT (mask k) = push_bit k (drop_bit k w)"
    by (auto simp: bit_eq_iff bit_simps)
  have "unat w div 2 ^ k * 2 ^ k < 2 ^ LENGTH('a)"
    using div_times_less_eq_dividend [of "unat w" "2 ^ k"] unat_word_less [of w] by linarith
  moreover have "unat (push_bit k (drop_bit k w)) = take_bit LENGTH('a) (push_bit k (drop_bit k (unat w)))"
    by (simp only: unsigned_push_bit_eq unat_drop_bit_eq)
  ultimately show ?thesis
    unfolding e by (simp add: take_bit_nat_eq_self drop_bit_eq_div push_bit_eq_mult)
qed

end
