(* ===== verification/C_Strings.thy ===== *)
theory C_Strings
  imports BSD_Prelude
begin

text \<open>
  The C library string and number functions that gdisk and the boot programs call,
  over \<open>string\<close> (a C string without its terminator) or over a list of buffer bytes.
  The definitions are executable; the lemmas are the ones the components use: input
  functions consume their input, printed numbers parse back.
\<close>

section \<open>Characters and buffers\<close>

definition NUL :: char where "NUL = CHR 0x00"

definition NL :: char where "NL = CHR 0x0A"

definition is_blank :: "char \<Rightarrow> bool" where
  "is_blank c \<longleftrightarrow> c = CHR '' '' \<or> c = CHR 0x09"

definition c_isspace :: "char \<Rightarrow> bool" where
  "c_isspace c \<longleftrightarrow> c = CHR '' '' \<or> (9 \<le> (of_char c :: nat) \<and> (of_char c :: nat) \<le> 13)"

definition c_tolower :: "char \<Rightarrow> char" where
  "c_tolower c = (if 65 \<le> (of_char c :: nat) \<and> (of_char c :: nat) \<le> 90
     then char_of ((of_char c :: nat) + 32) else c)"

text \<open>The C string held by a buffer: the bytes before the first NUL.\<close>

definition cstr :: "string \<Rightarrow> string" where
  "cstr b = takeWhile (\<lambda>c. c \<noteq> NUL) b"

lemma length_cstr_le: "length (cstr b) \<le> length b"
  by (simp add: cstr_def length_takeWhile_le)

lemma cstr_no_NUL: "NUL \<notin> set s \<Longrightarrow> cstr s = s"
  by (auto simp: cstr_def takeWhile_eq_all_conv)

text \<open>The value of a digit or letter in any base up to 36.\<close>

definition digit_val :: "char \<Rightarrow> nat option" where
  "digit_val c =
     (let n = (of_char c :: nat) in
      if 48 \<le> n \<and> n \<le> 57 then Some (n - 48)
      else if 65 \<le> n \<and> n \<le> 90 then Some (n - 55)
      else if 97 \<le> n \<and> n \<le> 122 then Some (n - 87)
      else None)"

definition is_digit :: "nat \<Rightarrow> char \<Rightarrow> bool" where
  "is_digit base c \<longleftrightarrow> (case digit_val c of None \<Rightarrow> False | Some d \<Rightarrow> d < base)"

definition horner :: "nat \<Rightarrow> string \<Rightarrow> nat" where
  "horner base s = foldl (\<lambda>a c. a * base + (case digit_val c of None \<Rightarrow> 0 | Some d \<Rightarrow> d)) 0 s"

lemma foldl_horner:
  "foldl (\<lambda>a c. a * base + g c) a s = a * base ^ length s + foldl (\<lambda>a c. a * base + g c) (0::nat) s"
proof (induction s arbitrary: a)
  case (Cons c s)
  show ?case
    using Cons [of "a * base + g c"] Cons [of "g c"] by (simp add: algebra_simps)
qed simp

lemma horner_append: "horner base (s @ t) = horner base s * base ^ length t + horner base t"
  unfolding horner_def foldl_append by (rule foldl_horner)

section \<open>Numbers in text\<close>

text \<open>
  A fixed-width numeral, most significant digit first, as \<open>%0<w>x\<close> prints it for a
  value that fits.
\<close>

definition hex_char :: "nat \<Rightarrow> char" where
  "hex_char d = ''0123456789abcdef'' ! d"

fun hexn :: "nat \<Rightarrow> nat \<Rightarrow> string" where
  "hexn 0 v = []"
| "hexn (Suc w) v = hexn w (v div 16) @ [hex_char (v mod 16)]"

lemma hexn_numeral [text_eval]:
  "hexn (numeral k) v = hexn (pred_numeral k) (v div 16) @ [hex_char (v mod 16)]"
  by (simp only: numeral_eq_Suc hexn.simps)

lemma length_hexn [simp, layout]: "length (hexn w v) = w"
  by (induction w v rule: hexn.induct) auto

lemma digit_val_hex_char [simp]:
  assumes "d < 16"
  shows "digit_val (hex_char d) = Some d"
proof -
  have "list_all (\<lambda>d. digit_val (hex_char d) = Some d) [0..<16]"
    by (simp add: upt_rec hex_char_def digit_val_def)
  with assms show ?thesis
    by (simp add: list_all_iff)
qed

lemma is_digit_hexn: "c \<in> set (hexn w v) \<Longrightarrow> is_digit 16 c"
  by (induction w v rule: hexn.induct) (auto simp: is_digit_def)

lemma horner_hexn: "horner 16 (hexn w v) = v mod 16 ^ w"
proof (induction w v rule: hexn.induct)
  case (2 w v)
  have "horner 16 [hex_char (v mod 16)] = v mod 16"
    by (simp add: horner_def)
  then have "horner 16 (hexn (Suc w) v) = (v div 16 mod 16 ^ w) * 16 + v mod 16"
    using 2 by (simp add: horner_append)
  also have "\<dots> = v mod 16 ^ Suc w"
    by (simp add: mod_mult2_eq)
  finally show ?case .
qed (simp add: horner_def)

text \<open>The lower-case hexadecimal digits; printing their value gives the text back.\<close>

definition lower_hex :: "char \<Rightarrow> bool" where
  "lower_hex c \<longleftrightarrow> is_digit 16 c \<and> (case digit_val c of None \<Rightarrow> False | Some d \<Rightarrow> hex_char d = c)"

lemma hex_digit_eval:
  shows "digit_val (CHR ''0'') = Some 0"
    and "lower_hex (CHR ''0'')"
    and "digit_val (CHR ''1'') = Some 1"
    and "lower_hex (CHR ''1'')"
    and "digit_val (CHR ''2'') = Some 2"
    and "lower_hex (CHR ''2'')"
    and "digit_val (CHR ''3'') = Some 3"
    and "lower_hex (CHR ''3'')"
    and "digit_val (CHR ''4'') = Some 4"
    and "lower_hex (CHR ''4'')"
    and "digit_val (CHR ''5'') = Some 5"
    and "lower_hex (CHR ''5'')"
    and "digit_val (CHR ''6'') = Some 6"
    and "lower_hex (CHR ''6'')"
    and "digit_val (CHR ''7'') = Some 7"
    and "lower_hex (CHR ''7'')"
    and "digit_val (CHR ''8'') = Some 8"
    and "lower_hex (CHR ''8'')"
    and "digit_val (CHR ''9'') = Some 9"
    and "lower_hex (CHR ''9'')"
    and "digit_val (CHR ''a'') = Some 10"
    and "lower_hex (CHR ''a'')"
    and "digit_val (CHR ''b'') = Some 11"
    and "lower_hex (CHR ''b'')"
    and "digit_val (CHR ''c'') = Some 12"
    and "lower_hex (CHR ''c'')"
    and "digit_val (CHR ''d'') = Some 13"
    and "lower_hex (CHR ''d'')"
    and "digit_val (CHR ''e'') = Some 14"
    and "lower_hex (CHR ''e'')"
    and "digit_val (CHR ''f'') = Some 15"
    and "lower_hex (CHR ''f'')"
  by (simp_all add: digit_val_def lower_hex_def is_digit_def hex_char_def)

lemma horner_bound: "list_all (is_digit base) s \<Longrightarrow> horner base s < base ^ length s"
proof (induction s rule: rev_induct)
  case (snoc c s)
  then obtain d where d: "digit_val c = Some d" "d < base"
    by (auto simp: is_digit_def split: option.splits)
  have "horner base (s @ [c]) = horner base s * base + d"
    using d by (simp add: horner_append) (simp add: horner_def)
  moreover have "horner base s * base + d < (horner base s + 1) * base"
    using d by simp
  moreover have "(horner base s + 1) * base \<le> base ^ length s * base"
    using snoc by (intro mult_le_mono1) simp
  ultimately show ?case by (simp add: mult.commute)
qed (simp add: horner_def)

lemma hexn_horner: "list_all lower_hex s \<Longrightarrow> hexn (length s) (horner 16 s) = s"
proof (induction s rule: rev_induct)
  case (snoc c s)
  then obtain d where d: "digit_val c = Some d" "d < 16" "hex_char d = c"
    by (auto simp: is_digit_def lower_hex_def split: option.splits)
  have "horner 16 (s @ [c]) = horner 16 s * 16 + d"
    using d by (simp add: horner_append) (simp add: horner_def)
  with snoc d show ?case by simp
qed simp

text \<open>The sign, the radix prefix and the digits of \<open>strtol\<close> and its relatives (libc).\<close>

definition LLONG_MAX :: int where "LLONG_MAX = 9223372036854775807"
definition LLONG_MIN :: int where "LLONG_MIN = -9223372036854775808"

definition take_sign :: "string \<Rightarrow> bool \<times> string" where
  "take_sign s = (case s of [] \<Rightarrow> (False, [])
     | c # r \<Rightarrow> if c = CHR ''-'' then (True, r) else if c = CHR ''+'' then (False, r) else (False, s))"

definition hex_prefix :: "string \<Rightarrow> bool" where
  "hex_prefix s \<longleftrightarrow> (case s of z # x # d # r \<Rightarrow>
      z = CHR ''0'' \<and> (x = CHR ''x'' \<or> x = CHR ''X'') \<and> is_digit 16 d | _ \<Rightarrow> False)"

definition strtoll :: "nat \<Rightarrow> string \<Rightarrow> int \<times> string" where
  "strtoll base0 s =
     (let (neg, t) = take_sign (dropWhile c_isspace s);
          hex = ((base0 = 0 \<or> base0 = 16) \<and> hex_prefix t);
          u = (if hex then drop 2 t else t);
          base = (if hex then 16 else if base0 \<noteq> 0 then base0
                  else if u \<noteq> [] \<and> hd u = CHR ''0'' then 8 else 10);
          ds = takeWhile (is_digit base) u;
          v = (if neg then - int (horner base ds) else int (horner base ds))
      in if ds = [] then (0, s)
         else (max LLONG_MIN (min LLONG_MAX v), dropWhile (is_digit base) u))"

datatype num_error = Invalid | Too_small | Too_large

text \<open>\<open>strtonum(3)\<close>: the whole string is one decimal number between the bounds.\<close>

definition strtonum :: "string \<Rightarrow> int \<Rightarrow> int \<Rightarrow> num_error + int" where
  "strtonum s minval maxval =
     (let (v, r) = strtoll 10 s in
      if minval > maxval then Inl Invalid
      else if r = s \<or> r \<noteq> [] then Inl Invalid
      else if v < minval then Inl Too_small
      else if v > maxval then Inl Too_large
      else Inr v)"

lemma strtonum_range:
  "strtonum s lo hi = Inr v \<Longrightarrow> lo \<le> v \<and> v \<le> hi"
  by (auto simp: strtonum_def Let_def split: prod.splits if_splits)

section \<open>Tokens\<close>

text \<open>\<open>strsep(&p, " \<backslash>t")\<close>: the token up to the first blank and what follows it, if any.\<close>

definition strsep :: "string option \<Rightarrow> string option \<times> string option" where
  "strsep p = (case p of None \<Rightarrow> (None, None)
     | Some s \<Rightarrow> (Some (takeWhile (\<lambda>c. \<not> is_blank c) s),
         (case dropWhile (\<lambda>c. \<not> is_blank c) s of [] \<Rightarrow> None | _ # r \<Rightarrow> Some r)))"

text \<open>\<open>strncmp(a, b, n) == 0\<close> on C strings.\<close>

definition strn_eq :: "nat \<Rightarrow> string \<Rightarrow> string \<Rightarrow> bool" where
  "strn_eq n a b \<longleftrightarrow> take n a = take n b"

section \<open>Standard input\<close>

text \<open>
  \<open>fgets(buf, n, stdin)\<close>: \<open>None\<close> at end of file, else the bytes read (at most
  \<open>n - 1\<close>, up to and including a newline) and the remaining input.
\<close>

definition fgets :: "nat \<Rightarrow> string \<Rightarrow> (string \<times> string) option" where
  "fgets n inp =
     (if inp = [] then None
      else let k = min (n - 1) (Suc (length (takeWhile (\<lambda>c. c \<noteq> NL) inp)))
           in Some (take k inp, drop k inp))"

lemma fgets_append: "fgets n inp = Some (line, rest) \<Longrightarrow> inp = line @ rest"
  by (auto simp: fgets_def Let_def split: if_splits)

lemma fgets_consumes:
  "fgets n inp = Some (line, rest) \<Longrightarrow> 2 \<le> n \<Longrightarrow> length rest < length inp"
  by (auto simp: fgets_def Let_def split: if_splits)

lemma fgets_fits: "fgets n inp = Some (line, rest) \<Longrightarrow> length line \<le> n - 1"
  by (auto simp: fgets_def Let_def split: if_splits)

text \<open>The idiom that removes the newline: the C string of the buffer without a final newline.\<close>

definition chomp :: "string \<Rightarrow> string" where
  "chomp line = (let b = cstr line in if b \<noteq> [] \<and> last b = NL then butlast b else b)"

lemmas [text_eval] = NUL_def NL_def is_blank_def c_isspace_def c_tolower_def cstr_def digit_val_def
  is_digit_def horner_def LLONG_MAX_def LLONG_MIN_def take_sign_def hex_prefix_def strtoll_def
  strtonum_def strsep_def strn_eq_def fgets_def chomp_def hex_char_def

end
