(* ===== verification/C_Double.thy ===== *)
theory C_Double
  imports Complex_Main C_Strings "HOL-Library.Log_Nat"
begin

text \<open>
  The part of IEEE 754 double arithmetic and of \<open>strtod\<close> that gdisk uses. A finite
  double is the rational it denotes; every operation computes the exact rational and
  rounds it to nearest, ties to even, with 53 bits of precision and the subnormal and
  overflow thresholds of the format. The definitions are executable. What the
  components need is that small integers are exact.
\<close>

section \<open>Rounding\<close>

definition pow2 :: "int \<Rightarrow> rat" where
  "pow2 k = (if 0 \<le> k then 2 ^ nat k else 1 / 2 ^ nat (- k))"

definition round_half_even :: "rat \<Rightarrow> int" where
  "round_half_even x =
     (let f = \<lfloor>x\<rfloor>; r = x - of_int f in
      if r < 1/2 then f else if r > 1/2 then f + 1 else if even f then f else f + 1)"

text \<open>The exponent \<open>e\<close> with \<open>2^e \<le> \<bar>x\<bar> < 2^(e+1)\<close>, for nonzero \<open>x\<close>.\<close>

definition rat_exp :: "rat \<Rightarrow> int" where
  "rat_exp x =
     (let (n, d) = quotient_of \<bar>x\<bar>; k = bitlen n - bitlen d in
      if pow2 k \<le> \<bar>x\<bar> then k else k - 1)"

definition ulp_exp :: "rat \<Rightarrow> int" where
  "ulp_exp x = max (rat_exp x - 52) (- 1074)"

definition rnd :: "rat \<Rightarrow> rat" where
  "rnd x = (if x = 0 then 0
     else of_int (round_half_even (x / pow2 (ulp_exp x))) * pow2 (ulp_exp x))"

lemma round_half_even_int [simp]: "round_half_even (of_int k) = k"
  by (simp add: round_half_even_def)

lemma pow2_pos [simp]: "0 < pow2 k"
  by (simp add: pow2_def)

lemma pow2_nonpos: "k \<le> 0 \<Longrightarrow> x / pow2 k = x * of_int (2 ^ nat (- k))"
  by (cases "k = 0") (auto simp: pow2_def)

lemma rnd_exact:
  assumes "ulp_exp (of_int n) \<le> 0"
  shows "rnd (of_int n) = of_int n"
proof -
  let ?q = "ulp_exp (of_int n)"
  have "of_int n / pow2 ?q = of_int (n * 2 ^ nat (- ?q))"
    by (simp add: pow2_nonpos [OF assms])
  then have "round_half_even (of_int n / pow2 ?q) = n * 2 ^ nat (- ?q)"
    by (metis round_half_even_int)
  moreover have "of_int (n * 2 ^ nat (- ?q)) * pow2 ?q = of_int n"
    using assms by (auto simp: pow2_def field_simps)
  ultimately show ?thesis
    unfolding rnd_def by auto
qed

lemma rat_exp_int:
  assumes "0 < n"
  shows "rat_exp (of_int n) \<le> bitlen n - 1"
proof -
  have "quotient_of \<bar>of_int n :: rat\<bar> = (n, 1)"
    using assms by (simp add: quotient_of_int [unfolded Rat.of_int_def] abs_of_pos flip: of_int_abs)
  then show ?thesis
    by (auto simp: rat_exp_def bitlen_def floorlog_def Let_def)
qed

lemma rnd_int_exact:
  assumes "0 \<le> n" and "n < 2 ^ 53"
  shows "rnd (of_int n) = of_int n"
proof (cases "n = 0")
  case False
  with assms have pos: "0 < n" by simp
  have "bitlen n \<le> 53"
    using bitlen_le_iff_power [of n 53] assms by simp
  with rat_exp_int [OF pos] have "ulp_exp (of_int n) \<le> 0"
    by (simp add: ulp_exp_def)
  then show ?thesis by (rule rnd_exact)
qed (simp add: rnd_def)

lemma rnd_nat_exact: "n < 2 ^ 53 \<Longrightarrow> rnd (of_nat n) = of_nat n"
  using rnd_int_exact [of "int n"] by simp

section \<open>Doubles\<close>

datatype double = Fin rat | Inf bool | NaN

definition dround :: "rat \<Rightarrow> double" where
  "dround x = (let y = rnd x in if \<bar>y\<bar> \<ge> 2 ^ 1024 then Inf (y < 0) else Fin y)"

fun dmul_pos :: "double \<Rightarrow> nat \<Rightarrow> double" where
  "dmul_pos (Fin a) k = dround (a * of_nat k)"
| "dmul_pos d k = d"

fun ddiv_nat :: "double \<Rightarrow> nat \<Rightarrow> double" where
  "ddiv_nat (Fin a) k =
     (if k = 0 then (if a = 0 then NaN else Inf (a < 0)) else dround (a / of_nat k))"
| "ddiv_nat d k = d"

fun dadd :: "double \<Rightarrow> double \<Rightarrow> double" where
  "dadd (Fin a) (Fin b) = dround (a + b)"
| "dadd (Fin a) d = d"
| "dadd d (Fin b) = d"
| "dadd (Inf s) (Inf t) = (if s = t then Inf s else NaN)"
| "dadd _ _ = NaN"

fun dneg :: "double \<Rightarrow> double" where
  "dneg (Fin a) = Fin (- a)"
| "dneg (Inf s) = Inf (\<not> s)"
| "dneg NaN = NaN"

text \<open>The comparison \<open><\<close>: false when an operand is not a number.\<close>

fun dless :: "double \<Rightarrow> double \<Rightarrow> bool" where
  "dless (Fin a) (Fin b) \<longleftrightarrow> a < b"
| "dless (Fin a) (Inf s) \<longleftrightarrow> \<not> s"
| "dless (Inf s) (Fin b) \<longleftrightarrow> s"
| "dless (Inf s) (Inf t) \<longleftrightarrow> s \<and> \<not> t"
| "dless _ _ \<longleftrightarrow> False"

lemma dround_nat: "n < 2 ^ 53 \<Longrightarrow> dround (of_nat n) = Fin (of_nat n)"
proof -
  assume n: "n < 2 ^ 53"
  have "(of_nat n :: rat) < of_nat (2 ^ 53)"
    using n by (simp only: of_nat_less_iff)
  also have "\<dots> \<le> (2 :: rat) ^ 1024"
    by (simp add: power_increasing [of 53 1024 "2 :: rat", simplified])
  finally show ?thesis
    using n by (simp add: dround_def Let_def rnd_nat_exact)
qed

section \<open>\<open>strtod\<close>\<close>

text \<open>
  The digits around a radix point in the given base: the digits before it, the digits
  after it, the rest. At least one digit has to be present.
\<close>

definition mantissa :: "nat \<Rightarrow> string \<Rightarrow> (string \<times> string \<times> string) option" where
  "mantissa base s =
     (let i = takeWhile (is_digit base) s; r = dropWhile (is_digit base) s;
          dot = (r \<noteq> [] \<and> hd r = CHR ''.'');
          f = (if dot then takeWhile (is_digit base) (tl r) else []);
          t = (if dot then dropWhile (is_digit base) (tl r) else r)
      in if i = [] \<and> f = [] then None else Some (i, f, t))"

text \<open>An exponent \<open>e[+-]digits\<close>; absent (0) unless at least one digit follows.\<close>

definition exponent :: "char \<Rightarrow> string \<Rightarrow> int \<times> string" where
  "exponent e s =
     (case s of [] \<Rightarrow> (0, [])
      | c # r \<Rightarrow>
          (let (neg, t) = take_sign r; ds = takeWhile (is_digit 10) t in
           if c_tolower c = e \<and> ds \<noteq> []
           then ((if neg then - int (horner 10 ds) else int (horner 10 ds)), dropWhile (is_digit 10) t)
           else (0, s)))"

definition dec_value :: "string \<Rightarrow> string \<Rightarrow> int \<Rightarrow> rat" where
  "dec_value i f x =
     (let k = x - int (length f); m = (of_nat (horner 10 (i @ f)) :: rat) in
      if 0 \<le> k then m * 10 ^ nat k else m / 10 ^ nat (- k))"

definition hex_value :: "string \<Rightarrow> string \<Rightarrow> int \<Rightarrow> rat" where
  "hex_value i f x = of_nat (horner 16 (i @ f)) * pow2 (x - 4 * int (length f))"

definition has_prefix_ci :: "string \<Rightarrow> string \<Rightarrow> bool" where
  "has_prefix_ci p s \<longleftrightarrow> map c_tolower (take (length p) s) = p"

text \<open>
  The value, the unparsed rest, and whether \<open>errno\<close> was set to \<open>ERANGE\<close>. With no
  number at the start the value is 0 and the rest is the whole string.
\<close>

definition strtod :: "string \<Rightarrow> double \<times> string \<times> bool" where
  "strtod s =
     (let (neg, t) = take_sign (dropWhile c_isspace s);
          hex = hex_prefix t;
          finish = (\<lambda>x r. let y = (if neg then - x else x); d = dround y in
             (d, r, (case d of Fin _ \<Rightarrow> x \<noteq> 0 \<and> x < pow2 (- 1022) | _ \<Rightarrow> True)))
      in if has_prefix_ci ''infinity'' t then (Inf neg, drop 8 t, False)
         else if has_prefix_ci ''inf'' t then (Inf neg, drop 3 t, False)
         else if has_prefix_ci ''nan'' t then (NaN, drop 3 t, False)
         else case mantissa (if hex then 16 else 10) (if hex then drop 2 t else t) of
           None \<Rightarrow> (Fin 0, s, False)
         | Some (i, f, r) \<Rightarrow>
             (let (x, u) = exponent (if hex then CHR ''p'' else CHR ''e'') r
              in finish (if hex then hex_value i f x else dec_value i f x) u))"

lemmas [text_eval] = strtod_def has_prefix_ci_def mantissa_def exponent_def dec_value_def pow2_def
  dround_nat [of 0, simplified] dround_nat [of "numeral k" for k, simplified] dround_nat [of 1, simplified]

end
