(* ===== verification/Gdisk_Misc.thy ===== *)
theory Gdisk_Misc
  imports C_Double "HOL-Library.Sublist"
begin

unbundle bit_operations_syntax

text \<open>
  \<open>sbin/gdisk/misc.c\<close>: the unit table, the functions that ask the user a question on
  standard input, the little-endian accessors and \<open>getuint\<close>. Standard input is the
  \<open>string\<close> still to be read; end of file ends the program with status 1
  (\<open>errx(1, "eof")\<close>). Text written to standard output is not modelled.
\<close>

section \<open>The environment of gdisk\<close>

text \<open>
  What gdisk takes from outside: whether \<open>malloc\<close> of so many bytes succeeds, zlib's
  \<open>crc32(0, buf, len)\<close>, the UUIDs \<open>uuid_create\<close> yields one after the other, the
  sector size of the disk (\<open>unit_types[SECTORS].conversion\<close> and \<open>dl.d_secsize\<close>,
  which \<open>DISK_getlabelmetrics\<close> sets to the same value) and the \<open>-y\<close> flag.
\<close>

record uuid =
  time_low :: u32
  time_mid :: u16
  time_hi_and_version :: u16
  clock_seq_hi_and_reserved :: u8
  clock_seq_low :: u8
  node :: "u8 list"

record genv =
  malloc_ok :: "nat \<Rightarrow> bool"
  crc32 :: "u8 list \<Rightarrow> u32"
  uuid_src :: "nat \<Rightarrow> uuid"
  secsize :: nat
  y_flag :: bool

section \<open>Units\<close>

record unit_type =
  abbr :: string
  conversion :: nat
  lname :: string

definition SECTORS :: nat where "SECTORS = 1"
definition UNIT_TYPE_DEFAULT :: nat where "UNIT_TYPE_DEFAULT = 1"

definition unit_types :: "genv \<Rightarrow> unit_type list" where
  "unit_types e =
     [\<lparr>abbr = ''b'', conversion = 1, lname = ''Bytes''\<rparr>,
      \<lparr>abbr = '' '', conversion = secsize e, lname = ''Sectors''\<rparr>,
      \<lparr>abbr = ''K'', conversion = 1024, lname = ''Kilobytes''\<rparr>,
      \<lparr>abbr = ''M'', conversion = 1024 * 1024, lname = ''Megabytes''\<rparr>,
      \<lparr>abbr = ''G'', conversion = 1024 * 1024 * 1024, lname = ''Gigabytes''\<rparr>]"

definition strncasecmp1_eq :: "string \<Rightarrow> string \<Rightarrow> bool" where
  "strncasecmp1_eq a b \<longleftrightarrow> map c_tolower (take 1 a) = map c_tolower (take 1 b)"

fun unit_search :: "unit_type list \<Rightarrow> string \<Rightarrow> nat \<Rightarrow> nat" where
  "unit_search [] u i = UNIT_TYPE_DEFAULT"
| "unit_search (t # ts) u i = (if strncasecmp1_eq (abbr t) u then i else unit_search ts u (Suc i))"

definition unit_lookup :: "genv \<Rightarrow> string option \<Rightarrow> nat" where
  "unit_lookup e units =
     (case units of None \<Rightarrow> UNIT_TYPE_DEFAULT | Some u \<Rightarrow> unit_search (unit_types e) u 0)"

section \<open>Questions\<close>

text \<open>
  \<open>ask_cmd\<close>. The buffer holds what \<open>fgets\<close> wrote and its NUL, the newline replaced by
  a NUL. The word ends at a blank or NUL at index \<open>i\<close>; the arguments start at
  \<open>i + 1\<close>, which was written only if the line had a newline or a blank: otherwise the
  code reads bytes that were never written (or lie outside the buffer). \<open>strncpy\<close> into
  \<open>cmd[10]\<close> leaves no terminator after ten bytes, so a reader runs on into \<open>args\<close>,
  the next member of the structure.
\<close>

definition ask_cmd :: "string \<Rightarrow> ((string \<times> string) \<times> string) outcome" where
  "ask_cmd inp =
     (case fgets 100 inp of
        None \<Rightarrow> Exit 1
      | Some (line, rest) \<Rightarrow>
          (let l = length (cstr line);
               raw = (line @ [NUL]);
               lbuf = (if 0 < l \<and> raw ! (l - 1) = NL then raw[l - 1 := NUL] else raw);
               buf = dropWhile is_blank lbuf;
               word = takeWhile (\<lambda>c. \<not> is_blank c \<and> c \<noteq> NUL) buf;
               cp = drop (Suc (length word)) buf;
               args = cstr (dropWhile is_blank cp)
           in if cp = [] then Undef
              else Ret ((if length word < 10 then word else take 10 word @ args, args), rest)))"

text \<open>
  The loop the numeric questions share: prompt, read a line of at most \<open>n + 1\<close>
  characters, and either leave with what \<open>accept\<close> makes of it or ask again.
\<close>

function ask_loop :: "nat \<Rightarrow> (string \<Rightarrow> 'a outcome option) \<Rightarrow> string \<Rightarrow> ('a \<times> string) outcome" where
  "ask_loop n accept inp =
     (case fgets (n + 2) inp of
        None \<Rightarrow> Exit 1
      | Some (line, rest) \<Rightarrow>
          (case accept (chomp line) of
             Some r \<Rightarrow> obind r (\<lambda>v. Ret (v, rest))
           | None \<Rightarrow> ask_loop n accept rest))"
  by pat_completeness auto
termination
  by (relation "measure (\<lambda>(_, _, inp). length inp)") (auto dest: fgets_consumes)

declare ask_loop.simps [simp del]

definition ask_num_line :: "int \<Rightarrow> int \<Rightarrow> int \<Rightarrow> string \<Rightarrow> int outcome option" where
  "ask_num_line dflt low high lbuf =
     (if lbuf = [] then Some (Ret dflt)
      else case strtonum lbuf low high of Inr num \<Rightarrow> Some (Ret num) | Inl _ \<Rightarrow> None)"

definition ask_num :: "int \<Rightarrow> int \<Rightarrow> int \<Rightarrow> string \<Rightarrow> (int \<times> string) outcome" where
  "ask_num dflt low high inp =
     (let dflt = (if dflt < low then low else if dflt > high then high else dflt)
      in ask_loop 98 (ask_num_line dflt low high) inp)"

text \<open>\<open>ask_string\<close> fills the caller's buffer of \<open>len\<close> bytes, whose old contents remain after the NUL.\<close>

definition ask_string :: "string \<Rightarrow> nat \<Rightarrow> string \<Rightarrow> (string \<times> string) outcome" where
  "ask_string buf len inp =
     (case fgets len inp of
        None \<Rightarrow> Exit 1
      | Some (line, rest) \<Rightarrow>
          (let b = line @ [NUL] @ drop (Suc (length line)) buf; n = length (cstr b)
           in Ret (if 0 < n \<and> b ! (n - 1) = NL then b[n - 1 := NUL] else b, rest)))"

definition ask_pid_line :: "int \<Rightarrow> int \<Rightarrow> int \<Rightarrow> string \<Rightarrow> int outcome option" where
  "ask_pid_line dflt low high lbuf =
     (if lbuf \<noteq> [] \<and> hd lbuf = CHR ''?'' then None
      else let (v, cp) = strtoll 16 lbuf;
               num = (if cp = lbuf then dflt else sint (word_of_int v :: u32));
               num = (if cp \<noteq> [] then low - 1 else num)
           in if num < low \<or> num > high then None else Some (Ret num))"

definition ask_pid :: "int \<Rightarrow> string \<Rightarrow> (int \<times> string) outcome" where
  "ask_pid dflt inp =
     (let low = 0; high = 0xffff;
          dflt = (if dflt < low then low else if dflt > high then high else dflt)
      in ask_loop 98 (ask_pid_line dflt low high) inp)"

definition ask_yn :: "genv \<Rightarrow> string \<Rightarrow> (bool \<times> string) outcome" where
  "ask_yn e inp =
     (if y_flag e then Ret (True, inp)
      else case dropWhile (\<lambda>c. c \<noteq> NL) inp of
          [] \<Rightarrow> Exit 1
        | _ # rest \<Rightarrow> Ret (hd inp = CHR ''y'' \<or> hd inp = CHR ''Y'', rest))"

section \<open>Little-endian accessors\<close>

definition getshort :: "u8 list \<Rightarrow> u16" where
  "getshort cp = ucast (cp ! 0) OR push_bit 8 (ucast (cp ! 1))"

definition putshort :: "u16 \<Rightarrow> u8 list" where
  "putshort l = [ucast l, ucast (drop_bit 8 l)]"

definition getlong :: "u8 list \<Rightarrow> u32" where
  "getlong cp = ucast (cp ! 0) OR push_bit 8 (ucast (cp ! 1)) OR push_bit 16 (ucast (cp ! 2))
     OR push_bit 24 (ucast (cp ! 3))"

definition putlong :: "u32 \<Rightarrow> u8 list" where
  "putlong l = [ucast l, ucast (drop_bit 8 l), ucast (drop_bit 16 l), ucast (drop_bit 24 l)]"

section \<open>\<open>getuint\<close>\<close>

text \<open>The multiplier of a unit letter (negative: divide) and whether the letter is removed.\<close>

definition getuint_mult :: "genv \<Rightarrow> char \<Rightarrow> int \<times> bool" where
  "getuint_mult e c =
     (let s = int (secsize e); u = c_tolower c in
      if u = CHR ''b'' then (- s, True)
      else if u = CHR ''s'' then (1, True)
      else if u = CHR ''k'' then ((if s > 1024 then - (s div 1024) else 1024 div s), True)
      else if u = CHR ''m'' then (1048576 div s, True)
      else if u = CHR ''g'' then (1073741824 div s, True)
      else (1, False))"

definition u64_to_double :: "u64 \<Rightarrow> double" where
  "u64_to_double w = dround (of_nat (unat w))"

text \<open>One line of input: the value it denotes, or \<open>None\<close> when it is refused.\<close>

definition getuint_line :: "genv \<Rightarrow> u64 \<Rightarrow> u64 \<Rightarrow> string \<Rightarrow> double option" where
  "getuint_line e oval maxval buf =
     (let (mult, strip) = getuint_mult e (last buf);
          b = (if strip then butlast buf else buf);
          op = (if b \<noteq> [] \<and> (hd b = CHR ''+'' \<or> hd b = CHR ''-'') then hd b else CHR '' '');
          p = (if op = CHR '' '' then b else tl b);
          (d0, endptr, erange) = strtod p;
          d1 = (if mult > 0 then dmul_pos d0 (nat mult) else ddiv_nat d0 (nat (- mult)));
          d2 = (if mult > 0 then d0 else d1);
          d = (if op = CHR ''+'' then dadd (u64_to_double oval) d1
               else if op = CHR ''-'' then dadd (u64_to_double oval) (dneg d1)
               else d1);
          d2 = (if op = CHR ''-'' then d else d2)
      in if erange \<or> dless (u64_to_double maxval) d \<or> dless d (Fin 0) \<or> dless d d2 then None
         else if endptr \<noteq> [] then None
         else Some d)"

text \<open>The conversion \<open>(uint64_t)d\<close>: defined only when the truncated value fits.\<close>

fun double_to_u64 :: "double \<Rightarrow> u64 outcome" where
  "double_to_u64 (Fin x) =
     (if - 1 < x \<and> x < 2 ^ 64 then Ret (word_of_int (if x < 0 then 0 else \<lfloor>x\<rfloor>)) else Undef)"
| "double_to_u64 _ = Undef"

definition getuint_accept :: "genv \<Rightarrow> u64 \<Rightarrow> u64 \<Rightarrow> string \<Rightarrow> u64 outcome option" where
  "getuint_accept e oval maxval buf =
     (if buf = [] then Some (Ret oval)
      else if buf = ''*'' then Some (Ret maxval)
      else map_option double_to_u64 (getuint_line e oval maxval buf))"

definition getuint :: "genv \<Rightarrow> u64 \<Rightarrow> u64 \<Rightarrow> string \<Rightarrow> (u64 \<times> string) outcome" where
  "getuint e oval maxval inp =
     (let oval = (if oval > maxval then maxval else oval)
      in ask_loop 1022 (getuint_accept e oval maxval) inp)"

section \<open>The contract of a question\<close>

text \<open>
  Every function that asks the user something reads a prefix of standard input: what
  remains is a suffix of what there was. The interface the commands and the edit loop
  rely on for termination.
\<close>

locale reader =
  fixes ask :: "string \<Rightarrow> ('a \<times> string) outcome"
  assumes reads: "ask inp = Ret (x, rest) \<Longrightarrow> suffix rest inp"
begin

lemma reads_le: "ask inp = Ret (x, rest) \<Longrightarrow> length rest \<le> length inp"
  using reads suffix_length_le by blast

lemma reads_then:
  assumes "suffix inp inp0" and "ask inp = Ret (x, rest)"
  shows "suffix rest inp0"
  using assms reads suffix_order.trans by blast

end

lemma fgets_suffix: "fgets n inp = Some (line, rest) \<Longrightarrow> suffix rest inp"
  by (auto dest: fgets_append simp: suffix_def)

lemma fgets_100_less: "fgets 100 inp = Some (line, rest) \<Longrightarrow> length rest < length inp"
  by (rule fgets_consumes) auto

lemma ask_loop_Ret:
  "ask_loop n accept inp = Ret (v, rest) \<Longrightarrow>
   suffix rest inp \<and> (\<exists>line. accept (chomp line) = Some (Ret v))"
proof (induction n accept inp rule: ask_loop.induct)
  case (1 n accept inp)
  from "1.prems" obtain line r where l: "fgets (n + 2) inp = Some (line, r)"
    by (subst (asm) ask_loop.simps) (auto split: option.splits)
  show ?case
  proof (cases "accept (chomp line)")
    case None
    with "1.prems" l have "ask_loop n accept r = Ret (v, rest)"
      by (simp add: ask_loop.simps [of n accept inp])
    from "1.IH" [OF l refl None this] show ?thesis
      using fgets_suffix [OF l] suffix_order.trans by blast
  next
    case (Some x)
    with "1.prems" l have "obind x (\<lambda>v. Ret (v, r)) = Ret (v, rest)"
      by (simp add: ask_loop.simps [of n accept inp])
    then have "x = Ret v \<and> r = rest"
      by (cases x) simp_all
    with Some fgets_suffix [OF l] show ?thesis by blast
  qed
qed

lemma ask_loop_suffix: "ask_loop n accept inp = Ret (v, rest) \<Longrightarrow> suffix rest inp"
  by (rule ask_loop_Ret [THEN conjunct1])

lemma ask_num_suffix: "ask_num dflt low high inp = Ret (v, rest) \<Longrightarrow> suffix rest inp"
  by (simp add: ask_num_def Let_def ask_loop_suffix)

lemma ask_pid_suffix: "ask_pid dflt inp = Ret (v, rest) \<Longrightarrow> suffix rest inp"
  by (simp add: ask_pid_def Let_def ask_loop_suffix)

lemma getuint_suffix: "getuint e oval maxval inp = Ret (v, rest) \<Longrightarrow> suffix rest inp"
  by (simp add: getuint_def Let_def ask_loop_suffix)

lemma ask_yn_suffix:
  assumes "ask_yn e inp = Ret (b, rest)"
  shows "suffix rest inp"
proof (cases "dropWhile (\<lambda>c. c \<noteq> NL) inp")
  case (Cons c cs)
  have "suffix (c # cs) inp"
    using suffix_dropWhile [of "\<lambda>c. c \<noteq> NL" inp] Cons by simp
  with Cons assms show ?thesis
    by (auto simp: ask_yn_def suffix_ConsD split: if_splits)
next
  case Nil
  with assms show ?thesis
    by (simp add: ask_yn_def del: dropWhile_eq_Nil_conv split: if_splits)
qed

lemma ask_string_suffix: "ask_string buf len inp = Ret (b, rest) \<Longrightarrow> suffix rest inp"
  by (auto simp: ask_string_def Let_def split: option.splits dest: fgets_suffix)

lemma ask_cmd_suffix: "ask_cmd inp = Ret (c, rest) \<Longrightarrow> suffix rest inp"
  by (auto simp: ask_cmd_def Let_def split: option.splits if_splits dest: fgets_suffix)

lemma ask_cmd_consumes: "ask_cmd inp = Ret (c, rest) \<Longrightarrow> length rest < length inp"
  by (auto simp: ask_cmd_def Let_def split: option.splits if_splits dest: fgets_100_less)

interpretation rd_num: reader "ask_num dflt low high" for dflt low high
  by unfold_locales (rule ask_num_suffix)

interpretation rd_pid: reader "ask_pid dflt" for dflt
  by unfold_locales (rule ask_pid_suffix)

interpretation rd_uint: reader "getuint e oval maxval" for e oval maxval
  by unfold_locales (rule getuint_suffix)

interpretation rd_yn: reader "ask_yn e" for e
  by unfold_locales (rule ask_yn_suffix)

interpretation rd_string: reader "ask_string buf len" for buf len
  by unfold_locales (rule ask_string_suffix)

interpretation rd_cmd: reader ask_cmd
  by unfold_locales (rule ask_cmd_suffix)

section \<open>What the questions return\<close>

lemma u64_to_double_exact: "unat w < 2 ^ 53 \<Longrightarrow> u64_to_double w = Fin (of_nat (unat w))"
  unfolding u64_to_double_def by (rule dround_nat)

lemma double_to_u64_le:
  assumes "double_to_u64 d = Ret v" and "\<not> dless (Fin (of_nat (unat m))) d" and "\<not> dless d (Fin 0)"
  shows "v \<le> m"
proof -
  from assms(1) obtain x where d: "d = Fin x" and v: "v = word_of_int (if x < 0 then 0 else \<lfloor>x\<rfloor>)"
    by (cases d) (auto split: if_splits)
  from assms(2,3) d have x: "0 \<le> x" "\<lfloor>x\<rfloor> \<le> int (unat m)"
    by (auto simp: floor_le_iff not_less)
  define k where "k = nat \<lfloor>x\<rfloor>"
  have k: "k \<le> unat m" and v': "v = of_nat k"
    using x v unfolding k_def by (simp_all add: nat_le_iff)
  have "k < 2 ^ 64"
    using k unat_word_less [of m] by simp
  then have "unat v \<le> unat m"
    using k unfolding v' by (simp add: unat_of_nat)
  then show ?thesis
    by (simp add: word_le_nat_alt)
qed

lemma getuint_le:
  assumes "getuint e oval maxval inp = Ret (v, rest)" and "unat maxval < 2 ^ 53"
  shows "v \<le> maxval"
proof -
  let ?o = "if oval > maxval then maxval else oval"
  from assms(1) obtain line where "getuint_accept e ?o maxval (chomp line) = Some (Ret v)"
    by (auto simp: getuint_def Let_def dest!: ask_loop_Ret)
  then consider "v = ?o" | "v = maxval"
    | d where "getuint_line e ?o maxval (chomp line) = Some d" and "double_to_u64 d = Ret v"
    by (auto simp: getuint_accept_def split: if_splits)
  then show ?thesis
  proof cases
    case 3
    then have "\<not> dless (u64_to_double maxval) d" and "\<not> dless d (Fin 0)"
      by (auto simp: getuint_line_def Let_def split: prod.splits if_splits)
    with 3 assms(2) show ?thesis
      by (auto simp: u64_to_double_exact intro: double_to_u64_le)
  qed auto
qed

text \<open>
  C34: A number accepted by \<open>getuint\<close> (an LBA, a size or a flag value) never exceeds the
  maximum it was given, for every input the user can type, provided the maximum is below
  \<open>2^53\<close>, the range in which the code's doubles are exact.
\<close>

theorem getuint_in_range:
  assumes "getuint e oval maxval inp = Ret (v, rest)" and "unat maxval < 2 ^ 53"
  shows "v \<le> maxval"
  using assms by (rule getuint_le)

text \<open>Characters of a plain decimal number.\<close>

lemma is_digit_10: "is_digit 10 c \<longleftrightarrow> 48 \<le> (of_char c :: nat) \<and> (of_char c :: nat) \<le> 57"
  by (auto simp: is_digit_def digit_val_def Let_def split: option.splits)

lemma char_code_neq: "(of_char c :: nat) \<noteq> of_char c' \<Longrightarrow> c \<noteq> c'"
  by auto

lemma decimal_char:
  assumes "is_digit 10 c"
  shows "c \<noteq> NUL" "c \<noteq> NL" "\<not> c_isspace c" "c_tolower c = c" "c \<noteq> CHR ''-''" "c \<noteq> CHR ''+''"
    "c \<noteq> CHR ''*''" "c \<noteq> CHR ''i''" "c \<noteq> CHR ''n''" "c \<noteq> CHR ''b''" "c \<noteq> CHR ''s''"
    "c \<noteq> CHR ''k''" "c \<noteq> CHR ''m''" "c \<noteq> CHR ''g''" "c \<noteq> CHR ''.''" "c \<noteq> CHR ''x''" "c \<noteq> CHR ''X''"
  using assms by (auto simp: is_digit_10 NUL_def NL_def c_isspace_def c_tolower_def)

lemma hex_prefix_digits: "\<forall>c \<in> set s. is_digit 10 c \<Longrightarrow> \<not> hex_prefix s"
  by (auto simp: hex_prefix_def decimal_char split: list.splits)

lemma strtod_digits:
  assumes "s \<noteq> []" and "\<forall>c \<in> set s. is_digit 10 c" and "horner 10 s < 2 ^ 53"
  shows "strtod s = (Fin (of_nat (horner 10 s)), [], False)"
proof -
  obtain c r where s: "s = c # r"
    using assms(1) by (cases s) auto
  with assms(2) have c: "is_digit 10 c" by simp
  have d: "dropWhile c_isspace s = s"
    using s c by (simp add: decimal_char)
  have t: "take_sign s = (False, s)"
    using s c by (simp add: take_sign_def decimal_char)
  have m: "mantissa 10 s = Some (s, [], [])"
    using assms(1,2) by (simp add: mantissa_def takeWhile_eq_all_conv [THEN iffD2]
        dropWhile_eq_Nil_conv [THEN iffD2])
  have p: "\<not> has_prefix_ci ''infinity'' s" "\<not> has_prefix_ci ''inf'' s" "\<not> has_prefix_ci ''nan'' s"
    using s c by (auto simp: has_prefix_ci_def decimal_char)
  have "(of_nat (horner 10 s) :: rat) \<noteq> 0 \<Longrightarrow> pow2 (- 1022) \<le> of_nat (horner 10 s)"
  proof -
    assume "(of_nat (horner 10 s) :: rat) \<noteq> 0"
    then have "1 \<le> (of_nat (horner 10 s) :: rat)"
      using of_nat_le_iff [of 1 "horner 10 s", where ?'a = rat] by simp
    moreover have "pow2 (- 1022) \<le> 1"
      by (simp add: pow2_def)
    ultimately show ?thesis by (rule order_trans [rotated])
  qed
  then show ?thesis
    using d t m p hex_prefix_digits [OF assms(2)] dround_nat [OF assms(3)]
    by (auto simp: strtod_def exponent_def dec_value_def not_less)
qed

text \<open>A sample environment for the witnesses: 512-byte sectors and memory that never runs out.\<close>

definition nil_uuid :: uuid where
  "nil_uuid = \<lparr>time_low = 0, time_mid = 0, time_hi_and_version = 0,
     clock_seq_hi_and_reserved = 0, clock_seq_low = 0, node = [0, 0, 0, 0, 0, 0]\<rparr>"

definition env0 :: genv where
  "env0 = \<lparr>malloc_ok = (\<lambda>_. True), crc32 = (\<lambda>bs. of_nat (le_dec (take 4 bs))),
     uuid_src = (\<lambda>n. nil_uuid\<lparr>time_low := of_nat (n + 1)\<rparr>), secsize = 512, y_flag = False\<rparr>"

theorem getuint_in_range_witness:
  "getuint env0 7 100 ''+1k\<newline>p'' = Ret (9, ''p'') \<and> unat (100 :: u64) < 2 ^ 53 \<and> (9 :: u64) \<le> 100"
proof -
  have r: "getuint env0 7 100 ''+1k\<newline>p'' = Ret (9, ''p'')"
    by (simp add: getuint_def getuint_accept_def getuint_line_def ask_loop.simps getuint_mult_def
        u64_to_double_def env0_def text_eval)
  have m: "unat (100 :: u64) < 2 ^ 53" by simp
  show ?thesis using r m getuint_in_range [OF r m] by simp
qed

lemma chomp_line: "NUL \<notin> set s \<Longrightarrow> NL \<notin> set s \<Longrightarrow> chomp (s @ [NL]) = s"
  by (simp add: chomp_def cstr_no_NUL Let_def NUL_def NL_def)

lemma fgets_line:
  "NL \<notin> set s \<Longrightarrow> length s < n - 1 \<Longrightarrow> fgets n (s @ NL # rest) = Some (s @ [NL], rest)"
  by (simp add: fgets_def Let_def takeWhile_append takeWhile_eq_all_conv [THEN iffD2])

lemma getuint_line_digits:
  assumes "s \<noteq> []" and "\<forall>c \<in> set s. is_digit 10 c" and "horner 10 s \<le> unat maxval"
    and "unat maxval < 2 ^ 53"
  shows "getuint_line e oval maxval s = Some (Fin (of_nat (horner 10 s)))"
proof -
  have l: "is_digit 10 (last s)" and h: "is_digit 10 (hd s)"
    using assms(1,2) by simp_all
  have g: "getuint_mult e (last s) = (1, False)"
    using l by (simp add: getuint_mult_def Let_def decimal_char)
  have b: "horner 10 s < 2 ^ 53"
    using assms(3,4) by simp
  have i: "dround (of_nat (horner 10 s)) = Fin (of_nat (horner 10 s))"
    using b by (rule dround_nat)
  have m: "\<not> (of_nat (unat maxval) :: rat) < of_nat (horner 10 s)"
    using assms(3) by (simp only: of_nat_less_iff not_less)
  show ?thesis
    using g h i m strtod_digits [OF assms(1,2) b]
    by (simp add: getuint_line_def decimal_char u64_to_double_exact [OF assms(4)] del: of_nat_unat)
qed

text \<open>
  A line with a plain decimal number that does not exceed the maximum is read as
  exactly that number, and consumes exactly that line.
\<close>

theorem getuint_reads_decimal:
  assumes "s \<noteq> []" and "\<forall>c \<in> set s. is_digit 10 c" and "length s < 1023"
    and "horner 10 s \<le> unat maxval" and "unat maxval < 2 ^ 53"
  shows "getuint e oval maxval (s @ NL # rest) = Ret (of_nat (horner 10 s), rest)"
proof -
  have n: "NUL \<notin> set s" "NL \<notin> set s"
    using assms(2) by (auto dest: decimal_char(1,2))
  have f: "fgets (1022 + 2) (s @ NL # rest) = Some (s @ [NL], rest)"
    using n(2) assms(3) by (intro fgets_line) auto
  have "s \<noteq> ''*''"
    using assms(2) by (auto simp: is_digit_10)
  then have a: "getuint_accept e ov maxval s = Some (double_to_u64 (Fin (of_nat (horner 10 s))))" for ov
    using assms by (simp add: getuint_accept_def getuint_line_digits)
  have "horner 10 s < 2 ^ 64"
    using assms(4,5) by simp
  then have "(of_nat (horner 10 s) :: rat) < of_nat (2 ^ 64)"
    by (simp only: of_nat_less_iff)
  then have "double_to_u64 (Fin (of_nat (horner 10 s))) = Ret (of_nat (horner 10 s))"
    by simp
  then show ?thesis
    unfolding getuint_def Let_def using f a chomp_line [OF n]
    by (subst ask_loop.simps) (simp del: double_to_u64.simps)
qed

theorem getuint_reads_decimal_witness:
  "getuint env0 0 2048 (''128'' @ NL # ''w'') = Ret (of_nat (horner 10 ''128''), ''w'')"
  by (rule getuint_reads_decimal) (simp_all add: text_eval)

text \<open>
  \<open>getuint\<close> accepts the input \<open>nan\<close>: it passes every range test, and the conversion of
  the result to \<open>uint64_t\<close> has no defined value.
\<close>

theorem getuint_accepts_nan: "getuint env0 7 100 ''nan\<newline>'' = Undef"
  by (simp add: getuint_def getuint_accept_def getuint_line_def ask_loop.simps getuint_mult_def
      u64_to_double_def text_eval)

text \<open>
  The partition type a user enters is always a 16-bit identifier, whatever is typed
  and whatever default is offered.
\<close>

theorem ask_pid_in_range:
  assumes "ask_pid dflt inp = Ret (n, rest)"
  shows "0 \<le> n \<and> n \<le> 0xffff"
proof -
  from assms obtain d line where "ask_pid_line d 0 0xffff (chomp line) = Some (Ret n)"
    by (auto simp: ask_pid_def Let_def dest!: ask_loop_Ret)
  then show ?thesis
    by (auto simp: ask_pid_line_def Let_def split: if_splits prod.splits)
qed

theorem ask_pid_in_range_witness:
  "ask_pid 0xa600 ''?\<newline>xyz\<newline>12345\<newline>ef00\<newline>q'' = Ret (0xef00, ''q'') \<and> (0 :: int) \<le> 0xef00 \<and> (0xef00 :: int) \<le> 0xffff"
proof -
  have r: "ask_pid 0xa600 ''?\<newline>xyz\<newline>12345\<newline>ef00\<newline>q'' = Ret (0xef00, ''q'')"
    by (simp add: ask_pid_def ask_pid_line_def ask_loop.simps text_eval)
  show ?thesis using r ask_pid_in_range [OF r] by simp
qed

text \<open>
  \<open>getlong\<close> reads back what \<open>putlong\<close> stored, and \<open>getshort\<close> what \<open>putshort\<close> stored.
\<close>

theorem getlong_putlong: "getlong (putlong l) = l \<and> getshort (putshort h) = h"
proof
  show "getlong (putlong l) = l"
  proof (rule bit_word_eqI)
    fix n
    assume "n < LENGTH(32)"
    then consider "n < 8" | "8 \<le> n" "n < 16" | "16 \<le> n" "n < 24" | "24 \<le> n" "n < 32"
      by fastforce
    then show "bit (getlong (putlong l)) n = bit l n"
      by cases (auto simp: getlong_def putlong_def bit_simps)
  qed
  show "getshort (putshort h) = h"
    unfolding getshort_def putshort_def
    by (rule bit_word_eqI) (auto simp: bit_simps)
qed

end
