(* ===== verification/Gdisk_Part.thy ===== *)
theory Gdisk_Part
  imports Gdisk_Misc
begin

unbundle bit_operations_syntax

text \<open>
  \<open>sbin/gdisk/part.c\<close> and \<open>part.h\<close>: partition entries, the table of known
  partition types, the conversions between type identifiers, type UUIDs and names, and the
  overlap test. The libc functions \<open>uuid_to_string\<close>, \<open>uuid_from_string\<close> and
  \<open>uuid_is_nil\<close> are modelled by the textual form they document.
\<close>

section \<open>UUIDs\<close>

definition uuid_ok :: "uuid \<Rightarrow> bool" where
  "uuid_ok u \<longleftrightarrow> length (node u) = 6"

definition uuid_is_nil :: "uuid \<Rightarrow> bool" where
  "uuid_is_nil u \<longleftrightarrow> time_low u = 0 \<and> time_mid u = 0 \<and> time_hi_and_version u = 0
     \<and> clock_seq_hi_and_reserved u = 0 \<and> clock_seq_low u = 0 \<and> (\<forall>b \<in> set (node u). b = 0)"

text \<open>The 36-character form, lower case, as \<open>uuid_to_string\<close> prints it.\<close>

definition uuid_to_string :: "uuid \<Rightarrow> string" where
  "uuid_to_string u =
     hexn 8 (unat (time_low u)) @ ''-'' @ hexn 4 (unat (time_mid u)) @ ''-''
     @ hexn 4 (unat (time_hi_and_version u)) @ ''-''
     @ hexn 2 (unat (clock_seq_hi_and_reserved u)) @ hexn 2 (unat (clock_seq_low u)) @ ''-''
     @ concat (map (\<lambda>b. hexn 2 (unat b)) (node u))"

text \<open>The field of \<open>n\<close> hexadecimal digits at a fixed offset.\<close>

definition hex_field :: "nat \<Rightarrow> nat \<Rightarrow> string \<Rightarrow> nat" where
  "hex_field off n s = horner 16 (bytes_at off n s)"

definition uuid_syntax :: "string \<Rightarrow> bool" where
  "uuid_syntax s \<longleftrightarrow> length s = 36 \<and>
     s ! 8 = CHR ''-'' \<and> s ! 13 = CHR ''-'' \<and> s ! 18 = CHR ''-'' \<and> s ! 23 = CHR ''-'' \<and>
     list_all (is_digit 16) (bytes_at 0 8 s) \<and> list_all (is_digit 16) (bytes_at 9 4 s) \<and>
     list_all (is_digit 16) (bytes_at 14 4 s) \<and> list_all (is_digit 16) (bytes_at 19 4 s) \<and>
     list_all (is_digit 16) (bytes_at 24 12 s)"

definition uuid_from_string :: "string \<Rightarrow> uuid option" where
  "uuid_from_string s =
     (if uuid_syntax s then
        Some \<lparr>time_low = of_nat (hex_field 0 8 s), time_mid = of_nat (hex_field 9 4 s),
          time_hi_and_version = of_nat (hex_field 14 4 s),
          clock_seq_hi_and_reserved = of_nat (hex_field 19 2 s),
          clock_seq_low = of_nat (hex_field 21 2 s),
          node = map (\<lambda>i. of_nat (hex_field (24 + 2 * i) 2 s)) [0, 1, 2, 3, 4, 5]\<rparr>
      else None)"

section \<open>Partition entries\<close>

record gpt_partition =
  p_type :: uuid
  p_guid :: uuid
  p_start_lba :: u64
  p_end_lba :: u64
  p_attribute :: u64
  p_name :: "u16 list"

definition part_ok :: "gpt_partition \<Rightarrow> bool" where
  "part_ok p \<longleftrightarrow> uuid_ok (p_type p) \<and> uuid_ok (p_guid p) \<and> length (p_name p) = 36"

text \<open>An entry of zero bytes: an unused slot.\<close>

definition zero_part :: gpt_partition where
  "zero_part = \<lparr>p_type = nil_uuid, p_guid = nil_uuid, p_start_lba = 0, p_end_lba = 0,
     p_attribute = 0, p_name = replicate 36 0\<rparr>"

definition in_use :: "gpt_partition \<Rightarrow> bool" where
  "in_use p \<longleftrightarrow> \<not> uuid_is_nil (p_type p)"

section \<open>Partition types\<close>

text \<open>Identifier, type UUID and name (the member \<open>display\<close> is never read).\<close>

type_synonym part_type = "int \<times> string \<times> string"

definition part_types :: "part_type list" where
  "part_types =
     [(0x0000, ''00000000-0000-0000-0000-000000000000'', ''Unused''),
      (0x0100, ''ebd0a0a2-b9e5-4433-87c0-68b6b72699c7'', ''Microsoft basic data''),
      (0x0400, ''ebd0a0a2-b9e5-4433-87c0-68b6b72699c7'', ''Microsoft basic data''),
      (0x0600, ''ebd0a0a2-b9e5-4433-87c0-68b6b72699c7'', ''Microsoft basic data''),
      (0x0700, ''ebd0a0a2-b9e5-4433-87c0-68b6b72699c7'', ''Microsoft basic data''),
      (0x0b00, ''ebd0a0a2-b9e5-4433-87c0-68b6b72699c7'', ''Microsoft basic data''),
      (0x0c00, ''ebd0a0a2-b9e5-4433-87c0-68b6b72699c7'', ''Microsoft basic data''),
      (0x0c01, ''e3c9e316-0b5c-4db8-817d-f92df00215ae'', ''Microsoft reserved''),
      (0x0e00, ''ebd0a0a2-b9e5-4433-87c0-68b6b72699c7'', ''Microsoft basic data''),
      (0x1100, ''ebd0a0a2-b9e5-4433-87c0-68b6b72699c7'', ''Microsoft basic data''),
      (0x1400, ''ebd0a0a2-b9e5-4433-87c0-68b6b72699c7'', ''Microsoft basic data''),
      (0x1600, ''ebd0a0a2-b9e5-4433-87c0-68b6b72699c7'', ''Microsoft basic data''),
      (0x1700, ''ebd0a0a2-b9e5-4433-87c0-68b6b72699c7'', ''Microsoft basic data''),
      (0x1b00, ''ebd0a0a2-b9e5-4433-87c0-68b6b72699c7'', ''Microsoft basic data''),
      (0x1c00, ''ebd0a0a2-b9e5-4433-87c0-68b6b72699c7'', ''Microsoft basic data''),
      (0x1e00, ''ebd0a0a2-b9e5-4433-87c0-68b6b72699c7'', ''Microsoft basic data''),
      (0x2700, ''de94bba4-06d1-4d40-a16a-bfd50179d6ac'', ''Windows RE''),
      (0x4200, ''af9b60a0-1431-4f62-bc68-3311714a69ad'', ''Windows LDM data''),
      (0x4201, ''5808c8aa-7e8f-42e0-85d2-e1e90434cfb3'', ''Windows LDM metadata''),
      (0x7501, ''37affc90-ef7d-4e96-91c3-2d7ae055b174'', ''IBM GPFS''),
      (0x7f00, ''fe3a2a5d-4f32-41a7-b725-accc3285a309'', ''ChromeOS kernel''),
      (0x7f01, ''3cb8e202-3b7e-47dd-8a3c-7ff2a13cfcec'', ''ChromeOS root''),
      (0x7f02, ''2e0a753d-9e48-43b0-8337-b15192cb1b5e'', ''ChromeOS reserved''),
      (0x8200, ''0657fd6d-a4ab-43c4-84e5-0933c84b4f4f'', ''Linux swap''),
      (0x8300, ''0fc63daf-8483-4772-8e79-3d69d8477de4'', ''Linux filesystem''),
      (0x8301, ''8da63339-0007-60c0-c436-083ac8230908'', ''Linux reserved''),
      (0x8e00, ''e6d6d379-f507-44c2-a23c-238f2a3df928'', ''Linux LVM''),
      (0xa500, ''516e7cb4-6ecf-11d6-8ff8-00022d09712b'', ''FreeBSD disklabel''),
      (0xa501, ''83bd6b9d-7f41-11dc-be0b-001560b84f0f'', ''FreeBSD boot''),
      (0xa502, ''516e7cb5-6ecf-11d6-8ff8-00022d09712b'', ''FreeBSD swap''),
      (0xa503, ''516e7cb6-6ecf-11d6-8ff8-00022d09712b'', ''FreeBSD UFS''),
      (0xa504, ''516e7cba-6ecf-11d6-8ff8-00022d09712b'', ''FreeBSD ZFS''),
      (0xa505, ''516e7cb8-6ecf-11d6-8ff8-00022d09712b'', ''FreeBSD Vinum/RAID''),
      (0xa580, ''85d5e45a-237c-11e1-b4b3-e89a8f7fc3a7'', ''Midnight BSD data''),
      (0xa581, ''85d5e45e-237c-11e1-b4b3-e89a8f7fc3a7'', ''Midnight BSD boot''),
      (0xa582, ''85d5e45b-237c-11e1-b4b3-e89a8f7fc3a7'', ''Midnight BSD swap''),
      (0xa583, ''0394ef8b-237e-11e1-b4b3-e89a8f7fc3a7'', ''Midnight BSD UFS''),
      (0xa584, ''85d5e45d-237c-11e1-b4b3-e89a8f7fc3a7'', ''Midnight BSD ZFS''),
      (0xa585, ''85d5e45c-237c-11e1-b4b3-e89a8f7fc3a7'', ''Midnight BSD Vinum''),
      (0xa600, ''824cc7a0-36a8-11e3-890a-952519ad3f61'', ''OpenBSD disklabel''),
      (0xa800, ''55465300-0000-11aa-aa11-00306543ecac'', ''Apple UFS''),
      (0xa900, ''516e7cb4-6ecf-11d6-8ff8-00022d09712b'', ''FreeBSD disklabel''),
      (0xa901, ''49f48d32-b10e-11dc-b99b-0019d1879648'', ''NetBSD swap''),
      (0xa902, ''49f48d5a-b10e-11dc-b99b-0019d1879648'', ''NetBSD FFS''),
      (0xa903, ''49f48d82-b10e-11dc-b99b-0019d1879648'', ''NetBSD LFS''),
      (0xa904, ''2db519c4-b10f-11dc-b99b-0019d1879648'', ''NetBSD concatenated''),
      (0xa905, ''2db519ec-b10f-11dc-b99b-0019d1879648'', ''NetBSD encrypted''),
      (0xa906, ''49f48daa-b10e-11dc-b99b-0019d1879648'', ''NetBSD RAID''),
      (0xab00, ''426f6f74-0000-11aa-aa11-00306543ecac'', ''Apple boot''),
      (0xaf00, ''48465300-0000-11aa-aa11-00306543ecac'', ''Apple HFS/HFS+''),
      (0xaf01, ''52414944-0000-11aa-aa11-00306543ecac'', ''Apple RAID''),
      (0xaf02, ''52414944-5f4f-11aa-aa11-00306543ecac'', ''Apple RAID offline''),
      (0xaf03, ''4c616265-6c00-11aa-aa11-00306543ecac'', ''Apple label''),
      (0xaf04, ''5265636f-7665-11aa-aa11-00306543ecac'', ''AppleTV recovery''),
      (0xaf05, ''53746f72-6167-11aa-aa11-00306543ecac'', ''Apple Core Storage''),
      (0xbe00, ''6a82cb45-1dd2-11b2-99a6-080020736631'', ''Solaris boot''),
      (0xbf00, ''6a85cf4d-1dd2-11b2-99a6-080020736631'', ''Solaris root''),
      (0xbf01, ''6a898cc3-1dd2-11b2-99a6-080020736631'', ''Solaris /usr & Mac ZFS''),
      (0xbf02, ''6a87c46f-1dd2-11b2-99a6-080020736631'', ''Solaris swap''),
      (0xbf03, ''6a8b642b-1dd2-11b2-99a6-080020736631'', ''Solaris backup''),
      (0xbf04, ''6a8ef2e9-1dd2-11b2-99a6-080020736631'', ''Solaris /var''),
      (0xbf05, ''6a90ba39-1dd2-11b2-99a6-080020736631'', ''Solaris /home''),
      (0xbf06, ''6a9283a5-1dd2-11b2-99a6-080020736631'', ''Solaris alternate sector''),
      (0xbf07, ''6a945a3b-1dd2-11b2-99a6-080020736631'', ''Solaris Reserved 1''),
      (0xbf08, ''6a9630d1-1dd2-11b2-99a6-080020736631'', ''Solaris Reserved 2''),
      (0xbf09, ''6a980767-1dd2-11b2-99a6-080020736631'', ''Solaris Reserved 3''),
      (0xbf0a, ''6a96237f-1dd2-11b2-99a6-080020736631'', ''Solaris Reserved 4''),
      (0xbf0b, ''6a8d2ac7-1dd2-11b2-99a6-080020736631'', ''Solaris Reserved 5''),
      (0xc001, ''75894c1e-3aeb-11d3-b7c1-7b03a0000000'', ''HP-UX data''),
      (0xc002, ''e2a1e728-32e3-11d6-a682-7b03a0000000'', ''HP-UX service''),
      (0xeb00, ''42465331-3ba3-10f1-802a-4861696b7521'', ''Haiku BFS''),
      (0xed00, ''f4019732-066e-4e12-8273-346c5641494f'', ''Sony system partition''),
      (0xef00, ''c12a7328-f81f-11d2-ba4b-00a0c93ec93b'', ''EFI System''),
      (0xef01, ''024dee41-33e7-11d3-9d69-0008c781f39f'', ''MBR partition scheme''),
      (0xef02, ''21686148-6449-6e6f-744e-656564454649'', ''BIOS boot partition''),
      (0xef03, ''d3bfe2de-3daf-11df-ba40-e3a556d89593'', ''Intel Fast Flash''),
      (0xfb00, ''aa31e02a-400f-11db-9590-000c2911d1b8'', ''VMWare VMFS''),
      (0xfb01, ''9198effc-31c0-11db-8f78-000c2911d1b8'', ''VMWare reserved''),
      (0xfc00, ''9d275380-40ad-11db-bf97-000c2911d1b8'', ''VMWare kcore crash protection''),
      (0xfd00, ''a19d880f-05fc-4d3b-a006-743f0f84911e'', ''Linux RAID'')]"

definition unknown_id :: string where "unknown_id = ''<Unknown ID>''"

fun ascii_id_loop :: "part_type list \<Rightarrow> int \<Rightarrow> string" where
  "ascii_id_loop [] i = unknown_id"
| "ascii_id_loop ((t, sguid, sname) # ts) i = (if t = i then sname else ascii_id_loop ts i)"

definition PRT_ascii_id :: "int \<Rightarrow> string" where
  "PRT_ascii_id i = ascii_id_loop part_types i"

text \<open>\<open>utf[i] & 0x7F\<close> for the 36 characters; the result is read up to its first NUL.\<close>

definition PRT_ascii_name :: "u16 list \<Rightarrow> string" where
  "PRT_ascii_name utf = cstr (map (\<lambda>w. char_of (unat (w AND 0x7F))) (take 36 utf))"

fun ascii_type_loop :: "part_type list \<Rightarrow> string \<Rightarrow> string" where
  "ascii_type_loop [] str = unknown_id"
| "ascii_type_loop ((t, sguid, sname) # ts) str =
     (if strn_eq 36 sguid str then sname else ascii_type_loop ts str)"

definition PRT_ascii_type :: "uuid \<Rightarrow> string" where
  "PRT_ascii_type guid = ascii_type_loop part_types (uuid_to_string guid)"

fun pid_for_type_loop :: "part_type list \<Rightarrow> string \<Rightarrow> int" where
  "pid_for_type_loop [] str = 0"
| "pid_for_type_loop ((t, sguid, sname) # ts) str =
     (if strn_eq 36 sguid str then t else pid_for_type_loop ts str)"

definition PRT_pid_for_type :: "uuid \<Rightarrow> int" where
  "PRT_pid_for_type guid = pid_for_type_loop part_types (uuid_to_string guid)"

text \<open>A string \<open>uuid_from_string\<close> refuses leaves the type as the nil UUID; none is in the table.\<close>

fun set_type_loop :: "part_type list \<Rightarrow> gpt_partition \<Rightarrow> int \<Rightarrow> gpt_partition" where
  "set_type_loop [] p pid = p"
| "set_type_loop ((t, sguid, sname) # ts) p pid =
     (if t = pid then p\<lparr>p_type := (case uuid_from_string sguid of None \<Rightarrow> nil_uuid | Some u \<Rightarrow> u)\<rparr>
      else set_type_loop ts p pid)"

definition PRT_set_type_by_pid :: "gpt_partition \<Rightarrow> int \<Rightarrow> gpt_partition" where
  "PRT_set_type_by_pid p pid = set_type_loop part_types p pid"

definition PRT_overlap :: "gpt_partition \<Rightarrow> gpt_partition \<Rightarrow> bool" where
  "PRT_overlap p1 p2 \<longleftrightarrow> p_end_lba p1 \<ge> p_start_lba p2 \<and> p_end_lba p2 \<ge> p_start_lba p1"

text \<open>
  The row \<open>PRT_print\<close> prints for an entry: the active mark, the number, the type, the
  name, the first LBA, the size in the chosen unit and the unit's abbreviation.
\<close>

type_synonym part_row = "char \<times> nat \<times> string \<times> string \<times> u64 \<times> double \<times> string"

definition PRT_print :: "genv \<Rightarrow> nat \<Rightarrow> gpt_partition \<Rightarrow> string option \<Rightarrow> part_row" where
  "PRT_print e num p units =
     (let i = unit_lookup e units;
          size = u64_to_double (p_end_lba p - p_start_lba p + 1);
          size = ddiv_nat (dmul_pos size (secsize e)) (conversion (unit_types e ! i))
      in (if p_attribute p = 2 then CHR ''*'' else CHR '' '', num, PRT_ascii_type (p_type p),
          PRT_ascii_name (p_name p), p_start_lba p, size, abbr (unit_types e ! i)))"

text \<open>
  \<open>PRT_printall\<close>: three columns of \<open>idrows\<close> entries. The second column's index is not
  tested against the table, the third one's is.
\<close>

definition PRT_printall :: "part_type list \<Rightarrow> (part_type list) list outcome" where
  "PRT_printall ts =
     (let idrows = (length ts + 2) div 3 in
      foldr (\<lambda>i acc. obind (aget ts i) (\<lambda>a. obind (aget ts (i + idrows)) (\<lambda>b. obind acc (\<lambda>rows.
          Ret ((if i + idrows * 2 < length ts then [a, b, ts ! (i + idrows * 2)] else [a, b]) # rows)))))
        [0..<idrows] (Ret []))"

section \<open>Textual UUIDs\<close>

lemmas uuid_eval = uuid_from_string_def uuid_syntax_def bytes_at_def hex_field_def
  uuid_to_string_def text_eval

lemma of_nat_hexn [simp]:
  assumes "16 ^ w = (2 :: nat) ^ LENGTH('a)"
  shows "of_nat (horner 16 (hexn w (unat (x :: 'a::len word)))) = x"
  using unat_word_less [of x] assms by (simp add: horner_hexn)

lemma length_concat_node: "length bs = 6 \<Longrightarrow> length (concat (map (\<lambda>b. hexn 2 (unat (b :: u8))) bs)) = 12"
  by (simp add: length_concat comp_def sum_list_triv)

lemma bytes_at_node:
  "i < length bs \<Longrightarrow> bytes_at (2 * i) 2 (concat (map (\<lambda>b. hexn 2 (unat (b :: u8))) bs)) = hexn 2 (unat (bs ! i))"
proof (induction bs arbitrary: i)
  case (Cons b bs)
  then show ?case
    by (cases i) (auto simp: layout)
qed simp

lemma list_all_hexn [simp]: "list_all (is_digit 16) (hexn w v)"
  by (auto simp: list_all_iff is_digit_hexn)

lemma six_elems: "length xs = 6 \<Longrightarrow> [xs ! 0, xs ! Suc 0, xs ! 2, xs ! 3, xs ! 4, xs ! 5] = xs"
  by (rule nth_equalityI) (auto simp: less_Suc_eq nth_Cons' numeral_eq_Suc)

text \<open>
  Printing a UUID and reading the text back gives the same UUID.
\<close>

theorem uuid_text_roundtrip:
  assumes "uuid_ok u"
  shows "uuid_from_string (uuid_to_string u) = Some u"
proof -
  let ?n = "concat (map (\<lambda>b. hexn 2 (unat b)) (node u))"
  have l: "length (node u) = 6" using assms by (simp add: uuid_ok_def)
  note ln = length_concat_node [OF l]
  have all: "list_all (is_digit 16) ?n"
    by (auto simp: list_all_iff is_digit_hexn)
  have syn: "uuid_syntax (uuid_to_string u)"
    using ln all by (simp add: uuid_syntax_def uuid_to_string_def nth_append layout bytes_at_def)
  have nodes: "hex_field (24 + 2 * i) 2 (uuid_to_string u) = horner 16 (hexn 2 (unat (node u ! i)))"
    if "i < 6" for i
    using bytes_at_node [of i "node u"] that l
    by (simp add: hex_field_def uuid_to_string_def layout bytes_at_skip [of "[CHR ''-'']", simplified])
  have fields:
    "hex_field 0 8 (uuid_to_string u) = horner 16 (hexn 8 (unat (time_low u)))"
    "hex_field 9 4 (uuid_to_string u) = horner 16 (hexn 4 (unat (time_mid u)))"
    "hex_field 14 4 (uuid_to_string u) = horner 16 (hexn 4 (unat (time_hi_and_version u)))"
    "hex_field 19 2 (uuid_to_string u) = horner 16 (hexn 2 (unat (clock_seq_hi_and_reserved u)))"
    "hex_field 21 2 (uuid_to_string u) = horner 16 (hexn 2 (unat (clock_seq_low u)))"
    by (simp_all add: hex_field_def uuid_to_string_def layout
        bytes_at_skip [of "[CHR ''-'']", simplified])
  have node: "(of_nat (hex_field (24 + 2 * i) 2 (uuid_to_string u)) :: u8) = node u ! i" if "i < 6" for i
    using nodes [OF that] of_nat_hexn [of 2 "node u ! i"] by simp
  have "map (\<lambda>i. of_nat (hex_field (24 + 2 * i) 2 (uuid_to_string u))) [0, 1, 2, 3, 4, 5] = node u"
    using node [of 0] node [of 1] node [of 2] node [of 3] node [of 4] node [of 5] six_elems [OF l]
    by simp
  with syn fields show ?thesis
    by (simp add: uuid_from_string_def)
qed

theorem uuid_text_roundtrip_witness:
  "uuid_ok (nil_uuid\<lparr>time_low := 0x824cc7a0, clock_seq_low := 10\<rparr>) \<and>
   uuid_from_string (uuid_to_string (nil_uuid\<lparr>time_low := 0x824cc7a0, clock_seq_low := 10\<rparr>))
     = Some (nil_uuid\<lparr>time_low := 0x824cc7a0, clock_seq_low := 10\<rparr>)"
proof -
  have ok: "uuid_ok (nil_uuid\<lparr>time_low := 0x824cc7a0, clock_seq_low := 10\<rparr>)"
    by (simp add: uuid_ok_def nil_uuid_def)
  show ?thesis using ok uuid_text_roundtrip [OF ok] by simp
qed

section \<open>The type table\<close>

text \<open>The text of a UUID in the form \<open>uuid_to_string\<close> prints it.\<close>

definition uuid_canon :: "string \<Rightarrow> bool" where
  "uuid_canon s \<longleftrightarrow> length s = 36 \<and>
     s ! 8 = CHR ''-'' \<and> s ! 13 = CHR ''-'' \<and> s ! 18 = CHR ''-'' \<and> s ! 23 = CHR ''-'' \<and>
     list_all lower_hex (bytes_at 0 8 s) \<and> list_all lower_hex (bytes_at 9 4 s) \<and>
     list_all lower_hex (bytes_at 14 4 s) \<and> list_all lower_hex (bytes_at 19 2 s) \<and>
     list_all lower_hex (bytes_at 21 2 s) \<and>
     list_all (\<lambda>i. list_all lower_hex (bytes_at (24 + 2 * i) 2 s)) [0, 1, 2, 3, 4, 5]"

lemma part_types_canon: "list_all (\<lambda>(t, g, n). uuid_canon g) part_types"
  by (simp add: part_types_def uuid_canon_def bytes_at_def hex_digit_eval)

lemma lower_hex_digit: "list_all lower_hex s \<Longrightarrow> list_all (is_digit 16) s"
  by (auto simp: list_all_iff lower_hex_def)

lemma bytes_at_split: "bytes_at off (n + m) s = bytes_at off n s @ bytes_at (off + n) m s"
  by (simp add: bytes_at_def take_add) (simp add: add.commute)

lemma drop_at_sep:
  "off + n < length s \<Longrightarrow> drop off s = bytes_at off n s @ [s ! (off + n)] @ drop (off + n + 1) s"
  by (metis Cons_nth_drop_Suc Suc_eq_plus1 append_Cons append_Nil append_take_drop_id bytes_at_def drop_drop add.commute)

lemma hexn_field:
  assumes "list_all lower_hex (bytes_at off n s)" and "off + n \<le> length s"
    and "16 ^ n = (2 :: nat) ^ LENGTH('a::len)"
  shows "hexn n (unat (of_nat (hex_field off n s) :: 'a word)) = bytes_at off n s"
proof -
  have l: "length (bytes_at off n s) = n"
    using assms(2) by (simp add: layout)
  have "hex_field off n s < 2 ^ LENGTH('a)"
    using horner_bound [OF lower_hex_digit [OF assms(1)]] l assms(3) by (simp add: hex_field_def)
  then have "unat (of_nat (hex_field off n s) :: 'a word) = hex_field off n s"
    by (simp add: unat_of_nat)
  then show ?thesis
    using hexn_horner [OF assms(1)] l by (simp add: hex_field_def)
qed

lemma uuid_canon_roundtrip:
  assumes "uuid_canon s"
  shows "\<exists>u. uuid_from_string s = Some u \<and> uuid_to_string u = s"
proof -
  have len: "length s = 36" using assms by (simp add: uuid_canon_def)
  have hex: "list_all lower_hex (bytes_at 0 8 s)" "list_all lower_hex (bytes_at 9 4 s)"
    "list_all lower_hex (bytes_at 14 4 s)" "list_all lower_hex (bytes_at 19 2 s)"
    "list_all lower_hex (bytes_at 21 2 s)" "list_all lower_hex (bytes_at 24 2 s)"
    "list_all lower_hex (bytes_at 26 2 s)" "list_all lower_hex (bytes_at 28 2 s)"
    "list_all lower_hex (bytes_at 30 2 s)" "list_all lower_hex (bytes_at 32 2 s)"
    "list_all lower_hex (bytes_at 34 2 s)"
    using assms by (simp_all add: uuid_canon_def)
  have seps: "s ! 8 = CHR ''-''" "s ! 13 = CHR ''-''" "s ! 18 = CHR ''-''" "s ! 23 = CHR ''-''"
    using assms by (simp_all add: uuid_canon_def)
  have join4: "bytes_at 19 4 s = bytes_at 19 2 s @ bytes_at 21 2 s"
    using bytes_at_split [of 19 2 2 s] by simp
  have join12: "bytes_at 24 12 s = bytes_at 24 2 s @ bytes_at 26 2 s @ bytes_at 28 2 s
      @ bytes_at 30 2 s @ bytes_at 32 2 s @ bytes_at 34 2 s"
    using bytes_at_split [of 24 2 10 s] bytes_at_split [of 26 2 8 s] bytes_at_split [of 28 2 6 s]
      bytes_at_split [of 30 2 4 s] bytes_at_split [of 32 2 2 s] by simp
  have tail: "drop 24 s = bytes_at 24 12 s"
    using len by (simp add: bytes_at_def)
  have whole: "s = bytes_at 0 8 s @ ''-'' @ bytes_at 9 4 s @ ''-'' @ bytes_at 14 4 s @ ''-''
      @ bytes_at 19 4 s @ ''-'' @ bytes_at 24 12 s"
    using drop_at_sep [of 0 8 s] drop_at_sep [of 9 4 s] drop_at_sep [of 14 4 s]
      drop_at_sep [of 19 4 s] len seps tail by simp
  have "uuid_syntax s"
    using len seps hex [THEN lower_hex_digit] by (simp add: uuid_syntax_def join4 join12)
  then show ?thesis
    using whole hex len
    by (simp add: uuid_from_string_def uuid_to_string_def hexn_field join4 join12)
qed

lemma part_types_distinct: "distinct (map fst part_types)"
  by (simp add: part_types_def)

lemma set_type_loop_entry:
  "(t, g, n) \<in> set ts \<Longrightarrow> distinct (map fst ts) \<Longrightarrow>
   set_type_loop ts p t = p\<lparr>p_type := (case uuid_from_string g of None \<Rightarrow> nil_uuid | Some u \<Rightarrow> u)\<rparr>"
  by (induction ts p t rule: set_type_loop.induct) (auto simp: rev_image_eqI)

lemma pid_for_type_loop_entry:
  "(t, g, n) \<in> set ts \<Longrightarrow> \<exists>t' g' n'. (t', g', n') \<in> set ts \<and> pid_for_type_loop ts g = t' \<and> strn_eq 36 g' g"
  by (induction ts g rule: pid_for_type_loop.induct) (auto simp: strn_eq_def)

lemma part_types_guid:
  assumes "(t, g, n) \<in> set part_types"
  shows "\<exists>u. uuid_from_string g = Some u \<and> uuid_to_string u = g"
  using part_types_canon assms by (auto simp: list_all_iff intro: uuid_canon_roundtrip)

lemma uuid_from_string_length: "uuid_from_string g = Some u \<Longrightarrow> length g = 36"
  by (auto simp: uuid_from_string_def uuid_syntax_def split: if_splits)

text \<open>
  Setting the type of an entry by an identifier of the table stores the UUID listed for
  it, and the identifier gdisk then shows for the entry selects the same type again.
\<close>

theorem type_by_pid_roundtrip:
  assumes "(t, g, n) \<in> set part_types"
  shows "uuid_to_string (p_type (PRT_set_type_by_pid p t)) = g
    \<and> PRT_set_type_by_pid p (PRT_pid_for_type (p_type (PRT_set_type_by_pid p t)))
      = PRT_set_type_by_pid p t"
proof -
  obtain u where u: "uuid_from_string g = Some u" "uuid_to_string u = g"
    using part_types_guid [OF assms] by blast
  have q: "PRT_set_type_by_pid p t = p\<lparr>p_type := u\<rparr>"
    using set_type_loop_entry [OF assms part_types_distinct] u
    by (simp add: PRT_set_type_by_pid_def)
  obtain t' g' n' where e: "(t', g', n') \<in> set part_types"
    and t': "pid_for_type_loop part_types g = t'" and g': "strn_eq 36 g' g"
    using pid_for_type_loop_entry [OF assms] by blast
  obtain u' where u': "uuid_from_string g' = Some u'"
    using part_types_guid [OF e] by blast
  have "g' = g"
    using g' uuid_from_string_length [OF u'] uuid_from_string_length [OF u(1)]
    by (simp add: strn_eq_def)
  then have "PRT_set_type_by_pid p t' = p\<lparr>p_type := u\<rparr>"
    using set_type_loop_entry [OF e part_types_distinct] u
    by (simp add: PRT_set_type_by_pid_def)
  then show ?thesis
    using q u t' by (simp add: PRT_pid_for_type_def)
qed

lemma part_types_openbsd:
  "(0xa600, ''824cc7a0-36a8-11e3-890a-952519ad3f61'', ''OpenBSD disklabel'') \<in> set part_types"
  by (simp add: part_types_def)

theorem type_by_pid_roundtrip_witness:
  "uuid_to_string (p_type (PRT_set_type_by_pid zero_part 0xa600)) = ''824cc7a0-36a8-11e3-890a-952519ad3f61''
   \<and> PRT_set_type_by_pid zero_part (PRT_pid_for_type (p_type (PRT_set_type_by_pid zero_part 0xa600)))
     = PRT_set_type_by_pid zero_part 0xa600"
  by (rule type_by_pid_roundtrip [OF part_types_openbsd])

lemma uuid_from_string_ok: "uuid_from_string g = Some u \<Longrightarrow> uuid_ok u"
  by (auto simp: uuid_from_string_def uuid_ok_def split: if_splits)

lemma uuid_ok_nil [simp]: "uuid_ok nil_uuid"
  by (simp add: uuid_ok_def nil_uuid_def)

lemma part_ok_zero [simp]: "part_ok zero_part"
  by (simp add: part_ok_def zero_part_def)

lemma part_ok_updates [simp]:
  "part_ok (p\<lparr>p_start_lba := a\<rparr>) = part_ok p" "part_ok (p\<lparr>p_end_lba := b\<rparr>) = part_ok p"
  "part_ok (p\<lparr>p_attribute := c\<rparr>) = part_ok p"
  "uuid_ok u \<Longrightarrow> part_ok p \<Longrightarrow> part_ok (p\<lparr>p_guid := u\<rparr>)"
  "length ns = 36 \<Longrightarrow> part_ok p \<Longrightarrow> part_ok (p\<lparr>p_name := ns\<rparr>)"
  by (simp_all add: part_ok_def)

lemma part_ok_set_type_loop: "part_ok p \<Longrightarrow> part_ok (set_type_loop ts p pid)"
  by (induction ts p pid rule: set_type_loop.induct)
     (auto simp: part_ok_def dest: uuid_from_string_ok split: option.splits)

lemma part_ok_set_type [simp]: "part_ok p \<Longrightarrow> part_ok (PRT_set_type_by_pid p pid)"
  by (simp add: PRT_set_type_by_pid_def part_ok_set_type_loop)

section \<open>Overlap\<close>

definition lbas :: "gpt_partition \<Rightarrow> u64 set" where
  "lbas p = {p_start_lba p .. p_end_lba p}"

text \<open>
  \<open>PRT_overlap\<close> holds of two partitions that each have at least one sector exactly
  when some sector belongs to both.
\<close>

theorem PRT_overlap_iff_shared_lba:
  assumes "p_start_lba p \<le> p_end_lba p" and "p_start_lba q \<le> p_end_lba q"
  shows "PRT_overlap p q \<longleftrightarrow> lbas p \<inter> lbas q \<noteq> {}"
proof
  assume "PRT_overlap p q"
  then have "max (p_start_lba p) (p_start_lba q) \<in> lbas p \<inter> lbas q"
    using assms by (auto simp: PRT_overlap_def lbas_def)
  then show "lbas p \<inter> lbas q \<noteq> {}" by blast
next
  assume "lbas p \<inter> lbas q \<noteq> {}"
  then show "PRT_overlap p q"
    by (auto simp: PRT_overlap_def lbas_def)
qed

theorem PRT_overlap_iff_shared_lba_witness:
  "PRT_overlap (zero_part\<lparr>p_start_lba := 64, p_end_lba := 99\<rparr>) (zero_part\<lparr>p_start_lba := 99, p_end_lba := 120\<rparr>)
   \<longleftrightarrow> lbas (zero_part\<lparr>p_start_lba := 64, p_end_lba := 99\<rparr>) \<inter> lbas (zero_part\<lparr>p_start_lba := 99, p_end_lba := 120\<rparr>) \<noteq> {}"
  by (rule PRT_overlap_iff_shared_lba) simp_all

lemma PRT_overlap_sym: "PRT_overlap p q \<longleftrightarrow> PRT_overlap q p"
  by (auto simp: PRT_overlap_def)

end
