(* ===== verification/Gdisk_Disk.thy ===== *)
theory Gdisk_Disk
  imports Gdisk_Misc
begin

text \<open>
  \<open>sbin/gdisk/disk.c\<close> and \<open>disk.h\<close>: opening the disk, its geometry, and the
  device behind the file descriptor as \<open>gpt.c\<close> uses it, one sector at a time. What the
  kernel answers to \<open>opendev\<close>, \<open>fstat\<close> and the label \<open>ioctl\<close> is a parameter.
\<close>

section \<open>What the system answers\<close>

datatype fkind = Chr_device | Regular_file | Other_file

record disklabel =
  d_secsize :: u32
  d_secperunit :: u32
  d_secperunith :: u16

record os =
  os_open :: "string \<Rightarrow> bool"
  os_fstat :: "string \<Rightarrow> fkind option"
  os_pdinfo :: "string \<Rightarrow> disklabel option"

definition DL_GETDSIZE :: "disklabel \<Rightarrow> u64" where
  "DL_GETDSIZE d = push_bit 32 (ucast (d_secperunith d)) + ucast (d_secperunit d)"

section \<open>The disk\<close>

record disk =
  d_name :: string
  d_label :: "u64 option"
  d_real :: "u64 option"

definition DISK_open :: "os \<Rightarrow> string \<Rightarrow> unit outcome" where
  "DISK_open os name =
     (if \<not> os_open os name then Exit 1
      else case os_fstat os name of
          None \<Rightarrow> Exit 1
        | Some k \<Rightarrow> if k \<noteq> Chr_device \<and> k \<noteq> Regular_file then Exit 1 else Ret ())"

text \<open>
  The label's size, and the environment with the sector size of the label: the function
  assigns \<open>unit_types[SECTORS].conversion\<close> and fills the global \<open>dl\<close>.
\<close>

definition DISK_getlabelmetrics :: "os \<Rightarrow> genv \<Rightarrow> string \<Rightarrow> (u64 option \<times> genv) outcome" where
  "DISK_getlabelmetrics os e name =
     obind (DISK_open os name) (\<lambda>_.
       if \<not> malloc_ok e 8 then Exit 1
       else case os_pdinfo os name of
           None \<Rightarrow> Ret (None, e)
         | Some dl \<Rightarrow> Ret (Some (DL_GETDSIZE dl), e\<lparr>secsize := unat (d_secsize dl)\<rparr>))"

definition DISK_getmetrics :: "os \<Rightarrow> genv \<Rightarrow> disk \<Rightarrow> u64 option \<Rightarrow> (int \<times> disk \<times> genv) outcome" where
  "DISK_getmetrics os e d user =
     obind (DISK_getlabelmetrics os e (d_name d)) (\<lambda>(lm, e').
       let d = d\<lparr>d_label := lm\<rparr> in
       if user \<noteq> None then Ret (0, d\<lparr>d_real := user\<rparr>, e')
       else if d_label d \<noteq> None then Ret (0, d\<lparr>d_real := d_label d\<rparr>, e')
       else Ret (1, d\<lparr>d_real := None\<rparr>, e'))"

text \<open>
  \<open>DISK_printmetrics\<close> computes the size before it tests \<open>disk->real\<close>, so a disk without
  geometry is a null dereference. The result is the number printed and its unit's name.
\<close>

definition DISK_printmetrics :: "genv \<Rightarrow> disk \<Rightarrow> string option \<Rightarrow> (double \<times> string) outcome" where
  "DISK_printmetrics e d units =
     (case d_real d of
        None \<Rightarrow> Undef
      | Some sz \<Rightarrow>
          (let i = unit_lookup e units;
               x = ddiv_nat (dmul_pos (u64_to_double sz) (secsize e)) (conversion (unit_types e ! i))
           in Ret (x, lname (unit_types e ! i))))"

text \<open>
  Once \<open>DISK_getmetrics\<close> has succeeded without a geometry from the user, the size used
  for the rest of the program is the label's, and gdisk works in sectors of the label's
  sector size.
\<close>

theorem DISK_getmetrics_from_label:
  assumes "DISK_getmetrics os e d None = Ret (0, d', e')"
  shows "\<exists>dl. os_pdinfo os (d_name d) = Some dl \<and> d_real d' = Some (DL_GETDSIZE dl)
    \<and> secsize e' = unat (d_secsize dl) \<and> d_name d' = d_name d
    \<and> os_fstat os (d_name d) \<in> {Some Chr_device, Some Regular_file}"
  using assms
  by (auto simp: DISK_getmetrics_def DISK_getlabelmetrics_def DISK_open_def Let_def outcome_simps
      split: if_splits option.splits)

text \<open>A sample system with one disk of 64 sectors.\<close>

definition os0 :: os where
  "os0 = \<lparr>os_open = (\<lambda>n. n = ''sd0''), os_fstat = (\<lambda>_. Some Chr_device),
     os_pdinfo = (\<lambda>_. Some \<lparr>d_secsize = 512, d_secperunit = 64, d_secperunith = 0\<rparr>)\<rparr>"

definition disk0 :: disk where
  "disk0 = \<lparr>d_name = ''sd0'', d_label = None, d_real = None\<rparr>"

theorem DISK_getmetrics_from_label_witness:
  "\<exists>dl. os_pdinfo os0 (d_name disk0) = Some dl
    \<and> d_real (disk0\<lparr>d_label := Some 64, d_real := Some 64\<rparr>) = Some (DL_GETDSIZE dl)
    \<and> secsize env0 = unat (d_secsize dl)
    \<and> d_name (disk0\<lparr>d_label := Some 64, d_real := Some 64\<rparr>) = d_name disk0
    \<and> os_fstat os0 (d_name disk0) \<in> {Some Chr_device, Some Regular_file}"
  by (rule DISK_getmetrics_from_label [of os0 env0])
     (simp add: DISK_getmetrics_def DISK_getlabelmetrics_def DISK_open_def os0_def disk0_def env0_def
       DL_GETDSIZE_def Let_def)

section \<open>Sector access\<close>

text \<open>
  \<open>bd_read d s\<close> is what \<open>read(fd, buf, secsize)\<close> at sector \<open>s\<close> returns: \<open>None\<close> for
  \<open>-1\<close>, else the bytes transferred (fewer than a sector at the end of the medium).
  \<open>bd_wlen d s\<close> is what \<open>write\<close> of one sector there returns: \<open>-1\<close> or the number of bytes
  that reached the medium.
\<close>

record bdev =
  bd_read :: "nat \<Rightarrow> u8 list option"
  bd_wlen :: "nat \<Rightarrow> int"

end
