(* ===== verification/Gdisk_Gpt.thy ===== *)
theory Gdisk_Gpt
  imports Gdisk_Part Gdisk_Disk
begin

unbundle bit_operations_syntax

text \<open>
  \<open>sbin/gdisk/gpt.c\<close> and \<open>gpt.h\<close>: the GPT header, its byte layout and that of the
  partition entries, and the operations on a GPT: read and write a sector, load, store,
  initialise, verify, fill the remaining space, print. The functions take the
  environment, the device and the GPT explicitly and return the changed ones. The header
  and the entries are the objects the two pointers of \<open>gpt_t\<close> refer to; an index outside
  the entries is \<open>Undef\<close>.
\<close>

section \<open>Data\<close>

definition GPT_SIGNATURE :: u64 where "GPT_SIGNATURE = 0x5452415020494645"
definition GPT_REVISION :: u32 where "GPT_REVISION = 0x10000"
definition GPT_PARTITIONS :: nat where "GPT_PARTITIONS = 128"
definition GPTPTYP_OPENBSD :: int where "GPTPTYP_OPENBSD = 0xa600"

record gpt_header =
  h_signature :: u64
  h_revision :: u32
  h_header_size :: u32
  h_header_checksum :: u32
  h_reserved :: u32
  h_current_lba :: u64
  h_backup_lba :: u64
  h_start_lba :: u64
  h_end_lba :: u64
  h_guid :: uuid
  h_partitions_lba :: u64
  h_partitions_num :: u32
  h_partitions_size :: u32
  h_partitions_checksum :: u32

definition zero_header :: gpt_header where
  "zero_header = \<lparr>h_signature = 0, h_revision = 0, h_header_size = 0, h_header_checksum = 0,
     h_reserved = 0, h_current_lba = 0, h_backup_lba = 0, h_start_lba = 0, h_end_lba = 0,
     h_guid = nil_uuid, h_partitions_lba = 0, h_partitions_num = 0, h_partitions_size = 0,
     h_partitions_checksum = 0\<rparr>"

text \<open>The two pointers: \<open>None\<close> is the null pointer.\<close>

record gpt_t =
  header :: "gpt_header option"
  part :: "gpt_partition list option"

section \<open>Byte layout\<close>

definition enc_uuid :: "uuid \<Rightarrow> u8 list" where
  "enc_uuid u = le_enc 4 (unat (time_low u)) @ le_enc 2 (unat (time_mid u))
     @ le_enc 2 (unat (time_hi_and_version u)) @ [clock_seq_hi_and_reserved u, clock_seq_low u]
     @ node u"

definition dec_uuid :: "u8 list \<Rightarrow> uuid" where
  "dec_uuid bs = \<lparr>time_low = of_nat (le_dec (bytes_at 0 4 bs)),
     time_mid = of_nat (le_dec (bytes_at 4 2 bs)),
     time_hi_and_version = of_nat (le_dec (bytes_at 6 2 bs)),
     clock_seq_hi_and_reserved = of_nat (le_dec (bytes_at 8 1 bs)),
     clock_seq_low = of_nat (le_dec (bytes_at 9 1 bs)), node = bytes_at 10 6 bs\<rparr>"

definition enc_header :: "gpt_header \<Rightarrow> u8 list" where
  "enc_header h = le_enc 8 (unat (h_signature h)) @ le_enc 4 (unat (h_revision h))
     @ le_enc 4 (unat (h_header_size h)) @ le_enc 4 (unat (h_header_checksum h))
     @ le_enc 4 (unat (h_reserved h)) @ le_enc 8 (unat (h_current_lba h))
     @ le_enc 8 (unat (h_backup_lba h)) @ le_enc 8 (unat (h_start_lba h))
     @ le_enc 8 (unat (h_end_lba h)) @ enc_uuid (h_guid h)
     @ le_enc 8 (unat (h_partitions_lba h)) @ le_enc 4 (unat (h_partitions_num h))
     @ le_enc 4 (unat (h_partitions_size h)) @ le_enc 4 (unat (h_partitions_checksum h))"

definition dec_header :: "u8 list \<Rightarrow> gpt_header" where
  "dec_header bs = \<lparr>h_signature = of_nat (le_dec (bytes_at 0 8 bs)),
     h_revision = of_nat (le_dec (bytes_at 8 4 bs)),
     h_header_size = of_nat (le_dec (bytes_at 12 4 bs)),
     h_header_checksum = of_nat (le_dec (bytes_at 16 4 bs)),
     h_reserved = of_nat (le_dec (bytes_at 20 4 bs)),
     h_current_lba = of_nat (le_dec (bytes_at 24 8 bs)),
     h_backup_lba = of_nat (le_dec (bytes_at 32 8 bs)),
     h_start_lba = of_nat (le_dec (bytes_at 40 8 bs)),
     h_end_lba = of_nat (le_dec (bytes_at 48 8 bs)),
     h_guid = dec_uuid (bytes_at 56 16 bs),
     h_partitions_lba = of_nat (le_dec (bytes_at 72 8 bs)),
     h_partitions_num = of_nat (le_dec (bytes_at 80 4 bs)),
     h_partitions_size = of_nat (le_dec (bytes_at 84 4 bs)),
     h_partitions_checksum = of_nat (le_dec (bytes_at 88 4 bs))\<rparr>"

text \<open>\<open>sizeof(gpt_header_t)\<close> and \<open>sizeof(gpt_partition_t)\<close>, both packed.\<close>

definition sizeof_header :: nat where "sizeof_header = 92"
definition sizeof_part :: nat where "sizeof_part = 128"

definition enc_part :: "gpt_partition \<Rightarrow> u8 list" where
  "enc_part p = enc_uuid (p_type p) @ enc_uuid (p_guid p) @ le_enc 8 (unat (p_start_lba p))
     @ le_enc 8 (unat (p_end_lba p)) @ le_enc 8 (unat (p_attribute p))
     @ concat (map (\<lambda>w. le_enc 2 (unat w)) (p_name p))"

definition dec_part :: "u8 list \<Rightarrow> gpt_partition" where
  "dec_part bs = \<lparr>p_type = dec_uuid (bytes_at 0 16 bs), p_guid = dec_uuid (bytes_at 16 16 bs),
     p_start_lba = of_nat (le_dec (bytes_at 32 8 bs)), p_end_lba = of_nat (le_dec (bytes_at 40 8 bs)),
     p_attribute = of_nat (le_dec (bytes_at 48 8 bs)),
     p_name = map (\<lambda>i. of_nat (le_dec (bytes_at (56 + 2 * i) 2 bs))) [0..<36]\<rparr>"

section \<open>Checksums\<close>

text \<open>
  \<open>crc32(0, header, header_size)\<close> with the checksum field zero, and \<open>crc32\<close> over
  \<open>partitions_num * partitions_size\<close> bytes of the entries, a product of two
  \<open>uint32_t\<close>.
\<close>

definition header_crc :: "genv \<Rightarrow> gpt_header \<Rightarrow> u32" where
  "header_crc e h = crc32 e (take (unat (h_header_size h)) (enc_header (h\<lparr>h_header_checksum := 0\<rparr>)))"

definition parts_crc :: "genv \<Rightarrow> gpt_header \<Rightarrow> gpt_partition list \<Rightarrow> u32" where
  "parts_crc e h ps =
     crc32 e (take (unat (h_partitions_num h * h_partitions_size h)) (concat (map enc_part ps)))"

section \<open>Sectors\<close>

text \<open>
  The byte offset \<open>where * secsize\<close> is an \<open>off_t\<close>; \<open>lseek\<close> refuses a negative one.
  \<open>sector_of\<close> is the sector reached, \<open>None\<close> when the seek fails.
\<close>

definition sector_of :: "genv \<Rightarrow> u64 \<Rightarrow> nat option" where
  "sector_of e w =
     (let off = sint (w * of_nat (secsize e)) in
      if off < 0 then None else Some (nat off div secsize e))"

definition GPT_read :: "genv \<Rightarrow> bdev \<Rightarrow> u64 \<Rightarrow> u8 list option" where
  "GPT_read e d w =
     (case sector_of e w of
        None \<Rightarrow> None
      | Some s \<Rightarrow>
          if \<not> malloc_ok e (secsize e) then None
          else case bd_read d s of
              None \<Rightarrow> None
            | Some bs \<Rightarrow> if length bs < DEV_BSIZE then None else Some (take DEV_BSIZE bs))"

definition GPT_write :: "genv \<Rightarrow> bdev \<Rightarrow> u64 \<Rightarrow> u8 list \<Rightarrow> bool \<times> bdev" where
  "GPT_write e d w buf =
     (case sector_of e w of
        None \<Rightarrow> (False, d)
      | Some s \<Rightarrow>
          if \<not> malloc_ok e (secsize e) then (False, d)
          else case bd_read d s of
              None \<Rightarrow> (False, d)
            | Some old \<Rightarrow>
                if length old \<noteq> secsize e then (False, d)
                else let secbuf = buf @ drop DEV_BSIZE old; len = bd_wlen d s in
                  if len < 0 then (False, d)
                  else (len = int (secsize e),
                        d\<lparr>bd_read := (bd_read d)(s \<mapsto> take (nat len) secbuf @ drop (nat len) old)\<rparr>))"

section \<open>Load\<close>

datatype load_error = LE_nomem | LE_too_small | LE_read | LE_signature | LE_header_size
  | LE_header_checksum | LE_partition_size | LE_partition_checksum

text \<open>
  The loop over the entries: entry \<open>i\<close> is at byte \<open>(i % 4) * 128\<close> of the block read when
  \<open>i % 4\<close> was last 0; \<open>n\<close> entries remain.
\<close>

fun load_parts :: "genv \<Rightarrow> bdev \<Rightarrow> u64 \<Rightarrow> nat \<Rightarrow> nat \<Rightarrow> u8 list \<Rightarrow> gpt_partition list option" where
  "load_parts e d plba 0 i buf = Some []"
| "load_parts e d plba (Suc n) i buf =
     (case (if i mod 4 = 0 then GPT_read e d (plba + of_nat (i div 4)) else Some buf) of
        None \<Rightarrow> None
      | Some b \<Rightarrow>
          map_option (Cons (dec_part (bytes_at ((i mod 4) * sizeof_part) sizeof_part b)))
            (load_parts e d plba n (Suc i) b))"

text \<open>The checks on a header that has been read, in the order of the code, and the entries.\<close>

definition load_rest :: "genv \<Rightarrow> bdev \<Rightarrow> u8 list \<Rightarrow> load_error + (gpt_header \<times> gpt_partition list)" where
  "load_rest e d buf =
     (let h = dec_header buf in
      if h_signature h \<noteq> GPT_SIGNATURE then Inl LE_signature
      else if unat (h_header_size h) > sizeof_header then Inl LE_header_size
      else if header_crc e h \<noteq> h_header_checksum h then Inl LE_header_checksum
      else if unat (h_partitions_size h) \<noteq> sizeof_part then Inl LE_partition_size
      else if \<not> malloc_ok e (unat (h_partitions_num h) * sizeof_part) then Inl LE_nomem
      else case load_parts e d (h_partitions_lba h) (unat (h_partitions_num h)) 0 buf of
          None \<Rightarrow> Inl LE_read
        | Some ps \<Rightarrow>
            if parts_crc e h ps \<noteq> h_partitions_checksum h then Inl LE_partition_checksum
            else Inr (h, ps))"

text \<open>
  \<open>offset\<close> is an \<open>int\<close>: the backup LBA is truncated to 32 bits and sign-extended again,
  both in the comparison with the disk size and in the call of \<open>GPT_read\<close>.
\<close>

definition GPT_load :: "genv \<Rightarrow> bdev \<Rightarrow> u64 \<Rightarrow> bool \<Rightarrow> load_error + (gpt_header \<times> gpt_partition list)" where
  "GPT_load e d dsize alt =
     (if \<not> malloc_ok e sizeof_header then Inl LE_nomem
      else if 1 \<ge> dsize then Inl LE_too_small
      else case GPT_read e d 1 of
          None \<Rightarrow> Inl LE_read
        | Some buf \<Rightarrow>
            if \<not> alt then load_rest e d buf
            else let offset = scast (ucast (h_backup_lba (dec_header buf)) :: u32) in
              if offset \<ge> dsize then Inl LE_too_small
              else case GPT_read e d offset of
                  None \<Rightarrow> Inl LE_read
                | Some buf2 \<Rightarrow> load_rest e d buf2)"

section \<open>Store\<close>

definition out_of_bounds :: "gpt_header \<Rightarrow> gpt_partition \<Rightarrow> bool" where
  "out_of_bounds h p \<longleftrightarrow> \<not> uuid_is_nil (p_type p) \<and>
     (p_start_lba p < h_start_lba h \<or> p_start_lba p > p_end_lba p \<or> p_end_lba p > h_end_lba h)"

definition zero_block :: "u8 list" where
  "zero_block = replicate DEV_BSIZE 0"

fun store_parts :: "genv \<Rightarrow> bdev \<Rightarrow> u64 \<Rightarrow> gpt_partition list \<Rightarrow> nat \<Rightarrow> u8 list \<Rightarrow> bool \<times> bdev" where
  "store_parts e d plba [] i buf =
     (if i mod 4 \<noteq> 0 then GPT_write e d (plba + of_nat (i div 4)) buf else (True, d))"
| "store_parts e d plba (p # ps) i buf =
     (let buf' = overlay buf ((i mod 4) * sizeof_part) (enc_part p) in
      if i mod 4 = 3
      then (case GPT_write e d (plba + of_nat (i div 4)) buf' of
              (False, d') \<Rightarrow> (False, d')
            | (True, d') \<Rightarrow> store_parts e d' plba ps (Suc i) zero_block)
      else store_parts e d plba ps (Suc i) buf')"

text \<open>One copy of the GPT: the header block at \<open>current_lba\<close>, then the entries.\<close>

definition store_copy :: "genv \<Rightarrow> bdev \<Rightarrow> gpt_header \<Rightarrow> gpt_partition list \<Rightarrow> bool \<times> bdev" where
  "store_copy e d h ps =
     (case GPT_write e d (h_current_lba h) (overlay zero_block 0 (enc_header h)) of
        (False, d') \<Rightarrow> (False, d')
      | (True, d') \<Rightarrow> store_parts e d' (h_partitions_lba h) ps 0 zero_block)"

definition lbas_needed :: "gpt_header \<Rightarrow> u32" where
  "lbas_needed h = 1 + (h_partitions_num h + 3) div 4"

text \<open>The header with the two usable-area fields the code sets before its checks.\<close>

definition store_bounds :: "u64 \<Rightarrow> gpt_header \<Rightarrow> gpt_header" where
  "store_bounds dsize h =
     h\<lparr>h_start_lba := scast (lbas_needed h + 1), h_end_lba := dsize - scast (lbas_needed h + 1)\<rparr>"

definition primary_header :: "genv \<Rightarrow> u64 \<Rightarrow> gpt_header \<Rightarrow> gpt_partition list \<Rightarrow> gpt_header" where
  "primary_header e dsize h0 ps =
     (let h1 = h0\<lparr>h_signature := GPT_SIGNATURE, h_revision := GPT_REVISION,
            h_header_size := of_nat sizeof_header, h_header_checksum := 0, h_reserved := 0,
            h_current_lba := 1, h_backup_lba := dsize - 1, h_partitions_lba := 2,
            h_partitions_size := of_nat sizeof_part\<rparr>;
          h2 = h1\<lparr>h_partitions_checksum := parts_crc e h1 ps\<rparr>
      in h2\<lparr>h_header_checksum := header_crc e h2\<rparr>)"

definition backup_header :: "genv \<Rightarrow> u64 \<Rightarrow> gpt_header \<Rightarrow> gpt_header" where
  "backup_header e dsize h =
     (let h1 = h\<lparr>h_current_lba := dsize - 1, h_backup_lba := 1,
            h_partitions_lba := h_end_lba h + 1, h_header_checksum := 0\<rparr>
      in h1\<lparr>h_header_checksum := header_crc e h1\<rparr>)"

text \<open>\<open>GPT_store\<close>: whether it returned 0, the device and the header afterwards.\<close>

definition GPT_store ::
  "genv \<Rightarrow> bdev \<Rightarrow> u64 \<Rightarrow> gpt_header \<Rightarrow> gpt_partition list \<Rightarrow> (bool \<times> bdev \<times> gpt_header) outcome" where
  "GPT_store e d dsize h ps =
     (if h_current_lba h \<noteq> 1 \<and> h_backup_lba h \<noteq> 1 then Ret (False, d, h)
      else let need = lbas_needed h; h0 = store_bounds dsize h; n = unat (h_partitions_num h) in
        if dsize < scast (need + need + 1) then Ret (False, d, h0)
        else if length ps < n then Undef
        else if list_ex (out_of_bounds h0) (take n ps) then Ret (False, d, h0)
        else let hp = primary_header e dsize h0 ps in
          case store_copy e d hp (take n ps) of
            (False, d1) \<Rightarrow> Ret (False, d1, hp)
          | (True, d1) \<Rightarrow>
              let hb = backup_header e dsize hp in
              (case store_copy e d1 hb (take n ps) of (r, d2) \<Rightarrow> Ret (r, d2, hb)))"

section \<open>Initialise, verify, fill, print\<close>

text \<open>
  The loop \<open>i = 1; while (i < blk) i *= 2\<close> on a \<open>uint64_t\<close>. Sixty-four doublings of 1 give
  0, which stays below any nonzero \<open>blk\<close>: the fuel of 65 is never exhausted by a loop that
  ends.
\<close>

fun pow2_loop :: "nat \<Rightarrow> u64 \<Rightarrow> u64 \<Rightarrow> u64 outcome" where
  "pow2_loop 0 i blk = Hang"
| "pow2_loop (Suc fuel) i blk = (if i < blk then pow2_loop fuel (i * 2) blk else Ret i)"

definition DL_SECTOBLK :: "genv \<Rightarrow> u64 \<Rightarrow> u64" where
  "DL_SECTOBLK e n = n * of_nat (secsize e div DEV_BSIZE)"

definition shrink_step :: "nat \<Rightarrow> gpt_partition \<Rightarrow> nat \<times> gpt_partition \<Rightarrow> gpt_partition" where
  "shrink_step pn q ip =
     (case ip of (i, p) \<Rightarrow>
        if i \<noteq> pn \<and> PRT_overlap q p then
          (if p_start_lba p > p_start_lba q then q\<lparr>p_end_lba := p_start_lba p - 1\<rparr>
           else q\<lparr>p_start_lba := p_end_lba p + 1\<rparr>)
        else q)"

definition GPT_fillremaining :: "genv \<Rightarrow> gpt_header \<Rightarrow> gpt_partition list \<Rightarrow> nat \<Rightarrow> gpt_partition list outcome" where
  "GPT_fillremaining e h ps pn =
     obind (pow2_loop 65 1 (DL_SECTOBLK e (h_start_lba h))) (\<lambda>i.
     obind (aget ps pn) (\<lambda>q.
       let n = unat (h_partitions_num h); q0 = q\<lparr>p_start_lba := i, p_end_lba := h_end_lba h\<rparr> in
       if length ps < n then Undef
       else aset ps pn (foldl (shrink_step pn) q0 (enumerate 0 (take n ps)))))"

text \<open>
  \<open>GPT_init\<close>: the status (0 or \<open>-ENOMEM\<close>), the GPT and the number of UUIDs drawn so far.
  The old header and entries are freed first; a pointer to freed memory is \<open>None\<close> too.
\<close>

definition ENOMEM :: int where "ENOMEM = 12"

definition init_header :: "u64 \<Rightarrow> uuid \<Rightarrow> gpt_header" where
  "init_header dsize u =
     (let n = (of_nat GPT_PARTITIONS :: u32); k = (n + 3) div 4 + 2 in
      zero_header\<lparr>h_partitions_num := n, h_current_lba := 1, h_backup_lba := dsize - 1,
        h_start_lba := ucast k, h_end_lba := dsize - ucast k, h_guid := u\<rparr>)"

definition GPT_init :: "genv \<Rightarrow> u64 \<Rightarrow> gpt_t \<Rightarrow> nat \<Rightarrow> (int \<times> gpt_t \<times> nat) outcome" where
  "GPT_init e dsize g uc =
     (if \<not> malloc_ok e sizeof_header then Ret (- ENOMEM, \<lparr>header = None, part = None\<rparr>, uc)
      else if \<not> malloc_ok e (GPT_PARTITIONS * sizeof_part)
      then Ret (- ENOMEM, \<lparr>header = Some zero_header, part = None\<rparr>, uc)
      else let h = init_header dsize (uuid_src e uc) in
        obind (GPT_fillremaining e h (replicate GPT_PARTITIONS zero_part) 0) (\<lambda>ps.
        obind (aget ps 0) (\<lambda>q.
        obind (aset ps 0 (PRT_set_type_by_pid q GPTPTYP_OPENBSD)) (\<lambda>ps'.
          Ret (0, \<lparr>header = Some h, part = Some ps'\<rparr>, Suc uc)))))"

definition GPT_free :: "gpt_t \<Rightarrow> gpt_t" where
  "GPT_free g = \<lparr>header = None, part = None\<rparr>"

text \<open>The inner and the outer loop of \<open>GPT_verify\<close>; \<open>False\<close> is the return of -1.\<close>

fun verify_against :: "genv \<Rightarrow> gpt_partition \<Rightarrow> gpt_partition list \<Rightarrow> string \<Rightarrow> (bool \<times> string) outcome" where
  "verify_against e p1 [] inp = Ret (True, inp)"
| "verify_against e p1 (p2 # ps) inp =
     (if \<not> uuid_is_nil (p_type p2) \<and> PRT_overlap p1 p2 then
        obind (ask_yn e inp) (\<lambda>(yes, inp').
          if \<not> yes then Ret (False, inp') else verify_against e p1 ps inp')
      else verify_against e p1 ps inp)"

fun verify_loop :: "genv \<Rightarrow> gpt_partition list \<Rightarrow> nat \<Rightarrow> string \<Rightarrow> (nat option \<times> string) outcome" where
  "verify_loop e [] n inp = Ret (Some n, inp)"
| "verify_loop e (p1 # ps) n inp =
     (if uuid_is_nil (p_type p1) then verify_loop e ps n inp
      else let n' = (if PRT_pid_for_type (p_type p1) = GPTPTYP_OPENBSD then Suc n else n) in
        obind (verify_against e p1 ps inp) (\<lambda>(ok, inp').
          if \<not> ok then Ret (None, inp') else verify_loop e ps n' inp'))"

definition GPT_verify :: "genv \<Rightarrow> gpt_header \<Rightarrow> gpt_partition list \<Rightarrow> string \<Rightarrow> (bool \<times> string) outcome" where
  "GPT_verify e h ps inp =
     (let n = unat (h_partitions_num h) in
      if length ps < n then Undef
      else obind (verify_loop e (take n ps) 0 inp) (\<lambda>(r, inp').
        case r of
          None \<Rightarrow> Ret (False, inp')
        | Some k \<Rightarrow> if 2 \<le> k then ask_yn e inp' else Ret (True, inp')))"

text \<open>
  \<open>GPT_print\<close>: the disk UUID and the rows of the entries whose type has a nonzero field.
\<close>

definition type_nonzero :: "uuid \<Rightarrow> bool" where
  "type_nonzero u \<longleftrightarrow> time_low u \<noteq> 0 \<or> time_mid u \<noteq> 0 \<or> time_hi_and_version u \<noteq> 0
     \<or> clock_seq_hi_and_reserved u \<noteq> 0 \<or> clock_seq_low u \<noteq> 0
     \<or> node u ! 0 \<noteq> 0 \<or> node u ! 1 \<noteq> 0 \<or> node u ! 2 \<noteq> 0 \<or> node u ! 3 \<noteq> 0 \<or> node u ! 4 \<noteq> 0
     \<or> node u ! 5 \<noteq> 0"

definition GPT_print :: "genv \<Rightarrow> gpt_t \<Rightarrow> string option \<Rightarrow> (string \<times> part_row list) outcome" where
  "GPT_print e g units =
     (case (header g, part g) of
        (Some h, Some ps) \<Rightarrow>
          (let n = unat (h_partitions_num h) in
           if length ps < n then Undef
           else Ret (uuid_to_string (h_guid h),
             map (\<lambda>(i, p). PRT_print e i p units)
               (filter (\<lambda>(i, p). type_nonzero (p_type p)) (enumerate 0 (take n ps)))))
      | _ \<Rightarrow> Undef)"

end
