(* ===== verification/Gdisk_Store.thy ===== *)
theory Gdisk_Store
  imports Gdisk_Gpt
begin

text \<open>
  What \<open>GPT_load\<close> and \<open>GPT_store\<close> guarantee: the byte layouts decode to what was
  encoded, the two loops over the entries transfer them in blocks of four, what is
  stored is loaded again from either copy, and nothing outside the two metadata areas of
  the disk is written.
\<close>

section \<open>Layouts\<close>

lemma length_enc_uuid [layout]: "uuid_ok u \<Longrightarrow> length (enc_uuid u) = 16"
  by (simp add: enc_uuid_def uuid_ok_def)

lemma dec_enc_uuid:
  assumes "uuid_ok u"
  shows "dec_uuid (enc_uuid u) = u"
proof -
  have "length (node u) = 6" using assms by (simp add: uuid_ok_def)
  then show ?thesis
    by (simp add: dec_uuid_def enc_uuid_def layout bytes_at_skip [of "[x]" for x, simplified] bytes_at_def)
qed

lemma length_enc_header [layout]: "uuid_ok (h_guid h) \<Longrightarrow> length (enc_header h) = 92"
  by (simp add: enc_header_def layout)

lemma dec_enc_header:
  assumes "uuid_ok (h_guid h)"
  shows "dec_header (enc_header h @ rest) = h"
  using assms by (simp add: dec_header_def enc_header_def layout dec_enc_uuid)

lemma length_concat_le_enc2: "length (concat (map (\<lambda>w. le_enc 2 (unat (w :: u16))) ws)) = 2 * length ws"
  by (induction ws) auto

lemma bytes_at_le_enc2:
  "i < length ws \<Longrightarrow>
   bytes_at (2 * i) 2 (concat (map (\<lambda>w. le_enc 2 (unat (w :: u16))) ws)) = le_enc 2 (unat (ws ! i))"
proof (induction ws arbitrary: i)
  case (Cons w ws)
  then show ?case by (cases i) (auto simp: layout)
qed simp

lemma length_enc_part [layout]: "part_ok p \<Longrightarrow> length (enc_part p) = 128"
  by (simp add: enc_part_def part_ok_def layout length_concat_le_enc2)

lemma dec_enc_part:
  assumes "part_ok p"
  shows "dec_part (enc_part p) = p"
proof -
  have l: "length (p_name p) = 36" and u: "uuid_ok (p_type p)" "uuid_ok (p_guid p)"
    using assms by (simp_all add: part_ok_def)
  have n: "map (\<lambda>i. of_nat (le_dec (bytes_at (56 + 2 * i) 2 (enc_part p)))) [0..<36] = p_name p"
  proof (rule nth_equalityI)
    fix i
    assume "i < length (map (\<lambda>i. of_nat (le_dec (bytes_at (56 + 2 * i) 2 (enc_part p))) :: u16) [0..<36])"
    then have i: "i < 36" by simp
    have "bytes_at (56 + 2 * i) 2 (enc_part p) = le_enc 2 (unat (p_name p ! i))"
      using bytes_at_le_enc2 [of i "p_name p"] i l u by (simp add: enc_part_def layout)
    then show "map (\<lambda>i. of_nat (le_dec (bytes_at (56 + 2 * i) 2 (enc_part p)))) [0..<36] ! i = p_name p ! i"
      using i by simp
  qed (use l in simp)
  show ?thesis
    using u n by (simp add: dec_part_def) (simp add: enc_part_def layout dec_enc_uuid)
qed

section \<open>Blocks of four entries\<close>

definition pad :: "u8 list \<Rightarrow> u8 list" where
  "pad bs = bs @ replicate (DEV_BSIZE - length bs) 0"

definition entry_bytes :: "gpt_partition list \<Rightarrow> u8 list" where
  "entry_bytes ps = concat (map enc_part ps)"

fun entry_blocks :: "gpt_partition list \<Rightarrow> u8 list list" where
  "entry_blocks ps = (if ps = [] then [] else pad (entry_bytes (take 4 ps)) # entry_blocks (drop 4 ps))"

declare entry_blocks.simps [simp del]

lemma entry_blocks_Nil [simp]: "entry_blocks [] = []"
  by (simp add: entry_blocks.simps)

lemma length_entry_bytes [layout]: "list_all part_ok ps \<Longrightarrow> length (entry_bytes ps) = 128 * length ps"
  by (induction ps) (auto simp: entry_bytes_def layout)

lemma length_pad [layout]: "length bs \<le> DEV_BSIZE \<Longrightarrow> length (pad bs) = DEV_BSIZE"
  by (simp add: pad_def)

lemma list_all_take: "list_all P xs \<Longrightarrow> list_all P (take n xs)"
  by (auto simp: list_all_iff dest: in_set_takeD)

lemma list_all_drop: "list_all P xs \<Longrightarrow> list_all P (drop n xs)"
  by (auto simp: list_all_iff dest: in_set_dropD)

lemma length_entry_block:
  "list_all part_ok ps \<Longrightarrow> b \<in> set (entry_blocks ps) \<Longrightarrow> length b = DEV_BSIZE"
proof (induction ps rule: entry_blocks.induct)
  case (1 ps)
  then show ?case
    by (subst (asm) (2) entry_blocks.simps)
       (auto simp: layout list_all_take list_all_drop DEV_BSIZE_def split: if_splits)
qed

lemma div4_step:
  assumes "0 < (n :: nat)"
  shows "Suc ((n - 4 + 3) div 4) = (n + 3) div 4"
proof (cases "4 \<le> n")
  case True
  then have "n + 3 = (n - 4 + 3) + 4" by simp
  then show ?thesis by (metis Suc_eq_plus1 div_add_self2 zero_neq_numeral)
next
  case False
  with assms have "n = 1 \<or> n = 2 \<or> n = 3" by auto
  then show ?thesis by auto
qed

lemma length_entry_blocks: "length (entry_blocks ps) = (length ps + 3) div 4"
proof (induction ps rule: entry_blocks.induct)
  case (1 ps)
  show ?case
  proof (cases "ps = []")
    case False
    with 1 show ?thesis
      by (simp add: entry_blocks.simps [of ps] div4_step)
  qed simp
qed

lemma nth_entry_blocks:
  "j < (length ps + 3) div 4 \<Longrightarrow> entry_blocks ps ! j = pad (entry_bytes (take 4 (drop (4 * j) ps)))"
proof (induction j arbitrary: ps)
  case 0
  then have "ps \<noteq> []" by auto
  then show ?case by (simp add: entry_blocks.simps [of ps])
next
  case (Suc j)
  then have "ps \<noteq> []" by auto
  then have "Suc ((length (drop 4 ps) + 3) div 4) = (length ps + 3) div 4"
    using div4_step [of "length ps"] by simp
  with Suc.prems have "j < (length (drop 4 ps) + 3) div 4" by simp
  with Suc.IH [of "drop 4 ps"] \<open>ps \<noteq> []\<close> show ?case
    by (simp add: entry_blocks.simps [of ps] add.commute)
qed

lemma overlay_entry:
  assumes "list_all part_ok acc" and "part_ok p" and "length acc < 4"
  shows "overlay (pad (entry_bytes acc)) (length acc * sizeof_part) (enc_part p) = pad (entry_bytes (acc @ [p]))"
proof -
  have l: "length (entry_bytes acc) = length acc * sizeof_part" "length (enc_part p) = 128"
    using assms by (simp_all add: layout sizeof_part_def)
  then have "DEV_BSIZE - length (entry_bytes acc) - 128 = DEV_BSIZE - length (entry_bytes (acc @ [p]))"
    using assms by (simp add: entry_bytes_def)
  with l show ?thesis
    by (simp add: overlay_def pad_def entry_bytes_def)
qed

lemma zero_block_pad: "zero_block = pad (entry_bytes [])"
  by (simp add: zero_block_def pad_def entry_bytes_def)

text \<open>Consecutive blocks written one after the other, stopping at the first failure.\<close>

fun write_blocks :: "('d \<Rightarrow> u64 \<Rightarrow> u8 list \<Rightarrow> bool \<times> 'd) \<Rightarrow> 'd \<Rightarrow> u64 \<Rightarrow> u8 list list \<Rightarrow> bool \<times> 'd" where
  "write_blocks wr d w [] = (True, d)"
| "write_blocks wr d w (b # bs) =
     (case wr d w b of (False, d') \<Rightarrow> (False, d') | (True, d') \<Rightarrow> write_blocks wr d' (w + 1) bs)"

lemma store_parts_blocks_aux:
  "list_all part_ok acc \<Longrightarrow> list_all part_ok ps \<Longrightarrow> length acc = i mod 4 \<Longrightarrow>
   store_parts e d plba ps i (pad (entry_bytes acc))
     = write_blocks (GPT_write e) d (plba + of_nat (i div 4)) (entry_blocks (acc @ ps))"
proof (induction ps arbitrary: acc i d)
  case Nil
  then have "acc = [] \<longleftrightarrow> i mod 4 = 0"
    by (metis length_0_conv)
  with Nil show ?case
    by (auto simp: entry_blocks.simps [of acc] split: prod.splits bool.splits)
next
  case (Cons p ps)
  have i4: "i mod 4 < 4" by simp
  note buf = overlay_entry [OF Cons.prems(1), of p, unfolded Cons.prems(3)]
  have ok: "part_ok p" "list_all part_ok ps" "list_all part_ok (acc @ [p])"
    using Cons.prems by simp_all
  show ?case
  proof (cases "i mod 4 = 3")
    case True
    then have d: "Suc i mod 4 = 0" "Suc i div 4 = Suc (i div 4)"
      by (simp_all add: mod_Suc div_Suc)
    have b: "entry_blocks (acc @ p # ps) = pad (entry_bytes (acc @ [p])) # entry_blocks ps"
      using Cons.prems(3) True by (simp add: entry_blocks.simps [of "acc @ p # ps"])
    show ?thesis
      using Cons.IH [of "[]" "Suc i"] ok d buf True
      by (simp add: b zero_block_pad add.assoc add.commute [of 1] split: prod.splits bool.splits)
  next
    case False
    then have "length (acc @ [p]) = Suc i mod 4" "Suc i div 4 = i div 4"
      using Cons.prems(3) i4 by (simp_all add: mod_Suc div_Suc)
    with Cons.IH [OF ok(3,2)] False buf ok show ?thesis
      by simp
  qed
qed

lemma store_parts_blocks:
  "list_all part_ok ps \<Longrightarrow>
   store_parts e d plba ps 0 zero_block = write_blocks (GPT_write e) d plba (entry_blocks ps)"
  using store_parts_blocks_aux [of "[]" ps 0 e d plba] by (simp add: zero_block_pad)

lemma bytes_at_entry:
  assumes "list_all part_ok ps" and "i < length ps"
  shows "bytes_at ((i mod 4) * sizeof_part) sizeof_part (entry_blocks ps ! (i div 4)) = enc_part (ps ! i)"
proof -
  let ?qs = "take 4 (drop (4 * (i div 4)) ps)"
  have i: "4 * (i div 4) + i mod 4 = i" by simp
  have lt: "i mod 4 < length ?qs"
    using assms(2) i mod_less_divisor [of 4 i] unfolding length_take length_drop by linarith
  have nth: "?qs ! (i mod 4) = ps ! i"
    using assms(2) by (simp add: i)
  have "i div 4 < (length ps + 3) div 4"
    using assms(2) by linarith
  then have b: "entry_blocks ps ! (i div 4) = pad (entry_bytes ?qs)"
    by (rule nth_entry_blocks)
  have ok: "list_all part_ok ?qs"
    using assms(1) by (simp add: list_all_take list_all_drop)
  have split: "entry_bytes ?qs = entry_bytes (take (i mod 4) ?qs) @ enc_part (ps ! i)
      @ entry_bytes (drop (Suc (i mod 4)) ?qs)"
    using id_take_nth_drop [OF lt] nth
    by (metis (no_types, lifting) concat.simps(2) concat_append entry_bytes_def list.simps(9) map_append)
  have l: "length (entry_bytes (take (i mod 4) ?qs)) = (i mod 4) * sizeof_part"
    using length_entry_bytes [OF list_all_take [OF ok], of "i mod 4"] lt
    by (simp add: sizeof_part_def)
  have "part_ok (ps ! i)"
    using assms by (simp add: list_all_length)
  then have "length (enc_part (ps ! i)) = sizeof_part"
    by (simp add: layout sizeof_part_def)
  then show ?thesis
    unfolding b split pad_def append_assoc using l by (simp add: bytes_at_skip bytes_at_0)
qed

lemma load_parts_blocks_aux:
  assumes ok: "list_all part_ok ps"
    and rd: "\<And>j. j < length (entry_blocks ps) \<Longrightarrow> GPT_read e d (plba + of_nat j) = Some (entry_blocks ps ! j)"
  shows "n + i = length ps \<Longrightarrow> (i mod 4 \<noteq> 0 \<longrightarrow> buf = entry_blocks ps ! (i div 4)) \<Longrightarrow>
    load_parts e d plba n i buf = Some (drop i ps)"
proof (induction n arbitrary: i buf)
  case (Suc n)
  then have i: "i < length ps" by simp
  then have j: "i div 4 < length (entry_blocks ps)"
    unfolding length_entry_blocks by linarith
  have b: "(if i mod 4 = 0 then GPT_read e d (plba + of_nat (i div 4)) else Some buf)
      = Some (entry_blocks ps ! (i div 4))"
    using rd [OF j] Suc.prems(2) by simp
  have "Suc i mod 4 \<noteq> 0 \<Longrightarrow> Suc i div 4 = i div 4"
    by (simp add: div_Suc)
  with Suc.IH [of "Suc i" "entry_blocks ps ! (i div 4)"] Suc.prems(1)
  have "load_parts e d plba n (Suc i) (entry_blocks ps ! (i div 4)) = Some (drop (Suc i) ps)"
    by simp
  moreover have "dec_part (enc_part (ps ! i)) = ps ! i"
    using ok i by (simp add: dec_enc_part list_all_length)
  ultimately show ?case
    unfolding load_parts.simps b using i by (simp add: bytes_at_entry [OF ok i] Cons_nth_drop_Suc)
qed simp

section \<open>The block device contract\<close>

text \<open>
  What the load and store loops need of the device: in a block that is \<open>good\<close> a write of a
  full block succeeds and is read back, and it changes no other good block.
\<close>

locale block_store =
  fixes rd :: "'d \<Rightarrow> u64 \<Rightarrow> u8 list option"
    and wr :: "'d \<Rightarrow> u64 \<Rightarrow> u8 list \<Rightarrow> bool \<times> 'd"
    and good :: "'d \<Rightarrow> u64 \<Rightarrow> bool"
  assumes write_succeeds: "good d w \<Longrightarrow> length b = DEV_BSIZE \<Longrightarrow> fst (wr d w b)"
    and read_written: "good d w \<Longrightarrow> length b = DEV_BSIZE \<Longrightarrow> rd (snd (wr d w b)) w = Some b"
    and read_other: "good d w \<Longrightarrow> good d v \<Longrightarrow> v \<noteq> w \<Longrightarrow> length b = DEV_BSIZE \<Longrightarrow>
      rd (snd (wr d w b)) v = rd d v"
    and good_kept: "good d w \<Longrightarrow> length b = DEV_BSIZE \<Longrightarrow> good (snd (wr d w b)) v = good d v"
begin

lemma write_blocks_good:
  assumes "\<forall>j < length bs. good d (w + of_nat j)" and "\<forall>b \<in> set bs. length b = DEV_BSIZE"
    and "length bs < 2 ^ 64"
  shows "fst (write_blocks wr d w bs)
    \<and> (\<forall>j < length bs. rd (snd (write_blocks wr d w bs)) (w + of_nat j) = Some (bs ! j))
    \<and> (\<forall>v. good d v \<longrightarrow> (\<forall>j < length bs. v \<noteq> w + of_nat j) \<longrightarrow> rd (snd (write_blocks wr d w bs)) v = rd d v)
    \<and> (\<forall>v. good (snd (write_blocks wr d w bs)) v = good d v)"
  using assms
proof (induction bs arbitrary: d w)
  case (Cons b bs)
  obtain d' where wr: "wr d w b = (True, d')"
    using write_succeeds [of d w b] Cons.prems by (cases "wr d w b") force
  have gd: "good d w" and lb: "length b = DEV_BSIZE"
    using Cons.prems(1,2) by force+
  have kept: "good d' v = good d v" for v
    using good_kept [OF gd lb] wr by simp
  have off: "w + 1 + of_nat j = w + of_nat (Suc j)" for j
    by simp
  have g': "\<forall>j < length bs. good d' (w + 1 + of_nat j)"
    unfolding kept off using Cons.prems(1) by auto
  have IH: "fst (write_blocks wr d' (w + 1) bs)"
    "\<forall>j < length bs. rd (snd (write_blocks wr d' (w + 1) bs)) (w + 1 + of_nat j) = Some (bs ! j)"
    "\<forall>v. good d' v \<longrightarrow> (\<forall>j < length bs. v \<noteq> w + 1 + of_nat j) \<longrightarrow>
       rd (snd (write_blocks wr d' (w + 1) bs)) v = rd d' v"
    "\<forall>v. good (snd (write_blocks wr d' (w + 1) bs)) v = good d' v"
    using Cons.IH [OF g'] Cons.prems(2,3) by simp_all
  have first: "w \<noteq> w + 1 + of_nat j" if "j < length bs" for j
    using that Cons.prems(3) unfolding off
    by (auto simp: word_of_nat_eq_0_iff simp del: of_nat_Suc dest!: dvd_imp_le)
  have "rd (snd (write_blocks wr d' (w + 1) bs)) w = Some b"
    using IH(3) first kept gd read_written [OF gd lb] wr by auto
  then have same: "\<forall>j < length (b # bs).
      rd (snd (write_blocks wr d' (w + 1) bs)) (w + of_nat j) = Some ((b # bs) ! j)"
    using IH(2) by (auto simp: less_Suc_eq_0_disj off simp del: of_nat_Suc)
  have "rd (snd (write_blocks wr d' (w + 1) bs)) v = rd d v"
    if "good d v" and "\<forall>j < length (b # bs). v \<noteq> w + of_nat j" for v
  proof -
    have "v \<noteq> w" and "\<forall>j < length bs. v \<noteq> w + 1 + of_nat j"
      using that(2) by (force, auto simp: off simp del: of_nat_Suc)
    then show ?thesis
      using IH(3) kept that(1) read_other [OF gd that(1) _ lb] wr by simp
  qed
  with same IH(1,4) kept wr show ?case by simp
qed simp

end

text \<open>
  A sector the hardware serves: it lies within the range of \<open>off_t\<close>, memory for one sector
  is available, and a read and a write transfer all of it.
\<close>

definition dev_good :: "genv \<Rightarrow> bdev \<Rightarrow> u64 \<Rightarrow> bool" where
  "dev_good e d w \<longleftrightarrow> DEV_BSIZE \<le> secsize e \<and> malloc_ok e (secsize e) \<and> unat w * secsize e < 2 ^ 63
     \<and> (case bd_read d (unat w) of None \<Rightarrow> False | Some bs \<Rightarrow> length bs = secsize e)
     \<and> bd_wlen d (unat w) = int (secsize e)"

lemma sector_of_small:
  assumes "0 < secsize e" and "unat w * secsize e < 2 ^ 63"
  shows "sector_of e w = Some (unat w)"
proof -
  have s: "secsize e \<le> unat w * secsize e \<or> unat w = 0"
    by (cases "unat w") simp_all
  show ?thesis
  proof (cases "unat w = 0")
    case False
    with s have "secsize e \<le> unat w * secsize e" by blast
    also have "\<dots> < 2 ^ 64"
      using assms(2) by simp
    finally have "secsize e < 2 ^ 64" .
    then have m: "unat (of_nat (secsize e) :: u64) = secsize e"
      by (simp add: unat_of_nat_small)
    then have "unat (w * of_nat (secsize e)) = unat w * secsize e"
      using assms(2) unat_mult_lem [of w "of_nat (secsize e)"] by simp
    then have "sint (w * of_nat (secsize e)) = int (unat w * secsize e)"
      using assms(2) by (simp add: sint_small)
    then show ?thesis
      using assms(1) by (simp add: sector_of_def Let_def del: of_nat_mult)
  next
    case True
    then have "w = 0" by (simp add: unat_eq_zero)
    then show ?thesis by (simp add: sector_of_def)
  qed
qed

lemma dev_good_sector: "dev_good e d w \<Longrightarrow> sector_of e w = Some (unat w)"
  by (rule sector_of_small) (auto simp: dev_good_def DEV_BSIZE_def)

lemma GPT_write_good:
  assumes "dev_good e d w" and "length b = DEV_BSIZE"
  obtains old where "bd_read d (unat w) = Some old" and "length old = secsize e"
    and "GPT_write e d w b
      = (True, d\<lparr>bd_read := (bd_read d)(unat w \<mapsto> b @ drop DEV_BSIZE old)\<rparr>)"
proof -
  from assms(1) obtain old where old: "bd_read d (unat w) = Some old" "length old = secsize e"
    by (auto simp: dev_good_def split: option.splits)
  have "length (b @ drop DEV_BSIZE old) = secsize e"
    using assms old(2) by (auto simp: dev_good_def)
  then have "GPT_write e d w b
      = (True, d\<lparr>bd_read := (bd_read d)(unat w \<mapsto> b @ drop DEV_BSIZE old)\<rparr>)"
    using assms(1) assms(2) [symmetric] old dev_good_sector [OF assms(1)]
    by (simp add: GPT_write_def dev_good_def)
  with old that show ?thesis by blast
qed

lemma GPT_read_good:
  "dev_good e d w \<Longrightarrow> GPT_read e d w = map_option (take DEV_BSIZE) (bd_read d (unat w))"
  by (auto simp: GPT_read_def dev_good_sector) (auto simp: dev_good_def split: option.splits)

lemma dev_good_written:
  assumes "dev_good e d w" and "length b = DEV_BSIZE"
  shows "dev_good e (snd (GPT_write e d w b)) v = dev_good e d v"
proof -
  obtain old where "bd_read d (unat w) = Some old" "length old = secsize e"
    and "GPT_write e d w b
      = (True, d\<lparr>bd_read := (bd_read d)(unat w \<mapsto> b @ drop DEV_BSIZE old)\<rparr>)"
    using GPT_write_good [OF assms] by blast
  with assms show ?thesis by (auto simp: dev_good_def)
qed

interpretation gptdev: block_store "GPT_read e" "GPT_write e" "dev_good e" for e
proof
  fix d w v b
  assume g: "dev_good e d w" and l: "length (b :: u8 list) = DEV_BSIZE"
  obtain old where old: "bd_read d (unat w) = Some old" "length old = secsize e"
    and wr: "GPT_write e d w b
      = (True, d\<lparr>bd_read := (bd_read d)(unat w \<mapsto> b @ drop DEV_BSIZE old)\<rparr>)"
    using GPT_write_good [OF g l] by blast
  show "fst (GPT_write e d w b)" using wr by simp
  show kept: "dev_good e (snd (GPT_write e d w b)) v = dev_good e d v" for v
    by (rule dev_good_written [OF g l])
  show "GPT_read e (snd (GPT_write e d w b)) w = Some b"
    using GPT_read_good [of e "snd (GPT_write e d w b)" w] kept g wr l by simp
  show "GPT_read e (snd (GPT_write e d w b)) v = GPT_read e d v" if "dev_good e d v" and "v \<noteq> w"
  proof -
    have "unat v \<noteq> unat w" using that(2) by (simp add: word_unat_eq_iff)
    then show ?thesis
      using GPT_read_good [of e "snd (GPT_write e d w b)" v] GPT_read_good [OF that(1)] kept that(1) wr
      by simp
  qed
qed

section \<open>Stored and loaded again\<close>

definition header_block :: "gpt_header \<Rightarrow> u8 list" where
  "header_block h = overlay zero_block 0 (enc_header h)"

lemma length_header_block: "uuid_ok (h_guid h) \<Longrightarrow> length (header_block h) = DEV_BSIZE"
  by (simp add: header_block_def overlay_def zero_block_def layout DEV_BSIZE_def)

lemma dec_header_block: "uuid_ok (h_guid h) \<Longrightarrow> dec_header (header_block h) = h"
  by (simp add: header_block_def overlay_def dec_enc_header)

text \<open>
  A copy of the GPT on the device: the header block at \<open>current_lba\<close> and the entries from
  \<open>partitions_lba\<close> on.
\<close>

definition copy_on :: "genv \<Rightarrow> bdev \<Rightarrow> gpt_header \<Rightarrow> gpt_partition list \<Rightarrow> bool" where
  "copy_on e d h ps \<longleftrightarrow> GPT_read e d (h_current_lba h) = Some (header_block h)
     \<and> (\<forall>j < length (entry_blocks ps).
          GPT_read e d (h_partitions_lba h + of_nat j) = Some (entry_blocks ps ! j))"

definition table_lbas :: "gpt_header \<Rightarrow> gpt_partition list \<Rightarrow> u64 set" where
  "table_lbas h ps = {h_partitions_lba h + of_nat j | j. j < length (entry_blocks ps)}"

definition copy_lbas :: "gpt_header \<Rightarrow> gpt_partition list \<Rightarrow> u64 set" where
  "copy_lbas h ps = insert (h_current_lba h) (table_lbas h ps)"

lemma copy_on_cong:
  assumes "copy_on e d h ps" and "\<And>v. v \<in> copy_lbas h ps \<Longrightarrow> GPT_read e d' v = GPT_read e d v"
  shows "copy_on e d' h ps"
proof -
  have "GPT_read e d' (h_current_lba h) = GPT_read e d (h_current_lba h)"
    by (rule assms(2)) (simp add: copy_lbas_def)
  moreover have "GPT_read e d' (h_partitions_lba h + of_nat j) = GPT_read e d (h_partitions_lba h + of_nat j)"
    if "j < length (entry_blocks ps)" for j
    using that by (intro assms(2)) (auto simp: copy_lbas_def table_lbas_def)
  ultimately show ?thesis
    using assms(1) by (simp add: copy_on_def)
qed

lemma store_copy_good:
  assumes ok: "uuid_ok (h_guid h)" "list_all part_ok ps"
    and good: "\<forall>w \<in> copy_lbas h ps. dev_good e d w"
    and apart: "h_current_lba h \<notin> table_lbas h ps" and small: "length ps < 2 ^ 32"
  shows "\<exists>d'. store_copy e d h ps = (True, d') \<and> copy_on e d' h ps
    \<and> (\<forall>v. dev_good e d v \<longrightarrow> v \<notin> copy_lbas h ps \<longrightarrow> GPT_read e d' v = GPT_read e d v)
    \<and> (\<forall>v. dev_good e d' v = dev_good e d v)"
proof -
  let ?c = "h_current_lba h"
  define d1 where "d1 = snd (GPT_write e d ?c (header_block h))"
  define d2 where "d2 = snd (write_blocks (GPT_write e) d1 (h_partitions_lba h) (entry_blocks ps))"
  have gc: "dev_good e d ?c" and lc: "length (header_block h) = DEV_BSIZE"
    using good ok by (simp_all add: copy_lbas_def length_header_block)
  have w1: "GPT_write e d ?c (header_block h) = (True, d1)"
    using gptdev.write_succeeds [OF gc lc] unfolding d1_def by (metis prod.collapse)
  have kept1: "dev_good e d1 v = dev_good e d v" for v
    unfolding d1_def by (rule gptdev.good_kept [OF gc lc])
  have len: "length (entry_blocks ps) < 2 ^ 64"
    using small by (simp add: length_entry_blocks)
  have gt: "\<forall>j < length (entry_blocks ps). dev_good e d1 (h_partitions_lba h + of_nat j)"
    using good kept1 by (auto simp: copy_lbas_def table_lbas_def)
  have lb: "\<forall>b \<in> set (entry_blocks ps). length b = DEV_BSIZE"
    using ok(2) by (simp add: length_entry_block)
  note w2 = gptdev.write_blocks_good [OF gt lb len, folded d2_def]
  have eq: "store_copy e d h ps = (True, d2)"
    using w2 unfolding store_copy_def header_block_def [symmetric] w1 d2_def
    by (simp add: store_parts_blocks [OF ok(2)] prod_eq_iff)
  have c: "GPT_read e d2 ?c = Some (header_block h)"
    using w2 apart kept1 gc gptdev.read_written [OF gc lc, folded d1_def]
    by (auto simp: table_lbas_def)
  have frame: "GPT_read e d2 v = GPT_read e d v" if "dev_good e d v" "v \<notin> copy_lbas h ps" for v
    using w2 that kept1 gptdev.read_other [OF gc that(1) _ lc, folded d1_def]
    by (auto simp: copy_lbas_def table_lbas_def)
  show ?thesis
    using eq c w2 frame kept1 by (auto simp: copy_on_def)
qed

text \<open>What \<open>load_rest\<close> checks of a header.\<close>

definition header_valid :: "genv \<Rightarrow> gpt_header \<Rightarrow> gpt_partition list \<Rightarrow> bool" where
  "header_valid e h ps \<longleftrightarrow> uuid_ok (h_guid h) \<and> h_signature h = GPT_SIGNATURE
     \<and> unat (h_header_size h) \<le> sizeof_header \<and> header_crc e h = h_header_checksum h
     \<and> unat (h_partitions_size h) = sizeof_part \<and> parts_crc e h ps = h_partitions_checksum h
     \<and> unat (h_partitions_num h) = length ps"

lemma load_rest_copy:
  assumes "header_valid e h ps" and "list_all part_ok ps" and "copy_on e d h ps"
    and "malloc_ok e (length ps * sizeof_part)"
  shows "load_rest e d (header_block h) = Inr (h, ps)"
proof -
  have h: "dec_header (header_block h) = h"
    using assms(1) by (simp add: header_valid_def dec_header_block)
  have "load_parts e d (h_partitions_lba h) (length ps) 0 (header_block h) = Some (drop 0 ps)"
    using assms(2,3) by (intro load_parts_blocks_aux) (auto simp: copy_on_def)
  with assms(1,4) show ?thesis
    by (simp add: load_rest_def h header_valid_def)
qed

lemma header_crc_checksum: "header_crc e (h\<lparr>h_header_checksum := c\<rparr>) = header_crc e h"
  by (simp add: header_crc_def)

lemma parts_crc_cong:
  "h_partitions_num h = h_partitions_num h' \<Longrightarrow> h_partitions_size h = h_partitions_size h' \<Longrightarrow>
   parts_crc e h ps = parts_crc e h' ps"
  by (simp add: parts_crc_def)

lemma primary_header_valid:
  assumes "uuid_ok (h_guid h)" and "unat (h_partitions_num h) = length ps"
  shows "header_valid e (primary_header e dsize (store_bounds dsize h) ps) ps"
  using assms
  by (simp add: header_valid_def primary_header_def store_bounds_def Let_def header_crc_checksum
      sizeof_header_def sizeof_part_def) (simp add: parts_crc_def header_crc_def)

lemma backup_header_valid: "header_valid e h ps \<Longrightarrow> header_valid e (backup_header e dsize h) ps"
  by (simp add: header_valid_def backup_header_def Let_def header_crc_checksum) (simp add: parts_crc_def)

text \<open>
  A GPT that \<open>GPT_store\<close> accepts on a disk of \<open>dsize\<close> sectors all of which work: the header
  is at LBA 1 or has its backup there, both copies fit, and every entry in use lies in the
  usable area. (The bound on the number of entries keeps their size below \<open>2^32\<close> bytes.)
\<close>

definition storable :: "genv \<Rightarrow> bdev \<Rightarrow> u64 \<Rightarrow> gpt_header \<Rightarrow> gpt_partition list \<Rightarrow> bool" where
  "storable e d dsize h ps \<longleftrightarrow> uuid_ok (h_guid h) \<and> list_all part_ok ps
     \<and> unat (h_partitions_num h) = length ps \<and> length ps < 2 ^ 25
     \<and> (h_current_lba h = 1 \<or> h_backup_lba h = 1)
     \<and> 2 * ((length ps + 3) div 4) + 3 \<le> unat dsize
     \<and> list_all (\<lambda>p. \<not> out_of_bounds (store_bounds dsize h) p) ps
     \<and> (\<forall>w < dsize. dev_good e d w)
     \<and> malloc_ok e sizeof_header \<and> malloc_ok e (length ps * sizeof_part)"

lemma div4_bound: "n < 2 ^ 25 \<Longrightarrow> (n + 3) div 4 < (2 :: nat) ^ 24"
  by (rule less_mult_imp_div_less) simp

lemma unat_lbas_needed:
  assumes "unat (h_partitions_num h) = n" and "n < 2 ^ 25"
  shows "unat (lbas_needed h) = (n + 3) div 4 + 1"
proof -
  have "unat (h_partitions_num h + 3) = n + 3"
    using assms by (subst unat_plus_small) auto
  then have "unat ((h_partitions_num h + 3) div 4) = (n + 3) div 4"
    by (simp add: unat_div)
  moreover have "(n + 3) div 4 + 1 < 2 ^ 32"
    using div4_bound [OF assms(2)] by simp
  ultimately show ?thesis
    unfolding lbas_needed_def by (subst add.commute, subst unat_plus_small) simp_all
qed

lemma store_geometry:
  assumes "unat (h_partitions_num h) = n" and "n < 2 ^ 25" and k: "k = (n + 3) div 4"
  shows "unat (scast (lbas_needed h + 1) :: u64) = k + 2"
    and "unat (scast (lbas_needed h + lbas_needed h + 1) :: u64) = 2 * k + 3"
proof -
  have need: "unat (lbas_needed h) = k + 1"
    using unat_lbas_needed [OF assms(1,2)] k by simp
  have k25: "k < 2 ^ 24"
    using div4_bound [OF assms(2)] k by simp
  have a: "unat (lbas_needed h + 1) = k + 2"
    using need k25 by (subst unat_plus_small) auto
  have b: "unat (lbas_needed h + lbas_needed h) = 2 * k + 2"
    using need k25 by (subst unat_plus_small) auto
  have c: "unat (lbas_needed h + lbas_needed h + 1) = 2 * k + 3"
    using b k25 by (subst unat_plus_small) auto
  show "unat (scast (lbas_needed h + 1) :: u64) = k + 2"
    using a k25 by (subst unat_scast_small) auto
  show "unat (scast (lbas_needed h + lbas_needed h + 1) :: u64) = 2 * k + 3"
    using c k25 by (subst unat_scast_small) auto
qed

lemma table_lbas_unat:
  assumes "w \<in> table_lbas h ps" and "unat (h_partitions_lba h) + length (entry_blocks ps) < 2 ^ 64"
  shows "unat (h_partitions_lba h) \<le> unat w"
    and "unat w < unat (h_partitions_lba h) + length (entry_blocks ps)"
proof -
  obtain j where j: "j < length (entry_blocks ps)" "w = h_partitions_lba h + of_nat j"
    using assms(1) by (auto simp: table_lbas_def)
  then have "unat (of_nat j :: u64) = j"
    using assms(2) by (simp add: unat_of_nat_small)
  then have "unat w = unat (h_partitions_lba h) + j"
    using j assms(2) by (simp add: unat_plus_small)
  then show "unat (h_partitions_lba h) \<le> unat w"
    and "unat w < unat (h_partitions_lba h) + length (entry_blocks ps)"
    using j by simp_all
qed

lemma primary_header_lbas [simp]:
  "h_current_lba (primary_header e s h ps) = 1"
  "h_partitions_lba (primary_header e s h ps) = 2"
  "h_end_lba (primary_header e s h ps) = h_end_lba h"
  "h_backup_lba (primary_header e s h ps) = s - 1"
  by (simp_all add: primary_header_def Let_def)

lemma backup_header_lbas [simp]:
  "h_current_lba (backup_header e s h) = s - 1"
  "h_partitions_lba (backup_header e s h) = h_end_lba h + 1"
  by (simp_all add: backup_header_def Let_def)

text \<open>The sectors of the two copies, as numbers, on a disk of \<open>dsize\<close> sectors.\<close>

lemma copies_geometry:
  fixes dsize :: u64 and e :: genv
  assumes n: "unat (h_partitions_num h) = length ps" "length ps < 2 ^ 25"
    and k: "k = (length ps + 3) div 4" and D: "2 * k + 3 \<le> unat dsize"
  defines "hp \<equiv> primary_header e dsize (store_bounds dsize h) ps"
  defines "hb \<equiv> backup_header e dsize hp"
  shows "w \<in> copy_lbas hp ps \<Longrightarrow> 1 \<le> unat w \<and> unat w \<le> k + 1"
    and "w \<in> copy_lbas hb ps \<Longrightarrow> unat dsize - 1 - k \<le> unat w \<and> unat w \<le> unat dsize - 1"
    and "h_current_lba hp \<notin> table_lbas hp ps"
    and "h_current_lba hb \<notin> table_lbas hb ps"
    and "unat (h_current_lba hb) = unat dsize - 1"
    and "unat (h_start_lba hp) = k + 2" and "unat (h_end_lba hp) = unat dsize - (k + 2)"
proof -
  have len: "length (entry_blocks ps) = k"
    using k by (simp add: length_entry_blocks)
  have k24: "k < 2 ^ 24"
    using div4_bound [OF n(2)] k by simp
  have c2: "unat (scast (lbas_needed h + 1) :: u64) = k + 2"
    by (rule store_geometry(1) [OF n k])
  have le: "scast (lbas_needed h + 1) \<le> dsize"
    using c2 D by (simp add: word_le_nat_alt)
  have D64: "unat dsize < 2 ^ 64"
    using unat_word_less [of dsize] by simp
  show e: "unat (h_end_lba hp) = unat dsize - (k + 2)"
    using c2 le by (simp add: hp_def store_bounds_def unat_minus_small)
  show "unat (h_start_lba hp) = k + 2"
    using c2 by (simp add: hp_def primary_header_def store_bounds_def Let_def)
  have p: "unat (h_partitions_lba hb) = unat dsize - 1 - k"
    using e D D64 unfolding hb_def backup_header_lbas by (subst unat_plus_small) auto
  have one: "(1 :: u64) \<le> dsize"
    using D by (simp add: word_le_nat_alt)
  show c: "unat (h_current_lba hb) = unat dsize - 1"
    using one by (simp add: hb_def unat_minus_small)
  have t: "unat (h_partitions_lba hb) + length (entry_blocks ps) < 2 ^ 64"
    using p len D D64 by simp
  have t': "unat (h_partitions_lba hp) + length (entry_blocks ps) < 2 ^ 64"
    using len k24 by (simp add: hp_def)
  note th = table_lbas_unat [OF _ t, unfolded p len] and tp = table_lbas_unat [OF _ t', unfolded len]
  show "h_current_lba hp \<notin> table_lbas hp ps"
    using tp(1) [of 1] by (auto simp: hp_def)
  show "h_current_lba hb \<notin> table_lbas hb ps"
    using th(2) [of "h_current_lba hb"] c D by auto
  show "1 \<le> unat w \<and> unat w \<le> k + 1" if "w \<in> copy_lbas hp ps"
    using that tp [of w] by (auto simp: copy_lbas_def hp_def)
  show "unat dsize - 1 - k \<le> unat w \<and> unat w \<le> unat dsize - 1" if "w \<in> copy_lbas hb ps"
    using that th [of w] c D by (auto simp: copy_lbas_def)
qed

abbreviation stored_primary :: "genv \<Rightarrow> u64 \<Rightarrow> gpt_header \<Rightarrow> gpt_partition list \<Rightarrow> gpt_header" where
  "stored_primary e dsize h ps \<equiv> primary_header e dsize (store_bounds dsize h) ps"

abbreviation stored_backup :: "genv \<Rightarrow> u64 \<Rightarrow> gpt_header \<Rightarrow> gpt_partition list \<Rightarrow> gpt_header" where
  "stored_backup e dsize h ps \<equiv> backup_header e dsize (stored_primary e dsize h ps)"

lemma GPT_store_unfold:
  assumes "storable e d dsize h ps"
  shows "GPT_store e d dsize h ps =
    (case store_copy e d (stored_primary e dsize h ps) ps of
       (False, d1) \<Rightarrow> Ret (False, d1, stored_primary e dsize h ps)
     | (True, d1) \<Rightarrow>
         (case store_copy e d1 (stored_backup e dsize h ps) ps of
            (r, d2) \<Rightarrow> Ret (r, d2, stored_backup e dsize h ps)))"
proof -
  have n: "unat (h_partitions_num h) = length ps" "length ps < 2 ^ 25"
    and D: "2 * ((length ps + 3) div 4) + 3 \<le> unat dsize"
    using assms by (simp_all add: storable_def)
  have "\<not> dsize < scast (lbas_needed h + lbas_needed h + 1)"
    using store_geometry(2) [OF n refl] D by (simp add: word_less_nat_alt)
  moreover have "\<not> list_ex (out_of_bounds (store_bounds dsize h)) ps"
    using assms by (auto simp: storable_def list_all_iff list_ex_iff)
  moreover have "\<not> (h_current_lba h \<noteq> 1 \<and> h_backup_lba h \<noteq> 1)"
    using assms by (auto simp: storable_def)
  ultimately show ?thesis
    using n unfolding GPT_store_def Let_def by (simp only: if_False take_all order_refl less_irrefl)
qed

lemma GPT_store_good:
  assumes st: "storable e d dsize h ps"
  shows "\<exists>d'. GPT_store e d dsize h ps = Ret (True, d', stored_backup e dsize h ps)
    \<and> copy_on e d' (stored_primary e dsize h ps) ps \<and> copy_on e d' (stored_backup e dsize h ps) ps
    \<and> (\<forall>v. dev_good e d' v = dev_good e d v) \<and> (0 < dsize \<longrightarrow> GPT_read e d' 0 = GPT_read e d 0)"
proof -
  let ?hp = "stored_primary e dsize h ps" and ?hb = "stored_backup e dsize h ps"
  let ?k = "(length ps + 3) div 4"
  have n: "unat (h_partitions_num h) = length ps" "length ps < 2 ^ 25" and ok: "list_all part_ok ps"
    and D: "2 * ?k + 3 \<le> unat dsize" and good: "\<forall>w < dsize. dev_good e d w"
    and u: "uuid_ok (h_guid ?hp)" "uuid_ok (h_guid ?hb)"
    using st by (simp_all add: storable_def primary_header_def store_bounds_def backup_header_def Let_def)
  note geo = copies_geometry [OF n refl D, where e = e]
  have in_p: "w < dsize" if "w \<in> copy_lbas ?hp ps" for w
    using geo(1) [OF that] D by (simp add: word_less_nat_alt)
  have in_b: "w < dsize" if "w \<in> copy_lbas ?hb ps" for w
    unfolding word_less_nat_alt using geo(2) [OF that] D by linarith
  have apart: "w \<notin> copy_lbas ?hb ps" if "w \<in> copy_lbas ?hp ps" for w
    using geo(1) [OF that] geo(2) [of w] D by auto
  have small: "length ps < 2 ^ 32"
    using n(2) by simp
  have "\<forall>w \<in> copy_lbas ?hp ps. dev_good e d w"
    using in_p good by blast
  from store_copy_good [OF u(1) ok this geo(3) small] obtain d1
    where d1: "store_copy e d ?hp ps = (True, d1)" "copy_on e d1 ?hp ps" "\<forall>v. dev_good e d1 v = dev_good e d v"
      "\<forall>v. dev_good e d v \<longrightarrow> v \<notin> copy_lbas ?hp ps \<longrightarrow> GPT_read e d1 v = GPT_read e d v"
    by blast
  have "\<forall>w \<in> copy_lbas ?hb ps. dev_good e d1 w"
    using in_b good d1(3) by blast
  from store_copy_good [OF u(2) ok this geo(4) small] obtain d2
    where d2: "store_copy e d1 ?hb ps = (True, d2)" "copy_on e d2 ?hb ps"
      "\<forall>v. dev_good e d1 v \<longrightarrow> v \<notin> copy_lbas ?hb ps \<longrightarrow> GPT_read e d2 v = GPT_read e d1 v"
      "\<forall>v. dev_good e d2 v = dev_good e d1 v"
    by blast
  have same: "GPT_read e d2 v = GPT_read e d1 v" if "v \<in> copy_lbas ?hp ps" for v
    using d2(3) apart [OF that] in_p [OF that] good d1(3) by blast
  have "copy_on e d2 ?hp ps"
    using d1(2) same by (rule copy_on_cong)
  moreover have "(0 :: u64) \<notin> copy_lbas ?hp ps" "(0 :: u64) \<notin> copy_lbas ?hb ps"
    using geo(1) [of 0] geo(2) [of 0] D by auto
  then have "0 < dsize \<longrightarrow> GPT_read e d2 0 = GPT_read e d 0"
    using d1(3,4) d2(3) good by simp
  ultimately show ?thesis
    using GPT_store_unfold [OF st] d1(1,3) d2(1,2,4) by auto
qed

lemma GPT_load_primary:
  assumes "header_valid e h ps" and "list_all part_ok ps" and "copy_on e d h ps" and "h_current_lba h = 1"
    and "malloc_ok e sizeof_header" and "malloc_ok e (length ps * sizeof_part)" and "1 < dsize"
  shows "GPT_load e d dsize False = Inr (h, ps)"
  using load_rest_copy [OF assms(1-3,6)] assms(3-5,7)
  by (simp add: GPT_load_def copy_on_def)

text \<open>
  C1: What gdisk writes it reads back: for every GPT that passes the checks of \<open>GPT_store\<close> on a
  working disk, storing succeeds, and loading from the primary header then yields exactly the
  entries that were stored and the header as it was completed for writing. This holds for
  every checksum function.
\<close>

theorem GPT_store_then_load:
  assumes "storable e d dsize h ps"
  shows "\<exists>d' h'. GPT_store e d dsize h ps = Ret (True, d', h')
    \<and> GPT_load e d' dsize False = Inr (primary_header e dsize (store_bounds dsize h) ps, ps)"
proof -
  obtain d' where d': "GPT_store e d dsize h ps = Ret (True, d', stored_backup e dsize h ps)"
    "copy_on e d' (stored_primary e dsize h ps) ps"
    using GPT_store_good [OF assms] by blast
  have "header_valid e (stored_primary e dsize h ps) ps"
    using assms by (intro primary_header_valid) (simp_all add: storable_def)
  moreover have "1 < dsize"
    using assms by (simp add: storable_def word_less_nat_alt)
  ultimately have "GPT_load e d' dsize False = Inr (stored_primary e dsize h ps, ps)"
    using assms d'(2) by (intro GPT_load_primary) (simp_all add: storable_def)
  with d'(1) show ?thesis by blast
qed

text \<open>A small GPT on a blank disk of 64 sectors, for the concrete instances.\<close>

definition blank_dev :: bdev where
  "blank_dev = \<lparr>bd_read = (\<lambda>_. Some (replicate 512 0)), bd_wlen = (\<lambda>_. 512)\<rparr>"

definition small_header :: gpt_header where
  "small_header = zero_header\<lparr>h_current_lba := 1, h_partitions_num := 2\<rparr>"

definition small_parts :: "gpt_partition list" where
  "small_parts = [zero_part, (PRT_set_type_by_pid zero_part 0xa600)\<lparr>p_start_lba := 4, p_end_lba := 10\<rparr>]"

lemma blank_dev_good: "dev_good env0 blank_dev w" if "w < 64"
  using that by (simp add: dev_good_def env0_def blank_dev_def DEV_BSIZE_def word_less_nat_alt)

lemma small_storable: "storable env0 blank_dev 64 small_header small_parts"
proof -
  have "list_all part_ok small_parts"
    by (simp add: small_parts_def part_ok_set_type part_ok_zero)
  moreover have "list_all (\<lambda>p. \<not> out_of_bounds (store_bounds 64 small_header) p) small_parts"
    by (simp add: small_parts_def out_of_bounds_def store_bounds_def lbas_needed_def small_header_def zero_part_def
        uuid_is_nil_def nil_uuid_def)
  ultimately show ?thesis
    using blank_dev_good
    by (simp add: storable_def small_header_def small_parts_def zero_header_def env0_def)
qed

theorem GPT_store_then_load_witness:
  "storable env0 blank_dev 64 small_header small_parts \<and>
   (\<exists>d' h'. GPT_store env0 blank_dev 64 small_header small_parts = Ret (True, d', h')
    \<and> GPT_load env0 d' 64 False
        = Inr (primary_header env0 64 (store_bounds 64 small_header) small_parts, small_parts))"
  using GPT_store_then_load [OF small_storable] small_storable by blast

text \<open>
  C16: The backup copy is as good: on a disk of at most \<open>2^31\<close> sectors, loading from the backup
  header after a store yields the same entries and the backup header that was written.
\<close>

theorem GPT_store_then_load_backup:
  assumes st: "storable e d dsize h ps" and big: "unat dsize \<le> 2 ^ 31"
  shows "\<exists>d' h'. GPT_store e d dsize h ps = Ret (True, d', h') \<and> GPT_load e d' dsize True = Inr (h', ps)"
proof -
  let ?hp = "stored_primary e dsize h ps" and ?hb = "stored_backup e dsize h ps"
  obtain d' where d': "GPT_store e d dsize h ps = Ret (True, d', ?hb)"
    "copy_on e d' ?hp ps" "copy_on e d' ?hb ps"
    using GPT_store_good [OF st] by blast
  have v: "header_valid e ?hp ps"
    using st by (intro primary_header_valid) (simp_all add: storable_def)
  then have u: "uuid_ok (h_guid ?hp)" by (simp add: header_valid_def)
  have D: "1 < unat dsize" "(1 :: u64) \<le> dsize"
    using st by (simp_all add: storable_def word_le_nat_alt)
  define b where "b = dsize - 1"
  have b: "unat b = unat dsize - 1"
    unfolding b_def using D by (simp add: unat_minus_small)
  have b32: "unat (ucast b :: u32) = unat b"
    using b big by (simp add: unsigned_ucast_eq take_bit_nat_eq_self)
  then have "unat (scast (ucast b :: u32) :: u64) = unat b"
    using b big D by (subst unat_scast_small) auto
  then have off: "scast (ucast b :: u32) = b"
    by (simp add: word_unat_eq_iff)
  have rb: "GPT_read e d' b = Some (header_block ?hb)" and r1: "GPT_read e d' 1 = Some (header_block ?hp)"
    using d'(2,3) unfolding b_def by (simp_all add: copy_on_def)
  have "\<not> b \<ge> dsize" "\<not> 1 \<ge> dsize"
    using b D by (simp_all add: word_le_nat_alt not_le)
  moreover have "load_rest e d' (header_block ?hb) = Inr (?hb, ps)"
    using st d'(3) backup_header_valid [OF v] by (intro load_rest_copy) (simp_all add: storable_def)
  ultimately have "GPT_load e d' dsize True = Inr (?hb, ps)"
    using r1 rb off st dec_header_block [OF u]
    by (simp add: GPT_load_def storable_def b_def [symmetric])
  with d'(1) show ?thesis by blast
qed

theorem GPT_store_then_load_backup_witness:
  "\<exists>d' h'. GPT_store env0 blank_dev 64 small_header small_parts = Ret (True, d', h')
    \<and> GPT_load env0 d' 64 True = Inr (h', small_parts)"
  using GPT_store_then_load_backup [OF small_storable] by simp

end
