(* ===== verification/Gdisk_Table.thy ===== *)
theory Gdisk_Table
  imports Gdisk_Store
begin

text \<open>
  The partition table as a whole: what a successful \<open>GPT_load\<close> guarantees, what
  \<open>GPT_store\<close> never touches, how \<open>GPT_fillremaining\<close> finds free space, that a fresh GPT
  from \<open>GPT_init\<close> can be stored, and what \<open>GPT_verify\<close> accepts without a question.
\<close>

section \<open>A loaded GPT\<close>

text \<open>The invariant of a GPT in memory: the entry array has the extent the header says.\<close>

definition gpt_ok :: "gpt_header \<Rightarrow> gpt_partition list \<Rightarrow> bool" where
  "gpt_ok h ps \<longleftrightarrow> length ps = unat (h_partitions_num h) \<and> list_all part_ok ps \<and> uuid_ok (h_guid h)"

lemma dec_uuid_ok: "length bs = 16 \<Longrightarrow> uuid_ok (dec_uuid bs)"
  by (simp add: uuid_ok_def dec_uuid_def layout)

lemma dec_part_ok: "length bs = 128 \<Longrightarrow> part_ok (dec_part bs)"
  by (simp add: part_ok_def dec_part_def dec_uuid_ok layout)

lemma GPT_read_length: "GPT_read e d w = Some bs \<Longrightarrow> length bs = DEV_BSIZE"
  by (auto simp: GPT_read_def split: option.splits if_splits)

lemma load_parts_ok:
  "load_parts e d plba n i buf = Some ps \<Longrightarrow> length buf = DEV_BSIZE
   \<Longrightarrow> length ps = n \<and> list_all part_ok ps"
proof (induction e d plba n i buf arbitrary: ps rule: load_parts.induct)
  case (2 e d plba n i buf)
  then obtain b qs where b: "(if i mod 4 = 0 then GPT_read e d (plba + of_nat (i div 4)) else Some buf) = Some b"
    and qs: "load_parts e d plba n (Suc i) b = Some qs"
    and ps: "ps = dec_part (bytes_at ((i mod 4) * sizeof_part) sizeof_part b) # qs"
    by (auto split: option.splits)
  have "length b = DEV_BSIZE"
    using b 2(3) by (auto dest: GPT_read_length split: if_splits)
  moreover have "i mod 4 < 4" by simp
  ultimately have "length (bytes_at ((i mod 4) * sizeof_part) sizeof_part b) = 128"
    by (simp add: bytes_at_def sizeof_part_def DEV_BSIZE_def)
  then show ?case
    using "2.IH" [OF b qs] \<open>length b = DEV_BSIZE\<close> by (simp add: ps dec_part_ok)
qed simp

lemma load_rest_Inr:
  assumes "load_rest e d buf = Inr (h, ps)" and "length buf = DEV_BSIZE"
  shows "gpt_ok h ps \<and> header_valid e h ps"
proof -
  have h: "h = dec_header buf"
    and l: "load_parts e d (h_partitions_lba h) (unat (h_partitions_num h)) 0 buf = Some ps"
    and c: "h_signature h = GPT_SIGNATURE" "unat (h_header_size h) \<le> sizeof_header"
      "header_crc e h = h_header_checksum h" "unat (h_partitions_size h) = sizeof_part"
      "parts_crc e h ps = h_partitions_checksum h"
    using assms(1) by (auto simp: load_rest_def Let_def split: if_splits option.splits)
  have "uuid_ok (h_guid h)"
    using assms(2) by (simp add: h dec_header_def dec_uuid_ok layout DEV_BSIZE_def)
  then show ?thesis
    using load_parts_ok [OF l assms(2)] c by (simp add: gpt_ok_def header_valid_def)
qed

text \<open>
  C17: Whatever is on the disk, a GPT that \<open>GPT_load\<close> accepts, from either header, has the
  EFI signature, a header no larger than the structure, both checksums right, entries of
  128 bytes, and exactly as many entries in memory as its header announces.
\<close>

theorem GPT_load_valid:
  assumes "GPT_load e d dsize alt = Inr (h, ps)"
  shows "h_signature h = GPT_SIGNATURE \<and> unat (h_header_size h) \<le> sizeof_header
    \<and> header_crc e h = h_header_checksum h \<and> parts_crc e h ps = h_partitions_checksum h
    \<and> unat (h_partitions_size h) = sizeof_part \<and> gpt_ok h ps"
proof -
  obtain buf w where "load_rest e d buf = Inr (h, ps)" "GPT_read e d w = Some buf"
    using assms by (auto simp: GPT_load_def Let_def split: if_splits option.splits)
  then show ?thesis
    using load_rest_Inr [of e d buf h ps] by (simp add: GPT_read_length header_valid_def)
qed

theorem GPT_load_valid_witness:
  "\<exists>d h ps. GPT_load env0 d 64 False = Inr (h, ps) \<and> h_signature h = GPT_SIGNATURE
    \<and> header_crc env0 h = h_header_checksum h \<and> gpt_ok h ps"
proof -
  obtain d' where "copy_on env0 d' (stored_primary env0 64 small_header small_parts) small_parts"
    using GPT_store_good [OF small_storable] by blast
  then have "GPT_load env0 d' 64 False = Inr (stored_primary env0 64 small_header small_parts, small_parts)"
    using small_storable
    by (intro GPT_load_primary primary_header_valid) (simp_all add: storable_def)
  from this GPT_load_valid [OF this] show ?thesis by blast
qed

section \<open>What a store writes\<close>

lemma GPT_write_frame:
  assumes "GPT_write e d w buf = (r, d')" and "0 < secsize e" and "unat w * secsize e < 2 ^ 63"
    and "s \<noteq> unat w"
  shows "bd_read d' s = bd_read d s"
  using assms(1,4) sector_of_small [OF assms(2,3)]
  by (auto simp: GPT_write_def Let_def split: option.splits if_splits)

lemma store_parts_frame:
  "store_parts e d plba ps i buf = (r, d') \<Longrightarrow> 0 < secsize e \<Longrightarrow>
   (\<And>j. 4 * j < i + length ps \<Longrightarrow> unat (plba + of_nat j) \<noteq> s \<and> unat (plba + of_nat j) * secsize e < 2 ^ 63) \<Longrightarrow>
   bd_read d' s = bd_read d s"
proof (induction e d plba ps i buf arbitrary: r d' rule: store_parts.induct)
  case (1 e d plba i buf)
  show ?case
  proof (cases "i mod 4 = 0")
    case False
    then have "4 * (i div 4) < i" by presburger
    with 1 False show ?thesis
      using "1.prems"(3) [of "i div 4"] by (auto intro!: GPT_write_frame [of e d _ buf r d' s])
  qed (use 1 in simp)
next
  case (2 e d plba p ps i buf)
  let ?buf = "overlay buf ((i mod 4) * sizeof_part) (enc_part p)"
  have lba: "unat (plba + of_nat (i div 4)) \<noteq> s \<and> unat (plba + of_nat (i div 4)) * secsize e < 2 ^ 63"
    by (rule "2.prems"(3)) simp
  have later: "unat (plba + of_nat j) \<noteq> s \<and> unat (plba + of_nat j) * secsize e < 2 ^ 63"
    if "4 * j < Suc i + length ps" for j
    using that by (intro "2.prems"(3)) simp
  show ?case
  proof (cases "i mod 4 = 3")
    case False
    then show ?thesis
      using "2.IH"(2) [OF refl False, of r d'] "2.prems"(1,2) later by (simp add: Let_def)
  next
    case True
    obtain ok d1 where w: "GPT_write e d (plba + of_nat (i div 4)) ?buf = (ok, d1)" by fastforce
    have d1: "bd_read d1 s = bd_read d s"
      using GPT_write_frame [OF w "2.prems"(2)] lba by simp
    show ?thesis
    proof (cases ok)
      case False
      with True w "2.prems"(1) d1 show ?thesis by (simp add: Let_def)
    next
      case ok: True
      then have "store_parts e d1 plba ps (Suc i) zero_block = (r, d')"
        using True w "2.prems"(1) by (simp add: Let_def)
      from "2.IH"(1) [OF refl True w [symmetric] eqTrueI [OF ok] this "2.prems"(2) later] d1 show ?thesis
        by simp
    qed
  qed
qed

lemma store_copy_frame:
  assumes "store_copy e d h ps = (r, d')" and "0 < secsize e"
    and lbas: "\<And>w. w \<in> copy_lbas h ps \<Longrightarrow> unat w \<noteq> s \<and> unat w * secsize e < 2 ^ 63"
  shows "bd_read d' s = bd_read d s"
proof -
  obtain ok d1 where w: "GPT_write e d (h_current_lba h) (overlay zero_block 0 (enc_header h)) = (ok, d1)"
    by fastforce
  have "bd_read d1 s = bd_read d s"
    using lbas [of "h_current_lba h"] by (intro GPT_write_frame [OF w assms(2)]) (auto simp: copy_lbas_def)
  moreover have "bd_read d' s = bd_read d1 s" if "store_parts e d1 (h_partitions_lba h) ps 0 zero_block = (r, d')"
  proof (rule store_parts_frame [OF that assms(2)])
    fix j assume "4 * j < 0 + length ps"
    then have "j < length (entry_blocks ps)"
      by (simp add: length_entry_blocks)
    then show "unat (h_partitions_lba h + of_nat j) \<noteq> s \<and> unat (h_partitions_lba h + of_nat j) * secsize e < 2 ^ 63"
      by (intro lbas) (auto simp: copy_lbas_def table_lbas_def)
  qed
  ultimately show ?thesis
    using assms(1) w by (cases ok) (simp_all add: store_copy_def)
qed

lemma GPT_store_cases:
  assumes st: "GPT_store e d dsize h ps = Ret (r, d', h')"
    and n: "unat (h_partitions_num h) = length ps" "length ps < 2 ^ 25"
  shows "d' = d \<or> (2 * ((length ps + 3) div 4) + 3 \<le> unat dsize \<and>
    (\<exists>ok d1. store_copy e d (stored_primary e dsize h ps) ps = (ok, d1)
      \<and> (d' = d1 \<or> store_copy e d1 (stored_backup e dsize h ps) ps = (r, d'))))"
proof (cases "d' = d")
  case False
  then have g: "\<not> dsize < scast (lbas_needed h + lbas_needed h + 1)"
    and c: "(case store_copy e d (stored_primary e dsize h ps) ps of
        (False, d1) \<Rightarrow> Ret (False, d1, stored_primary e dsize h ps)
      | (True, d1) \<Rightarrow>
          (case store_copy e d1 (stored_backup e dsize h ps) ps of
             (r, d2) \<Rightarrow> Ret (r, d2, stored_backup e dsize h ps))) = Ret (r, d', h')"
    using st unfolding GPT_store_def Let_def n(1) take_all [OF order_refl] by (simp_all split: if_splits)
  have "2 * ((length ps + 3) div 4) + 3 \<le> unat dsize"
    using g store_geometry(2) [OF n refl] by (simp add: word_less_nat_alt not_less)
  moreover obtain ok d1 where "store_copy e d (stored_primary e dsize h ps) ps = (ok, d1)" by fastforce
  ultimately show ?thesis
    using c by (cases ok) (auto split: prod.splits)
qed simp

lemma GPT_store_frame:
  assumes st: "GPT_store e d dsize h ps = Ret (r, d', h')"
    and n: "unat (h_partitions_num h) = length ps" "length ps < 2 ^ 25"
    and dev: "0 < secsize e" "unat dsize * secsize e < 2 ^ 63"
    and s: "s = 0 \<or> (length ps + 3) div 4 + 2 \<le> s \<and> s \<le> unat dsize - ((length ps + 3) div 4 + 2)"
  shows "bd_read d' s = bd_read d s"
  using GPT_store_cases [OF st n]
proof (elim disjE conjE exE)
  fix ok d1
  let ?k = "(length ps + 3) div 4"
  assume D: "2 * ?k + 3 \<le> unat dsize" and c1: "store_copy e d (stored_primary e dsize h ps) ps = (ok, d1)"
  note geo = copies_geometry [OF n refl D, where e = e]
  have fit: "unat w * secsize e < 2 ^ 63" if "unat w \<le> unat dsize" for w :: u64
    using that dev(2) by (meson le_less_trans mult_le_mono1)
  have f1: "bd_read d1 s = bd_read d s"
  proof (rule store_copy_frame [OF c1 dev(1)])
    fix w assume "w \<in> copy_lbas (stored_primary e dsize h ps) ps"
    from geo(1) [OF this] show "unat w \<noteq> s \<and> unat w * secsize e < 2 ^ 63"
      using s D fit [of w] by auto
  qed
  then show "bd_read d' s = bd_read d s" if "d' = d1" using that by simp
  show "bd_read d' s = bd_read d s" if c2: "store_copy e d1 (stored_backup e dsize h ps) ps = (r, d')"
  proof (rule trans [OF store_copy_frame [OF c2 dev(1)] f1])
    fix w assume "w \<in> copy_lbas (stored_backup e dsize h ps) ps"
    from geo(2) [OF this] show "unat w \<noteq> s \<and> unat w * secsize e < 2 ^ 63"
      using s D fit [of w] by auto
  qed
qed simp

text \<open>
  C15: \<open>GPT_store\<close> never writes where partitions live. Whatever it is given, whether it
  succeeds, refuses, or stops at a failing write, every sector from the first usable LBA to
  the last one, as it computes them from the number of entries, reads as before; and so
  does sector 0, the protective MBR.
\<close>

theorem GPT_store_keeps_partitions:
  assumes st: "GPT_store e d dsize h ps = Ret (r, d', h')"
    and n: "unat (h_partitions_num h) = length ps" "length ps < 2 ^ 25"
    and dev: "0 < secsize e" "unat dsize * secsize e < 2 ^ 63"
    and s: "s = 0 \<or> (length ps + 3) div 4 + 2 \<le> s \<and> s \<le> unat dsize - ((length ps + 3) div 4 + 2)"
  shows "bd_read d' s = bd_read d s"
  using assms by (rule GPT_store_frame)

theorem GPT_store_keeps_partitions_witness:
  "\<exists>d' h'. GPT_store env0 blank_dev 64 small_header small_parts = Ret (True, d', h') \<and>
     bd_read d' 5 = bd_read blank_dev 5"
proof -
  obtain d' h' where r: "GPT_store env0 blank_dev 64 small_header small_parts = Ret (True, d', h')"
    using GPT_store_good [OF small_storable] by blast
  have "bd_read d' 5 = bd_read blank_dev 5"
    by (rule GPT_store_keeps_partitions [OF r]) (simp_all add: small_header_def small_parts_def env0_def)
  with r show ?thesis by blast
qed

section \<open>The backup header of a large disk\<close>

lemma scast_ucast_high:
  assumes "2 ^ 31 \<le> unat (b :: u64)" and "unat b < 2 ^ 32"
  shows "2 ^ 63 \<le> unat (scast (ucast b :: u32) :: u64)"
proof -
  define n where "n = uint b"
  have n: "2 ^ 31 \<le> n" "n < 2 ^ 32"
    using assms unfolding n_def uint_nat
    by (metis of_nat_le_iff of_nat_numeral of_nat_power, metis of_nat_less_iff of_nat_numeral of_nat_power)
  have u: "uint (ucast b :: u32) = n"
    using n by (simp add: unsigned_ucast_eq n_def take_bit_int_eq_self)
  have "sint (ucast b :: u32) = (n + 2 ^ 31) mod 2 ^ 32 - 2 ^ 31"
    unfolding sint_uint u by (simp add: signed_take_bit_eq_take_bit_shift take_bit_eq_mod)
  also have "(n + 2 ^ 31) mod 2 ^ 32 = n + 2 ^ 31 - 2 ^ 32"
    using n by (subst minus_mod_self2 [symmetric], intro mod_pos_pos_trivial) simp_all
  finally have s: "sint (ucast b :: u32) = n - 2 ^ 32" by simp
  have "(scast (ucast b :: u32) :: u64) = word_of_int (sint (ucast b :: u32))"
    by simp
  then have "uint (scast (ucast b :: u32) :: u64) = (n - 2 ^ 32) mod 2 ^ 64"
    unfolding s using uint_word_of_int [of "n - 2 ^ 32", where ?'a = 64] by (simp only: len_num0 len_num1 len_bit0) simp
  also have "\<dots> = n - 2 ^ 32 + 2 ^ 64"
    using n by (subst mod_add_self2 [symmetric], intro mod_pos_pos_trivial) simp_all
  finally have "2 ^ 63 \<le> uint (scast (ucast b :: u32) :: u64)"
    using n by simp
  then show ?thesis
    by (metis uint_nat of_nat_le_iff of_nat_numeral of_nat_power)
qed

text \<open>
  C37: On a disk of more than \<open>2^31\<close> and at most \<open>2^32\<close> sectors (1 to 2 TiB with 512-byte
  sectors) the backup header cannot be loaded: right after a successful store,
  \<open>GPT_load\<close> from the backup fails as if the disk were too small, because the \<open>int\<close> that
  holds the backup LBA turns negative.
\<close>

theorem GPT_load_backup_fails_on_large_disk:
  assumes st: "storable e d dsize h ps" and big: "2 ^ 31 < unat dsize" "unat dsize \<le> 2 ^ 32"
  shows "\<exists>d' h'. GPT_store e d dsize h ps = Ret (True, d', h') \<and> GPT_load e d' dsize True = Inl LE_too_small"
proof -
  let ?hp = "stored_primary e dsize h ps"
  obtain d' where d': "GPT_store e d dsize h ps = Ret (True, d', stored_backup e dsize h ps)"
    "copy_on e d' ?hp ps"
    using GPT_store_good [OF st] by blast
  have u: "uuid_ok (h_guid ?hp)"
    using st by (simp add: storable_def primary_header_def store_bounds_def Let_def)
  have "unat (dsize - 1) = unat dsize - 1"
    using big by (simp add: unat_minus_small word_le_nat_alt)
  then have "2 ^ 63 \<le> unat (scast (ucast (dsize - 1) :: u32) :: u64)"
    using big by (intro scast_ucast_high) simp_all
  then have "dsize \<le> scast (ucast (dsize - 1) :: u32)"
    using big by (simp add: word_le_nat_alt)
  moreover have "\<not> 1 \<ge> dsize"
    using big by (simp add: word_le_nat_alt)
  moreover have "GPT_read e d' 1 = Some (header_block ?hp)"
    using d'(2) by (simp add: copy_on_def)
  ultimately have "GPT_load e d' dsize True = Inl LE_too_small"
    using st dec_header_block [OF u] by (simp add: GPT_load_def storable_def)
  with d'(1) show ?thesis by blast
qed

lemma large_storable: "storable env0 blank_dev 0x80000040 small_header small_parts"
proof -
  have "dev_good env0 blank_dev w" if "w < 0x80000040" for w
    using that by (simp add: dev_good_def env0_def blank_dev_def DEV_BSIZE_def word_less_nat_alt)
  moreover have "list_all (\<lambda>p. \<not> out_of_bounds (store_bounds 0x80000040 small_header) p) small_parts"
    by (simp add: small_parts_def out_of_bounds_def store_bounds_def lbas_needed_def small_header_def zero_part_def
        uuid_is_nil_def nil_uuid_def)
  ultimately show ?thesis
    using small_storable by (simp add: storable_def)
qed

theorem GPT_load_backup_fails_on_large_disk_witness:
  "\<exists>d' h'. GPT_store env0 blank_dev 0x80000040 small_header small_parts = Ret (True, d', h')
    \<and> GPT_load env0 d' 0x80000040 True = Inl LE_too_small"
  using GPT_load_backup_fails_on_large_disk [OF large_storable] by simp

section \<open>Filling the remaining space\<close>

lemma pow2_loop_Ret:
  "pow2_loop fuel i blk = Ret r \<Longrightarrow> blk \<le> r"
  by (induction fuel i blk rule: pow2_loop.induct) (auto split: if_splits)

lemma unat_pow2: "k < 64 \<Longrightarrow> unat (2 ^ k :: u64) = 2 ^ k"
  using unat_of_nat_small [of "2 ^ k", where ?'a = 64] power_strict_increasing [of k 64 "2 :: nat"]
  by simp

lemma pow2_loop_stop: "0 < n \<Longrightarrow> \<not> i < blk \<Longrightarrow> pow2_loop n i blk = Ret i"
  by (cases n) simp_all

lemma pow2_loop_returns:
  assumes "unat blk \<le> 2 ^ 63" and "k + n = 63" and "\<forall>j < k. 2 ^ j < unat blk"
  shows "\<exists>m \<le> 63. pow2_loop (n + 2) (2 ^ k) blk = Ret (2 ^ m) \<and> blk \<le> 2 ^ m \<and> (\<forall>j < m. 2 ^ j < unat blk)"
  using assms(2,3)
proof (induction n arbitrary: k)
  case 0
  then have "blk \<le> 2 ^ 63"
    using assms(1) unat_pow2 [of 63] by (simp add: word_le_nat_alt)
  then have "pow2_loop (0 + 2) (2 ^ 63) blk = Ret (2 ^ 63)"
    by (intro pow2_loop_stop) (simp_all add: not_less)
  with 0 \<open>blk \<le> 2 ^ 63\<close> show ?case
    by (metis add_0_right order_refl)
next
  case (Suc n)
  have k: "unat (2 ^ k :: u64) = 2 ^ k"
    using Suc.prems(1) by (simp add: unat_pow2)
  show ?case
  proof (cases "2 ^ k < blk")
    case True
    then have "\<forall>j < Suc k. 2 ^ j < unat blk"
      using Suc.prems(2) k by (auto simp: less_Suc_eq word_less_nat_alt)
    then show ?thesis
      using Suc.IH [of "Suc k"] Suc.prems(1) True by (simp add: mult.commute)
  next
    case False
    then show ?thesis
      using Suc.prems pow2_loop_stop [of "Suc n + 2" "2 ^ k" blk]
      by (intro exI [of _ k]) (simp del: pow2_loop.simps add: not_less)
  qed
qed

lemma pow2_loop_zero: "blk \<noteq> 0 \<Longrightarrow> pow2_loop fuel 0 blk = Hang"
  by (induction fuel) (auto simp: word_gt_0)

lemma pow2_loop_stuck:
  assumes "2 ^ 63 < unat blk"
  shows "k \<le> 63 \<Longrightarrow> pow2_loop fuel (2 ^ k) blk = Hang"
proof (induction fuel arbitrary: k)
  case (Suc fuel)
  have "(2 :: nat) ^ k \<le> 2 ^ 63"
    using Suc.prems by (intro power_increasing) simp_all
  then have "2 ^ k < blk"
    using assms Suc.prems by (simp add: word_less_nat_alt unat_pow2)
  moreover have "pow2_loop fuel (2 ^ k * 2) blk = Hang"
  proof (cases "k = 63")
    case True
    have "blk \<noteq> 0" using assms by auto
    moreover have "(2 ^ k * 2 :: u64) = 0" using True by simp
    ultimately show ?thesis by (simp add: pow2_loop_zero)
  next
    case False
    then show ?thesis using Suc.IH [of "Suc k"] Suc.prems by (simp add: mult.commute)
  qed
  ultimately show ?case by simp
qed simp

text \<open>
  C28: The search for a power of two in \<open>GPT_fillremaining\<close> ends exactly when the first
  usable block is at most \<open>2^63\<close>: then it yields the least power of two that is not before
  it, and otherwise the doubled \<open>uint64_t\<close> becomes zero and no number of iterations is
  enough.
\<close>

theorem pow2_loop_terminates_iff:
  "(if unat blk \<le> 2 ^ 63
    then \<exists>m \<le> 63. pow2_loop 65 1 blk = Ret (2 ^ m) \<and> unat blk \<le> 2 ^ m \<and> (\<forall>j < m. 2 ^ j < unat blk)
    else \<forall>fuel. pow2_loop fuel 1 blk = Hang)"
proof (cases "unat blk \<le> 2 ^ 63")
  case True
  from pow2_loop_returns [OF this, of 0 63] obtain m
    where m: "m \<le> 63" "pow2_loop 65 1 blk = Ret (2 ^ m)" "blk \<le> 2 ^ m" "\<forall>j < m. 2 ^ j < unat blk"
    by auto
  then have "unat blk \<le> 2 ^ m"
    using unat_pow2 [of m] by (simp add: word_le_nat_alt)
  with m True show ?thesis by auto
next
  case False
  then show ?thesis
    using pow2_loop_stuck [of blk 0] by simp
qed

theorem pow2_loop_terminates_iff_witness:
  "\<exists>m. pow2_loop 65 1 34 = Ret (2 ^ m) \<and> 34 \<le> (2 :: nat) ^ m"
  using pow2_loop_terminates_iff [of 34] by auto

text \<open>One step of the shrinking loop never grows the candidate and clears it of that entry.\<close>

lemma shrink_step_inside:
  assumes "i \<noteq> pn \<Longrightarrow> p_end_lba p \<noteq> - 1"
  shows "p_start_lba q \<le> p_start_lba (shrink_step pn q (i, p))"
    and "p_end_lba (shrink_step pn q (i, p)) \<le> p_end_lba q"
  using assms
  by (auto simp: shrink_step_def PRT_overlap_def word_le_nat_alt unat_inc unat_dec word_less_nat_alt [symmetric])

lemma shrink_step_clears:
  assumes "p_end_lba p \<noteq> - 1" and "i \<noteq> pn"
  shows "\<not> PRT_overlap (shrink_step pn q (i, p)) p"
proof -
  have "\<not> p_start_lba p \<le> p_start_lba p - 1" if "p_start_lba q < p_start_lba p"
    using that unat_dec [OF that] by (auto simp: word_le_nat_alt word_less_nat_alt)
  moreover have "\<not> p_end_lba p + 1 \<le> p_end_lba p"
    using assms(1) by (simp add: word_le_nat_alt unat_inc)
  ultimately show ?thesis
    using assms by (auto simp: shrink_step_def PRT_overlap_def)
qed

lemma overlap_mono:
  assumes "\<not> PRT_overlap q p" and "p_start_lba q \<le> p_start_lba q'" and "p_end_lba q' \<le> p_end_lba q"
  shows "\<not> PRT_overlap q' p"
  using assms unfolding PRT_overlap_def by (meson order_trans)

lemma shrink_all:
  assumes "\<forall>(i, p) \<in> set ips. i \<noteq> pn \<longrightarrow> p_end_lba p \<noteq> - 1"
  shows "p_start_lba q \<le> p_start_lba (foldl (shrink_step pn) q ips)
    \<and> p_end_lba (foldl (shrink_step pn) q ips) \<le> p_end_lba q
    \<and> (\<forall>(i, p) \<in> set ips. i \<noteq> pn \<longrightarrow> \<not> PRT_overlap (foldl (shrink_step pn) q ips) p)"
  using assms
proof (induction ips arbitrary: q)
  case (Cons ip ips)
  obtain i p where ip: "ip = (i, p)" by fastforce
  let ?q = "shrink_step pn q (i, p)" and ?r = "foldl (shrink_step pn) (shrink_step pn q (i, p)) ips"
  have e: "i \<noteq> pn \<Longrightarrow> p_end_lba p \<noteq> - 1"
    using Cons.prems ip by auto
  have r: "p_start_lba ?q \<le> p_start_lba ?r" "p_end_lba ?r \<le> p_end_lba ?q"
    "\<forall>(i, p) \<in> set ips. i \<noteq> pn \<longrightarrow> \<not> PRT_overlap ?r p"
    using Cons.IH [of ?q] Cons.prems by auto
  have "\<not> PRT_overlap ?r p" if "i \<noteq> pn"
    using overlap_mono [OF shrink_step_clears [OF e [OF that] that] r(1,2)] .
  then show ?case
    using r shrink_step_inside [of i pn p q, OF e] by (auto simp: ip)
qed simp

lemma part_ok_shrink: "part_ok q \<Longrightarrow> part_ok (foldl (shrink_step pn) q ips)"
  by (induction ips arbitrary: q) (auto simp: shrink_step_def split: prod.splits)

lemma fillremaining_Ret:
  assumes "GPT_fillremaining e h ps pn = Ret ps'" and "length ps = unat (h_partitions_num h)"
  obtains i where "pow2_loop 65 1 (DL_SECTOBLK e (h_start_lba h)) = Ret i" "pn < length ps"
    "ps' = ps[pn := foldl (shrink_step pn) ((ps ! pn)\<lparr>p_start_lba := i, p_end_lba := h_end_lba h\<rparr>) (enumerate 0 ps)]"
  using assms by (auto simp: GPT_fillremaining_def Let_def outcome_simps)


lemma pow2_loop_numeral:
  "pow2_loop (numeral k) i blk = (if i < blk then pow2_loop (pred_numeral k) (i * 2) blk else Ret i)"
  by (simp add: numeral_eq_Suc)

lemma small_fill:
  "GPT_fillremaining env0 (store_bounds 64 small_header) small_parts 0
   = Ret (small_parts[0 := zero_part\<lparr>p_start_lba := 11, p_end_lba := 61\<rparr>])"
proof -
  have "pow2_loop 65 1 (3 :: u64) = Ret 4"
    by (simp add: pow2_loop_numeral)
  then show ?thesis
    by (simp add: GPT_fillremaining_def store_bounds_def lbas_needed_def small_header_def DL_SECTOBLK_def env0_def
        DEV_BSIZE_def aget_def aset_def small_parts_def shrink_step_def PRT_overlap_def Let_def)
qed


section \<open>A fresh GPT\<close>

lemma pow2_loop_below:
  assumes "pow2_loop fuel i blk = Ret r" and "1 \<le> unat i" and "unat i \<le> 2 * unat blk" and "unat blk < 2 ^ 62"
  shows "unat r \<le> 2 * unat blk"
  using assms
proof (induction fuel i blk rule: pow2_loop.induct)
  case (2 fuel i blk)
  show ?case
  proof (cases "i < blk")
    case True
    then have "unat (i * 2) = unat i * 2"
      using 2(5) by (simp add: unat_mult_lem [THEN iffD1] word_less_nat_alt)
    then show ?thesis
      using 2 True by (simp add: word_less_nat_alt)
  qed (use 2 in simp)
qed simp

lemma shrink_zero: "0 < p_start_lba q \<Longrightarrow> foldl (shrink_step pn) q (map (\<lambda>i. (i, zero_part)) is) = q"
  by (induction "is") (auto simp: shrink_step_def PRT_overlap_def zero_part_def)

lemma enumerate_replicate: "enumerate n (replicate k x) = map (\<lambda>i. (i, x)) [n..<n + k]"
  by (induction k arbitrary: n) (simp_all add: upt_conv_Cons)

lemma fill_fresh:
  assumes "pow2_loop 65 1 (DL_SECTOBLK e (h_start_lba h)) = Ret i" and "0 < i"
    and "unat (h_partitions_num h) = k" and "0 < k"
  shows "GPT_fillremaining e h (replicate k zero_part) 0
    = Ret ((replicate k zero_part)[0 := zero_part\<lparr>p_start_lba := i, p_end_lba := h_end_lba h\<rparr>])"
  using assms by (simp add: GPT_fillremaining_def aget_def aset_def enumerate_replicate shrink_zero Let_def)

lemma set_type_openbsd:
  obtains u where "\<And>p. PRT_set_type_by_pid p GPTPTYP_OPENBSD = p\<lparr>p_type := u\<rparr>" "uuid_ok u"
    "\<not> uuid_is_nil u" "PRT_pid_for_type u = GPTPTYP_OPENBSD"
proof -
  let ?g = "''824cc7a0-36a8-11e3-890a-952519ad3f61''"
  obtain u where u: "uuid_from_string ?g = Some u" "uuid_to_string u = ?g"
    using part_types_guid [OF part_types_openbsd] by blast
  have "PRT_set_type_by_pid p GPTPTYP_OPENBSD = p\<lparr>p_type := u\<rparr>" for p
    using set_type_loop_entry [OF part_types_openbsd part_types_distinct] u
    by (simp add: PRT_set_type_by_pid_def GPTPTYP_OPENBSD_def)
  moreover have "uuid_ok u"
    using u(1) by (rule uuid_from_string_ok)
  moreover have "time_low u = 0x824cc7a0"
    using u(1) by (auto simp: uuid_from_string_def hex_field_def bytes_at_def text_eval split: if_splits)
  then have "\<not> uuid_is_nil u"
    by (simp add: uuid_is_nil_def)
  moreover have "PRT_pid_for_type u = GPTPTYP_OPENBSD"
    unfolding PRT_pid_for_type_def u(2) GPTPTYP_OPENBSD_def
    by (simp add: part_types_def strn_eq_def)
  ultimately show ?thesis by (rule that)
qed

text \<open>The start of the partition of a new table: a power of two between the first usable block and twice that.\<close>

lemma init_start:
  assumes "secsize e = 512 * m" "1 \<le> m" "m < 2 ^ 20"
  shows "\<exists>k. pow2_loop 65 1 (DL_SECTOBLK e 34) = Ret (2 ^ k) \<and> unat (2 ^ k :: u64) = 2 ^ k
    \<and> 34 * m \<le> unat (2 ^ k :: u64) \<and> unat (2 ^ k :: u64) \<le> 68 * m"
proof -
  have blk: "unat (DL_SECTOBLK e 34) = 34 * m"
    using assms by (simp add: DL_SECTOBLK_def DEV_BSIZE_def unat_mult_lem [THEN iffD1] unat_of_nat)
  then have "unat (DL_SECTOBLK e 34) \<le> 2 ^ 63" using assms by simp
  from pow2_loop_returns [OF this, of 0 63] obtain k
    where k: "k \<le> 63" "pow2_loop 65 1 (DL_SECTOBLK e 34) = Ret (2 ^ k)" "DL_SECTOBLK e 34 \<le> 2 ^ k"
    by auto
  then show ?thesis
    using pow2_loop_below [OF k(2)] blk assms by (auto simp: unat_pow2 word_le_nat_alt)
qed

text \<open>An entry from there to the last usable sector is within the bounds \<open>GPT_store\<close> checks.\<close>

lemma init_part_in_bounds:
  assumes "unat (h_partitions_num h) = 128" "34 \<le> unat (p_start_lba p)" "unat (p_start_lba p) + 34 \<le> unat dsize"
    and "p_end_lba p = dsize - 34"
  shows "\<not> out_of_bounds (store_bounds dsize h) p"
proof -
  have "unat (scast (lbas_needed h + 1) :: u64) = 34"
    using store_geometry(1) [OF assms(1) _ refl] by simp
  then have c: "scast (lbas_needed h + 1) = (34 :: u64)" by (simp add: word_unat_eq_iff)
  have "(34 :: u64) \<le> p_start_lba p" using assms(2) by (simp add: word_le_nat_alt)
  moreover have "unat (dsize - 34) = unat dsize - 34"
    using assms(3) by (simp add: unat_minus_small word_le_nat_alt)
  then have "p_start_lba p \<le> dsize - 34" using assms(3) by (simp add: word_le_nat_alt)
  ultimately show ?thesis using assms(4) by (auto simp: out_of_bounds_def store_bounds_def c not_less)
qed

text \<open>
  C25: A new GPT can be stored. On a disk large enough for the two tables and an aligned
  start, \<open>GPT_init\<close> succeeds, draws one UUID, and produces 128 entries of which exactly the
  first is in use, of type OpenBSD, from a power-of-two block to the last usable LBA; on a
  working disk this GPT passes every check of \<open>GPT_store\<close>.
\<close>

theorem GPT_init_storable:
  assumes mem: "malloc_ok e sizeof_header" "malloc_ok e (GPT_PARTITIONS * sizeof_part)"
    and sec: "secsize e = 512 * m" "1 \<le> m" "m < 2 ^ 20" and big: "68 * m + 34 \<le> unat dsize"
    and dev: "\<forall>w < dsize. dev_good e d w" and u: "uuid_ok (uuid_src e uc)"
  shows "\<exists>h ps. GPT_init e dsize g uc = Ret (0, \<lparr>header = Some h, part = Some ps\<rparr>, Suc uc)
    \<and> storable e d dsize h ps \<and> length ps = 128 \<and> (\<forall>i < 128. in_use (ps ! i) \<longleftrightarrow> i = 0)
    \<and> PRT_pid_for_type (p_type (ps ! 0)) = GPTPTYP_OPENBSD
    \<and> (\<exists>k. unat (p_start_lba (ps ! 0)) = 2 ^ k) \<and> p_end_lba (ps ! 0) = h_end_lba h"
proof -
  define h where "h = init_header dsize (uuid_src e uc)"
  have h: "unat (h_partitions_num h) = 128" "h_start_lba h = 34" "h_end_lba h = dsize - 34"
    "h_current_lba h = 1" "h_guid h = uuid_src e uc"
    by (simp_all add: h_def init_header_def GPT_PARTITIONS_def Let_def zero_header_def)
  obtain k where k: "pow2_loop 65 1 (DL_SECTOBLK e (h_start_lba h)) = Ret (2 ^ k)" and i: "unat (2 ^ k :: u64) = 2 ^ k"
    and lo: "34 * m \<le> unat (2 ^ k :: u64)" and hi: "unat (2 ^ k :: u64) \<le> 68 * m"
    using init_start [OF sec] by (auto simp: h)
  define q where "q = zero_part\<lparr>p_start_lba := 2 ^ k, p_end_lba := dsize - 34\<rparr>"
  define ps where "ps = (replicate 128 zero_part)[0 := PRT_set_type_by_pid q GPTPTYP_OPENBSD]"
  have "0 < (2 ^ k :: u64)"
    using lo sec by (simp add: word_less_nat_alt)
  then have fill: "GPT_fillremaining e h (replicate 128 zero_part) 0 = Ret ((replicate 128 zero_part)[0 := q])"
    using fill_fresh [OF k] h by (simp add: q_def)
  obtain u where u': "\<And>p. PRT_set_type_by_pid p GPTPTYP_OPENBSD = p\<lparr>p_type := u\<rparr>" "uuid_ok u"
    "\<not> uuid_is_nil u" "PRT_pid_for_type u = GPTPTYP_OPENBSD"
    using set_type_openbsd by metis
  have init: "GPT_init e dsize g uc = Ret (0, \<lparr>header = Some h, part = Some ps\<rparr>, Suc uc)"
    using mem fill by (simp add: GPT_init_def h_def [symmetric] GPT_PARTITIONS_def aget_def aset_def ps_def Let_def)
  have nth: "ps ! 0 = q\<lparr>p_type := u\<rparr>" "\<And>i. 0 < i \<Longrightarrow> i < 128 \<Longrightarrow> ps ! i = zero_part"
    and len: "length ps = 128"
    by (simp_all add: ps_def u')
  have ok: "list_all part_ok ps"
    using set_update_subset_insert [of "replicate 128 zero_part" 0 "PRT_set_type_by_pid q GPTPTYP_OPENBSD"]
    by (auto simp: ps_def list_all_iff q_def)
  have z: "\<not> in_use zero_part"
    by (simp add: in_use_def zero_part_def uuid_is_nil_def nil_uuid_def)
  have nb: "\<not> out_of_bounds (store_bounds dsize h) (q\<lparr>p_type := u\<rparr>)"
    using lo hi big sec by (intro init_part_in_bounds [OF h(1)]) (simp_all add: q_def)
  have "\<not> out_of_bounds (store_bounds dsize h) zero_part"
    using z by (simp add: out_of_bounds_def in_use_def)
  with nb have "\<not> out_of_bounds (store_bounds dsize h) (ps ! i)" if "i < 128" for i
    using nth that by (cases "i = 0") simp_all
  then have "list_all (\<lambda>p. \<not> out_of_bounds (store_bounds dsize h) p) ps" by (simp add: list_all_length len)
  then have st: "storable e d dsize h ps"
    using h len ok u mem dev big sec by (simp add: storable_def GPT_PARTITIONS_def)
  have used: "in_use (ps ! i) \<longleftrightarrow> i = 0" if "i < 128" for i
    using nth(1) nth(2) [of i] that z u'(3) by (cases "i = 0") (simp_all add: in_use_def)
  show ?thesis
  proof (intro exI conjI)
    show "unat (p_start_lba (ps ! 0)) = 2 ^ k" using nth(1) i by (simp add: q_def)
    show "p_end_lba (ps ! 0) = h_end_lba h" unfolding nth(1) h(3) by (simp add: q_def)
  qed (use init st len u'(4) nth(1) used in \<open>simp_all add: q_def\<close>)
qed

theorem GPT_init_storable_witness:
  "\<exists>h ps. GPT_init env0 102 \<lparr>header = None, part = None\<rparr> 0 = Ret (0, \<lparr>header = Some h, part = Some ps\<rparr>, 1)
    \<and> storable env0 blank_dev 102 h ps \<and> length ps = 128"
proof -
  have "\<forall>w < 102. dev_good env0 blank_dev w"
    by (simp add: dev_good_def env0_def blank_dev_def DEV_BSIZE_def word_less_nat_alt)
  then show ?thesis
    using GPT_init_storable [of env0 1 102 blank_dev 0 "\<lparr>header = None, part = None\<rparr>"]
    by (auto simp: env0_def uuid_ok_def nil_uuid_def)
qed

section \<open>Verification before writing\<close>

lemma ask_yn_consumes: "\<not> y_flag e \<Longrightarrow> ask_yn e inp = Ret (b, rest) \<Longrightarrow> length rest < length inp"
  using length_dropWhile_le [of "\<lambda>c. c \<noteq> NL" inp]
  by (auto simp: ask_yn_def split: list.splits)

lemma verify_against_reads:
  "verify_against e p ps inp = Ret (b, rest) \<Longrightarrow> suffix rest inp"
  by (induction ps arbitrary: inp)
     (auto simp: outcome_simps dest: rd_yn.reads suffix_order.trans split: if_splits)

lemma verify_loop_reads:
  "verify_loop e ps n inp = Ret (r, rest) \<Longrightarrow> suffix rest inp"
  by (induction ps arbitrary: n inp)
     (auto simp: outcome_simps Let_def dest: verify_against_reads suffix_order.trans split: if_splits)

lemma verify_against_quiet:
  assumes "\<not> y_flag e"
  shows "verify_against e p ps inp = Ret (True, inp) \<longleftrightarrow> (\<forall>q \<in> set ps. in_use q \<longrightarrow> \<not> PRT_overlap p q)"
proof (induction ps)
  case (Cons q ps)
  show ?case
  proof (cases "in_use q \<and> PRT_overlap p q")
    case True
    have "verify_against e p (q # ps) inp \<noteq> Ret (True, inp)"
    proof
      assume "verify_against e p (q # ps) inp = Ret (True, inp)"
      with True obtain rest where "ask_yn e inp = Ret (True, rest)" "verify_against e p ps rest = Ret (True, inp)"
        by (auto simp: outcome_simps in_use_def split: if_splits)
      then show False
        using ask_yn_consumes [OF assms] verify_against_reads suffix_length_le by fastforce
    qed
    with True show ?thesis by auto
  next
    case False
    then show ?thesis using Cons by (auto simp: in_use_def)
  qed
qed simp

abbreviation openbsd_parts :: "gpt_partition list \<Rightarrow> gpt_partition list" where
  "openbsd_parts ps \<equiv> filter (\<lambda>p. in_use p \<and> PRT_pid_for_type (p_type p) = GPTPTYP_OPENBSD) ps"

lemma verify_loop_quiet:
  assumes "\<not> y_flag e"
  shows "verify_loop e ps n inp = Ret (Some k, inp) \<longleftrightarrow>
    sorted_wrt (\<lambda>p q. in_use p \<longrightarrow> in_use q \<longrightarrow> \<not> PRT_overlap p q) ps \<and> k = n + length (openbsd_parts ps)"
proof (induction ps arbitrary: n)
  case (Cons p ps)
  show ?case
  proof (cases "in_use p")
    case True
    have same: "b = inp" if "verify_against e p ps inp = Ret (x, b)" "verify_loop e ps m b = Ret (y, inp)" for x y b m
      using verify_against_reads [OF that(1)] verify_loop_reads [OF that(2)] by (rule suffix_order.antisym)
    have "verify_loop e (p # ps) n inp = Ret (Some k, inp) \<longleftrightarrow>
      verify_against e p ps inp = Ret (True, inp) \<and>
      verify_loop e ps (if PRT_pid_for_type (p_type p) = GPTPTYP_OPENBSD then Suc n else n) inp = Ret (Some k, inp)"
      using True
      by (auto simp: outcome_simps in_use_def Let_def dest: same split: if_splits)
    then show ?thesis
      unfolding Cons verify_against_quiet [OF assms] using True by auto
  qed (use Cons in \<open>simp add: in_use_def\<close>)
qed auto

text \<open>
  C27: \<open>GPT_verify\<close> accepts a table without a question exactly when no two entries in use
  overlap and at most one of them is an OpenBSD partition; so without \<open>-y\<close> every other
  table is written only after an explicit yes.
\<close>

theorem GPT_verify_quiet_iff:
  assumes "\<not> y_flag e" and "length ps = unat (h_partitions_num h)"
  shows "GPT_verify e h ps inp = Ret (True, inp) \<longleftrightarrow>
    (\<forall>i j. i < j \<and> j < length ps \<and> in_use (ps ! i) \<and> in_use (ps ! j) \<longrightarrow> \<not> PRT_overlap (ps ! i) (ps ! j))
    \<and> length (filter (\<lambda>p. in_use p \<and> PRT_pid_for_type (p_type p) = GPTPTYP_OPENBSD) ps) \<le> 1"
proof -
  have "GPT_verify e h ps inp = Ret (True, inp) \<longleftrightarrow>
    (\<exists>k. verify_loop e ps 0 inp = Ret (Some k, inp) \<and> k < 2)"
    using assms ask_yn_consumes [OF assms(1), of _ True inp] suffix_length_le
    by (fastforce simp: GPT_verify_def Let_def outcome_simps dest: verify_loop_reads split: option.splits if_splits)
  then show ?thesis
    by (auto simp: verify_loop_quiet [OF assms(1)] sorted_wrt_iff_nth_less)
qed

theorem GPT_verify_quiet_iff_witness:
  "GPT_verify env0 small_header small_parts ''y'' = Ret (True, ''y'') \<longleftrightarrow>
    (\<forall>i j. i < j \<and> j < length small_parts \<and> in_use (small_parts ! i) \<and> in_use (small_parts ! j)
       \<longrightarrow> \<not> PRT_overlap (small_parts ! i) (small_parts ! j))
    \<and> length (filter (\<lambda>p. in_use p \<and> PRT_pid_for_type (p_type p) = GPTPTYP_OPENBSD) small_parts) \<le> 1"
  by (rule GPT_verify_quiet_iff) (simp_all add: env0_def small_parts_def small_header_def)

end
