(* ===== verification/Gdisk_Cmd.thy ===== *)
theory Gdisk_Cmd
  imports Gdisk_Table "HOL-Library.Multiset"
begin

unbundle bit_operations_syntax

text \<open>
  \<open>sbin/gdisk/cmd.c\<close> and \<open>cmd.h\<close>: the commands of the editor. The state is what they
  change: the standard input left to read, the device, the GPT in memory, the number of
  UUIDs drawn and what was displayed. \<open>cmd->args\<close>, the disk and the answers of the system are
  arguments. A command that dereferences a missing header, entry array or geometry, or
  an entry outside the array, is \<open>Undef\<close>.
\<close>

section \<open>State\<close>

datatype cmd_status = CMD_EXIT | CMD_SAVE | CMD_CONT | CMD_CLEAN | CMD_DIRTY

datatype shown = O_metrics "double \<times> string" | O_table "string \<times> part_row list" | O_row part_row
  | O_help "(string \<times> string) list"

record gstate =
  s_inp :: string
  s_dev :: bdev
  s_gpt :: gpt_t
  s_uc :: nat
  s_out :: "shown list"

definition the_parts :: "gstate \<Rightarrow> gpt_partition list outcome" where
  "the_parts s = (case part (s_gpt s) of None \<Rightarrow> Undef | Some ps \<Rightarrow> Ret ps)"

definition the_header :: "gstate \<Rightarrow> gpt_header outcome" where
  "the_header s = (case header (s_gpt s) of None \<Rightarrow> Undef | Some h \<Rightarrow> Ret h)"

definition set_parts :: "gpt_partition list \<Rightarrow> gstate \<Rightarrow> gstate" where
  "set_parts ps s = s\<lparr>s_gpt := (s_gpt s)\<lparr>part := Some ps\<rparr>\<rparr>"

definition show_out :: "shown \<Rightarrow> gstate \<Rightarrow> gstate" where
  "show_out x s = s\<lparr>s_out := s_out s @ [x]\<rparr>"

definition real_size :: "disk \<Rightarrow> u64 outcome" where
  "real_size dk = (case d_real dk of None \<Rightarrow> Undef | Some n \<Rightarrow> Ret n)"

text \<open>\<open>strtonum(s, 0, 127, &errstr)\<close>: \<open>None\<close> is the error branch.\<close>

definition part_number :: "string \<Rightarrow> nat option" where
  "part_number s = (case strtonum s 0 127 of Inl _ \<Rightarrow> None | Inr n \<Rightarrow> Some (nat n))"

section \<open>Commands\<close>

definition Xreinit :: "genv \<Rightarrow> disk \<Rightarrow> string \<Rightarrow> gstate \<Rightarrow> (cmd_status \<times> gstate) outcome" where
  "Xreinit e dk args s =
     obind (real_size dk) (\<lambda>dsize.
     obind (GPT_init e dsize (s_gpt s) (s_uc s)) (\<lambda>(_, g, uc).
     obind (GPT_print e g (Some args)) (\<lambda>t.
       Ret (CMD_DIRTY, show_out (O_table t) (s\<lparr>s_gpt := g, s_uc := uc\<rparr>)))))"

definition swap_parts :: "gpt_partition list \<Rightarrow> nat \<Rightarrow> nat \<Rightarrow> gpt_partition list outcome" where
  "swap_parts ps pt pf =
     obind (aget ps pt) (\<lambda>pp.
     obind (aget ps pf) (\<lambda>q.
     obind (aset ps pt q) (\<lambda>ps1. aset ps1 pf pp)))"

definition Xswap :: "string \<Rightarrow> gstate \<Rightarrow> (cmd_status \<times> gstate) outcome" where
  "Xswap args s =
     (case strsep (Some args) of
        (Some from, Some to) \<Rightarrow>
          (case part_number from of
             None \<Rightarrow> Ret (CMD_CONT, s)
           | Some pf \<Rightarrow>
               (case part_number to of
                  None \<Rightarrow> Ret (CMD_CONT, s)
                | Some pt \<Rightarrow>
                    if pt = pf then Ret (CMD_CONT, s)
                    else obind (the_parts s) (\<lambda>ps.
                      obind (swap_parts ps pt pf) (\<lambda>ps'. Ret (CMD_DIRTY, set_parts ps' s)))))
      | _ \<Rightarrow> Ret (CMD_CONT, s))"

definition Xsetpid :: "genv \<Rightarrow> string \<Rightarrow> gstate \<Rightarrow> (cmd_status \<times> gstate) outcome" where
  "Xsetpid e args s =
     (case part_number args of
        None \<Rightarrow> Ret (CMD_CONT, s)
      | Some pn \<Rightarrow>
          obind (the_parts s) (\<lambda>ps.
          obind (aget ps pn) (\<lambda>pp.
            let s1 = show_out (O_row (PRT_print e pn pp None)) s;
                dflt = (if uuid_is_nil (p_type pp) then GPTPTYP_OPENBSD else PRT_pid_for_type (p_type pp))
            in obind (ask_pid dflt (s_inp s1)) (\<lambda>(num, rest).
              let s2 = s1\<lparr>s_inp := rest\<rparr> in
              if num \<noteq> PRT_pid_for_type (p_type pp)
              then obind (aset ps pn (PRT_set_type_by_pid pp num)) (\<lambda>ps'.
                Ret (CMD_DIRTY, set_parts ps' s2))
              else Ret (CMD_CONT, s2)))))"

text \<open>
  The name: each \<open>char\<close> of the buffer is converted to \<open>uint16_t\<close>, with its sign.
\<close>

definition name_of_buf :: "string \<Rightarrow> u16 list" where
  "name_of_buf buf = map (\<lambda>c. scast (of_char c :: u8)) (take 36 buf)"

text \<open>The questions of \<open>Xedit\<close>: name, offset and size, then a UUID for an entry without one.\<close>

definition edit_entry ::
  "genv \<Rightarrow> gpt_header \<Rightarrow> gpt_partition \<Rightarrow> string \<Rightarrow> nat \<Rightarrow> (gpt_partition \<times> string \<times> nat) outcome" where
  "edit_entry e h pp inp uc =
     obind (ask_string (replicate 36 NUL) 36 inp) (\<lambda>(buf, inp1).
     let pp1 = pp\<lparr>p_name := name_of_buf buf\<rparr> in
     obind (getuint e (p_start_lba pp1) (h_end_lba h) inp1) (\<lambda>(start, inp2).
     let pp2 = pp1\<lparr>p_start_lba := start\<rparr> in
     obind (getuint e (p_end_lba pp2 - p_start_lba pp2 + 1) (h_end_lba h - p_start_lba pp2 + 1) inp2)
       (\<lambda>(sz, inp3).
     let pp3 = pp2\<lparr>p_end_lba := sz + p_start_lba pp2 - 1\<rparr> in
     if p_start_lba pp3 > p_end_lba pp3 then Ret (zero_part, inp3, uc)
     else if uuid_is_nil (p_guid pp3) then Ret (pp3\<lparr>p_guid := uuid_src e uc\<rparr>, inp3, Suc uc)
     else Ret (pp3, inp3, uc))))"

text \<open>The part of \<open>Xedit\<close> after the type is set; \<open>new\<close> says that the entry was unused before.\<close>

definition edit_rest :: "genv \<Rightarrow> nat \<Rightarrow> bool \<Rightarrow> gstate \<Rightarrow> gstate outcome" where
  "edit_rest e pn new s1 =
     obind (the_parts s1) (\<lambda>ps1.
     obind (aget ps1 pn) (\<lambda>pp.
       if uuid_is_nil (p_type pp)
       then obind (aset ps1 pn zero_part) (\<lambda>ps2. Ret (set_parts ps2 s1))
       else obind (the_header s1) (\<lambda>h.
         obind (if new then GPT_fillremaining e h ps1 pn else Ret ps1) (\<lambda>ps2.
         obind (aget ps2 pn) (\<lambda>pp2.
         obind (edit_entry e h pp2 (s_inp s1) (s_uc s1)) (\<lambda>(pp3, rest, uc).
         obind (aset ps2 pn pp3) (\<lambda>ps3.
           Ret (set_parts ps3 (s1\<lparr>s_inp := rest, s_uc := uc\<rparr>)))))))))"

definition Xedit :: "genv \<Rightarrow> string \<Rightarrow> gstate \<Rightarrow> (cmd_status \<times> gstate) outcome" where
  "Xedit e args s =
     (case part_number args of
        None \<Rightarrow> Ret (CMD_CONT, s)
      | Some pn \<Rightarrow>
          obind (the_parts s) (\<lambda>ps0.
          obind (aget ps0 pn) (\<lambda>old.
          obind (Xsetpid e args s) (\<lambda>(ret, s1).
          obind (edit_rest e pn (uuid_is_nil (p_type old)) s1) (\<lambda>s2. Ret (ret, s2))))))"

definition Xprint :: "genv \<Rightarrow> disk \<Rightarrow> string \<Rightarrow> gstate \<Rightarrow> (cmd_status \<times> gstate) outcome" where
  "Xprint e dk args s =
     obind (DISK_printmetrics e dk (Some args)) (\<lambda>m.
     obind (GPT_print e (s_gpt s) (Some args)) (\<lambda>t.
       Ret (CMD_CONT, show_out (O_table t) (show_out (O_metrics m) s))))"

definition Xwrite :: "os \<Rightarrow> genv \<Rightarrow> disk \<Rightarrow> gstate \<Rightarrow> (cmd_status \<times> gstate) outcome" where
  "Xwrite os e dk s =
     obind (the_header s) (\<lambda>h.
     obind (the_parts s) (\<lambda>ps.
     obind (GPT_verify e h ps (s_inp s)) (\<lambda>(ok, rest).
       let s1 = s\<lparr>s_inp := rest\<rparr> in
       if \<not> ok then Ret (CMD_CONT, s1)
       else obind (DISK_open os (d_name dk)) (\<lambda>_.
         obind (real_size dk) (\<lambda>dsize.
         obind (GPT_store e (s_dev s1) dsize h ps) (\<lambda>(r, d', h').
           Ret (if r then CMD_CLEAN else CMD_CONT,
             s1\<lparr>s_dev := d', s_gpt := (s_gpt s1)\<lparr>header := Some h'\<rparr>\<rparr>)))))))"

definition Xquit :: "gstate \<Rightarrow> (cmd_status \<times> gstate) outcome" where
  "Xquit s = Ret (CMD_SAVE, s)"

definition Xabort :: "gstate \<Rightarrow> (cmd_status \<times> gstate) outcome" where
  "Xabort s = Exit 0"

definition Xexit :: "gstate \<Rightarrow> (cmd_status \<times> gstate) outcome" where
  "Xexit s = Ret (CMD_EXIT, s)"

text \<open>\<open>Xhelp\<close> shows the name and the help text of every entry of the table it is given.\<close>

definition Xhelp :: "(string \<times> 'f \<times> string) list \<Rightarrow> gstate \<Rightarrow> (cmd_status \<times> gstate) outcome" where
  "Xhelp table s = Ret (CMD_CONT, show_out (O_help (map (\<lambda>(c, _, t). (c, t)) table)) s)"

text \<open>\<open>Xmanual\<close> pipes the manual to a pager, another process; gdisk's own state stays.\<close>

definition Xmanual :: "gstate \<Rightarrow> (cmd_status \<times> gstate) outcome" where
  "Xmanual s = Ret (CMD_CONT, s)"

section \<open>Flags\<close>

definition GPT_DOSACTIVE :: u64 where "GPT_DOSACTIVE = 0x2"
definition GPT_PRIORITY_SHIFT :: nat where "GPT_PRIORITY_SHIFT = 48"
definition GPT_PRIORITY_MASK :: u64 where "GPT_PRIORITY_MASK = 0xf"
definition GPT_TRIES_SHIFT :: nat where "GPT_TRIES_SHIFT = 52"
definition GPT_TRIES_MASK :: u64 where "GPT_TRIES_MASK = 0xf"
definition GPT_SUCCESS_SHIFT :: nat where "GPT_SUCCESS_SHIFT = 56"
definition GPT_SUCCESS_MASK :: u64 where "GPT_SUCCESS_MASK = 0x1"

definition get_field :: "nat \<Rightarrow> u64 \<Rightarrow> u64 \<Rightarrow> u64" where
  "get_field sh msk a = drop_bit sh a AND msk"

definition put_field :: "nat \<Rightarrow> u64 \<Rightarrow> u64 \<Rightarrow> u64 \<Rightarrow> u64" where
  "put_field sh msk v a = (a AND NOT (push_bit sh msk)) OR push_bit sh (v AND msk)"

record flag_args =
  fl_active :: bool
  fl_priority :: u64
  fl_tries :: u64
  fl_success :: u64

text \<open>The five tokens of the argument line, as the chain of \<open>strsep\<close> calls splits them.\<close>

definition flag_tokens ::
  "string \<Rightarrow> string \<times> string option \<times> string option \<times> string option \<times> string option" where
  "flag_tokens args =
     (let (partp, activep) = strsep (Some args);
          (activep, priorityp) = strsep activep;
          (priorityp, triesp) = strsep priorityp;
          (triesp, successp) = strsep triesp
      in (case partp of None \<Rightarrow> [] | Some p \<Rightarrow> p, activep, priorityp, triesp, successp))"

definition num_arg :: "string \<Rightarrow> int \<Rightarrow> u64 option" where
  "num_arg s mx = (case strtonum s 0 mx of Inl _ \<Rightarrow> None | Inr n \<Rightarrow> Some (of_int n))"

definition flags_from_args :: "string \<Rightarrow> string \<Rightarrow> string \<Rightarrow> string \<Rightarrow> flag_args option" where
  "flags_from_args a p t u =
     (case num_arg a 1 of None \<Rightarrow> None | Some active \<Rightarrow>
      case num_arg p (uint GPT_PRIORITY_MASK) of None \<Rightarrow> None | Some priority \<Rightarrow>
      case num_arg t (uint GPT_TRIES_MASK) of None \<Rightarrow> None | Some tries \<Rightarrow>
      case num_arg u (uint GPT_SUCCESS_MASK) of None \<Rightarrow> None | Some success \<Rightarrow>
        Some \<lparr>fl_active = (active \<noteq> 0), fl_priority = priority, fl_tries = tries, fl_success = success\<rparr>)"

text \<open>
  The questions: the answers are kept in \<open>int\<close>s, which the maxima 15 and 1 make harmless.
\<close>

definition flags_from_user :: "genv \<Rightarrow> nat \<Rightarrow> gstate \<Rightarrow> (flag_args \<times> string) outcome" where
  "flags_from_user e pn s =
     obind (ask_yn e (s_inp s)) (\<lambda>(active, inp1).
     obind (the_parts s) (\<lambda>ps.
     obind (aget ps pn) (\<lambda>pp.
     let a = p_attribute pp in
     obind (getuint e (get_field GPT_PRIORITY_SHIFT GPT_PRIORITY_MASK a) GPT_PRIORITY_MASK inp1) (\<lambda>(priority, inp2).
     obind (getuint e (get_field GPT_TRIES_SHIFT GPT_TRIES_MASK a) GPT_TRIES_MASK inp2) (\<lambda>(tries, inp3).
     obind (getuint e (get_field GPT_SUCCESS_SHIFT GPT_SUCCESS_MASK a) GPT_SUCCESS_MASK inp3) (\<lambda>(success, inp4).
       Ret (\<lparr>fl_active = active, fl_priority = priority, fl_tries = tries, fl_success = success\<rparr>, inp4)))))))"

text \<open>The loop that makes entry \<open>pn\<close> the only active one, over the entries the header counts.\<close>

definition set_active :: "nat \<Rightarrow> nat \<Rightarrow> gpt_partition list \<Rightarrow> gpt_partition list" where
  "set_active n pn ps =
     map (\<lambda>(i, p). if i < n
       then p\<lparr>p_attribute := (if i = pn then p_attribute p OR GPT_DOSACTIVE else p_attribute p AND NOT GPT_DOSACTIVE)\<rparr>
       else p) (enumerate 0 ps)"

definition flag_bits :: "flag_args \<Rightarrow> u64 \<Rightarrow> u64" where
  "flag_bits f a =
     put_field GPT_SUCCESS_SHIFT GPT_SUCCESS_MASK (fl_success f)
       (put_field GPT_TRIES_SHIFT GPT_TRIES_MASK (fl_tries f)
         (put_field GPT_PRIORITY_SHIFT GPT_PRIORITY_MASK (fl_priority f) a))"

definition apply_flags :: "nat \<Rightarrow> flag_args \<Rightarrow> gstate \<Rightarrow> gstate outcome" where
  "apply_flags pn f s =
     obind (the_parts s) (\<lambda>ps.
     obind (if fl_active f
            then obind (the_header s) (\<lambda>h.
              let n = unat (h_partitions_num h) in
              if length ps < n then Undef else Ret (set_active n pn ps))
            else Ret ps) (\<lambda>ps1.
     obind (aget ps1 pn) (\<lambda>p.
     obind (aset ps1 pn (p\<lparr>p_attribute := flag_bits f (p_attribute p)\<rparr>)) (\<lambda>ps2.
       Ret (set_parts ps2 s)))))"

definition Xflags :: "genv \<Rightarrow> string \<Rightarrow> gstate \<Rightarrow> (cmd_status \<times> gstate) outcome" where
  "Xflags e args s =
     (case flag_tokens args of (partp, activep, priorityp, triesp, successp) \<Rightarrow>
        (case part_number partp of
           None \<Rightarrow> Ret (CMD_CONT, s)
         | Some pn \<Rightarrow>
             (case (activep, priorityp, triesp, successp) of
                (None, None, None, None) \<Rightarrow>
                  obind (flags_from_user e pn s) (\<lambda>(f, rest).
                  obind (apply_flags pn f (s\<lparr>s_inp := rest\<rparr>)) (\<lambda>s'. Ret (CMD_DIRTY, s')))
              | (Some a, Some p, Some t, Some u) \<Rightarrow>
                  (case flags_from_args a p t u of
                     None \<Rightarrow> Ret (CMD_CONT, s)
                   | Some f \<Rightarrow> obind (apply_flags pn f s) (\<lambda>s'. Ret (CMD_DIRTY, s')))
              | _ \<Rightarrow> Ret (CMD_CONT, s))))"

section \<open>The contract of a command\<close>

text \<open>
  The invariant of the editor's state: the header and the entries are there, the array has
  the extent the header says, at most \<open>N\<close> entries, and every entry is well formed.
\<close>

definition gpt_inv :: "nat \<Rightarrow> gstate \<Rightarrow> bool" where
  "gpt_inv N s \<longleftrightarrow> (case (header (s_gpt s), part (s_gpt s)) of
     (Some h, Some ps) \<Rightarrow> gpt_ok h ps \<and> length ps \<le> N
   | _ \<Rightarrow> False)"

text \<open>The first usable LBA of the header in memory.\<close>

definition start_of :: "gstate \<Rightarrow> u64 option" where
  "start_of s = map_option h_start_lba (header (s_gpt s))"

definition env_ok :: "genv \<Rightarrow> bool" where
  "env_ok e \<longleftrightarrow> (\<forall>n. uuid_ok (uuid_src e n)) \<and> secsize e < 2 ^ 32"

lemma gpt_invE:
  assumes "gpt_inv N s"
  obtains h ps where "header (s_gpt s) = Some h" "part (s_gpt s) = Some ps" "gpt_ok h ps" "length ps \<le> N"
  using assms by (auto simp: gpt_inv_def split: option.splits)

lemma the_parts_Ret [outcome_simps]: "the_parts s = Ret ps \<longleftrightarrow> part (s_gpt s) = Some ps"
  by (auto simp: the_parts_def split: option.splits)

lemma the_header_Ret [outcome_simps]: "the_header s = Ret h \<longleftrightarrow> header (s_gpt s) = Some h"
  by (auto simp: the_header_def split: option.splits)

lemma real_size_Ret [outcome_simps]: "real_size dk = Ret n \<longleftrightarrow> d_real dk = Some n"
  by (auto simp: real_size_def split: option.splits)

lemma state_simps [simp]:
  "s_inp (set_parts ps s) = s_inp s" "s_dev (set_parts ps s) = s_dev s"
  "header (s_gpt (set_parts ps s)) = header (s_gpt s)" "part (s_gpt (set_parts ps s)) = Some ps"
  "s_inp (show_out x s) = s_inp s" "s_dev (show_out x s) = s_dev s" "s_gpt (show_out x s) = s_gpt s"
  "s_uc (show_out x s) = s_uc s" "the_parts (show_out x s) = the_parts s" "the_header (show_out x s) = the_header s"
  "start_of (set_parts ps s) = start_of s" "start_of (show_out x s) = start_of s" "start_of (s\<lparr>s_inp := i\<rparr>) = start_of s"
  "start_of (s\<lparr>s_uc := u\<rparr>) = start_of s"
  by (simp_all add: set_parts_def show_out_def the_parts_def the_header_def start_of_def)

lemma gpt_inv_simps [simp]:
  "gpt_inv N (show_out x s) = gpt_inv N s" "gpt_inv N (s\<lparr>s_inp := i\<rparr>) = gpt_inv N s"
  "gpt_inv N (s\<lparr>s_uc := u\<rparr>) = gpt_inv N s" "gpt_inv N (s\<lparr>s_dev := d\<rparr>) = gpt_inv N s"
  by (simp_all add: gpt_inv_def)

lemma gpt_inv_set_parts:
  assumes "gpt_inv N s" and "part (s_gpt s) = Some ps" and "length ps' = length ps" and "list_all part_ok ps'"
    and "header (s_gpt s') = header (s_gpt s)" and "part (s_gpt s') = Some ps'"
  shows "gpt_inv N s'"
  using assms by (auto simp: gpt_inv_def gpt_ok_def split: option.splits)

lemma gpt_inv_cong: "s_gpt s' = s_gpt s \<Longrightarrow> gpt_inv N s' = gpt_inv N s"
  by (simp add: gpt_inv_def)

text \<open>
  What the edit loop relies on: a command reads a prefix of the input, keeps the invariant, and
  leaves the first usable LBA alone or makes it small.
\<close>

locale command =
  fixes e :: genv and run :: "gstate \<Rightarrow> (cmd_status \<times> gstate) outcome"
  assumes run_reads: "run s = Ret (st, s') \<Longrightarrow> suffix (s_inp s') (s_inp s)"
    and run_inv: "env_ok e \<Longrightarrow> 128 \<le> N \<Longrightarrow> gpt_inv N s \<Longrightarrow> run s = Ret (st, s') \<Longrightarrow> gpt_inv N s'"
    and run_start: "run s = Ret (st, s') \<Longrightarrow> start_of s' = start_of s \<or> (\<exists>w. start_of s' = Some w \<and> unat w < 2 ^ 32)"
begin

lemma run_shrinks: "run s = Ret (st, s') \<Longrightarrow> length (s_inp s') \<le> length (s_inp s)"
  using run_reads suffix_length_le by blast

end

text \<open>All commands but \<open>write\<close> leave the device alone.\<close>

locale memory_command = command +
  assumes run_dev: "run s = Ret (st, s') \<Longrightarrow> s_dev s' = s_dev s"

lemma list_all_update: "list_all P xs \<Longrightarrow> P x \<Longrightarrow> list_all P (xs[i := x])"
  by (auto simp: list_all_iff dest: set_update_subset_insert [THEN subsetD])

lemma list_all_nth: "list_all P xs \<Longrightarrow> i < length xs \<Longrightarrow> P (xs ! i)"
  by (simp add: list_all_length)

lemma part_ok_update:
  assumes "list_all part_ok ps" and "pn < length ps \<Longrightarrow> part_ok (ps ! pn) \<Longrightarrow> part_ok q"
  shows "list_all part_ok (ps[pn := q])"
proof (cases "pn < length ps")
  case True
  then show ?thesis
    using assms list_all_nth [OF assms(1) True] by (intro list_all_update) simp_all
qed (use assms(1) in \<open>simp add: list_update_beyond\<close>)

lemma gpt_inv_part_ok: "gpt_inv N s \<Longrightarrow> part (s_gpt s) = Some ps \<Longrightarrow> list_all part_ok ps"
  by (auto simp: gpt_inv_def gpt_ok_def split: option.splits)

interpretation c_quit: memory_command e Xquit for e
  by unfold_locales (auto simp: Xquit_def)

interpretation c_exit: memory_command e Xexit for e
  by unfold_locales (auto simp: Xexit_def)

interpretation c_abort: memory_command e Xabort for e
  by unfold_locales (auto simp: Xabort_def)

interpretation c_manual: memory_command e Xmanual for e
  by unfold_locales (auto simp: Xmanual_def)

interpretation c_help: memory_command e "Xhelp table" for e and table
  by unfold_locales (auto simp: Xhelp_def)

interpretation c_prnt: memory_command e "Xprint e dk args" for e dk args
  by unfold_locales (auto simp: Xprint_def outcome_simps)

lemma swap_parts_Ret:
  "swap_parts ps pt pf = Ret ps' \<longleftrightarrow> pt < length ps \<and> pf < length ps \<and> ps' = ps[pt := ps ! pf, pf := ps ! pt]"
  by (auto simp: swap_parts_def outcome_simps)

lemma Xswap_Ret:
  "Xswap args s = Ret (st, s') \<Longrightarrow> (st = CMD_CONT \<and> s' = s) \<or>
   (\<exists>ps pt pf. st = CMD_DIRTY \<and> part (s_gpt s) = Some ps \<and> pt \<noteq> pf \<and> pt < length ps \<and> pf < length ps
     \<and> s' = set_parts (ps[pt := ps ! pf, pf := ps ! pt]) s)"
  by (auto simp: Xswap_def outcome_simps swap_parts_Ret split: prod.splits option.splits if_splits)

interpretation c_swap: memory_command e "Xswap args" for e args
proof unfold_locales
  fix N :: nat and s st s'
  assume inv: "gpt_inv N s" and "Xswap args s = Ret (st, s')"
  from Xswap_Ret [OF this(2)] show "gpt_inv N s'"
  proof (elim disjE conjE exE)
    fix ps pt pf
    assume ps: "part (s_gpt s) = Some ps" "pt < length ps" "pf < length ps"
      and s': "s' = set_parts (ps[pt := ps ! pf, pf := ps ! pt]) s"
    have "list_all part_ok ps" by (rule gpt_inv_part_ok [OF inv ps(1)])
    then have "list_all part_ok (ps[pt := ps ! pf, pf := ps ! pt])"
      using ps by (intro part_ok_update) (simp_all add: list_all_nth)
    then show ?thesis
      by (intro gpt_inv_set_parts [OF inv ps(1)]) (simp_all add: s')
  qed (use inv in simp)
qed (auto dest!: Xswap_Ret)

lemma Xsetpid_Ret:
  assumes "Xsetpid e args s = Ret (st, s')"
  shows "suffix (s_inp s') (s_inp s) \<and> s_dev s' = s_dev s \<and> header (s_gpt s') = header (s_gpt s) \<and> s_uc s' = s_uc s
    \<and> (part (s_gpt s') = part (s_gpt s) \<or>
       (\<exists>ps pn pid. part (s_gpt s) = Some ps \<and> part_number args = Some pn \<and> pn < length ps \<and> st = CMD_DIRTY
         \<and> part (s_gpt s') = Some (ps[pn := PRT_set_type_by_pid (ps ! pn) pid])))"
  using assms rd_pid.reads
  by (fastforce simp: Xsetpid_def outcome_simps Let_def set_parts_def show_out_def
      split: prod.splits option.splits if_splits)

interpretation c_setpid: memory_command e "Xsetpid e args" for e args
proof unfold_locales
  fix N :: nat and s st s'
  assume inv: "gpt_inv N s" and "Xsetpid e args s = Ret (st, s')"
  note r = Xsetpid_Ret [OF this(2)]
  then consider "part (s_gpt s') = part (s_gpt s)"
    | ps pn pid where "part (s_gpt s) = Some ps" "part (s_gpt s') = Some (ps[pn := PRT_set_type_by_pid (ps ! pn) pid])"
    by blast
  then show "gpt_inv N s'"
  proof cases
    case 1
    with r inv show ?thesis by (simp add: gpt_inv_def)
  next
    case 2
    show ?thesis
      using r by (intro gpt_inv_set_parts [OF inv 2(1) _ _ _ 2(2)] part_ok_update gpt_inv_part_ok [OF inv 2(1)]) simp_all
  qed
qed (auto dest!: Xsetpid_Ret simp: start_of_def)

lemma length_set_active [simp]: "length (set_active n pn ps) = length ps"
  by (simp add: set_active_def)

lemma nth_set_active:
  "i < length ps \<Longrightarrow> set_active n pn ps ! i =
   (if i < n then (ps ! i)\<lparr>p_attribute := (if i = pn then p_attribute (ps ! i) OR GPT_DOSACTIVE
      else p_attribute (ps ! i) AND NOT GPT_DOSACTIVE)\<rparr> else ps ! i)"
  by (simp add: set_active_def nth_enumerate_eq)

lemma part_ok_set_active: "list_all part_ok ps \<Longrightarrow> list_all part_ok (set_active n pn ps)"
  by (simp add: list_all_length nth_set_active)

lemma apply_flags_Ret:
  assumes "apply_flags pn f s = Ret s'"
  shows "\<exists>ps ps1. part (s_gpt s) = Some ps \<and> pn < length ps
    \<and> ps1 = (if fl_active f then set_active (unat (h_partitions_num (the (header (s_gpt s))))) pn ps else ps)
    \<and> s' = set_parts (ps1[pn := (ps1 ! pn)\<lparr>p_attribute := flag_bits f (p_attribute (ps1 ! pn))\<rparr>]) s"
  using assms by (auto simp: apply_flags_def outcome_simps Let_def split: if_splits)

lemma apply_flags_inv:
  assumes "apply_flags pn f s = Ret s'" and "gpt_inv N s"
  shows "gpt_inv N s'"
proof -
  from apply_flags_Ret [OF assms(1)] obtain ps ps1 n where ps: "part (s_gpt s) = Some ps"
    and ps1: "ps1 = (if fl_active f then set_active n pn ps else ps)"
    and s': "s' = set_parts (ps1[pn := (ps1 ! pn)\<lparr>p_attribute := flag_bits f (p_attribute (ps1 ! pn))\<rparr>]) s"
    by blast
  have "list_all part_ok ps1"
    using gpt_inv_part_ok [OF assms(2) ps] by (simp add: ps1 part_ok_set_active)
  then have "list_all part_ok (ps1[pn := (ps1 ! pn)\<lparr>p_attribute := flag_bits f (p_attribute (ps1 ! pn))\<rparr>])"
    by (rule part_ok_update) simp
  moreover have "length ps1 = length ps" by (simp add: ps1)
  ultimately show ?thesis
    by (intro gpt_inv_set_parts [OF assms(2) ps]) (simp_all add: s')
qed

lemma flags_from_user_reads: "flags_from_user e pn s = Ret (f, rest) \<Longrightarrow> suffix rest (s_inp s)"
  unfolding flags_from_user_def
  by (clarsimp simp: outcome_simps Let_def)
     (meson rd_yn.reads rd_uint.reads_then)

lemma Xflags_Ret:
  assumes "Xflags e args s = Ret (st, s')"
  shows "(st = CMD_CONT \<and> s' = s) \<or> (st = CMD_DIRTY \<and> (\<exists>pn f s1. part_number (fst (flag_tokens args)) = Some pn
    \<and> s_gpt s1 = s_gpt s \<and> s_dev s1 = s_dev s \<and> suffix (s_inp s1) (s_inp s) \<and> apply_flags pn f s1 = Ret s'))"
proof -
  have user: "\<exists>f s1. s_gpt s1 = s_gpt s \<and> s_dev s1 = s_dev s \<and> suffix (s_inp s1) (s_inp s) \<and> apply_flags pn f s1 = Ret s'"
    if "flags_from_user e pn s = Ret (f, rest)" "apply_flags pn f (s\<lparr>s_inp := rest\<rparr>) = Ret s'" for pn f rest
    using that flags_from_user_reads by (intro exI [of _ f] exI [of _ "s\<lparr>s_inp := rest\<rparr>"]) simp
  have args: "\<exists>f s1. s_gpt s1 = s_gpt s \<and> s_dev s1 = s_dev s \<and> suffix (s_inp s1) (s_inp s) \<and> apply_flags pn f s1 = Ret s'"
    if "apply_flags pn f s = Ret s'" for pn f
    using that by (intro exI [of _ f] exI [of _ s]) simp
  show ?thesis
    using assms user args
    by (simp add: Xflags_def outcome_simps split: prod.splits option.splits) blast+
qed

interpretation c_flags: memory_command e "Xflags e args" for e args
proof unfold_locales
  fix N :: nat and s st s'
  assume inv: "gpt_inv N s" and "Xflags e args s = Ret (st, s')"
  then show "gpt_inv N s'"
    using apply_flags_inv gpt_inv_cong by (blast dest!: Xflags_Ret)
qed (auto dest!: Xflags_Ret apply_flags_Ret simp: start_of_def)

lemma fillremaining_keeps:
  assumes "GPT_fillremaining e h ps pn = Ret ps'" and "gpt_ok h ps"
  shows "length ps' = length ps \<and> list_all part_ok ps'"
proof -
  have ok: "length ps = unat (h_partitions_num h)" "list_all part_ok ps"
    using assms(2) by (simp_all add: gpt_ok_def)
  from assms(1) ok(1) obtain i where
    "ps' = ps[pn := foldl (shrink_step pn) ((ps ! pn)\<lparr>p_start_lba := i, p_end_lba := h_end_lba h\<rparr>) (enumerate 0 ps)]"
    by (rule fillremaining_Ret)
  then show ?thesis
    using part_ok_update [OF ok(2)] by (simp add: part_ok_shrink)
qed

lemma ask_string_length:
  assumes "ask_string buf n inp = Ret (b, rest)" and "length buf = n" and "0 < n"
  shows "length b = n"
proof -
  obtain line where l: "fgets n inp = Some (line, rest)"
    and b: "length b = length (line @ [NUL] @ drop (Suc (length line)) buf)"
    using assms(1) by (auto simp: ask_string_def Let_def split: option.splits if_splits)
  then show ?thesis
    using fgets_fits [OF l] assms(2,3) by simp
qed

lemma edit_entry_Ret:
  assumes "edit_entry e h pp inp uc = Ret (pp', rest, uc')"
  shows "suffix rest inp \<and> (env_ok e \<and> part_ok pp \<longrightarrow> part_ok pp')"
proof -
  obtain buf inp1 start inp2 sz inp3 where
    b: "ask_string (replicate 36 NUL) 36 inp = Ret (buf, inp1)"
    and g: "getuint e (p_start_lba pp) (h_end_lba h) inp1 = Ret (start, inp2)"
      "getuint e (p_end_lba pp - start + 1) (h_end_lba h - start + 1) inp2 = Ret (sz, inp3)"
    and rest: "rest = inp3" and pp': "pp' = zero_part \<or> (\<exists>g. (g = p_guid pp \<or> g = uuid_src e uc) \<and>
      pp' = pp\<lparr>p_name := name_of_buf buf, p_start_lba := start, p_end_lba := sz + start - 1, p_guid := g\<rparr>)"
    using assms by (fastforce simp: edit_entry_def outcome_simps Let_def split: prod.splits if_splits)
  have "length (name_of_buf buf) = 36"
    using ask_string_length [OF b] by (simp add: name_of_buf_def)
  then show ?thesis
    using pp' rest rd_string.reads [OF b] rd_uint.reads [OF g(1)] rd_uint.reads [OF g(2)] suffix_order.trans
    by (auto simp: env_ok_def part_ok_def zero_part_def)
qed

lemma edit_rest_cases:
  assumes "edit_rest e pn new s1 = Ret s'"
  obtains (disabled) ps1 where "part (s_gpt s1) = Some ps1" "pn < length ps1" "uuid_is_nil (p_type (ps1 ! pn))"
      "s' = set_parts (ps1[pn := zero_part]) s1"
  | (edited) ps1 h ps2 pp3 rest uc where "part (s_gpt s1) = Some ps1" "header (s_gpt s1) = Some h"
      "ps2 = ps1 \<or> GPT_fillremaining e h ps1 pn = Ret ps2" "pn < length ps2"
      "edit_entry e h (ps2 ! pn) (s_inp s1) (s_uc s1) = Ret (pp3, rest, uc)"
      "s' = set_parts (ps2[pn := pp3]) (s1\<lparr>s_inp := rest, s_uc := uc\<rparr>)"
proof -
  from assms obtain ps1 where ps1: "part (s_gpt s1) = Some ps1" "pn < length ps1"
    by (auto simp: edit_rest_def outcome_simps)
  show ?thesis
  proof (cases "uuid_is_nil (p_type (ps1 ! pn))")
    case True
    with assms ps1 show ?thesis
      by (auto simp: edit_rest_def the_parts_def aget_def aset_def intro: disabled)
  next
    case False
    then obtain h ps2 pp3 rest uc where "header (s_gpt s1) = Some h"
      "(if new then GPT_fillremaining e h ps1 pn else Ret ps1) = Ret ps2" "pn < length ps2"
      "edit_entry e h (ps2 ! pn) (s_inp s1) (s_uc s1) = Ret (pp3, rest, uc)"
      "s' = set_parts (ps2[pn := pp3]) (s1\<lparr>s_inp := rest, s_uc := uc\<rparr>)"
      using assms ps1 by (cases new) (auto simp: edit_rest_def the_parts_def aget_Ret obind_eq_Ret the_header_Ret aset_Ret
          aget_def [of ps1])
    with ps1(1) show ?thesis
      by (intro edited [of ps1 h ps2 pp3 rest uc]) (simp_all split: if_splits)
  qed
qed

lemma Xedit_Ret:
  "Xedit e args s = Ret (st, s') \<Longrightarrow> (st = CMD_CONT \<and> s' = s) \<or>
   (\<exists>pn s1 new. part_number args = Some pn \<and> Xsetpid e args s = Ret (st, s1) \<and> edit_rest e pn new s1 = Ret s')"
  by (auto simp: Xedit_def outcome_simps split: option.splits)

lemma edit_rest_reads:
  assumes "edit_rest e pn new s1 = Ret s'"
  shows "suffix (s_inp s') (s_inp s1)" and "s_dev s' = s_dev s1" and "start_of s' = start_of s1"
  using assms by (cases rule: edit_rest_cases; simp add: edit_entry_Ret start_of_def)+

lemma edit_rest_inv:
  assumes "edit_rest e pn new s1 = Ret s'" and e: "env_ok e" and inv: "gpt_inv N s1"
  shows "gpt_inv N s'"
  using assms(1)
proof (cases rule: edit_rest_cases)
  case (disabled ps1)
  then show ?thesis
    using gpt_inv_part_ok [OF inv disabled(1)]
    by (intro gpt_inv_set_parts [OF inv, of ps1 "ps1[pn := zero_part]"] part_ok_update) simp_all
next
  case (edited ps1 h ps2 pp3 rest uc)
  have "gpt_ok h ps1"
    using inv edited(1,2) by (simp add: gpt_inv_def)
  then have ps2: "length ps2 = length ps1" "list_all part_ok ps2"
    using edited(3) fillremaining_keeps [of e h ps1 pn ps2] by (auto simp: gpt_ok_def)
  then have "list_all part_ok (ps2[pn := pp3])"
    using edit_entry_Ret [OF edited(5)] e by (intro part_ok_update) auto
  then show ?thesis
    using ps2 edited by (intro gpt_inv_set_parts [OF inv edited(1), of "ps2[pn := pp3]"]) simp_all
qed

interpretation c_edit: memory_command e "Xedit e args" for e args
proof unfold_locales
  fix N :: nat and s st s'
  assume "Xedit e args s = Ret (st, s')"
  then consider "s' = s" | pn s1 new where "Xsetpid e args s = Ret (st, s1)" "edit_rest e pn new s1 = Ret s'"
    by (auto dest: Xedit_Ret)
  note x = this
  from x show "suffix (s_inp s') (s_inp s)"
    by cases (simp, meson c_setpid.run_reads edit_rest_reads(1) suffix_order.trans)
  from x show "s_dev s' = s_dev s"
    by cases (simp, metis c_setpid.run_dev edit_rest_reads(2))
  from x have "start_of s' = start_of s"
    by cases (simp, metis Xsetpid_Ret edit_rest_reads(3) start_of_def)
  then show "start_of s' = start_of s \<or> (\<exists>w. start_of s' = Some w \<and> unat w < 2 ^ 32)" ..
  assume "env_ok e" "128 \<le> N" "gpt_inv N s"
  with x show "gpt_inv N s'"
    by cases (simp, meson c_setpid.run_inv edit_rest_inv)
qed

lemma unat_sectoblk:
  assumes "env_ok e" and "unat w < 2 ^ 32"
  shows "unat (DL_SECTOBLK e w) < 2 ^ 55"
proof -
  have s: "secsize e div 512 < 2 ^ 23"
    using assms(1) by (simp add: env_ok_def div_less_iff_less_mult)
  then have "unat w * (secsize e div 512) < 2 ^ 32 * 2 ^ 23"
    using assms(2) by (intro mult_strict_mono) simp_all
  then have "unat (DL_SECTOBLK e w) = unat w * (secsize e div 512)"
    using s by (simp add: DL_SECTOBLK_def DEV_BSIZE_def unat_mult_lem [THEN iffD1] unat_of_nat_small)
  with \<open>unat w * (secsize e div 512) < _\<close> show ?thesis by simp
qed

lemma init_header_simps [simp]:
  "h_partitions_num (init_header dsize u) = 128" "h_start_lba (init_header dsize u) = 34"
  "h_guid (init_header dsize u) = u"
  by (simp_all add: init_header_def GPT_PARTITIONS_def Let_def zero_header_def)

lemma GPT_init_inv:
  assumes "GPT_init e dsize g uc = Ret (r, g', uc')" and "header g' \<noteq> None" and "part g' \<noteq> None"
    and "env_ok e" and "128 \<le> N" and "s_gpt s' = g'"
  shows "gpt_inv N s'"
proof -
  obtain ps where f: "GPT_fillremaining e (init_header dsize (uuid_src e uc)) (replicate 128 zero_part) 0 = Ret ps"
    and g': "g' = \<lparr>header = Some (init_header dsize (uuid_src e uc)),
      part = Some (ps[0 := PRT_set_type_by_pid (ps ! 0) GPTPTYP_OPENBSD])\<rparr>"
    using assms(1-3) by (auto simp: GPT_init_def Let_def outcome_simps GPT_PARTITIONS_def split: if_splits)
  have "gpt_ok (init_header dsize (uuid_src e uc)) (replicate 128 zero_part)"
    using assms(4) by (simp add: gpt_ok_def env_ok_def list_all_iff)
  from fillremaining_keeps [OF f this] have "length ps = 128" "list_all part_ok ps" by simp_all
  moreover from this have "list_all part_ok (ps[0 := PRT_set_type_by_pid (ps ! 0) GPTPTYP_OPENBSD])"
    by (intro part_ok_update) simp_all
  ultimately show ?thesis
    using assms(4-6) by (simp add: gpt_inv_def g' gpt_ok_def env_ok_def)
qed

interpretation c_reinit: memory_command e "Xreinit e dk args" for e dk args
proof unfold_locales
  fix N :: nat and s st s'
  assume x: "Xreinit e dk args s = Ret (st, s')"
  then show "suffix (s_inp s') (s_inp s)" "s_dev s' = s_dev s"
    by (auto simp: Xreinit_def outcome_simps)
  from x obtain dsize r g uc t where g: "GPT_init e dsize (s_gpt s) (s_uc s) = Ret (r, g, uc)"
    "GPT_print e g (Some args) = Ret t" "s' = show_out (O_table t) (s\<lparr>s_gpt := g, s_uc := uc\<rparr>)"
    by (auto simp: Xreinit_def outcome_simps)
  then have "header g \<noteq> None" "part g \<noteq> None"
    by (auto simp: GPT_print_def split: option.splits)
  note ne = this
  have "header g = Some (init_header dsize (uuid_src e (s_uc s)))"
    using g(1) ne by (auto simp: GPT_init_def Let_def outcome_simps split: if_splits)
  then show "start_of s' = start_of s \<or> (\<exists>w. start_of s' = Some w \<and> unat w < 2 ^ 32)"
    by (simp add: start_of_def g(3))
  assume "env_ok e" "128 \<le> N"
  then show "gpt_inv N s'"
    using g ne by (intro GPT_init_inv [OF g(1)]) simp_all
qed

lemma unat_store_start: "unat (scast (lbas_needed h + 1) :: u64) < 2 ^ 32"
proof -
  have "unat ((h_partitions_num h + 3) div 4) \<le> 2 ^ 30"
    using unat_word_less [of "h_partitions_num h + 3"] by (simp add: unat_div)
  then have "unat (lbas_needed h + 1) \<le> 2 ^ 30 + 2"
    using unat_word_less [of "h_partitions_num h + 3"] unfolding lbas_needed_def
    by (subst unat_plus_small; subst unat_plus_small; simp)
  then show ?thesis
    by (subst unat_scast_small) simp_all
qed

lemma GPT_store_header:
  "GPT_store e d dsize h ps = Ret (r, d', h') \<Longrightarrow>
   h_partitions_num h' = h_partitions_num h \<and> h_guid h' = h_guid h
   \<and> (h_start_lba h' = h_start_lba h \<or> h_start_lba h' = scast (lbas_needed h + 1))"
  by (auto simp: GPT_store_def Let_def store_bounds_def primary_header_def backup_header_def
      split: if_splits prod.splits bool.splits)

lemma GPT_verify_reads: "GPT_verify e h ps inp = Ret (ok, rest) \<Longrightarrow> suffix rest inp"
  by (auto simp: GPT_verify_def Let_def outcome_simps split: if_splits option.splits
      dest!: verify_loop_reads dest: rd_yn.reads_then)

lemma Xwrite_cases:
  assumes "Xwrite os e dk s = Ret (st, s')"
  obtains (kept) rest where "st = CMD_CONT" "s' = s\<lparr>s_inp := rest\<rparr>" "suffix rest (s_inp s)"
  | (stored) h ps dsize rest r d' h' where "header (s_gpt s) = Some h" "part (s_gpt s) = Some ps"
      "d_real dk = Some dsize" "GPT_store e (s_dev s) dsize h ps = Ret (r, d', h')" "suffix rest (s_inp s)"
      "st = (if r then CMD_CLEAN else CMD_CONT)"
      "s' = s\<lparr>s_inp := rest, s_dev := d', s_gpt := (s_gpt s)\<lparr>header := Some h'\<rparr>\<rparr>"
proof -
  from assms obtain h ps ok rest where v: "header (s_gpt s) = Some h" "part (s_gpt s) = Some ps"
    "GPT_verify e h ps (s_inp s) = Ret (ok, rest)"
    by (auto simp: Xwrite_def outcome_simps)
  note sfx = GPT_verify_reads [OF v(3)]
  show ?thesis
  proof (cases ok)
    case False
    then show ?thesis
      using assms v sfx by (intro kept [of rest]) (auto simp: Xwrite_def the_header_def the_parts_def)
  next
    case True
    then obtain dsize r d' h' where "d_real dk = Some dsize" "GPT_store e (s_dev s) dsize h ps = Ret (r, d', h')"
      "st = (if r then CMD_CLEAN else CMD_CONT)"
      "s' = s\<lparr>s_inp := rest, s_dev := d', s_gpt := (s_gpt s)\<lparr>header := Some h'\<rparr>\<rparr>"
      using assms v by (auto simp: Xwrite_def the_header_def the_parts_def obind_eq_Ret real_size_Ret Let_def)
    then show ?thesis
      using v sfx by (intro stored)
  qed
qed

interpretation c_write: command e "Xwrite os e dk" for os e dk
proof unfold_locales
  fix N :: nat and s st s'
  assume w: "Xwrite os e dk s = Ret (st, s')"
  then show "suffix (s_inp s') (s_inp s)"
    by (cases rule: Xwrite_cases) simp_all
  from w show "start_of s' = start_of s \<or> (\<exists>w. start_of s' = Some w \<and> unat w < 2 ^ 32)"
  proof (cases rule: Xwrite_cases)
    case (stored h ps dsize rest r d' h')
    then show ?thesis
      using GPT_store_header [OF stored(4)] unat_store_start [of h] by (auto simp: start_of_def)
  qed simp
  assume inv: "gpt_inv N s"
  from w show "gpt_inv N s'"
  proof (cases rule: Xwrite_cases)
    case (stored h ps dsize rest r d' h')
    then show ?thesis
      using inv GPT_store_header [OF stored(4)] by (auto simp: gpt_inv_def gpt_ok_def)
  qed (use inv in simp)
qed

section \<open>Swapping entries\<close>

text \<open>
  \<open>swap\<close> is an involution: after a swap that changed the table, the same command changes
  it back, and the entries are the same up to their order.
\<close>

theorem Xswap_involution:
  assumes "Xswap args s = Ret (CMD_DIRTY, s')"
  shows "Xswap args s' = Ret (CMD_DIRTY, s)
    \<and> (\<exists>ps ps'. part (s_gpt s) = Some ps \<and> part (s_gpt s') = Some ps' \<and> mset ps' = mset ps)"
proof -
  from assms obtain frm to pf pt ps where a: "strsep (Some args) = (Some frm, Some to)" "part_number frm = Some pf"
    "part_number to = Some pt" "pt \<noteq> pf" "part (s_gpt s) = Some ps" "pt < length ps" "pf < length ps"
    and s': "s' = set_parts (ps[pt := ps ! pf, pf := ps ! pt]) s"
    by (auto simp: Xswap_def outcome_simps swap_parts_Ret split: prod.splits option.splits if_splits)
  let ?ps = "ps[pt := ps ! pf, pf := ps ! pt]"
  have "?ps[pt := ?ps ! pf, pf := ?ps ! pt] = ps"
    using a(4,6,7) by (simp add: list_eq_iff_nth_eq nth_list_update)
  then have "swap_parts ?ps pt pf = Ret ps"
    using a(4,6,7) by (simp add: swap_parts_Ret)
  moreover have "set_parts ps s' = s"
    using a(5) by (simp add: s' set_parts_def)
  ultimately have "Xswap args s' = Ret (CMD_DIRTY, s)"
    using a s' by (simp add: Xswap_def the_parts_def)
  moreover have "mset ?ps = mset ps"
    using a by (simp add: mset_swap)
  ultimately show ?thesis
    using a(5) s' by (auto simp: set_parts_def)
qed

definition state0 :: gstate where
  "state0 = \<lparr>s_inp = [], s_dev = blank_dev, s_gpt = \<lparr>header = Some small_header, part = Some small_parts\<rparr>,
     s_uc = 0, s_out = []\<rparr>"

lemma state0_swap: "Xswap ''0 1'' state0 = Ret (CMD_DIRTY, set_parts (rev small_parts) state0)"
  by (simp add: Xswap_def part_number_def state0_def small_parts_def the_parts_def swap_parts_def aget_def aset_def
      text_eval)

theorem Xswap_involution_witness:
  "Xswap ''0 1'' (set_parts (rev small_parts) state0) = Ret (CMD_DIRTY, state0)"
  using Xswap_involution [OF state0_swap] by simp

lemma part_number_bound: "part_number a = Some n \<Longrightarrow> n < 128"
  by (auto simp: part_number_def split: sum.splits dest!: strtonum_range)

text \<open>
  The commands accept any entry number up to 127 and never compare it with the number of
  entries the loaded table has: \<open>swap\<close> stays inside the array for every argument line exactly
  when the table has at least 128 entries.
\<close>

theorem Xswap_in_bounds_iff:
  assumes "part (s_gpt s) = Some ps"
  shows "(\<forall>args. Xswap args s \<noteq> Undef) \<longleftrightarrow> 128 \<le> length ps"
proof
  assume "\<forall>args. Xswap args s \<noteq> Undef"
  then have "Xswap ''0 127'' s \<noteq> Undef" by blast
  then show "128 \<le> length ps"
    using assms by (simp add: Xswap_def part_number_def the_parts_def swap_parts_def aget_def text_eval split: if_splits)
next
  assume "128 \<le> length ps"
  then have "i < length ps" if "part_number a = Some i" for a i
    using part_number_bound [OF that] by simp
  then show "\<forall>args. Xswap args s \<noteq> Undef"
    using assms
    by (auto simp: Xswap_def the_parts_def swap_parts_def aget_def aset_def split: option.splits prod.splits)
qed

theorem Xswap_in_bounds_iff_witness:
  "(\<forall>args. Xswap args state0 \<noteq> Undef) \<longleftrightarrow> 128 \<le> length small_parts"
  by (rule Xswap_in_bounds_iff) (simp add: state0_def)

section \<open>Flag bits\<close>

lemma flag_masks: "GPT_PRIORITY_MASK = mask 4" "GPT_TRIES_MASK = mask 4" "GPT_SUCCESS_MASK = mask 1"
  by (simp_all add: GPT_PRIORITY_MASK_def GPT_TRIES_MASK_def GPT_SUCCESS_MASK_def mask_eq_exp_minus_1)

lemma bit_put_field:
  "bit (put_field sh (mask k) v a) n \<longleftrightarrow> n < 64 \<and> (if sh \<le> n \<and> n < sh + k then bit v (n - sh) else bit a n)"
  using bit_imp_le_length [of a n] by (auto simp: put_field_def bit_simps dest: bit_imp_le_length)

lemma bit_get_field: "bit (get_field sh (mask k) a) n \<longleftrightarrow> n < k \<and> bit a (sh + n)"
  using bit_imp_le_length [of a "sh + n"] by (auto simp: get_field_def bit_simps)

lemma get_put_same:
  "sh + k \<le> 64 \<Longrightarrow> get_field sh (mask k) (put_field sh (mask k) v a) = v AND mask k"
  by (rule bit_word_eqI) (auto simp: bit_get_field bit_put_field bit_simps)

lemma get_put_other:
  "sh' + k' \<le> sh \<or> sh + k \<le> sh' \<Longrightarrow>
   get_field sh' (mask k') (put_field sh (mask k) v a) = get_field sh' (mask k') a"
  using bit_imp_le_length [of a] by (intro bit_word_eqI) (auto simp: bit_get_field bit_put_field)

lemmas flag_fields = flag_bits_def flag_masks GPT_PRIORITY_SHIFT_def GPT_TRIES_SHIFT_def GPT_SUCCESS_SHIFT_def
  get_put_same get_put_other get_put_same [of _ 1, simplified] get_put_other [of _ 1, simplified]
  get_put_other [of _ _ _ 1, simplified]

lemma flag_bits_read:
  "get_field GPT_PRIORITY_SHIFT GPT_PRIORITY_MASK (flag_bits f a) = fl_priority f AND GPT_PRIORITY_MASK"
  "get_field GPT_TRIES_SHIFT GPT_TRIES_MASK (flag_bits f a) = fl_tries f AND GPT_TRIES_MASK"
  "get_field GPT_SUCCESS_SHIFT GPT_SUCCESS_MASK (flag_bits f a) = fl_success f AND GPT_SUCCESS_MASK"
  by (simp_all add: flag_fields)

lemma flag_bits_other: "i < 48 \<or> 57 \<le> i \<Longrightarrow> bit (flag_bits f a) i = bit a i"
  using bit_imp_le_length [of a i]
  by (auto simp: flag_fields bit_put_field bit_put_field [where k = 1, simplified])

lemma num_arg_and:
  assumes "num_arg s (uint m) = Some v" and "m = mask k"
  shows "v AND m = v"
proof -
  obtain n where n: "0 \<le> n" "n \<le> uint m" "v = of_int n"
    using assms(1) by (auto simp: num_arg_def split: sum.splits dest!: strtonum_range)
  have "uint m < 2 ^ 64" using uint_lt2p [of m] by simp
  then have "uint v = n"
    unfolding n(3) using n by (simp add: uint_word_of_int)
  moreover have "uint m < 2 ^ k"
    using and_mask_lt_2p [of "- 1 :: u64" k] assms(2) by simp
  ultimately have "uint v < 2 ^ k" using n by simp
  then show ?thesis
    unfolding assms(2) by (simp add: mask_eq_iff)
qed

lemma flags_from_args_range:
  assumes "flags_from_args a p t u = Some f"
  shows "fl_priority f AND GPT_PRIORITY_MASK = fl_priority f \<and> fl_tries f AND GPT_TRIES_MASK = fl_tries f
    \<and> fl_success f AND GPT_SUCCESS_MASK = fl_success f"
  using assms
  by (auto simp: flags_from_args_def split: option.splits
      dest: num_arg_and [OF _ flag_masks(1)] num_arg_and [OF _ flag_masks(2)] num_arg_and [OF _ flag_masks(3)])

lemma active_bit: "(a AND GPT_DOSACTIVE \<noteq> 0) = bit (a :: u64) 1"
proof -
  have g: "GPT_DOSACTIVE = push_bit 1 1" by (simp add: GPT_DOSACTIVE_def)
  have "a AND GPT_DOSACTIVE = (if bit a 1 then GPT_DOSACTIVE else 0)"
    unfolding g by (rule bit_word_eqI) (auto simp: bit_simps)
  then show ?thesis by (simp add: GPT_DOSACTIVE_def)
qed

lemma bit_active:
  "bit (a OR GPT_DOSACTIVE) i \<longleftrightarrow> bit a i \<or> i = 1" "bit (a AND NOT GPT_DOSACTIVE) i \<longleftrightarrow> bit a i \<and> i \<noteq> 1"
proof -
  have g: "GPT_DOSACTIVE = push_bit 1 1" by (simp add: GPT_DOSACTIVE_def)
  show "bit (a OR GPT_DOSACTIVE) i \<longleftrightarrow> bit a i \<or> i = 1"
    unfolding g by (auto simp: bit_simps)
  show "bit (a AND NOT GPT_DOSACTIVE) i \<longleftrightarrow> bit a i \<and> i \<noteq> 1"
    unfolding g using bit_imp_le_length [of a i] by (auto simp: bit_simps)
qed

text \<open>
  \<open>flags\<close> with five arguments does what it was asked: the priority, the tries and the
  success flag of the entry read back as given and its other attribute bits stay, apart from the
  DOS-active bit; the other entries keep everything but that bit; and when the active argument
  is 1, the entry is the only one of the table with the DOS-active bit set.
\<close>

theorem Xflags_explicit:
  assumes tok: "flag_tokens args = (p, Some a1, Some a2, Some a3, Some a4)"
    and pn: "part_number p = Some pn" and f: "flags_from_args a1 a2 a3 a4 = Some f"
    and gpt: "header (s_gpt s) = Some h" "part (s_gpt s) = Some ps" "length ps = unat (h_partitions_num h)"
    and run: "Xflags e args s = Ret (st, s')"
  shows "\<exists>ps'. part (s_gpt s') = Some ps' \<and> length ps' = length ps \<and> st = CMD_DIRTY
    \<and> get_field GPT_PRIORITY_SHIFT GPT_PRIORITY_MASK (p_attribute (ps' ! pn)) = fl_priority f
    \<and> get_field GPT_TRIES_SHIFT GPT_TRIES_MASK (p_attribute (ps' ! pn)) = fl_tries f
    \<and> get_field GPT_SUCCESS_SHIFT GPT_SUCCESS_MASK (p_attribute (ps' ! pn)) = fl_success f
    \<and> (\<forall>i < length ps. ps' ! i = (ps ! i)\<lparr>p_attribute := p_attribute (ps' ! i)\<rparr>
        \<and> (\<forall>b. b \<noteq> 1 \<and> (i \<noteq> pn \<or> b < 48 \<or> 57 \<le> b) \<longrightarrow>
              bit (p_attribute (ps' ! i)) b = bit (p_attribute (ps ! i)) b)
        \<and> (p_attribute (ps' ! i) AND GPT_DOSACTIVE \<noteq> 0 \<longleftrightarrow>
            (if fl_active f then i = pn else p_attribute (ps ! i) AND GPT_DOSACTIVE \<noteq> 0)))"
proof -
  define ps1 where "ps1 = (if fl_active f then set_active (unat (h_partitions_num h)) pn ps else ps)"
  define ps' where "ps' = ps1[pn := (ps1 ! pn)\<lparr>p_attribute := flag_bits f (p_attribute (ps1 ! pn))\<rparr>]"
  have "apply_flags pn f s = Ret s'" and st: "st = CMD_DIRTY"
    using run tok pn f by (auto simp: Xflags_def outcome_simps)
  from apply_flags_Ret [OF this(1)] have n: "pn < length ps" and s': "s' = set_parts ps' s"
    using gpt by (auto simp: ps1_def ps'_def)
  have len: "length ps1 = length ps" by (simp add: ps1_def)
  have one: "p_attribute (ps1 ! i) = (if fl_active f then
        (if i = pn then p_attribute (ps ! i) OR GPT_DOSACTIVE else p_attribute (ps ! i) AND NOT GPT_DOSACTIVE)
      else p_attribute (ps ! i))" "\<exists>c. ps1 ! i = (ps ! i)\<lparr>p_attribute := c\<rparr>"
    if "i < length ps" for i
    using that gpt(3) by (auto simp: ps1_def nth_set_active intro: exI [of _ "p_attribute (ps ! i)"])
  have two: "p_attribute (ps' ! i) = (if i = pn then flag_bits f (p_attribute (ps1 ! i)) else p_attribute (ps1 ! i))"
    "ps' ! i = (ps ! i)\<lparr>p_attribute := p_attribute (ps' ! i)\<rparr>" if "i < length ps" for i
    using that one(2) [OF that] len by (cases "i = pn"; auto simp: ps'_def)+
  show ?thesis
  proof (intro exI [of _ ps'] conjI allI impI)
    show "get_field GPT_PRIORITY_SHIFT GPT_PRIORITY_MASK (p_attribute (ps' ! pn)) = fl_priority f"
      "get_field GPT_TRIES_SHIFT GPT_TRIES_MASK (p_attribute (ps' ! pn)) = fl_tries f"
      "get_field GPT_SUCCESS_SHIFT GPT_SUCCESS_MASK (p_attribute (ps' ! pn)) = fl_success f"
      using two(1) [OF n] flags_from_args_range [OF f] by (simp_all add: flag_bits_read)
    fix i assume i: "i < length ps"
    show "ps' ! i = (ps ! i)\<lparr>p_attribute := p_attribute (ps' ! i)\<rparr>" by (rule two(2) [OF i])
    show "p_attribute (ps' ! i) AND GPT_DOSACTIVE \<noteq> 0 \<longleftrightarrow>
      (if fl_active f then i = pn else p_attribute (ps ! i) AND GPT_DOSACTIVE \<noteq> 0)"
      unfolding active_bit two(1) [OF i] one(1) [OF i] by (auto simp: flag_bits_other bit_active)
    fix b :: nat assume "b \<noteq> 1 \<and> (i \<noteq> pn \<or> b < 48 \<or> 57 \<le> b)"
    then show "bit (p_attribute (ps' ! i)) b = bit (p_attribute (ps ! i)) b"
      unfolding two(1) [OF i] one(1) [OF i] by (auto simp: flag_bits_other bit_active)
  qed (simp_all add: s' st len ps'_def)
qed

lemma state0_flags:
  "flag_tokens ''1 1 9 3 1'' = (''1'', Some ''1'', Some ''9'', Some ''3'', Some ''1'')"
  "part_number ''1'' = Some 1"
  "flags_from_args ''1'' ''9'' ''3'' ''1'' = Some \<lparr>fl_active = True, fl_priority = 9, fl_tries = 3, fl_success = 1\<rparr>"
  by (simp_all add: flag_tokens_def part_number_def flags_from_args_def num_arg_def GPT_PRIORITY_MASK_def
      GPT_TRIES_MASK_def GPT_SUCCESS_MASK_def text_eval)

theorem Xflags_explicit_witness:
  "\<exists>s' ps'. Xflags env0 ''1 1 9 3 1'' state0 = Ret (CMD_DIRTY, s') \<and> part (s_gpt s') = Some ps'
    \<and> get_field GPT_PRIORITY_SHIFT GPT_PRIORITY_MASK (p_attribute (ps' ! 1)) = 9"
proof -
  let ?f = "\<lparr>fl_active = True, fl_priority = 9, fl_tries = 3, fl_success = 1\<rparr>"
  have "\<exists>s'. Xflags env0 ''1 1 9 3 1'' state0 = Ret (CMD_DIRTY, s')"
    by (simp add: Xflags_def state0_flags apply_flags_def the_parts_def the_header_def state0_def small_parts_def
        small_header_def aget_def aset_def)
  then obtain s' where r: "Xflags env0 ''1 1 9 3 1'' state0 = Ret (CMD_DIRTY, s')" by blast
  show ?thesis
    using r Xflags_explicit [OF state0_flags _ _ _ r, of small_header small_parts]
    by (auto simp: state0_def small_parts_def small_header_def)
qed

section \<open>What an edit leaves behind\<close>

lemma edit_entry_bounds:
  assumes "edit_entry e h pp inp uc = Ret (pp', rest, uc')" and last: "unat (h_end_lba h) < 2 ^ 53 - 1"
  shows "pp' = zero_part \<or> p_start_lba pp' \<le> p_end_lba pp' \<and> p_start_lba pp' \<le> h_end_lba h
    \<and> (p_end_lba pp' \<le> h_end_lba h \<or> p_start_lba pp' = 0 \<and> p_end_lba pp' = - 1)"
proof -
  obtain inp1 start inp2 sz inp3 where
    g: "getuint e (p_start_lba pp) (h_end_lba h) inp1 = Ret (start, inp2)"
      "getuint e (p_end_lba pp - start + 1) (h_end_lba h - start + 1) inp2 = Ret (sz, inp3)"
    and pp': "pp' = zero_part \<or> (p_start_lba pp' = start \<and> p_end_lba pp' = sz + start - 1 \<and> start \<le> sz + start - 1)"
    using assms(1) by (fastforce simp: edit_entry_def outcome_simps Let_def split: prod.splits if_splits)
  have s: "start \<le> h_end_lba h"
    using getuint_le [OF g(1)] last by simp
  have d: "unat (h_end_lba h - start) = unat (h_end_lba h) - unat start"
    using s by (rule unat_minus_small)
  then have d1: "unat (h_end_lba h - start + 1) = unat (h_end_lba h) - unat start + 1"
    using last by (subst unat_plus_small) simp_all
  then have "sz \<le> h_end_lba h - start + 1"
    using getuint_le [OF g(2)] last by simp
  then have z: "unat sz + unat start \<le> unat (h_end_lba h) + 1"
    using d1 s by (simp add: word_le_nat_alt)
  then have sum: "unat (sz + start) = unat sz + unat start"
    using last by (subst unat_plus_small) simp_all
  show ?thesis
  proof (cases "sz + start = 0")
    case True
    then have "start = 0" using sum by (simp add: unat_eq_zero)
    with pp' True s show ?thesis by auto
  next
    case False
    then have "unat (sz + start - 1) \<le> unat (h_end_lba h)"
      using z sum by (simp add: unat_minus_one)
    with pp' s show ?thesis by (auto simp: word_le_nat_alt)
  qed
qed

text \<open>
  After \<open>edit\<close> the entry it was given is either cleared, or a nonempty range that starts
  and ends no later than the last usable LBA, for every input; the only exception is offset 0
  with size 0, which the zero-size test misses because the end wraps around to the largest LBA.
\<close>

theorem Xedit_bounds:
  assumes "Xedit e args s = Ret (st, s')" and "part_number args = Some pn"
    and "header (s_gpt s) = Some h" and "unat (h_end_lba h) < 2 ^ 53 - 1"
  shows "\<exists>ps'. part (s_gpt s') = Some ps' \<and> pn < length ps' \<and>
    (ps' ! pn = zero_part \<or> p_start_lba (ps' ! pn) \<le> p_end_lba (ps' ! pn) \<and> p_start_lba (ps' ! pn) \<le> h_end_lba h
      \<and> (p_end_lba (ps' ! pn) \<le> h_end_lba h \<or> p_start_lba (ps' ! pn) = 0 \<and> p_end_lba (ps' ! pn) = - 1))"
proof -
  obtain new s1 where x: "Xsetpid e args s = Ret (st, s1)" "edit_rest e pn new s1 = Ret s'"
    using assms(1,2) by (auto simp: Xedit_def outcome_simps)
  have h: "header (s_gpt s1) = Some h"
    using Xsetpid_Ret [OF x(1)] assms(3) by simp
  from x(2) show ?thesis
  proof (cases rule: edit_rest_cases)
    case (edited ps1 h' ps2 pp3 rest uc)
    then show ?thesis
      using h assms(4) edit_entry_bounds [of e h "ps2 ! pn" "s_inp s1" "s_uc s1" pp3 rest uc] by auto
  qed auto
qed

definition state1 :: gstate where
  "state1 = state0\<lparr>s_inp := ''\<newline>r\<newline>\<newline>4\<newline>'',
     s_gpt := \<lparr>header = Some (store_bounds 64 small_header), part = Some small_parts\<rparr>\<rparr>"

lemma state1_edit: "\<exists>s'. Xedit env0 ''1'' state1 = Ret (CMD_CONT, s')"
proof -
  obtain u where u: "\<And>p. PRT_set_type_by_pid p GPTPTYP_OPENBSD = p\<lparr>p_type := u\<rparr>" "\<not> uuid_is_nil u"
    "PRT_pid_for_type u = GPTPTYP_OPENBSD"
    using set_type_openbsd by metis
  then have t: "PRT_set_type_by_pid zero_part 42496 = zero_part\<lparr>p_type := u\<rparr>"
    using u(1) [of zero_part] by (simp add: GPTPTYP_OPENBSD_def)
  have a: "ask_pid GPTPTYP_OPENBSD ''\<newline>r\<newline>\<newline>4\<newline>'' = Ret (GPTPTYP_OPENBSD, ''r\<newline>\<newline>4\<newline>'')"
    by (simp add: ask_pid_def ask_loop.simps ask_pid_line_def GPTPTYP_OPENBSD_def text_eval)
  have x: "Xsetpid env0 ''1'' state1 = Ret (CMD_CONT,
      show_out (O_row (PRT_print env0 1 (small_parts ! 1) None)) state1\<lparr>s_inp := ''r\<newline>\<newline>4\<newline>''\<rparr>)"
    using a u by (simp add: Xsetpid_def state0_flags the_parts_def state1_def aget_def small_parts_def t Let_def)
  have n: "ask_string (replicate 36 NUL) 36 ''r\<newline>\<newline>4\<newline>'' = Ret (CHR ''r'' # replicate 35 NUL, ''\<newline>4\<newline>'')"
    by (simp add: ask_string_def text_eval numeral_eq_Suc)
  have g1: "getuint env0 4 61 ''\<newline>4\<newline>'' = Ret (4, ''4\<newline>'')"
    and g2: "getuint env0 7 58 ''4\<newline>'' = Ret (4, '''')"
    by (simp_all add: getuint_def getuint_accept_def getuint_line_def ask_loop.simps getuint_mult_def
        u64_to_double_def env0_def text_eval)
  show ?thesis
    using x u n g1 g2
    by (simp add: Xedit_def state0_flags the_parts_def the_header_def edit_rest_def edit_entry_def state1_def aget_def
        aset_def small_parts_def t store_bounds_def lbas_needed_def small_header_def show_out_def Let_def)
qed

theorem Xedit_bounds_witness:
  "\<exists>s' ps'. Xedit env0 ''1'' state1 = Ret (CMD_CONT, s') \<and> part (s_gpt s') = Some ps' \<and>
    (ps' ! 1 = zero_part \<or> p_start_lba (ps' ! 1) \<le> p_end_lba (ps' ! 1))"
proof -
  obtain s' where r: "Xedit env0 ''1'' state1 = Ret (CMD_CONT, s')" using state1_edit by blast
  have "header (s_gpt state1) = Some (store_bounds 64 small_header)" by (simp add: state1_def)
  moreover have "unat (h_end_lba (store_bounds 64 small_header)) < 2 ^ 53 - 1"
    by (simp add: store_bounds_def lbas_needed_def small_header_def)
  ultimately show ?thesis
    using r Xedit_bounds [OF r state0_flags(2)] by blast
qed

end
