(* ===== verification/Gdisk_User.thy ===== *)
theory Gdisk_User
  imports Gdisk_Cmd
begin

text \<open>
  \<open>sbin/gdisk/user.c\<close> and \<open>gdisk.c\<close>: the command table, the edit loop, printing,
  initialising and the \<open>main\<close> program. The edit loop ends on every input because each
  command line it reads is consumed; the termination proof rests on the command contract.
\<close>

section \<open>The command table\<close>

datatype cmd_fn = F_help | F_manual | F_reinit | F_setpid | F_edit | F_flags | F_swap | F_print
  | F_write | F_exit | F_quit | F_abort

definition cmd_table :: "(string \<times> cmd_fn \<times> string) list" where
  "cmd_table =
    [(''help'', F_help, ''Command help list''),
     (''manual'', F_manual, ''Show entire OpenBSD man page for gdisk''),
     (''reinit'', F_reinit, ''Re-initialize loaded GPT (to defaults)''),
     (''setpid'', F_setpid, ''Set the identifier of a given table entry''),
     (''edit'', F_edit, ''Edit given table entry''),
     (''flags'', F_flags, ''Edit given table entry flags''),
     (''swap'', F_swap, ''Swap two partition entries''),
     (''print'', F_print, ''Print loaded GPT partition table''),
     (''write'', F_write, ''Write loaded GPT to disk''),
     (''exit'', F_exit, ''Exit edit of current GPT, without saving changes''),
     (''quit'', F_quit, ''Quit edit of current GPT, saving current changes''),
     (''abort'', F_abort, ''Abort program without saving current changes'')]"

text \<open>
  The first entry whose name starts with the command (\<open>strstr\<close> at offset 0); \<open>?\<close> is entry 0.
\<close>

fun find_cmd :: "(string \<times> cmd_fn \<times> string) list \<Rightarrow> string \<Rightarrow> cmd_fn option" where
  "find_cmd [] c = None"
| "find_cmd ((name, f, _) # tab) c = (if take (length c) name = c then Some f else find_cmd tab c)"

definition lookup_cmd :: "string \<Rightarrow> cmd_fn option" where
  "lookup_cmd c = (if c = ''?'' then Some (fst (snd (cmd_table ! 0))) else find_cmd cmd_table c)"

fun call_cmd :: "cmd_fn \<Rightarrow> os \<Rightarrow> genv \<Rightarrow> disk \<Rightarrow> string \<Rightarrow> gstate \<Rightarrow> (cmd_status \<times> gstate) outcome" where
  "call_cmd F_help os e dk args s = Xhelp cmd_table s"
| "call_cmd F_manual os e dk args s = Xmanual s"
| "call_cmd F_reinit os e dk args s = Xreinit e dk args s"
| "call_cmd F_setpid os e dk args s = Xsetpid e args s"
| "call_cmd F_edit os e dk args s = Xedit e args s"
| "call_cmd F_flags os e dk args s = Xflags e args s"
| "call_cmd F_swap os e dk args s = Xswap args s"
| "call_cmd F_print os e dk args s = Xprint e dk args s"
| "call_cmd F_write os e dk args s = Xwrite os e dk s"
| "call_cmd F_exit os e dk args s = Xexit s"
| "call_cmd F_quit os e dk args s = Xquit s"
| "call_cmd F_abort os e dk args s = Xabort s"

text \<open>Every command of the table honours the command contract.\<close>

interpretation tab: command e "call_cmd f os e dk args" for e f os dk args
proof unfold_locales
  fix N :: nat and s st s'
  assume r: "call_cmd f os e dk args s = Ret (st, s')"
  then show "suffix (s_inp s') (s_inp s)"
    by (cases f) (auto dest: c_help.run_reads c_manual.run_reads c_reinit.run_reads c_setpid.run_reads
        c_edit.run_reads c_flags.run_reads c_swap.run_reads c_prnt.run_reads c_write.run_reads c_exit.run_reads
        c_quit.run_reads c_abort.run_reads)
  from r show "start_of s' = start_of s \<or> (\<exists>w. start_of s' = Some w \<and> unat w < 2 ^ 32)"
    by (cases f) (simp_all only: call_cmd.simps c_help.run_start c_manual.run_start c_reinit.run_start
        c_setpid.run_start c_edit.run_start c_flags.run_start c_swap.run_start c_prnt.run_start c_write.run_start
        c_exit.run_start c_quit.run_start c_abort.run_start)
  assume "env_ok e" "128 \<le> N" "gpt_inv N s"
  with r show "gpt_inv N s'"
    by (cases f) (auto dest: c_help.run_inv c_manual.run_inv c_reinit.run_inv c_setpid.run_inv
        c_edit.run_inv c_flags.run_inv c_swap.run_inv c_prnt.run_inv c_write.run_inv c_exit.run_inv
        c_quit.run_inv c_abort.run_inv)
qed

lemma call_cmd_dev:
  "f \<noteq> F_write \<Longrightarrow> call_cmd f os e dk args s = Ret (st, s') \<Longrightarrow> s_dev s' = s_dev s"
  by (cases f) (auto dest: c_help.run_dev c_manual.run_dev c_reinit.run_dev c_setpid.run_dev
      c_edit.run_dev c_flags.run_dev c_swap.run_dev c_prnt.run_dev c_exit.run_dev c_quit.run_dev c_abort.run_dev)

section \<open>The edit loop\<close>

definition new_modified :: "cmd_status \<Rightarrow> bool \<Rightarrow> bool" where
  "new_modified st m = (if st = CMD_CLEAN then False else if st = CMD_DIRTY then True else m)"

text \<open>
  From the label \<open>again\<close> to the end of the function: the result is the flag \<open>modified\<close> and the
  state. A failed write of \<open>quit\<close> goes back to \<open>again\<close>.
\<close>

function edit_loop :: "os \<Rightarrow> genv \<Rightarrow> disk \<Rightarrow> bool \<Rightarrow> gstate \<Rightarrow> (bool \<times> gstate) outcome" where
  "edit_loop os e dk m s =
     obind (ask_cmd (s_inp s)) (\<lambda>(ca, rest).
       let c = fst ca; args = snd ca; s1 = s\<lparr>s_inp := rest\<rparr> in
       if c = [] then edit_loop os e dk m s1
       else case lookup_cmd c of
           None \<Rightarrow> edit_loop os e dk m s1
         | Some f \<Rightarrow>
             obind (call_cmd f os e dk args s1) (\<lambda>(st, s2).
               if st = CMD_EXIT \<or> st = CMD_SAVE then
                 (if m \<and> st = CMD_SAVE then
                    obind (Xwrite os e dk s2) (\<lambda>(st', s3).
                      if st' = CMD_CONT then edit_loop os e dk m s3 else Ret (m, s3))
                  else Ret (m, s2))
               else edit_loop os e dk (new_modified st m) s2))"
  by pat_completeness auto
termination
  by (relation "measure (\<lambda>(_, _, _, _, s). length (s_inp s))")
     (auto dest!: ask_cmd_consumes tab.run_shrinks c_write.run_shrinks)

declare edit_loop.simps [simp del]

section \<open>Whole runs\<close>

text \<open>
  \<open>USER_modify\<close> works on a GPT of its own, which it loads from the primary header or else from
  the backup, and frees at the end; the caller's stays.
\<close>

definition load_any :: "genv \<Rightarrow> bdev \<Rightarrow> u64 \<Rightarrow> (gpt_header \<times> gpt_partition list) option" where
  "load_any e d dsize =
     (case GPT_load e d dsize False of
        Inr g \<Rightarrow> Some g
      | Inl _ \<Rightarrow> (case GPT_load e d dsize True of Inr g \<Rightarrow> Some g | Inl _ \<Rightarrow> None))"

definition USER_modify :: "os \<Rightarrow> genv \<Rightarrow> disk \<Rightarrow> gstate \<Rightarrow> (int \<times> gstate) outcome" where
  "USER_modify os e dk s =
     obind (DISK_open os (d_name dk)) (\<lambda>_.
     obind (real_size dk) (\<lambda>dsize.
       case load_any e (s_dev s) dsize of
         None \<Rightarrow> Ret (0, s)
       | Some (h, ps) \<Rightarrow>
           obind (edit_loop os e dk False (s\<lparr>s_gpt := \<lparr>header = Some h, part = Some ps\<rparr>\<rparr>)) (\<lambda>(_, s').
             Ret (0, s'\<lparr>s_gpt := s_gpt s\<rparr>))))"

definition USER_print_disk :: "os \<Rightarrow> genv \<Rightarrow> disk \<Rightarrow> gstate \<Rightarrow> (int \<times> gstate) outcome" where
  "USER_print_disk os e dk s =
     obind (DISK_open os (d_name dk)) (\<lambda>_.
     obind (DISK_printmetrics e dk None) (\<lambda>m.
     obind (real_size dk) (\<lambda>dsize.
       let s1 = show_out (O_metrics m) s in
       case load_any e (s_dev s) dsize of
         None \<Rightarrow> Ret (0, s1)
       | Some (h, ps) \<Rightarrow>
           obind (GPT_print e \<lparr>header = Some h, part = Some ps\<rparr> None) (\<lambda>t.
             Ret (0, show_out (O_table t) s1)))))"

definition USER_init :: "os \<Rightarrow> genv \<Rightarrow> disk \<Rightarrow> gstate \<Rightarrow> (int \<times> gstate) outcome" where
  "USER_init os e dk s =
     obind (real_size dk) (\<lambda>dsize.
     obind (GPT_init e dsize (s_gpt s) (s_uc s)) (\<lambda>(r, g, uc).
       let s1 = s\<lparr>s_gpt := g, s_uc := uc\<rparr> in
       if r = - ENOMEM then Ret (- ENOMEM, s1)
       else obind (ask_yn e (s_inp s1)) (\<lambda>(yes, rest).
         let s2 = s1\<lparr>s_inp := rest\<rparr> in
         if yes then obind (Xwrite os e dk s2) (\<lambda>(_, s3). Ret (0, s3)) else Ret (0, s2))))"

text \<open>
  \<open>getopt(argc, argv, "ief:y")\<close>: the flags and the remaining arguments; \<open>None\<close> is the call of
  \<open>usage\<close>, which \<open>-f\<close> also reaches, with or without its argument.
\<close>

record flags =
  i_flag :: bool
  m_flag :: bool
  y_opt :: bool

fun flag_letters :: "string \<Rightarrow> flags \<Rightarrow> flags option" where
  "flag_letters [] fl = Some fl"
| "flag_letters (c # cs) fl =
     (if c = CHR ''i'' then flag_letters cs (fl\<lparr>i_flag := True\<rparr>)
      else if c = CHR ''e'' then flag_letters cs (fl\<lparr>m_flag := True\<rparr>)
      else if c = CHR ''y'' then flag_letters cs (fl\<lparr>y_opt := True\<rparr>)
      else None)"

fun getopt :: "string list \<Rightarrow> flags \<Rightarrow> (flags \<times> string list) option" where
  "getopt [] fl = Some (fl, [])"
| "getopt (a # as) fl =
     (if a = ''--'' then Some (fl, as)
      else if length a > 1 \<and> hd a = CHR ''-''
      then (case flag_letters (tl a) fl of None \<Rightarrow> None | Some fl' \<Rightarrow> getopt as fl')
      else Some (fl, a # as))"

text \<open>
  \<open>main\<close>: the exit status and the final state. \<open>exit(USER_print_disk(...))\<close> also ends with a
  status, here \<open>Ret\<close> so that the state stays visible.
\<close>

definition gdisk_main :: "os \<Rightarrow> genv \<Rightarrow> string list \<Rightarrow> gstate \<Rightarrow> (int \<times> gstate) outcome" where
  "gdisk_main os e argv s =
     (case getopt argv \<lparr>i_flag = False, m_flag = False, y_opt = False\<rparr> of
        None \<Rightarrow> Exit 1
      | Some (fl, args) \<Rightarrow>
          (case args of
             [name] \<Rightarrow>
               let e1 = e\<lparr>y_flag := y_opt fl\<rparr> in
               obind (DISK_getmetrics os e1 \<lparr>d_name = name, d_label = None, d_real = None\<rparr> None) (\<lambda>(r, dk, e2).
                 if r \<noteq> 0 then Exit 1
                 else if \<not> i_flag fl \<and> \<not> m_flag fl then USER_print_disk os e2 dk s
                 else let s0 = s\<lparr>s_gpt := \<lparr>header = None, part = None\<rparr>\<rparr> in
                   obind (if i_flag fl then USER_init os e2 dk s0 else Ret (0, s0)) (\<lambda>(st, s1).
                     if st = -1 then Exit 1
                     else if m_flag fl then obind (USER_modify os e2 dk s1) (\<lambda>(_, s2). Ret (0, s2))
                     else Ret (0, s1)))
           | _ \<Rightarrow> Exit 1))"

section \<open>Sessions\<close>

text \<open>A property of the state that every command keeps holds when the edit loop returns.\<close>

lemma edit_loop_rule:
  assumes inp: "\<And>s i. P (s\<lparr>s_inp := i\<rparr>) = P s"
    and cmd: "\<And>f args s st s'. P s \<Longrightarrow> call_cmd f os e dk args s = Ret (st, s') \<Longrightarrow> P s'"
  shows "P s \<Longrightarrow> edit_loop os e dk m s = Ret (m', s') \<Longrightarrow> P s'"
proof (induction "length (s_inp s)" arbitrary: m s rule: less_induct)
  case less
  obtain c args rest where a: "ask_cmd (s_inp s) = Ret ((c, args), rest)"
    using less.prems(2) by (subst (asm) edit_loop.simps) (auto simp: outcome_simps)
  let ?s1 = "s\<lparr>s_inp := rest\<rparr>"
  have shorter: "length rest < length (s_inp s)" by (rule ask_cmd_consumes [OF a])
  have P1: "P ?s1" using less.prems(1) inp by simp
  have again: "P s'" if "edit_loop os e dk m2 s2 = Ret (m', s')" "P s2" "length (s_inp s2) \<le> length rest" for m2 s2
    using less.hyps [of s2 m2] that shorter by simp
  note eq = less.prems(2) [unfolded edit_loop.simps [of os e dk m s] a, simplified]
  show ?case
  proof (cases "c = [] \<or> lookup_cmd c = None")
    case True
    with eq have "edit_loop os e dk m ?s1 = Ret (m', s')" by (auto simp: Let_def split: if_splits)
    then show ?thesis using P1 by (rule again) simp
  next
    case False
    then obtain f where f: "c \<noteq> []" "lookup_cmd c = Some f" by auto
    with eq obtain st s2 where r: "call_cmd f os e dk args ?s1 = Ret (st, s2)"
      and k: "(if st = CMD_EXIT \<or> st = CMD_SAVE then
         (if m \<and> st = CMD_SAVE then
            obind (Xwrite os e dk s2) (\<lambda>(st', s3). if st' = CMD_CONT then edit_loop os e dk m s3 else Ret (m, s3))
          else Ret (m, s2))
        else edit_loop os e dk (new_modified st m) s2) = Ret (m', s')"
      by (auto simp: Let_def obind_eq_Ret)
    have P2: "P s2" by (rule cmd [OF P1 r])
    have l2: "length (s_inp s2) \<le> length rest" using tab.run_shrinks [OF r] by simp
    show ?thesis
    proof (cases "m \<and> st = CMD_SAVE")
      case True
      with k obtain st' s3 where w: "Xwrite os e dk s2 = Ret (st', s3)"
        and k3: "(if st' = CMD_CONT then edit_loop os e dk m s3 else Ret (m, s3)) = Ret (m', s')"
        by (auto simp: obind_eq_Ret)
      have "P s3" using cmd [OF P2, of F_write] w by simp
      moreover have "length (s_inp s3) \<le> length rest" using c_write.run_shrinks [OF w] l2 by simp
      ultimately show ?thesis using k3 again [of m s3] by (auto split: if_splits)
    next
      case False
      with k P2 l2 again [of "new_modified st m" s2] show ?thesis by (auto split: if_splits)
    qed
  qed
qed

text \<open>
  C13: Every command keeps the in-memory GPT well formed, so it is well formed when the edit
  loop returns: for every input, the entry array has the extent the header states, and every
  entry has the layout that is written to disk.
\<close>

theorem edit_loop_keeps_gpt:
  assumes "edit_loop os e dk m s = Ret (m', s')" and "gpt_inv N s" and "env_ok e" and "128 \<le> N"
  shows "gpt_inv N s'"
  by (rule edit_loop_rule [where P = "gpt_inv N" and os = os and e = e and dk = dk and m = m and m' = m'])
     (use assms in \<open>auto intro: tab.run_inv\<close>)

lemma Xwrite_keeps_sector:
  assumes "Xwrite os e dk s = Ret (st, s')" and "gpt_inv N s" and "N < 2 ^ 25" and "d_real dk = Some dsize"
    and "0 < secsize e" and "unat dsize * secsize e < 2 ^ 63"
    and "k = 0 \<or> (N + 3) div 4 + 2 \<le> k \<and> k \<le> unat dsize - ((N + 3) div 4 + 2)"
  shows "bd_read (s_dev s') k = bd_read (s_dev s) k"
  using assms(1)
proof (cases rule: Xwrite_cases)
  case (stored h ps dsize' rest r d' h')
  have n: "unat (h_partitions_num h) = length ps" "length ps \<le> N"
    using assms(2) stored(1,2) by (auto simp: gpt_inv_def gpt_ok_def)
  then have q: "(length ps + 3) div 4 \<le> (N + 3) div 4"
    by (intro div_le_mono) simp
  have "bd_read d' k = bd_read (s_dev s) k"
    using assms(3-7) n q stored(3)
    by (intro GPT_store_frame [OF stored(4)]) auto
  then show ?thesis by (simp add: stored)
qed simp

text \<open>
  C2: An edit session never touches what is on the partitions. Starting from a table of at most
  128 entries, whatever the user types, whatever the commands and however often they write, every
  sector between the two metadata areas, LBA 34 to 34 before the end, and the protective MBR in
  sector 0 read at the end as they did at the start.
\<close>

theorem edit_loop_keeps_partitions:
  assumes "edit_loop os e dk m s = Ret (m', s')" and "gpt_inv 128 s" and "env_ok e"
    and "d_real dk = Some dsize" and "0 < secsize e" and "unat dsize * secsize e < 2 ^ 63"
    and "k = 0 \<or> 34 \<le> k \<and> k \<le> unat dsize - 34"
  shows "bd_read (s_dev s') k = bd_read (s_dev s) k"
proof -
  let ?P = "\<lambda>t. gpt_inv 128 t \<and> bd_read (s_dev t) k = bd_read (s_dev s) k"
  have "?P s'"
  proof (rule edit_loop_rule [where P = ?P and os = os and e = e and dk = dk and m = m and m' = m' and s = s])
    fix f args t st t'
    assume P: "?P t" and r: "call_cmd f os e dk args t = Ret (st, t')"
    have "bd_read (s_dev t') k = bd_read (s_dev t) k"
    proof (cases "f = F_write")
      case True
      then have "Xwrite os e dk t = Ret (st, t')" using r by simp
      then show ?thesis
        by (rule Xwrite_keeps_sector [where N = 128]) (use P assms in auto)
    qed (use call_cmd_dev r in auto)
    then show "?P t'"
      using P tab.run_inv [OF assms(3) _ _ r, of 128] by simp
  qed (use assms in auto)
  then show ?thesis by simp
qed

text \<open>A session: swap the two entries, then leave without saving.\<close>

definition disk1 :: disk where
  "disk1 = \<lparr>d_name = ''sd0'', d_label = Some 64, d_real = Some 64\<rparr>"

definition session :: gstate where
  "session = state0\<lparr>s_inp := ''sw 0 1\<newline>ex\<newline>''\<rparr>"

lemma session_run:
  "edit_loop os0 env0 disk1 False session = Ret (True, set_parts (rev small_parts) (state0\<lparr>s_inp := ''''\<rparr>))"
proof -
  have c1: "ask_cmd ''sw 0 1\<newline>ex\<newline>'' = Ret ((''sw'', ''0 1''), ''ex\<newline>'')"
    and c2: "ask_cmd ''ex\<newline>'' = Ret ((''ex'', ''''), '''')"
    by (simp_all add: ask_cmd_def Let_def text_eval)
  have l: "lookup_cmd ''sw'' = Some F_swap" "lookup_cmd ''ex'' = Some F_exit"
    by (simp_all add: lookup_cmd_def cmd_table_def)
  have x: "Xswap ''0 1'' (state0\<lparr>s_inp := i\<rparr>) = Ret (CMD_DIRTY, set_parts (rev small_parts) (state0\<lparr>s_inp := i\<rparr>))" for i
    by (simp add: Xswap_def part_number_def state0_def small_parts_def the_parts_def swap_parts_def aget_def aset_def
        text_eval)
  have "edit_loop os0 env0 disk1 True (set_parts (rev small_parts) (state0\<lparr>s_inp := ''ex\<newline>''\<rparr>))
      = Ret (True, set_parts (rev small_parts) (state0\<lparr>s_inp := ''''\<rparr>))"
    by (subst edit_loop.simps) (simp add: c2 l Xexit_def, simp add: set_parts_def)
  then show ?thesis
    by (subst edit_loop.simps) (simp add: session_def c1 l x new_modified_def)
qed

lemma session_inv: "gpt_inv N session" if "2 \<le> N"
  using that small_storable by (simp add: gpt_inv_def session_def state0_def gpt_ok_def storable_def small_parts_def)

lemma env0_ok: "env_ok env0"
  by (simp add: env_ok_def env0_def uuid_ok_def nil_uuid_def)

theorem edit_loop_keeps_gpt_witness:
  "edit_loop os0 env0 disk1 False session = Ret (True, set_parts (rev small_parts) (state0\<lparr>s_inp := ''''\<rparr>))
   \<and> gpt_inv 128 (set_parts (rev small_parts) (state0\<lparr>s_inp := ''''\<rparr>))"
  using session_run edit_loop_keeps_gpt [OF session_run session_inv env0_ok, of 128] by simp

theorem edit_loop_keeps_partitions_witness:
  "bd_read (s_dev (set_parts (rev small_parts) (state0\<lparr>s_inp := ''''\<rparr>))) 0 = bd_read (s_dev session) 0"
  by (rule edit_loop_keeps_partitions [OF session_run session_inv env0_ok, of 64])
     (simp_all add: disk1_def env0_def)

section \<open>Liveness\<close>

lemma ask_loop_not_Hang: "(\<And>l. accept l \<noteq> Some Hang) \<Longrightarrow> ask_loop n accept inp \<noteq> Hang"
proof (induction n accept inp rule: ask_loop.induct)
  case (1 n accept inp)
  show ?case
  proof (cases "fgets (n + 2) inp")
    case None
    then show ?thesis by (simp add: ask_loop.simps [of n accept inp])
  next
    case (Some lr)
    obtain line r where l: "fgets (n + 2) inp = Some (line, r)" using Some by (cases lr) simp
    show ?thesis
    proof (cases "accept (chomp line)")
      case None
      with 1 l show ?thesis by (simp add: ask_loop.simps [of n accept inp])
    next
      case (Some x)
      with "1.prems" [of "chomp line"] l show ?thesis
        by (cases x) (simp_all add: ask_loop.simps [of n accept inp])
    qed
  qed
qed

lemma questions_not_Hang [simp]:
  "ask_pid d inp \<noteq> Hang" "getuint e a b inp \<noteq> Hang" "ask_yn e inp \<noteq> Hang" "ask_string buf n inp \<noteq> Hang"
  "ask_cmd inp \<noteq> Hang"
proof -
  have d: "double_to_u64 x \<noteq> Hang" for x by (cases x) auto
  show "ask_pid d inp \<noteq> Hang"
    by (auto simp: ask_pid_def ask_pid_line_def Let_def intro!: ask_loop_not_Hang split: prod.splits if_splits)
  show "getuint e a b inp \<noteq> Hang"
    by (auto simp: getuint_def getuint_accept_def Let_def d intro!: ask_loop_not_Hang split: if_splits)
qed (auto simp: ask_yn_def ask_string_def ask_cmd_def Let_def split: list.splits option.splits)

lemma GPT_verify_not_Hang: "GPT_verify e h ps inp \<noteq> Hang"
proof -
  have a: "verify_against e p qs inp \<noteq> Hang" for p qs inp
    by (induction qs arbitrary: inp) (auto simp: outcome_simps)
  have "verify_loop e qs n inp \<noteq> Hang" for qs n inp
    by (induction qs arbitrary: n inp) (auto simp: outcome_simps a Let_def)
  then show ?thesis
    by (auto simp: GPT_verify_def Let_def outcome_simps split: option.splits)
qed

lemma not_Hang_simps [simp]:
  "GPT_store e d dsize h ps \<noteq> Hang" "the_parts s \<noteq> Hang" "the_header s \<noteq> Hang" "aget xs i \<noteq> Hang"
  "aset xs i v \<noteq> Hang" "real_size dk \<noteq> Hang" "DISK_open os n \<noteq> Hang" "GPT_print e g u \<noteq> Hang"
  "DISK_printmetrics e dk u \<noteq> Hang"
  by (auto simp: GPT_store_def the_parts_def the_header_def aget_def aset_def real_size_def DISK_open_def GPT_print_def
      DISK_printmetrics_def Let_def split: option.splits prod.splits bool.splits)

lemma fill_not_Hang:
  assumes "unat (DL_SECTOBLK e (h_start_lba h)) \<le> 2 ^ 63"
  shows "GPT_fillremaining e h ps pn \<noteq> Hang"
proof -
  obtain i where "pow2_loop 65 1 (DL_SECTOBLK e (h_start_lba h)) = Ret i"
    using pow2_loop_returns [OF assms, of 0 63] by auto
  then show ?thesis
    by (simp add: GPT_fillremaining_def Let_def obind_eq_Hang)
qed

lemma GPT_init_not_Hang: "env_ok e \<Longrightarrow> GPT_init e dsize g uc \<noteq> Hang"
  using fill_not_Hang [of e "init_header dsize (uuid_src e uc)"] unat_sectoblk [of e 34]
  by (auto simp: GPT_init_def Let_def obind_eq_Hang)

definition fills :: "genv \<Rightarrow> gstate \<Rightarrow> bool" where
  "fills e s \<longleftrightarrow> (case start_of s of None \<Rightarrow> True | Some w \<Rightarrow> unat (DL_SECTOBLK e w) \<le> 2 ^ 63)"

lemma fills_step: "env_ok e \<Longrightarrow> fills e s \<Longrightarrow> call_cmd f os e dk args s = Ret (st, s') \<Longrightarrow> fills e s'"
  using tab.run_start [of f os e dk args s st s'] unat_sectoblk [of e]
  by (fastforce simp: fills_def split: option.splits)

lemma Xsetpid_not_Hang: "Xsetpid e args s \<noteq> Hang"
  by (auto simp: Xsetpid_def Let_def obind_eq_Hang split: option.splits)

lemma edit_rest_not_Hang:
  assumes "fills e s"
  shows "edit_rest e pn new s \<noteq> Hang"
proof -
  have "GPT_fillremaining e h ps pn \<noteq> Hang" if "the_header s = Ret h" for h ps
    using assms that by (intro fill_not_Hang) (simp add: fills_def start_of_def the_header_Ret)
  then show ?thesis
    by (auto simp: edit_rest_def edit_entry_def Let_def obind_eq_Hang split: if_splits)
qed

lemma call_cmd_not_Hang:
  assumes "env_ok e" and "fills e s"
  shows "call_cmd f os e dk args s \<noteq> Hang"
proof (cases f)
  case F_edit
  have "edit_rest e pn new s1 \<noteq> Hang" if "Xsetpid e args s = Ret (st, s1)" for st s1 pn new
  proof (rule edit_rest_not_Hang)
    show "fills e s1"
      using Xsetpid_Ret [OF that] assms(2) by (simp add: fills_def start_of_def)
  qed
  then show ?thesis
    using F_edit by (auto simp: Xedit_def obind_eq_Hang Xsetpid_not_Hang split: option.splits)
next
  case F_reinit
  then show ?thesis
    using GPT_init_not_Hang [OF assms(1)] by (auto simp: Xreinit_def obind_eq_Hang)
next
  case F_flags
  then show ?thesis
    by (auto simp: Xflags_def flags_from_user_def apply_flags_def Let_def obind_eq_Hang split: prod.splits option.splits)
qed (auto simp: Xhelp_def Xmanual_def Xsetpid_not_Hang Xswap_def swap_parts_def Xprint_def Xwrite_def Xexit_def
    Xquit_def Xabort_def GPT_verify_not_Hang Let_def obind_eq_Hang split: prod.splits option.splits)

text \<open>
  C14: The edit loop always ends: on every finite input it returns, exits or reaches undefined
  behaviour, but never loops for ever, provided the first usable LBA of the loaded header is at
  most \<open>2^63\<close> blocks, so that the search for an aligned start ends.
\<close>

theorem edit_loop_ends:
  assumes "env_ok e" and "fills e s"
  shows "edit_loop os e dk m s \<noteq> Hang"
  using assms(2)
proof (induction "length (s_inp s)" arbitrary: m s rule: less_induct)
  case less
  have again: "edit_loop os e dk m2 s2 \<noteq> Hang" if "fills e s2" "length (s_inp s2) < length (s_inp s)" for m2 s2
    using less.hyps [of s2 m2] that by simp
  have after: "edit_loop os e dk m2 s2 \<noteq> Hang \<and> Xwrite os e dk s2 \<noteq> Hang \<and>
      (\<forall>st' s3. Xwrite os e dk s2 = Ret (st', s3) \<longrightarrow> edit_loop os e dk m2 s3 \<noteq> Hang)"
    if "ask_cmd (s_inp s) = Ret (ca, rest)" "call_cmd f os e dk args (s\<lparr>s_inp := rest\<rparr>) = Ret (st, s2)"
    for ca rest f args st s2 m2
  proof -
    have f: "fills e s2"
      using fills_step [OF assms(1) _ that(2)] less.prems by (simp add: fills_def)
    have l: "length (s_inp s2) < length (s_inp s)"
      using ask_cmd_consumes [OF that(1)] tab.run_shrinks [OF that(2)] by simp
    have "edit_loop os e dk m2 s3 \<noteq> Hang" if "Xwrite os e dk s2 = Ret (st', s3)" for st' s3
      using fills_step [OF assms(1) f, of F_write] c_write.run_shrinks [OF that] that l by (intro again) auto
    moreover have "Xwrite os e dk s2 \<noteq> Hang"
      using call_cmd_not_Hang [OF assms(1) f, of F_write] by simp
    ultimately show ?thesis using again [OF f l] by blast
  qed
  have "edit_loop os e dk m (s\<lparr>s_inp := rest\<rparr>) \<noteq> Hang"
    "call_cmd f os e dk args (s\<lparr>s_inp := rest\<rparr>) \<noteq> Hang"
    if "ask_cmd (s_inp s) = Ret (ca, rest)" for ca rest f args
    using again [of "s\<lparr>s_inp := rest\<rparr>"] ask_cmd_consumes [OF that] less.prems
      call_cmd_not_Hang [OF assms(1), of "s\<lparr>s_inp := rest\<rparr>"] by (simp_all add: fills_def)
  with after show ?case
    by (subst edit_loop.simps) (auto simp: obind_eq_Hang Let_def split: option.splits if_splits)
qed

theorem edit_loop_ends_witness: "edit_loop os0 env0 disk1 False session \<noteq> Hang"
  by (rule edit_loop_ends [OF env0_ok])
     (simp add: fills_def start_of_def session_def state0_def small_header_def zero_header_def DL_SECTOBLK_def)

section \<open>A failed initialisation\<close>

text \<open>
  When memory runs out while a new GPT is built, \<open>gdisk -i\<close> writes nothing and still reports
  success: \<open>USER_init\<close> answers \<open>-ENOMEM\<close>, but \<open>main\<close> compares with \<open>-1\<close>, so the exit status
  is 0.
\<close>

theorem gdisk_init_failure_unreported:
  assumes opt: "getopt argv \<lparr>i_flag = False, m_flag = False, y_opt = False\<rparr> = Some (fl, [name])"
    and fl: "i_flag fl" "\<not> m_flag fl"
    and geo: "DISK_getmetrics os (e\<lparr>y_flag := y_opt fl\<rparr>) \<lparr>d_name = name, d_label = None, d_real = None\<rparr> None
      = Ret (0, dk, e2)"
    and mem: "\<not> malloc_ok e2 sizeof_header"
  shows "gdisk_main os e argv s = Ret (0, s\<lparr>s_gpt := \<lparr>header = None, part = None\<rparr>\<rparr>)"
proof -
  obtain dsize where "real_size dk = Ret dsize"
    using geo by (auto simp: DISK_getmetrics_def real_size_def Let_def obind_eq_Ret split: if_splits option.splits)
  then show ?thesis
    using opt fl geo mem by (simp add: gdisk_main_def USER_init_def GPT_init_def ENOMEM_def Let_def)
qed

theorem gdisk_init_failure_unreported_witness:
  "gdisk_main os0 (env0\<lparr>malloc_ok := \<lambda>n. n < 90\<rparr>) [''-iy'', ''sd0''] state0
    = Ret (0, state0\<lparr>s_gpt := \<lparr>header = None, part = None\<rparr>\<rparr>)"
  by (rule gdisk_init_failure_unreported [where fl = "\<lparr>i_flag = True, m_flag = False, y_opt = True\<rparr>" and name = "''sd0''"
        and dk = "disk0\<lparr>d_label := Some 64, d_real := Some 64\<rparr>" and ?e2.0 = "env0\<lparr>malloc_ok := \<lambda>n. n < 90, y_flag := True\<rparr>"])
     (simp_all add: DISK_getmetrics_def DISK_getlabelmetrics_def DISK_open_def os0_def disk0_def env0_def DL_GETDSIZE_def
       Let_def sizeof_header_def)

end
