(* ===== verification/Libsa_Sum.thy ===== *)
theory Libsa_Sum
  imports BSD_Prelude
begin

unbundle bit_operations_syntax

text \<open>
  Checksums of the boot program: \<open>sys/lib/libz/adler32.c\<close>, with which \<open>diskprobe.c\<close> tells disks
  apart, and \<open>sys/lib/libsa/dkcksum.c\<close> with the label search of \<open>sys/lib/libsa/disklabel.c\<close>.
  The running sums are kept at the width of \<open>uLong\<close>, any word of at least 32 bits: 64 bits in
  the 64-bit boot program and 32 in the 32-bit one.
\<close>

section \<open>Adler-32\<close>

definition BASE :: nat where "BASE = 65521"
definition NMAX :: nat where "NMAX = 5552"

text \<open>\<open>DO1\<close> for each byte: both sums without a reduction.\<close>

fun do_sums :: "'w::len word \<times> 'w word \<Rightarrow> u8 list \<Rightarrow> 'w word \<times> 'w word" where
  "do_sums (adler, sum2) [] = (adler, sum2)"
| "do_sums (adler, sum2) (b # bs) = do_sums (adler + ucast b, sum2 + (adler + ucast b)) bs"

definition MOD :: "'w::len word \<Rightarrow> 'w word" where
  "MOD a = a mod of_nat BASE"

definition sub_base :: "'w::len word \<Rightarrow> 'w word" where
  "sub_base a = (if of_nat BASE \<le> a then a - of_nat BASE else a)"

function adler_blocks :: "'w::len word \<times> 'w word \<Rightarrow> u8 list \<Rightarrow> ('w word \<times> 'w word) \<times> u8 list" where
  "adler_blocks p buf =
     (if NMAX \<le> length buf
      then (case do_sums p (take NMAX buf) of (a, s) \<Rightarrow> adler_blocks (MOD a, MOD s) (drop NMAX buf))
      else (p, buf))"
  by pat_completeness auto
termination
  by (relation "measure (\<lambda>(_, buf). length buf)") (auto simp: NMAX_def)

declare adler_blocks.simps [simp del]

definition join_sums :: "'w::len word \<times> 'w word \<Rightarrow> 'w word" where
  "join_sums p = fst p OR push_bit 16 (snd p)"

text \<open>\<open>None\<close> is \<open>Z_NULL\<close>, for which the function returns the initial value.\<close>

definition adler32 :: "'w::len word \<Rightarrow> u8 list option \<Rightarrow> 'w word" where
  "adler32 adler0 b =
     (let sum2 = drop_bit 16 adler0 AND 0xffff; adler = adler0 AND 0xffff in
      case b of
        None \<Rightarrow> 1
      | Some buf \<Rightarrow>
          if length buf = 1 then
            (let a = sub_base (adler + ucast (hd buf)); s = sub_base (sum2 + a) in join_sums (a, s))
          else if length buf < 16 then
            (case do_sums (adler, sum2) buf of (a, s) \<Rightarrow> join_sums (sub_base a, MOD s))
          else
            (case adler_blocks (adler, sum2) buf of (p, rest) \<Rightarrow>
               if rest \<noteq> [] then (case do_sums p rest of (a, s) \<Rightarrow> join_sums (MOD a, MOD s))
               else join_sums p))"

text \<open>The definition of the checksum: both sums reduced after every byte.\<close>

fun adler_ref :: "nat \<times> nat \<Rightarrow> u8 list \<Rightarrow> nat \<times> nat" where
  "adler_ref (a, s) [] = (a, s)"
| "adler_ref (a, s) (b # bs) =
     (let a' = (a + unat b) mod BASE in adler_ref (a', (s + a') mod BASE) bs)"

section \<open>The deferred reductions are exact\<close>

fun nat_sums :: "nat \<times> nat \<Rightarrow> u8 list \<Rightarrow> nat \<times> nat" where
  "nat_sums (a, s) [] = (a, s)"
| "nat_sums (a, s) (b # bs) = nat_sums (a + unat b, s + (a + unat b)) bs"

lemma adler_ref_mod:
  "adler_ref (a mod BASE, s mod BASE) bs =
   (fst (nat_sums (a, s) bs) mod BASE, snd (nat_sums (a, s) bs) mod BASE)"
proof (induction bs arbitrary: a s)
  case (Cons b bs)
  have "(s mod BASE + (a mod BASE + unat b) mod BASE) mod BASE = (s + (a + unat b)) mod BASE"
    by (metis mod_add_eq mod_add_left_eq)
  then show ?case
    using Cons.IH [of "a + unat b" "s + (a + unat b)"] by (simp add: Let_def mod_add_left_eq)
qed simp

lemma nat_sums_append: "nat_sums p (xs @ ys) = nat_sums (nat_sums p xs) ys"
  by (induction p xs rule: nat_sums.induct) simp_all

lemma nat_sums_bound:
  assumes "nat_sums (a, s) bs = (a', s')" "length bs = n"
  shows "a' \<le> a + 255 * n \<and> 2 * s' \<le> 2 * s + 2 * (n * a) + 255 * (n * (n + 1))"
  using assms
proof (induction bs arbitrary: a s n)
  case (Cons b bs)
  obtain m where n: "n = Suc m" "length bs = m" using Cons.prems by auto
  have b: "unat b \<le> 255" using unat_u8_less [of b] by simp
  then have mb: "m * unat b \<le> m * 255" by (intro mult_le_mono) simp_all
  have ih: "a' \<le> a + unat b + 255 * m"
    "2 * s' \<le> 2 * (s + (a + unat b)) + 2 * (m * (a + unat b)) + 255 * (m * (m + 1))"
    using Cons.IH [OF _ n(2), of "a + unat b" "s + (a + unat b)"] Cons.prems(1) by simp_all
  have "2 * (s + (a + unat b)) + 2 * (m * (a + unat b)) + 255 * (m * (m + 1))
      = 2 * s + 2 * a + 2 * unat b + 2 * (m * a) + 2 * (m * unat b) + 255 * (m * m) + 255 * m"
    by (simp add: algebra_simps)
  moreover have "2 * s + 2 * (n * a) + 255 * (n * (n + 1))
      = 2 * s + 2 * a + 510 + 2 * (m * a) + 765 * m + 255 * (m * m)"
    unfolding n(1) by (simp add: algebra_simps)
  ultimately show ?case
    using ih b mb n(1) by linarith
qed simp

text \<open>
  \<open>NMAX\<close> is small enough that 32 bits hold the sums of a block that starts from 16-bit sums.
\<close>

lemma block_no_overflow:
  assumes "a < 65536" "s < 65536" "length bs \<le> NMAX" "nat_sums (a, s) bs = (a', s')"
  shows "a' < 2 ^ 32 \<and> s' < 2 ^ 32"
proof -
  let ?n = "length bs"
  have n: "?n \<le> 5552" using assms(3) by (simp add: NMAX_def)
  have "?n * (?n + 1) \<le> 5552 * 5553" "?n * a \<le> 5552 * 65535"
    using assms n by (intro mult_le_mono; simp)+
  then show ?thesis
    using nat_sums_bound [OF assms(4) refl] assms n by simp
qed

lemma do_sums_of_nat:
  "do_sums (of_nat a, of_nat s) bs =
   (case nat_sums (a, s) bs of (a', s') \<Rightarrow> (of_nat a', of_nat s'))"
proof (induction bs arbitrary: a s)
  case (Cons b bs)
  have b: "(ucast b :: 'a word) = of_nat (unat b)" by simp
  show ?case
    using Cons.IH [of "a + unat b" "s + (a + unat b)"] by (simp add: b del: of_nat_unat)
qed simp

lemma of_nat_mod_word:
  assumes "n < 2 ^ LENGTH('w)" "m < 2 ^ LENGTH('w)"
  shows "(of_nat n :: 'w::len word) mod of_nat m = of_nat (n mod m)"
proof -
  have "n mod m < 2 ^ LENGTH('w)"
    using assms(1) by (rule le_less_trans [OF mod_less_eq_dividend])
  then show ?thesis
    using assms by (intro word_unat_eq_iff [THEN iffD2]) (simp add: unat_mod_distrib unat_of_nat_small)
qed

lemma MOD_of_nat:
  assumes "n < 2 ^ 32" "32 \<le> LENGTH('w)"
  shows "MOD (of_nat n :: 'w::len word) = of_nat (n mod BASE)"
proof -
  have "(2::nat) ^ 32 \<le> 2 ^ LENGTH('w)" using assms(2) by (intro power_increasing) simp_all
  then show ?thesis
    unfolding MOD_def using assms by (intro of_nat_mod_word) (auto simp: BASE_def)
qed

lemma sub_base_of_nat:
  assumes "n < 2 * BASE" "32 \<le> LENGTH('w)"
  shows "sub_base (of_nat n :: 'w::len word) = of_nat (n mod BASE)"
proof -
  have "(2::nat) ^ 32 \<le> 2 ^ LENGTH('w)" using assms(2) by (intro power_increasing) simp_all
  then have "n < 2 ^ LENGTH('w)" "BASE < 2 ^ LENGTH('w)"
    using assms(1) by (simp_all add: BASE_def)
  then have "of_nat BASE \<le> (of_nat n :: 'w word) \<longleftrightarrow> BASE \<le> n"
    by (simp add: word_le_nat_alt unat_of_nat_small)
  moreover have "n mod BASE = (if BASE \<le> n then n - BASE else n)"
    using assms(1) by (simp add: mod_if le_mod_geq)
  ultimately show ?thesis
    by (simp add: sub_base_def of_nat_diff)
qed

lemma nat_sums_fst_small:
  "a < BASE \<Longrightarrow> length bs < 16 \<Longrightarrow> fst (nat_sums (a, s) bs) < 2 * BASE"
  using nat_sums_bound [of a s bs] by (cases "nat_sums (a, s) bs") (fastforce simp: BASE_def)

lemma adler_ref_nat_sums:
  "a < BASE \<Longrightarrow> s < BASE \<Longrightarrow>
   adler_ref (a, s) bs = (fst (nat_sums (a, s) bs) mod BASE, snd (nat_sums (a, s) bs) mod BASE)"
  using adler_ref_mod [of a s bs] by simp

lemma adler_ref_append: "adler_ref p (xs @ ys) = adler_ref (adler_ref p xs) ys"
  by (induction p xs rule: adler_ref.induct) (simp_all add: Let_def)

lemma adler_ref_reduced:
  assumes "a < BASE" "s < BASE" "adler_ref (a, s) bs = (a', s')"
  shows "a' < BASE \<and> s' < BASE"
  using adler_ref_nat_sums [of a s bs] assms by (auto simp: BASE_def)

text \<open>One block of at most \<open>NMAX\<close> bytes, reduced at its end.\<close>

lemma block_sums:
  assumes "a < BASE" "s < BASE" "length bs \<le> NMAX" "32 \<le> LENGTH('w::len)"
    and "adler_ref (a, s) bs = (a', s')"
    and "do_sums (of_nat a :: 'w word, of_nat s) bs = (x, y)"
  shows "MOD x = of_nat a' \<and> MOD y = of_nat s'"
proof -
  obtain u v where n: "nat_sums (a, s) bs = (u, v)" by fastforce
  then have "u < 2 ^ 32" "v < 2 ^ 32"
    using block_no_overflow [OF _ _ assms(3) n] assms(1,2) by (simp_all add: BASE_def)
  with n show ?thesis
    using assms adler_ref_nat_sums [OF assms(1,2), of bs]
    by (auto simp: do_sums_of_nat MOD_of_nat)
qed

lemma adler_blocks_ref:
  assumes "a < BASE" "s < BASE" "32 \<le> LENGTH('w::len)"
    and "adler_blocks (of_nat a :: 'w word, of_nat s) buf = (p, rest)"
  shows "\<exists>u v pre. buf = pre @ rest \<and> length rest < NMAX \<and> adler_ref (a, s) pre = (u, v)
    \<and> p = (of_nat u, of_nat v) \<and> u < BASE \<and> v < BASE"
  using assms(1,2,4)
proof (induction "length buf" arbitrary: buf a s rule: less_induct)
  case less
  show ?case
  proof (cases "NMAX \<le> length buf")
    case False
    then have "p = (of_nat a, of_nat s)" "rest = buf"
      using less.prems(3) by (simp_all add: adler_blocks.simps [of _ buf])
    with less.prems(1,2) False show ?thesis by (intro exI [of _ a] exI [of _ s] exI [of _ "[]"]) simp
  next
    case True
    let ?b = "take NMAX buf" let ?r = "drop NMAX buf"
    obtain a1 s1 where r: "adler_ref (a, s) ?b = (a1, s1)" by fastforce
    note red = adler_ref_reduced [OF less.prems(1,2) r]
    obtain x y where d: "do_sums (of_nat a :: 'w word, of_nat s) ?b = (x, y)" by fastforce
    have "MOD x = of_nat a1 \<and> MOD y = of_nat s1"
      by (rule block_sums [OF less.prems(1,2) _ assms(3) r d]) simp
    then have "adler_blocks (of_nat a1, of_nat s1) ?r = (p, rest)"
      using less.prems(3) True d by (simp add: adler_blocks.simps [of _ buf])
    moreover have "length ?r < length buf" using True by (simp add: NMAX_def)
    ultimately obtain u v pre where "?r = pre @ rest" "length rest < NMAX"
      "adler_ref (a1, s1) pre = (u, v)" "p = (of_nat u, of_nat v)" "u < BASE" "v < BASE"
      using less.hyps [of ?r a1 s1] red by blast
    moreover have "buf = (?b @ pre) @ rest"
      using \<open>?r = pre @ rest\<close> by (metis append.assoc append_take_drop_id)
    ultimately show ?thesis
      using r by (intro exI [of _ u] exI [of _ v] exI [of _ "?b @ pre"]) (simp add: adler_ref_append)
  qed
qed

lemma bit_small_nat: "a < 65536 \<Longrightarrow> bit (a :: nat) n \<Longrightarrow> n < 16"
  using bit_take_bit_iff [of 16 a n] take_bit_nat_eq_self [of a 16] by simp

lemma mask_16: "(0xffff :: 'w::len word) = mask 16"
  by (simp add: mask_eq_exp_minus_1)

lemma split_joined:
  assumes "a < 65536" "s < 65536" "32 \<le> LENGTH('w::len)"
  shows "join_sums (of_nat a, of_nat s) AND 0xffff = (of_nat a :: 'w word)"
    and "drop_bit 16 (join_sums (of_nat a, of_nat s)) AND 0xffff = (of_nat s :: 'w word)"
  unfolding join_sums_def mask_16
  by (rule bit_word_eqI;
      use assms in \<open>auto simp: bit_simps dest: bit_small_nat\<close>)+

text \<open>The checksum of reduced sums is the one defined byte by byte, at every width of \<open>uLong\<close>.\<close>

lemma adler32_ref:
  assumes "a < BASE" "s < BASE" "32 \<le> LENGTH('w::len)" and r: "adler_ref (a, s) buf = (a', s')"
  shows "adler32 (join_sums (of_nat a :: 'w word, of_nat s)) (Some buf) = join_sums (of_nat a', of_nat s')"
proof -
  note sp = split_joined [OF _ _ assms(3), of a s]
  have small: "a < 65536" "s < 65536" using assms(1,2) by (simp_all add: BASE_def)
  consider (one) b where "buf = [b]" | (few) "length buf \<noteq> 1" "length buf < 16"
    | (many) "16 \<le> length buf"
    by (metis One_nat_def length_0_conv length_Suc_conv not_le)
  then show ?thesis
  proof cases
    case one
    have "a + unat b < 2 * BASE" "s + (a + unat b) mod BASE < 2 * BASE"
      using assms(1,2) unat_u8_less [of b] by (simp_all add: BASE_def)
    moreover have "(of_nat a + ucast b :: 'w word) = of_nat (a + unat b)" by simp
    ultimately show ?thesis
      using r one small sp assms(3)
      by (auto simp add: adler32_def Let_def sub_base_of_nat simp del: of_nat_add simp flip: of_nat_add)
  next
    case few
    obtain u v where n: "nat_sums (a, s) buf = (u, v)" by fastforce
    have "length buf \<le> NMAX" using few by (simp add: NMAX_def)
    then have "v < 2 ^ 32" "u < 2 * BASE"
      using block_no_overflow [OF small _ n] nat_sums_fst_small [OF assms(1) few(2), of s] n by simp_all
    then show ?thesis
      using r few small sp assms n adler_ref_nat_sums [OF assms(1,2), of buf]
      by (auto simp add: adler32_def do_sums_of_nat MOD_of_nat sub_base_of_nat)
  next
    case many
    obtain p rest where b: "adler_blocks (of_nat a :: 'w word, of_nat s) buf = (p, rest)" by fastforce
    obtain u v pre where pre: "buf = pre @ rest" "length rest < NMAX" "adler_ref (a, s) pre = (u, v)"
      "p = (of_nat u, of_nat v)" "u < BASE" "v < BASE"
      using adler_blocks_ref [OF assms(1-3) b] by blast
    have r': "adler_ref (u, v) rest = (a', s')" using r pre by (simp add: adler_ref_append)
    obtain x y where d: "do_sums (of_nat u :: 'w word, of_nat v) rest = (x, y)" by fastforce
    have "MOD x = of_nat a' \<and> MOD y = of_nat s'"
      using pre(2) by (intro block_sums [OF pre(5,6) _ assms(3) r' d]) simp
    then show ?thesis
      using many small sp b d r' pre(4) by (auto simp: adler32_def)
  qed
qed

lemma adler32_halves:
  "adler32 x b = adler32 (join_sums (x AND 0xffff, drop_bit 16 x AND 0xffff)) b"
  if "32 \<le> LENGTH('w)" for x :: "'w::len word"
proof -
  have h: "y AND 0xffff = of_nat (unat (y AND 0xffff))" "unat (y AND 0xffff) < 65536" for y :: "'w word"
    using that and_mask_lt_2p [where w = y and n = 16] by (simp_all add: mask_16 flip: nat_uint_eq)
  show ?thesis
    using split_joined [OF h(2) h(2) that, of x "drop_bit 16 x"] h(1) [of x] h(1) [of "drop_bit 16 x"]
    by (simp add: adler32_def)
qed

text \<open>The two 16-bit sums of a checksum, as numbers.\<close>

definition sums_of :: "'w::len word \<Rightarrow> nat \<times> nat" where
  "sums_of x = (unat (x AND 0xffff), unat (drop_bit 16 x AND 0xffff))"

definition of_sums :: "nat \<times> nat \<Rightarrow> 'w::len word" where
  "of_sums p = join_sums (of_nat (fst p), of_nat (snd p))"

lemma sums_of_of_sums:
  assumes "fst p < 65536" "snd p < 65536" "32 \<le> LENGTH('w::len)"
  shows "sums_of (of_sums p :: 'w word) = p"
proof -
  have "(2::nat) ^ 32 \<le> 2 ^ LENGTH('w)" using assms(3) by (intro power_increasing) simp_all
  then show ?thesis
    using split_joined [OF assms(1-3)] assms(1,2)
    by (simp add: sums_of_def of_sums_def unat_of_nat_small)
qed

lemma adler32_sums:
  assumes "32 \<le> LENGTH('w::len)" "fst (sums_of x) < BASE" "snd (sums_of x) < BASE"
  shows "adler32 (x :: 'w word) (Some buf) = of_sums (adler_ref (sums_of x) buf)"
  using adler32_ref [of "unat (x AND 0xffff)" "unat (drop_bit 16 x AND 0xffff)" buf, where 'w = 'w]
    adler32_halves [OF assms(1), of x "Some buf"] assms
  by (cases "adler_ref (sums_of x) buf") (simp add: sums_of_def of_sums_def)

lemma adler_ref_below:
  "fst p < BASE \<Longrightarrow> snd p < BASE \<Longrightarrow> fst (adler_ref p bs) < BASE \<and> snd (adler_ref p bs) < BASE"
proof -
  assume "fst p < BASE" "snd p < BASE"
  then show ?thesis
    using adler_ref_reduced [of "fst p" "snd p" bs "fst (adler_ref p bs)" "snd (adler_ref p bs)"] by simp
qed

text \<open>
  C21: The fast checksum, which defers the reduction of both sums to the end of blocks of \<open>NMAX\<close>
  bytes and has special cases for one byte and for less than 16, computes the Adler-32 function
  that reduces both sums modulo 65521 after every byte. It does so for every width of \<open>uLong\<close> of at
  least 32 bits, no sum overflowing in between, for every buffer and from every reduced checksum.
\<close>

theorem adler32_exact:
  assumes "32 \<le> LENGTH('w::len)" "fst (sums_of x) < BASE" "snd (sums_of x) < BASE"
  shows "adler32 (x :: 'w word) (Some buf) = of_sums (adler_ref (sums_of x) buf)
    \<and> sums_of (adler32 x (Some buf)) = adler_ref (sums_of x) buf"
proof -
  have s: "adler32 x (Some buf) = of_sums (adler_ref (sums_of x) buf)"
    by (rule adler32_sums [OF assms])
  have "fst (adler_ref (sums_of x) buf) < 65536" "snd (adler_ref (sums_of x) buf) < 65536"
    using adler_ref_below [OF assms(2,3), of buf] by (auto simp: BASE_def)
  then have "sums_of (of_sums (adler_ref (sums_of x) buf) :: 'w word) = adler_ref (sums_of x) buf"
    by (rule sums_of_of_sums [OF _ _ assms(1)])
  with s show ?thesis by simp
qed

theorem adler32_exact_witness:
  "adler32 (1 :: u64) (Some [0x61, 0x62, 0x63]) = of_sums (295, 589)
   \<and> sums_of (adler32 (1 :: u64) (Some [0x61, 0x62, 0x63])) = (295, 589)"
proof -
  have "sums_of (1 :: u64) = (1, 0)" by (simp add: sums_of_def)
  moreover have "adler_ref (1, 0) [0x61, 0x62, 0x63] = (295, 589)" by (simp add: BASE_def)
  moreover have "32 \<le> LENGTH(64)" "fst (1 :: nat, 0 :: nat) < BASE" "snd (1 :: nat, 0 :: nat) < BASE" by (simp_all add: BASE_def)
  ultimately show ?thesis
    using adler32_exact [of "1 :: u64" "[0x61, 0x62, 0x63]"] by metis
qed

text \<open>
  A checksum may be taken piece by piece: continuing from the checksum of one buffer with a
  second one gives the checksum of both together.
\<close>

theorem adler32_append:
  assumes "32 \<le> LENGTH('w::len)" "fst (sums_of x) < BASE" "snd (sums_of x) < BASE"
  shows "adler32 (adler32 (x :: 'w word) (Some xs)) (Some ys) = adler32 x (Some (xs @ ys))"
proof -
  let ?m = "adler_ref (sums_of x) xs"
  have m: "fst ?m < BASE" "snd ?m < BASE" using adler_ref_below [OF assms(2,3), of xs] by auto
  then have sm: "sums_of (of_sums ?m :: 'w word) = ?m"
    by (intro sums_of_of_sums [OF _ _ assms(1)]) (simp_all add: BASE_def)
  show ?thesis
    using adler32_sums [OF assms(1), of "of_sums ?m" ys] m sm
    by (simp add: adler32_sums [OF assms] adler_ref_append)
qed

theorem adler32_append_witness:
  "adler32 (adler32 (0 :: u32) (Some [1, 2])) (Some [3]) = adler32 0 (Some ([1, 2] @ [3]))"
  by (rule adler32_append) (simp_all add: sums_of_def BASE_def)

section \<open>Disk labels\<close>

text \<open>
  A \<open>struct disklabel\<close> as its bytes in memory; the accessors read the fields the boot program
  uses. Its size is 404 bytes of fields, padded to the alignment of the pointers in its union.
\<close>

type_synonym label = "u8 list"

definition sizeof_disklabel :: nat where "sizeof_disklabel = 408"
definition DISKMAGIC :: u32 where "DISKMAGIC = 0x82564557"
definition MAXPARTITIONS :: nat where "MAXPARTITIONS = 16"

definition d_magic :: "label \<Rightarrow> u32" where "d_magic l = of_nat (le_dec (bytes_at 0 4 l))"
definition d_type :: "label \<Rightarrow> u16" where "d_type l = of_nat (le_dec (bytes_at 4 2 l))"
definition d_magic2 :: "label \<Rightarrow> u32" where "d_magic2 l = of_nat (le_dec (bytes_at 132 4 l))"
definition d_checksum :: "label \<Rightarrow> u16" where "d_checksum l = of_nat (le_dec (bytes_at 136 2 l))"
definition d_npartitions :: "label \<Rightarrow> u16" where "d_npartitions l = of_nat (le_dec (bytes_at 138 2 l))"
definition p_offset :: "label \<Rightarrow> nat \<Rightarrow> u32" where "p_offset l i = of_nat (le_dec (bytes_at (152 + 16 * i) 4 l))"

text \<open>\<open>while (start < end) sum ^= *start++;\<close> over 16-bit units.\<close>

fun xor_units :: "u8 list \<Rightarrow> u16" where
  "xor_units (a # b # bs) = of_nat (le_dec [a, b]) XOR xor_units bs"
| "xor_units _ = 0"

text \<open>The end of the sum is taken from the label itself.\<close>

definition label_end :: "label \<Rightarrow> nat" where
  "label_end l = 148 + 16 * unat (d_npartitions l)"

definition dkcksum :: "label \<Rightarrow> u16 outcome" where
  "dkcksum l = (if label_end l \<le> length l then Ret (xor_units (take (label_end l) l)) else Undef)"

text \<open>One step of the label search per aligned position; \<open>Inl\<close> is the message, \<open>Inr\<close> the copied label.\<close>

definition no_label :: string where "no_label = ''no disk label''"
definition bad_label :: string where "bad_label = ''disk label corrupted''"

fun label_loop :: "u8 list \<Rightarrow> nat list \<Rightarrow> string option \<Rightarrow> (string option \<times> label option) outcome" where
  "label_loop buf [] msg = Ret (msg, None)"
| "label_loop buf (at # ats) msg =
     (let dlp = bytes_at at sizeof_disklabel buf in
      if d_magic dlp \<noteq> DISKMAGIC \<or> d_magic2 dlp \<noteq> DISKMAGIC
      then label_loop buf ats (if msg = None then Some no_label else msg)
      else if MAXPARTITIONS < unat (d_npartitions dlp) then label_loop buf ats (Some bad_label)
      else obind (dkcksum dlp) (\<lambda>sum.
        if sum \<noteq> 0 then label_loop buf ats (Some bad_label) else Ret (None, Some dlp)))"

definition getdisklabel :: "u8 list \<Rightarrow> (string option \<times> label option) outcome" where
  "getdisklabel buf = label_loop buf (map (\<lambda>k. 8 * k) [0..<14]) None"

section \<open>A label is found exactly when one is there\<close>

definition good_label :: "label \<Rightarrow> bool" where
  "good_label l \<longleftrightarrow> d_magic l = DISKMAGIC \<and> d_magic2 l = DISKMAGIC
     \<and> unat (d_npartitions l) \<le> MAXPARTITIONS \<and> xor_units (take (label_end l) l) = 0"

lemma dkcksum_in_bounds:
  assumes "length l = sizeof_disklabel" "unat (d_npartitions l) \<le> MAXPARTITIONS"
  shows "dkcksum l = Ret (xor_units (take (label_end l) l))"
  using assms by (simp add: dkcksum_def label_end_def sizeof_disklabel_def MAXPARTITIONS_def)

definition has_magic :: "label \<Rightarrow> bool" where
  "has_magic l \<longleftrightarrow> d_magic l = DISKMAGIC \<and> d_magic2 l = DISKMAGIC"

abbreviation label_at :: "u8 list \<Rightarrow> nat \<Rightarrow> label" where
  "label_at buf at \<equiv> bytes_at at sizeof_disklabel buf"

lemma label_loop_find:
  assumes "\<And>at. at \<in> set ats \<Longrightarrow> at + sizeof_disklabel \<le> length buf"
  shows "label_loop buf ats msg = Ret (case List.find (\<lambda>at. good_label (label_at buf at)) ats of
      Some at \<Rightarrow> (None, Some (label_at buf at))
    | None \<Rightarrow> (if list_ex (\<lambda>at. has_magic (label_at buf at)) ats then Some bad_label
               else if ats = [] \<or> msg \<noteq> None then msg else Some no_label, None))"
  using assms
proof (induction ats arbitrary: msg)
  case (Cons at ats)
  have len: "length (label_at buf at) = sizeof_disklabel" using Cons.prems [of at] by (simp add: layout)
  have IH: "\<And>m. label_loop buf ats m = Ret (case List.find (\<lambda>at. good_label (label_at buf at)) ats of
      Some at \<Rightarrow> (None, Some (label_at buf at))
    | None \<Rightarrow> (if list_ex (\<lambda>at. has_magic (label_at buf at)) ats then Some bad_label
               else if ats = [] \<or> m \<noteq> None then m else Some no_label, None))"
    using Cons.IH Cons.prems by simp
  consider (good) "good_label (label_at buf at)"
    | (bad) "\<not> good_label (label_at buf at)" "has_magic (label_at buf at)"
    | (none) "\<not> has_magic (label_at buf at)"
    by blast
  then show ?case
  proof cases
    case good
    then show ?thesis
      using dkcksum_in_bounds [OF len] by (simp add: good_label_def Let_def)
  next
    case bad
    then have "label_loop buf (at # ats) msg = label_loop buf ats (Some bad_label)"
      using dkcksum_in_bounds [OF len] by (auto simp: good_label_def has_magic_def Let_def)
    with bad show ?thesis by (simp add: IH split: option.split)
  next
    case none
    then have "\<not> good_label (label_at buf at)" by (auto simp: good_label_def has_magic_def)
    with none show ?thesis by (auto simp: has_magic_def IH Let_def split: option.split)
  qed
qed simp

lemma le_dec_zeros: "le_dec (replicate n 0) = 0"
  by (induction n) simp_all

text \<open>The positions at which a label can start in a sector.\<close>

definition label_positions :: "nat list" where
  "label_positions = map (\<lambda>k. 8 * k) [0..<14]"

text \<open>
  In a sector, \<open>getdisklabel\<close> returns the first label at a multiple of eight bytes that has both
  magic numbers, at most 16 partitions and a checksum of zero. When there is none it returns the
  message that a label is corrupt if some position has the magic numbers and that there is no label
  otherwise. The checksum never reads past the label.
\<close>

theorem getdisklabel_finds:
  assumes "length buf = DEV_BSIZE"
  shows "getdisklabel buf = Ret (case List.find (\<lambda>at. good_label (label_at buf at)) label_positions of
      Some at \<Rightarrow> (None, Some (label_at buf at))
    | None \<Rightarrow> (Some (if list_ex (\<lambda>at. has_magic (label_at buf at)) label_positions
                       then bad_label else no_label), None))"
proof -
  have "\<And>at. at \<in> set label_positions \<Longrightarrow> at + sizeof_disklabel \<le> length buf"
    using assms by (auto simp: label_positions_def sizeof_disklabel_def DEV_BSIZE_def)
  note loop = label_loop_find [where ats = label_positions and msg = None, OF this]
  have "label_positions \<noteq> []" by (simp add: label_positions_def)
  then show ?thesis
    unfolding getdisklabel_def label_positions_def [symmetric] using loop by (simp split: option.splits)
qed

theorem getdisklabel_finds_witness:
  "getdisklabel (replicate 512 0) = Ret (Some no_label, None)"
proof -
  have "\<not> has_magic (label_at (replicate 512 0) at)" if "at \<in> set label_positions" for at
    using that by (auto simp: has_magic_def d_magic_def DISKMAGIC_def bytes_at_def label_positions_def
        sizeof_disklabel_def le_dec_zeros)
  then have "\<not> list_ex (\<lambda>at. has_magic (label_at (replicate 512 0) at)) label_positions"
    by (simp add: list_ex_iff)
  moreover from this have "List.find (\<lambda>at. good_label (label_at (replicate 512 0) at)) label_positions = None"
    by (auto simp: find_None_iff list_ex_iff has_magic_def good_label_def)
  ultimately show ?thesis
    using getdisklabel_finds [of "replicate 512 0"] by (simp add: DEV_BSIZE_def)
qed

section \<open>A sealed label is accepted\<close>

text \<open>How a label is written: the checksum field is the sum with that field zero.\<close>

definition seal :: "label \<Rightarrow> label" where
  "seal l = (let z = overlay l 136 [0, 0] in
     overlay z 136 (le_enc 2 (unat (xor_units (take (label_end z) z)))))"

lemma xor_units_append: "even (length xs) \<Longrightarrow> xor_units (xs @ ys) = xor_units xs XOR xor_units ys"
  by (induction xs rule: xor_units.induct) (auto simp: xor.assoc)

lemma xor_units_le_enc: "xor_units (le_enc 2 (unat (w :: u16))) = w"
proof -
  have "xor_units [a, b] = of_nat (le_dec [a, b])" for a b by simp
  moreover obtain a b where "le_enc 2 (unat w) = [a, b]"
    by (simp add: numeral_2_eq_2)
  ultimately show ?thesis using le_dec_enc_u16 [of w] by simp
qed

lemma bytes_at_overlay_outside:
  assumes "off' + n \<le> off \<or> off + length src \<le> off'" "off + length src \<le> length buf"
  shows "bytes_at off' n (overlay buf off src) = bytes_at off' n buf"
proof (cases "off' + n \<le> off")
  case True
  then have "bytes_at off' n (overlay buf off src) = bytes_at off' n (take off buf)"
    using assms(2) unfolding overlay_def by (intro bytes_at_append_left) simp
  with True show ?thesis by (simp add: bytes_at_def drop_take)
next
  case False
  with assms have "off + length src \<le> off'" by simp
  then show ?thesis
    using assms(2) by (simp add: overlay_def bytes_at_def)
qed

lemma take_overlay:
  assumes "off + length src \<le> k" "off \<le> length buf"
  shows "take k (overlay buf off src) = take off buf @ src @ take (k - off - length src) (drop (off + length src) buf)"
proof -
  have "take k (take off buf) = take off buf" "take (k - off) src = src"
    using assms by (auto simp: min.absorb2)
  then show ?thesis using assms by (simp add: overlay_def)
qed

lemma bytes_at_overlay_outside':
  "length l = sizeof_disklabel \<Longrightarrow> length src = 2 \<Longrightarrow> off' + n \<le> 136 \<or> 138 \<le> off' \<Longrightarrow>
   bytes_at off' n (overlay l 136 src) = bytes_at off' n l"
  by (rule bytes_at_overlay_outside) (auto simp: sizeof_disklabel_def)

lemma label_fields_overlay:
  assumes "length l = sizeof_disklabel" "length src = 2"
  shows "d_magic (overlay l 136 src) = d_magic l" "d_magic2 (overlay l 136 src) = d_magic2 l"
    "d_npartitions (overlay l 136 src) = d_npartitions l" "label_end (overlay l 136 src) = label_end l"
  using assms
  by (simp_all add: d_magic_def d_magic2_def d_npartitions_def label_end_def bytes_at_overlay_outside')

lemma seal_sum:
  assumes "length l = sizeof_disklabel"
  shows "xor_units (take (label_end l) (seal l)) = 0"
proof -
  let ?z = "overlay l 136 [0, 0 :: u8]" let ?k = "label_end l"
  let ?A = "take 136 l" let ?C = "take (?k - 138) (drop 138 l)"
  have t: "take ?k (overlay l 136 src) = ?A @ src @ ?C" if "length src = 2" for src
    using that assms by (subst take_overlay) (auto simp: label_end_def sizeof_disklabel_def)
  let ?s = "xor_units (take ?k ?z)"
  have "overlay ?z 136 src = overlay l 136 src" if "length src = 2" for src
    using that assms by (simp add: overlay_def sizeof_disklabel_def)
  then have "take ?k (seal l) = ?A @ le_enc 2 (unat ?s) @ ?C"
    using assms by (simp add: seal_def Let_def t label_fields_overlay)
  moreover have A: "even (length ?A)" using assms by (simp add: sizeof_disklabel_def)
  moreover have "?s = xor_units ?A XOR xor_units ?C"
    using t [of "[0, 0]"] A by (simp add: xor_units_append)
  ultimately show ?thesis
    by (simp add: xor_units_append xor_units_le_enc xor.assoc)
qed

lemma length_seal [layout]: "length l = sizeof_disklabel \<Longrightarrow> length (seal l) = sizeof_disklabel"
  by (simp add: seal_def Let_def length_overlay sizeof_disklabel_def)

lemma getdisklabel_sealed:
  assumes "length l = sizeof_disklabel" "length rest = DEV_BSIZE - sizeof_disklabel"
    and "has_magic l" "unat (d_npartitions l) \<le> MAXPARTITIONS"
  shows "getdisklabel (seal l @ rest) = Ret (None, Some (seal l))"
proof -
  have eq: "seal l = overlay (overlay l 136 [0, 0]) 136 (le_enc 2 (unat (xor_units (take (label_end l) (overlay l 136 [0, 0])))))"
    using assms(1) by (simp add: seal_def Let_def label_fields_overlay)
  have "length (overlay l 136 [0, 0]) = sizeof_disklabel"
    using assms(1) by (simp add: length_overlay sizeof_disklabel_def)
  then have f: "d_magic (seal l) = d_magic l" "d_magic2 (seal l) = d_magic2 l"
    "d_npartitions (seal l) = d_npartitions l" "label_end (seal l) = label_end l"
    unfolding eq using assms(1) by (simp_all add: label_fields_overlay)
  then have sum: "dkcksum (seal l) = Ret 0"
    using dkcksum_in_bounds [OF length_seal [OF assms(1)]] assms(4) seal_sum [OF assms(1)] by simp
  have "bytes_at 0 sizeof_disklabel (seal l @ rest) = seal l"
    using assms(1) by (simp add: layout)
  then show ?thesis
    using assms(3,4) f sum by (simp add: getdisklabel_def upt_conv_Cons has_magic_def)
qed

text \<open>
  A label whose checksum field was set to the checksum of the label with that field zero is
  found: when it has both magic numbers and at most 16 partitions and is written at the start of a
  sector, \<open>getdisklabel\<close> returns exactly that label, whatever follows it.
\<close>

theorem sealed_label_found:
  assumes "length l = sizeof_disklabel" "length rest = DEV_BSIZE - sizeof_disklabel"
    and "has_magic l" "unat (d_npartitions l) \<le> MAXPARTITIONS"
  shows "getdisklabel (seal l @ rest) = Ret (None, Some (seal l))"
  using assms by (rule getdisklabel_sealed)

definition sample_label :: label where
  "sample_label = le_enc 4 0x82564557 @ replicate 128 7 @ le_enc 4 0x82564557 @ replicate 272 0"

theorem sealed_label_found_witness:
  "getdisklabel (seal sample_label @ replicate 104 0) = Ret (None, Some (seal sample_label))"
proof (rule sealed_label_found)
  have "d_npartitions sample_label = 0"
    by (simp add: d_npartitions_def sample_label_def layout) (simp add: bytes_at_def le_dec_zeros)
  then show "unat (d_npartitions sample_label) \<le> MAXPARTITIONS" by simp
  show "has_magic sample_label"
    by (simp add: has_magic_def d_magic_def d_magic2_def sample_label_def layout le_dec_enc DISKMAGIC_def)
qed (simp_all add: sample_label_def sizeof_disklabel_def DEV_BSIZE_def)

end
