(* ===== verification/Efi_Dev.thy ===== *)
theory Efi_Dev
  imports Libsa_Sum Gdisk_Gpt
begin

unbundle bit_operations_syntax

text \<open>
  \<open>sys/arch/amd64/stand/efiboot/efidev.c\<close>, first half: block input through the firmware, the search
  for the OpenBSD partition in the MBR, in extended boot records and in the GPT, and reading the
  disk label. The firmware's \<open>ReadBlocks\<close> is a field of the disk: \<open>None\<close> is an error status, else the
  bytes it stored. The function-local static buffer \<open>iblk\<close> is explicit state. Sector numbers are
  \<open>u_int\<close>, 32 bits, and block numbers of the firmware 64 bits.
\<close>

section \<open>Block input\<close>

record efi_diskinfo =
  BlockSize :: u32
  LastBlock :: u64
  ReadOnly :: bool
  ReadBlocks :: "u64 \<Rightarrow> nat \<Rightarrow> u8 list option"

text \<open>The static buffer: not yet allocated, allocated with a size, or freed and still pointed to.\<close>

datatype iblk = No_iblk | Iblk u32 | Freed_iblk

datatype rw = F_READ | F_WRITE

text \<open>Block sizes in sectors of 512 bytes.\<close>

definition EFI_BLKSPERSEC :: "efi_diskinfo \<Rightarrow> u32" where
  "EFI_BLKSPERSEC ed = BlockSize ed div 512"

definition EFI_SECTOBLK :: "efi_diskinfo \<Rightarrow> u64 \<Rightarrow> u64" where
  "EFI_SECTOBLK ed n = n * ucast (EFI_BLKSPERSEC ed)"

text \<open>The space for unaligned blocks; freeing it twice is undefined.\<close>

definition get_iblk :: "efi_diskinfo \<Rightarrow> iblk \<Rightarrow> iblk outcome" where
  "get_iblk ed ib =
     (if BlockSize ed \<noteq> 512 then
        (case ib of
           No_iblk \<Rightarrow> Ret (Iblk (BlockSize ed))
         | Iblk sz \<Rightarrow> Ret (if sz < BlockSize ed then Freed_iblk else ib)
         | Freed_iblk \<Rightarrow> Undef)
      else Ret ib)"

text \<open>A block read into \<open>iblk\<close>, which has to be there and large enough.\<close>

definition read_iblk :: "efi_diskinfo \<Rightarrow> iblk \<Rightarrow> u64 \<Rightarrow> u8 list option outcome" where
  "read_iblk ed ib lba =
     (case ib of
        Iblk sz \<Rightarrow> if BlockSize ed \<le> sz then Ret (ReadBlocks ed lba (unat (BlockSize ed))) else Undef
      | _ \<Rightarrow> Undef)"

text \<open>The three parts of a read. The result is \<open>None\<close> after an error status, else the buffer.\<close>

definition read_lead :: "efi_diskinfo \<Rightarrow> iblk \<Rightarrow> u32 \<Rightarrow> u32 \<Rightarrow> u32 \<Rightarrow> u8 list \<Rightarrow> u8 list option outcome" where
  "read_lead ed ib blks lba lblks buf =
     (if 0 < lblks then
        obind (read_iblk ed ib (ucast (lba - 1))) (\<lambda>r. case r of
            None \<Rightarrow> Ret None
          | Some d \<Rightarrow>
              obind (put_bytes buf 0 (bytes_at (unat (blks - lblks)) (unat (lblks * 512)) d)) (\<lambda>b. Ret (Some b)))
      else Ret (Some buf))"

definition read_body :: "efi_diskinfo \<Rightarrow> u32 \<Rightarrow> u32 \<Rightarrow> u32 \<Rightarrow> u32 \<Rightarrow> u8 list \<Rightarrow> u8 list option outcome" where
  "read_body ed blks lba lblks nblks buf =
     (if 0 < nblks then
        (case ReadBlocks ed (ucast lba) (unat (BlockSize ed * (nblks div blks))) of
           None \<Rightarrow> Ret None
         | Some d \<Rightarrow> obind (put_bytes buf (unat (lblks * 512)) d) (\<lambda>b. Ret (Some b)))
      else Ret (Some buf))"

definition read_tail :: "efi_diskinfo \<Rightarrow> iblk \<Rightarrow> u32 \<Rightarrow> u32 \<Rightarrow> u32 \<Rightarrow> u32 \<Rightarrow> u32 \<Rightarrow> u8 list \<Rightarrow> u8 list option outcome" where
  "read_tail ed ib blks lba lblks nblks tblks buf =
     (if 0 < tblks then
        obind (read_iblk ed ib (ucast (lba + nblks div blks))) (\<lambda>r. case r of
            None \<Rightarrow> Ret None
          | Some d \<Rightarrow>
              obind (put_bytes buf (unat ((lblks + nblks) * 512)) (bytes_at 0 (unat (tblks * 512)) d)) (\<lambda>b. Ret (Some b)))
      else Ret (Some buf))"

definition lead_blks :: "u32 \<Rightarrow> u32 \<Rightarrow> u32" where
  "lead_blks blks off = (if off mod blks = 0 then 0 else blks - off mod blks)"

definition tail_blks :: "u32 \<Rightarrow> u32 \<Rightarrow> u32 \<Rightarrow> u32" where
  "tail_blks blks off nsect = (off + nsect) mod blks"

text \<open>
  The status (\<open>True\<close> is success), the buffer and the static buffer. After an error the contents of
  the buffer are not specified; the model leaves them.
\<close>

definition opt_step :: "('a \<Rightarrow> 'a option outcome) \<Rightarrow> 'a option \<Rightarrow> 'a option outcome" where
  "opt_step f r = (case r of None \<Rightarrow> Ret None | Some b \<Rightarrow> f b)"

definition efid_io :: "rw \<Rightarrow> efi_diskinfo \<Rightarrow> u32 \<Rightarrow> u32 \<Rightarrow> u8 list \<Rightarrow> iblk \<Rightarrow> (bool \<times> u8 list \<times> iblk) outcome" where
  "efid_io rw ed off nsect buf ib =
     (let blks = EFI_BLKSPERSEC ed in
      if blks = 0 then Undef
      else
        let lba = off div blks; lb = lead_blks blks off; tb = tail_blks blks off nsect;
            nb = nsect - (lb + tb)
        in case rw of
            F_READ \<Rightarrow>
              obind (get_iblk ed ib) (\<lambda>ib'.
              obind (read_lead ed ib' blks lba lb buf) (\<lambda>r1.
              obind (opt_step (read_body ed blks lba lb nb) r1) (\<lambda>r2.
              obind (opt_step (read_tail ed ib' blks lba lb nb tb) r2) (\<lambda>r3.
                Ret (case r3 of None \<Rightarrow> (False, buf, ib') | Some b \<Rightarrow> (True, b, ib'))))))
          | F_WRITE \<Rightarrow> Ret (True, buf, ib))"

definition efid_diskio :: "rw \<Rightarrow> efi_diskinfo \<Rightarrow> u32 \<Rightarrow> u32 \<Rightarrow> u8 list \<Rightarrow> iblk \<Rightarrow> (int \<times> u8 list \<times> iblk) outcome" where
  "efid_diskio rw ed off nsect buf ib =
     obind (efid_io rw ed off nsect buf ib) (\<lambda>(ok, b, ib'). Ret (if ok then 0 else - 1, b, ib'))"

section \<open>The OpenBSD partition in the GPT\<close>

text \<open>Messages, with the source's spelling.\<close>

definition err_gpt_sig :: string where "err_gpt_sig = ''bad GPT signature'' @ [NL]"
definition err_gpt_size :: string where "err_gpt_size = ''GPT paritition size beyonds the limit'' @ [NL]"
definition err_gpt_header :: string where "err_gpt_header = ''bad GPT header'' @ [NL]"
definition err_gpt_num :: string where "err_gpt_num = ''bad GPT number of partition entries'' @ [NL]"
definition err_gpt_io :: string where "err_gpt_io = ''I/O Error'' @ [NL]"

text \<open>\<open>openbsd_uuid\<close> in memory: the first three fields converted from big-endian.\<close>

definition openbsd_uuid_code :: "u8 list" where
  "openbsd_uuid_code = [0x82, 0x4c, 0xc7, 0xa0, 0x36, 0xa8, 0x11, 0xe3,
     0x89, 0x0a, 0x95, 0x25, 0x19, 0xad, 0x3f, 0x61]"

definition openbsd_uuid :: "u8 list" where
  "openbsd_uuid = rev (bytes_at 0 4 openbsd_uuid_code) @ rev (bytes_at 4 2 openbsd_uuid_code)
     @ rev (bytes_at 6 2 openbsd_uuid_code) @ bytes_at 8 8 openbsd_uuid_code"

definition GPT_PARTSPERSEC :: "gpt_header \<Rightarrow> u32" where
  "GPT_PARTSPERSEC gh = 512 div h_partitions_size gh"

definition GPT_SECOFFSET :: "gpt_header \<Rightarrow> u32 \<Rightarrow> u32" where
  "GPT_SECOFFSET gh n = h_partitions_size gh * n"

text \<open>The entries of one sector, from entry \<open>i\<close>: the start of the first OpenBSD partition.\<close>

function scan_sector :: "gpt_header \<Rightarrow> u8 list \<Rightarrow> nat \<Rightarrow> u64 option outcome" where
  "scan_sector gh buf i =
     (if unat (GPT_PARTSPERSEC gh) \<le> i then Ret None
      else
        let off = unat (GPT_SECOFFSET gh (of_nat i)) in
        obind (obj_bytes buf off 16) (\<lambda>t.
          if t = openbsd_uuid
          then obind (obj_bytes buf (off + 32) 8) (\<lambda>s. Ret (Some (of_nat (le_dec s))))
          else scan_sector gh buf (Suc i)))"
  by pat_completeness auto
termination
  by (relation "measure (\<lambda>(gh, _, i). unat (GPT_PARTSPERSEC gh) - i)") auto

declare scan_sector.simps [simp del]

text \<open>
  The loop over the sectors of the entry array; \<open>part\<close> is an \<open>int\<close>, whose overflow is undefined.
  The result is the message and the value returned.
\<close>

function gpt_scan :: "efi_diskinfo \<Rightarrow> gpt_header \<Rightarrow> nat \<Rightarrow> u64 \<Rightarrow> u8 list \<Rightarrow> iblk \<Rightarrow>
    (string option \<times> u64 \<times> iblk) outcome" where
  "gpt_scan ed gh p lba buf ib =
     (if unat (h_partitions_num gh) \<le> p then Ret (None, - 1, ib)
      else obind (efid_io F_READ ed (ucast (EFI_SECTOBLK ed lba)) 1 buf ib) (\<lambda>r.
        if \<not> fst r then Ret (Some err_gpt_io, - 1, snd (snd r))
        else if GPT_PARTSPERSEC gh = 0 then Undef
        else obind (scan_sector gh (fst (snd r)) 0) (\<lambda>f.
          case f of
            Some s \<Rightarrow> Ret (None, s, snd (snd r))
          | None \<Rightarrow>
              if 2 ^ 31 \<le> p + unat (GPT_PARTSPERSEC gh) then Undef
              else gpt_scan ed gh (p + unat (GPT_PARTSPERSEC gh)) (lba + 1) (fst (snd r)) (snd (snd r)))))"
  by pat_completeness auto
termination
  by (relation "measure (\<lambda>(_, gh, p, _). unat (h_partitions_num gh) - p)")
    (auto intro!: diff_less_mono2 simp: unat_gt_0)

declare gpt_scan.simps [simp del]

text \<open>
  \<open>junk\<close> is the uninitialised buffer on the stack: the status of the first read is not looked at.
\<close>

definition findopenbsd_gpt :: "efi_diskinfo \<Rightarrow> u8 list \<Rightarrow> iblk \<Rightarrow> (string option \<times> u64 \<times> iblk) outcome" where
  "findopenbsd_gpt ed junk ib =
     obind (efid_io F_READ ed (ucast (EFI_SECTOBLK ed 1)) 1 junk ib) (\<lambda>(ok, buf, ib').
       let gh = dec_header buf in
       if h_signature gh \<noteq> GPT_SIGNATURE then Ret (Some err_gpt_sig, - 1, ib')
       else if 512 < h_partitions_size gh then Ret (Some err_gpt_size, - 1, ib')
       else if LastBlock ed \<le> h_start_lba gh \<or> h_start_lba gh \<le> h_partitions_lba gh
       then Ret (Some err_gpt_header, - 1, ib')
       else if h_start_lba gh - h_partitions_lba gh
           < ucast (h_partitions_num gh * h_partitions_size gh div BlockSize ed)
       then Ret (Some err_gpt_num, - 1, ib')
       else gpt_scan ed gh 0 (h_partitions_lba gh) buf ib')"

section \<open>The OpenBSD partition in the MBR\<close>

record dos_partition =
  dp_typ :: u8
  dp_start :: u32
  dp_size :: u32

definition dec_dos :: "u8 list \<Rightarrow> nat \<Rightarrow> dos_partition" where
  "dec_dos b i = \<lparr>dp_typ = of_nat (le_dec (bytes_at (446 + 16 * i + 4) 1 b)),
     dp_start = of_nat (le_dec (bytes_at (446 + 16 * i + 8) 4 b)),
     dp_size = of_nat (le_dec (bytes_at (446 + 16 * i + 12) 4 b))\<rparr>"

definition dmbr_sign :: "u8 list \<Rightarrow> u16" where
  "dmbr_sign b = of_nat (le_dec (bytes_at 510 2 b))"

definition DOSPTYP_OPENBSD :: u8 where "DOSPTYP_OPENBSD = 0xa6"
definition DOSPTYP_EXTEND :: u8 where "DOSPTYP_EXTEND = 0x05"
definition DOSPTYP_EXTENDL :: u8 where "DOSPTYP_EXTENDL = 0x0f"
definition DOSPTYP_EFI :: u8 where "DOSPTYP_EFI = 0xee"
definition DOSMBR_SIGNATURE :: u16 where "DOSMBR_SIGNATURE = 0xaa55"
definition DOS_MAXEBR :: nat where "DOS_MAXEBR = 256"

definition err_ebr :: string where "err_ebr = ''too many extended partitions''"
definition err_dio :: string where "err_dio = ''Disk I/O Error''"
definition err_mbr :: string where "err_mbr = ''bad MBR signature'' @ [NL]"
definition err_lba :: string where "err_lba = ''Paritition LBA > 2**32''"

text \<open>
  The scan of the four entries: either the function returns (message and value), or it goes on with
  the location of the next extended boot record (0 for none) and the offset of the first one.
\<close>

datatype scan = Found "string option" u32 iblk | Next u32 u32 iblk

text \<open>What the protective entry leads to: the message of the GPT search may be replaced.\<close>

definition use_gpt :: "efi_diskinfo \<Rightarrow> string option \<times> u64 \<times> iblk \<Rightarrow> scan" where
  "use_gpt ed r =
     (case r of (err, gptoff, ib) \<Rightarrow>
        if 0xffffffff < gptoff \<or> 0xffffffff < EFI_SECTOBLK ed gptoff then Found (Some err_lba) (- 1) ib
        else Found err (ucast (EFI_SECTOBLK ed gptoff)) ib)"

fun scan_parts :: "efi_diskinfo \<Rightarrow> u8 list \<Rightarrow> u32 \<Rightarrow> dos_partition list \<Rightarrow> u32 \<Rightarrow> u32 \<Rightarrow> iblk \<Rightarrow> scan outcome" where
  "scan_parts ed junk mbroff [] next_ebr eoff ib = Ret (Next next_ebr eoff ib)"
| "scan_parts ed junk mbroff (dp # dps) next_ebr eoff ib =
     (if dp_size dp = 0 then scan_parts ed junk mbroff dps next_ebr eoff ib
      else if dp_typ dp = DOSPTYP_OPENBSD then
        (if dp_start dp + mbroff < dp_start dp then scan_parts ed junk mbroff dps next_ebr eoff ib
         else Ret (Found None (dp_start dp + mbroff) ib))
      else
        let ext = next_ebr = 0 \<and> (dp_typ dp = DOSPTYP_EXTEND \<or> dp_typ dp = DOSPTYP_EXTENDL);
            n = (if ext then (if dp_start dp + eoff < dp_start dp then - 1 else dp_start dp + eoff) else next_ebr);
            e = (if ext \<and> eoff = 0 then dp_start dp else eoff)
        in if dp_typ dp = DOSPTYP_EFI
           then obind (findopenbsd_gpt ed junk ib) (\<lambda>r. Ret (use_gpt ed r))
           else scan_parts ed junk mbroff dps n e ib)"

text \<open>One round per boot record; the first argument is \<open>maxebr\<close>.\<close>

fun find_loop :: "nat \<Rightarrow> efi_diskinfo \<Rightarrow> u8 list \<Rightarrow> u32 \<Rightarrow> u32 \<Rightarrow> iblk \<Rightarrow> (string option \<times> u32 \<times> iblk) outcome" where
  "find_loop 0 ed junk mbroff eoff ib = Ret (Some err_ebr, - 1, ib)"
| "find_loop (Suc n) ed junk mbroff eoff ib =
     obind (efid_io F_READ ed mbroff 1 (replicate 512 0) ib) (\<lambda>(ok, mbr, ib').
       if \<not> ok then Ret (Some err_dio, - 1, ib')
       else if dmbr_sign mbr \<noteq> DOSMBR_SIGNATURE then Ret (Some err_mbr, - 1, ib')
       else obind (scan_parts ed junk mbroff (map (dec_dos mbr) [0..<4]) 0 eoff ib') (\<lambda>s.
         case s of
           Found err v ib'' \<Rightarrow> Ret (err, v, ib'')
         | Next next_ebr eoff' ib'' \<Rightarrow>
             if next_ebr \<noteq> 0 \<and> next_ebr \<noteq> - 1 then find_loop n ed junk next_ebr eoff' ib''
             else Ret (None, - 1, ib'')))"

definition findopenbsd :: "efi_diskinfo \<Rightarrow> u8 list \<Rightarrow> iblk \<Rightarrow> (string option \<times> u32 \<times> iblk) outcome" where
  "findopenbsd ed junk ib = find_loop DOS_MAXEBR ed junk 0 0 ib"

section \<open>The disk label\<close>

definition LABELSECTOR :: u32 where "LABELSECTOR = 1"
definition err_no_part :: string where "err_no_part = ''no OpenBSD partition'' @ [NL]"
definition err_read_label :: string where "err_read_label = ''failed to read disklabel''"

text \<open>The message (\<open>None\<close> is success) and the label, unchanged unless one was found.\<close>

definition efi_getdisklabel :: "efi_diskinfo \<Rightarrow> u8 list \<Rightarrow> label \<Rightarrow> iblk \<Rightarrow> (string option \<times> label \<times> iblk) outcome" where
  "efi_getdisklabel ed junk l ib =
     obind (findopenbsd ed junk ib) (\<lambda>(err, start, ib').
       if start = - 1 then Ret (Some (case err of Some m \<Rightarrow> m | None \<Rightarrow> err_no_part), l, ib')
       else obind (efid_io F_READ ed (LABELSECTOR + start) 1 junk ib') (\<lambda>(ok, buf, ib'').
         if \<not> ok then Ret (Some err_read_label, l, ib'')
         else obind (getdisklabel buf) (\<lambda>(msg, lp).
           Ret (msg, (case lp of Some l' \<Rightarrow> l' | None \<Rightarrow> l), ib''))))"

section \<open>Aligned reads\<close>

text \<open>
  The firmware's promise for a disk with contents \<open>m\<close> and \<open>nblk\<close> blocks: a read inside the disk
  succeeds and stores the contents of the blocks. Block sizes are multiples of 512 bytes.
\<close>

definition medium :: "efi_diskinfo \<Rightarrow> (nat \<Rightarrow> u8 list) \<Rightarrow> nat \<Rightarrow> bool" where
  "medium ed m nblk \<longleftrightarrow> EFI_BLKSPERSEC ed \<noteq> 0 \<and> unat (BlockSize ed) = 512 * unat (EFI_BLKSPERSEC ed)
     \<and> nblk * unat (EFI_BLKSPERSEC ed) < 2 ^ 32 \<and> (\<forall>i. length (m i) = 512)
     \<and> (\<forall>lba n. unat lba + n \<le> nblk \<longrightarrow>
          ReadBlocks ed lba (512 * (unat (EFI_BLKSPERSEC ed) * n)) =
          Some (secs m (unat lba * unat (EFI_BLKSPERSEC ed)) (unat (EFI_BLKSPERSEC ed) * n)))"

definition iblk_ok :: "efi_diskinfo \<Rightarrow> iblk \<Rightarrow> bool" where
  "iblk_ok ed ib \<longleftrightarrow> (case ib of No_iblk \<Rightarrow> True | Iblk sz \<Rightarrow> BlockSize ed \<le> sz | Freed_iblk \<Rightarrow> BlockSize ed = 512)"

lemma overlay_overlay:
  "length xs + length ys \<le> length buf \<Longrightarrow>
   overlay (overlay buf 0 xs) (length xs) ys = overlay buf 0 (xs @ ys)"
  by (simp add: overlay_def add.commute)

lemma overlay_Nil [simp]: "overlay buf off [] = buf"
  by (simp add: overlay_def)

text \<open>The static buffer after a read that may use it.\<close>

definition iblk_after :: "efi_diskinfo \<Rightarrow> iblk \<Rightarrow> iblk" where
  "iblk_after ed ib = (if BlockSize ed \<noteq> 512 \<and> ib = No_iblk then Iblk (BlockSize ed) else ib)"

lemma get_iblk_ok: "iblk_ok ed ib \<Longrightarrow> get_iblk ed ib = Ret (iblk_after ed ib)"
  by (cases ib) (auto simp: get_iblk_def iblk_ok_def iblk_after_def)

lemma iblk_ok_after [simp]: "iblk_ok ed ib \<Longrightarrow> iblk_ok ed (iblk_after ed ib)"
  by (auto simp: iblk_ok_def iblk_after_def)

lemma iblk_after_live:
  "iblk_ok ed ib \<Longrightarrow> BlockSize ed \<noteq> 512 \<Longrightarrow> \<exists>sz. iblk_after ed ib = Iblk sz \<and> BlockSize ed \<le> sz"
  by (cases ib) (auto simp: iblk_ok_def iblk_after_def)

text \<open>The numbers of an aligned read.\<close>

lemma aligned_numbers:
  fixes blks off nsect :: u32
  assumes "blks \<noteq> 0" "unat off mod unat blks = 0" "unat off + unat nsect < 2 ^ 32"
  shows "lead_blks blks off = 0"
    and "unat (tail_blks blks off nsect) = unat nsect mod unat blks"
    and "unat (nsect - tail_blks blks off nsect) = unat blks * (unat nsect div unat blks)"
proof -
  show "lead_blks blks off = 0"
    using assms(2) by (simp add: lead_blks_def word_unat_eq_iff unat_mod_distrib)
  have "unat (off + nsect) = unat off + unat nsect"
    using assms(3) by (intro unat_plus_small) simp
  moreover have "(unat off + unat nsect) mod unat blks = unat nsect mod unat blks"
    using assms(2) by (metis add_0 mod_add_left_eq)
  ultimately show t: "unat (tail_blks blks off nsect) = unat nsect mod unat blks"
    by (simp add: tail_blks_def unat_mod_distrib)
  then have "tail_blks blks off nsect \<le> nsect" by (simp add: word_le_nat_alt)
  then show "unat (nsect - tail_blks blks off nsect) = unat blks * (unat nsect div unat blks)"
    by (simp add: unat_minus_small t minus_mod_eq_mult_div)
qed


lemma medium_read:
  assumes "medium ed m nblk" "unat lba + n \<le> nblk" "sz = 512 * (unat (EFI_BLKSPERSEC ed) * n)"
  shows "ReadBlocks ed lba sz =
    Some (secs m (unat lba * unat (EFI_BLKSPERSEC ed)) (unat (EFI_BLKSPERSEC ed) * n))"
  using assms by (simp add: medium_def)

lemma put_bytes_secs:
  assumes "medium ed m nblk" "512 * (i + j) \<le> length buf"
  shows "put_bytes (overlay buf 0 (secs m a i)) (512 * i) (secs m (a + i) j) = Ret (overlay buf 0 (secs m a (i + j)))"
proof -
  have l: "length (secs m b n) = 512 * n" for b n
    using assms(1) by (intro length_secs) (simp add: medium_def)
  then show ?thesis
    using assms(2) overlay_overlay [of "secs m a i" "secs m (a + i) j" buf]
    by (simp add: put_bytes_def length_overlay secs_append)
qed

lemma read_body_aligned:
  assumes md: "medium ed m nblk" and k: "EFI_BLKSPERSEC ed = blks"
    and nb: "unat nb = unat blks * q" and "unat lba + q \<le> nblk"
    and sz: "512 * (unat blks * q) < 2 ^ 32" "512 * (unat blks * q) \<le> length buf"
  shows "read_body ed blks lba 0 nb buf = Ret (Some (overlay buf 0 (secs m (unat lba * unat blks) (unat blks * q))))"
proof (cases "q = 0")
  case True
  then have "nb = 0" using nb by (simp add: unat_eq_zero)
  with True show ?thesis by (simp add: read_body_def)
next
  case False
  have b: "unat blks > 0" using md k by (simp add: medium_def unat_gt_0)
  have q: "unat (nb div blks) = q" using nb b by (simp add: unat_div_distrib)
  have "unat (BlockSize ed * (nb div blks)) = 512 * (unat blks * q)"
    using sz(1) md k q by (subst unat_mult_lem [THEN iffD1]) (simp_all add: medium_def mult.assoc)
  then have r: "ReadBlocks ed (ucast lba) (unat (BlockSize ed * (nb div blks))) =
      Some (secs m (unat lba * unat blks) (unat blks * q))"
    using medium_read [OF md, of "ucast lba" q] assms(4) k by (simp add: unat_ucast_64)
  have "0 < nb" using nb b False by (simp add: word_less_nat_alt)
  moreover have "put_bytes (overlay buf 0 (secs m a 0)) (512 * 0) (secs m (a + 0) n) = Ret (overlay buf 0 (secs m a (0 + n)))"
    if "512 * n \<le> length buf" for a n
    using put_bytes_secs [OF md, of 0 n buf] that by simp
  ultimately show ?thesis
    using r sz(2) by (simp add: read_body_def)
qed

lemma read_tail_aligned:
  assumes md: "medium ed m nblk" and k: "EFI_BLKSPERSEC ed = blks"
    and ib: "BlockSize ed \<noteq> 512 \<Longrightarrow> \<exists>sz. ib = Iblk sz \<and> BlockSize ed \<le> sz"
    and nb: "unat nb = unat blks * q" and tb: "unat tb < unat blks"
    and rng: "unat tb > 0 \<Longrightarrow> unat lba + q < nblk"
    and sz: "512 * (unat blks * q + unat tb) < 2 ^ 32" "512 * (unat blks * q + unat tb) \<le> length buf"
  shows "read_tail ed ib blks lba 0 nb tb (overlay buf 0 (secs m (unat lba * unat blks) (unat blks * q)))
     = Ret (Some (overlay buf 0 (secs m (unat lba * unat blks) (unat blks * q + unat tb))))"
proof (cases "tb = 0")
  case True
  then show ?thesis by (simp add: read_tail_def)
next
  case False
  then have tb0: "unat tb > 0" by (simp add: unat_gt_0)
  then have b1: "1 < unat blks" using tb by simp
  have len: "\<And>i. length (m i) = 512" and bs: "unat (BlockSize ed) = 512 * unat blks"
    and small: "nblk * unat blks < 2 ^ 32"
    using md k by (simp_all add: medium_def)
  have "BlockSize ed \<noteq> 512" using bs b1 by auto
  then obtain z where z: "ib = Iblk z" "BlockSize ed \<le> z" using ib by blast
  have q: "unat (nb div blks) = q" using nb b1 by (simp add: unat_div_distrib)
  have "nblk * 1 \<le> nblk * unat blks" using b1 by (intro mult_le_mono) simp_all
  from le_less_trans [OF this small] have "nblk < 2 ^ 32" by simp
  then have l: "unat (lba + nb div blks) = unat lba + q"
    using rng [OF tb0] q by (subst unat_plus_small) simp_all
  have r: "ReadBlocks ed (ucast (lba + nb div blks)) (unat (BlockSize ed)) =
      Some (secs m (unat lba * unat blks + unat blks * q) (unat blks))"
    using medium_read [OF md, of "ucast (lba + nb div blks)" 1] rng [OF tb0] k bs l
    by (simp add: unat_ucast_64 algebra_simps)
  have p: "unat (nb * 512) = 512 * (unat blks * q)" "unat (tb * 512) = 512 * unat tb"
    using sz(1) unfolding nb [symmetric] by (subst unat_mult_lem [THEN iffD1]; simp)+
  have "bytes_at 0 (512 * unat tb) (secs m a (unat blks)) = secs m a (unat tb)" for a
    using take_secs [of m "unat tb" "unat blks" a] len tb by (simp add: bytes_at_def)
  then show ?thesis
    using False z r p put_bytes_secs [OF md sz(2), of "unat lba * unat blks"]
    by (simp add: read_tail_def read_iblk_def word_gt_0)
qed


text \<open>Reads that start on a block boundary.\<close>

lemma efid_io_aligned:
  assumes md: "medium ed m nblk" and ib: "iblk_ok ed ib"
    and al: "unat off mod unat (EFI_BLKSPERSEC ed) = 0"
    and rng: "unat off + unat nsect \<le> nblk * unat (EFI_BLKSPERSEC ed)"
    and sz: "512 * unat nsect < 2 ^ 32" "512 * unat nsect \<le> length buf"
  shows "efid_io F_READ ed off nsect buf ib =
    Ret (True, overlay buf 0 (secs m (unat off) (unat nsect)), iblk_after ed ib)"
proof -
  define blks where "blks = EFI_BLKSPERSEC ed"
  define q where "q = unat nsect div unat blks"
  have b: "blks \<noteq> 0" "unat blks > 0" and small: "nblk * unat blks < 2 ^ 32"
    using md by (simp_all add: medium_def blks_def unat_gt_0)
  define tb where "tb = tail_blks blks off nsect"
  have offn: "unat off + unat nsect < 2 ^ 32" using rng small by (simp add: blks_def)
  note nums = aligned_numbers [OF b(1) _ offn, folded blks_def tb_def q_def]
  have al': "unat off mod unat blks = 0" using al by (simp add: blks_def)
  have lba: "unat (off div blks) * unat blks = unat off"
    using al' by (simp add: unat_div_distrib) (metis add.right_neutral div_mult_mod_eq)
  have split: "unat blks * q + unat tb = unat nsect"
    using nums(2) [OF al'] by (simp add: q_def)
  have tb: "unat tb < unat blks" using nums(2) [OF al'] b(2) by simp
  have "(unat (off div blks) + q) * unat blks + unat tb \<le> nblk * unat blks"
    using rng lba split unfolding blks_def [symmetric] add_mult_distrib by (simp add: mult.commute [of q])
  then have r: "(unat (off div blks) + q) * unat blks + unat tb \<le> nblk * unat blks" .
  then have r1: "unat (off div blks) + q \<le> nblk"
    by (metis add_leD1 b(2) mult_le_cancel2)
  have r2: "unat (off div blks) + q < nblk" if "unat tb > 0"
    using r that b(2) r1 by (metis add.right_neutral add_le_cancel_left antisym_conv2 not_less)
  have body: "read_body ed blks (off div blks) 0 (nsect - tb) buf =
      Ret (Some (overlay buf 0 (secs m (unat off) (unat blks * q))))"
    using read_body_aligned [OF md blks_def [symmetric] nums(3) [OF al'] r1, of buf] sz split lba
    by (simp add: mult.commute [of q])
  have tail: "read_tail ed (iblk_after ed ib) blks (off div blks) 0 (nsect - tb) tb
      (overlay buf 0 (secs m (unat off) (unat blks * q))) = Ret (Some (overlay buf 0 (secs m (unat off) (unat nsect))))"
    using read_tail_aligned [OF md blks_def [symmetric] iblk_after_live [OF ib] nums(3) [OF al'] tb r2, of buf]
      sz split lba by simp
  show ?thesis
    using body tail b(1) get_iblk_ok [OF ib] nums(1) [OF al']
    by (simp add: efid_io_def Let_def read_lead_def opt_step_def flip: blks_def tb_def)
qed

end
