(* ===== verification/Efi_Find.thy ===== *)
theory Efi_Find
  imports Efi_Dev Gdisk_Store
begin

unbundle bit_operations_syntax

text \<open>
  What the search for the OpenBSD partition finds: on a disk partitioned by gdisk the loader finds
  the partition gdisk wrote, for every block size; the walk over extended boot records ends; and
  reads that do not start on a block boundary go wrong.
\<close>

section \<open>One sector of entries\<close>

text \<open>The type the loader looks for is the one gdisk gives to identifier \<open>a600\<close>.\<close>

definition is_openbsd :: "gpt_partition \<Rightarrow> bool" where
  "is_openbsd p \<longleftrightarrow> enc_uuid (p_type p) = openbsd_uuid"

lemma le_enc_numeral: "le_enc (numeral k) v = of_nat v # le_enc (pred_numeral k) (v div 256)"
  unfolding numeral_eq_Suc [of k] by (rule le_enc.simps)

lemma openbsd_uuid_eq:
  "openbsd_uuid = [0xa0, 0xc7, 0x4c, 0x82, 0xa8, 0x36, 0xe3, 0x11, 0x89, 0x0a, 0x95, 0x25, 0x19, 0xad, 0x3f, 0x61]"
  by (simp add: openbsd_uuid_def openbsd_uuid_code_def bytes_at_def)

lemma openbsd_text: "enc_uuid u = openbsd_uuid" if "uuid_from_string ''824cc7a0-36a8-11e3-890a-952519ad3f61'' = Some u"
proof -
  have "u = \<lparr>time_low = 0x824cc7a0, time_mid = 0x36a8, time_hi_and_version = 0x11e3,
      clock_seq_hi_and_reserved = 0x89, clock_seq_low = 0x0a, node = [0x95, 0x25, 0x19, 0xad, 0x3f, 0x61]\<rparr>"
    using that by (simp add: uuid_from_string_def hex_field_def bytes_at_def text_eval split: if_splits)
  then show ?thesis
    by (simp add: enc_uuid_def openbsd_uuid_eq le_enc_numeral)
qed

lemma set_type_is_openbsd: "is_openbsd (PRT_set_type_by_pid p 0xa600)"
proof -
  obtain u where u: "uuid_from_string ''824cc7a0-36a8-11e3-890a-952519ad3f61'' = Some u"
    using part_types_guid [OF part_types_openbsd] by blast
  then have "PRT_set_type_by_pid p 0xa600 = p\<lparr>p_type := u\<rparr>"
    using set_type_loop_entry [OF part_types_openbsd part_types_distinct]
    by (simp add: PRT_set_type_by_pid_def)
  then show ?thesis using openbsd_text [OF u] by (simp add: is_openbsd_def)
qed

lemma enc_part_fields:
  assumes "part_ok p"
  shows "bytes_at 0 16 (enc_part p) = enc_uuid (p_type p)"
    and "of_nat (le_dec (bytes_at 32 8 (enc_part p))) = p_start_lba p"
proof -
  have u: "length (enc_uuid (p_type p)) = 16" "length (enc_uuid (p_guid p)) = 16"
    using assms by (auto simp: part_ok_def layout)
  then show "bytes_at 0 16 (enc_part p) = enc_uuid (p_type p)"
    by (simp add: enc_part_def bytes_at_def)
  show "of_nat (le_dec (bytes_at 32 8 (enc_part p))) = p_start_lba p"
    using u by (simp add: enc_part_def layout)
qed

lemma bytes_at_bytes_at: "i + j \<le> n \<Longrightarrow> bytes_at (off + i) j buf = bytes_at i j (bytes_at off n buf)"
  by (simp add: bytes_at_def drop_take min_def add.commute)

lemma entry_of_block:
  assumes "list_all part_ok qs" "length qs \<le> 4" "i < length qs"
  shows "bytes_at (128 * i) 128 (pad (entry_bytes qs)) = enc_part (qs ! i)"
proof -
  have "entry_blocks qs ! 0 = pad (entry_bytes (take 4 (drop (4 * 0) qs)))"
    using assms(3) by (intro nth_entry_blocks) auto
  moreover have "i div 4 = 0" "i mod 4 = i" using assms by auto
  ultimately show ?thesis
    using bytes_at_entry [OF assms(1,3)] assms(2) by (simp add: sizeof_part_def mult.commute)
qed

lemma unused_of_block:
  assumes "list_all part_ok qs" "length qs \<le> i" "i < 4"
  shows "bytes_at (128 * i) 16 (pad (entry_bytes qs)) \<noteq> openbsd_uuid"
proof -
  have l: "length (entry_bytes qs) = 128 * length qs" using assms(1) by (simp add: layout)
  then have "bytes_at (128 * i) 16 (pad (entry_bytes qs)) = replicate 16 0"
    using assms(2,3) by (simp add: pad_def bytes_at_def DEV_BSIZE_def)
  moreover have "openbsd_uuid ! 0 \<noteq> replicate 16 0 ! 0" by (simp add: openbsd_uuid_eq)
  ultimately show ?thesis by metis
qed

lemma scan_sector_block:
  assumes "list_all part_ok qs" "length qs \<le> 4" "h_partitions_size gh = 128" "i \<le> 4"
  shows "scan_sector gh (pad (entry_bytes qs)) i =
    Ret (map_option p_start_lba (List.find is_openbsd (drop i qs)))"
  using assms(4)
proof (induction "4 - i" arbitrary: i)
  case 0
  then have "i = 4" by simp
  then show ?case
    using assms(2,3) by (simp add: scan_sector.simps [of _ _ 4] GPT_PARTSPERSEC_def)
next
  case (Suc x)
  let ?b = "pad (entry_bytes qs)"
  have i: "i < 4" using Suc by simp
  have len: "length ?b = 512"
    using assms(1,2) by (simp add: layout DEV_BSIZE_def)
  have off: "unat (GPT_SECOFFSET gh (of_nat i)) = 128 * i"
    using i assms(3) by (simp add: GPT_SECOFFSET_def unat_word_ariths unat_of_nat)
  have IH: "scan_sector gh ?b (Suc i) = Ret (map_option p_start_lba (List.find is_openbsd (drop (Suc i) qs)))"
    using Suc by simp
  note step = scan_sector.simps [of gh ?b i]
  have ty: "obj_bytes ?b (128 * i) 16 = Ret (bytes_at (128 * i) 16 ?b)"
    "obj_bytes ?b (128 * i + 32) 8 = Ret (bytes_at (128 * i + 32) 8 ?b)"
    using i len by (simp_all add: obj_bytes_def)
  show ?case
  proof (cases "i < length qs")
    case True
    note ent = entry_of_block [OF assms(1,2) True]
    have ok: "part_ok (qs ! i)" using assms(1) True by (simp add: list_all_length)
    have "bytes_at (128 * i) 16 ?b = enc_uuid (p_type (qs ! i))"
      using bytes_at_bytes_at [of 0 16 128 "128 * i" ?b] ent enc_part_fields(1) [OF ok] by simp
    moreover have "bytes_at (128 * i + 32) 8 ?b = bytes_at 32 8 (enc_part (qs ! i))"
      using bytes_at_bytes_at [of 32 8 128 "128 * i" ?b] ent by simp
    ultimately show ?thesis
      using i assms(3) off ty IH enc_part_fields(2) [OF ok] True
      by (simp add: step GPT_PARTSPERSEC_def is_openbsd_def Cons_nth_drop_Suc [symmetric])
  next
    case False
    then show ?thesis
      using i assms(3) off ty(1) IH unused_of_block [OF assms(1), of i]
      by (simp add: step GPT_PARTSPERSEC_def)
  qed
qed

section \<open>The whole array\<close>

lemma find_append:
  "List.find P (xs @ ys) = (case List.find P xs of Some x \<Rightarrow> Some x | None \<Rightarrow> List.find P ys)"
  by (induction xs) simp_all

lemma overlay_full: "length src = length buf \<Longrightarrow> overlay buf 0 src = src"
  by (simp add: overlay_def)

lemma unat_efi_sectoblk:
  assumes "medium ed m nblk" "unat lba < nblk"
  shows "unat (ucast (EFI_SECTOBLK ed lba) :: u32) = unat lba * unat (EFI_BLKSPERSEC ed)"
    and "unat lba * unat (EFI_BLKSPERSEC ed) + unat (EFI_BLKSPERSEC ed) \<le> nblk * unat (EFI_BLKSPERSEC ed)"
proof -
  let ?k = "unat (EFI_BLKSPERSEC ed)"
  have "(unat lba + 1) * ?k \<le> nblk * ?k" using assms(2) by (intro mult_le_mono) simp_all
  then show le: "unat lba * ?k + ?k \<le> nblk * ?k" by simp
  have k: "?k > 0" and s: "nblk * ?k < 2 ^ 32" using assms(1) by (simp_all add: medium_def unat_gt_0)
  then have lt: "unat lba * ?k < 2 ^ 32" using le by simp
  have "unat (EFI_SECTOBLK ed lba) = unat lba * ?k"
    unfolding EFI_SECTOBLK_def using lt by (subst unat_mult_lem [THEN iffD1]) (simp_all add: unat_ucast_64)
  then show "unat (ucast (EFI_SECTOBLK ed lba) :: u32) = unat lba * ?k"
    using lt by (simp add: unsigned_ucast_eq take_bit_nat_eq_self)
qed

text \<open>The first sector of a block.\<close>

lemma efid_io_block:
  assumes md: "medium ed m nblk" and ib: "iblk_ok ed ib" and lba: "unat lba < nblk" and buf: "length buf = 512"
  shows "efid_io F_READ ed (ucast (EFI_SECTOBLK ed lba)) 1 buf ib =
    Ret (True, m (unat lba * unat (EFI_BLKSPERSEC ed)), iblk_after ed ib)"
proof -
  note o = unat_efi_sectoblk [OF md lba]
  have k: "unat (EFI_BLKSPERSEC ed) > 0" and len: "\<And>i. length (m i) = 512"
    using md by (simp_all add: medium_def unat_gt_0)
  have "efid_io F_READ ed (ucast (EFI_SECTOBLK ed lba)) 1 buf ib =
      Ret (True, overlay buf 0 (secs m (unat lba * unat (EFI_BLKSPERSEC ed)) 1), iblk_after ed ib)"
    using efid_io_aligned [OF md ib, of "ucast (EFI_SECTOBLK ed lba)" 1 buf] o k buf by simp
  then show ?thesis
    using len buf by (simp add: secs_def overlay_full)
qed

text \<open>Reading sector \<open>j\<close> of the entries gives four of them, and searching on behind them.\<close>

lemma entry_sector_read:
  assumes md: "medium ed m nblk" and ok: "list_all part_ok ps" and K: "K = (length ps + 3) div 4" "unat lba0 + K \<le> nblk" "nblk < 2 ^ 32"
    and blk: "m ((unat lba0 + j) * unat (EFI_BLKSPERSEC ed)) = entry_blocks ps ! j"
    and j: "j < K" and ib: "iblk_ok ed ib" "length buf = 512"
  shows "efid_io F_READ ed (ucast (EFI_SECTOBLK ed (lba0 + of_nat j))) 1 buf ib =
      Ret (True, pad (entry_bytes (take 4 (drop (4 * j) ps))), iblk_after ed ib)"
proof -
  have "unat (of_nat j :: u64) = j" using j K by (simp add: unat_of_nat_small)
  then have lba: "unat (lba0 + of_nat j) = unat lba0 + j" using j K by (simp add: unat_plus_small)
  then have "efid_io F_READ ed (ucast (EFI_SECTOBLK ed (lba0 + of_nat j))) 1 buf ib =
      Ret (True, entry_blocks ps ! j, iblk_after ed ib)"
    using efid_io_block [OF md ib(1), of "lba0 + of_nat j" buf] ib(2) blk j K(2) by simp
  moreover have "entry_blocks ps ! j = pad (entry_bytes (take 4 (drop (4 * j) ps)))"
    using j K(1) by (intro nth_entry_blocks) simp
  ultimately show ?thesis by simp
qed

lemma find_next_four:
  "List.find P (drop (4 * j) xs) =
     (case List.find P (take 4 (drop (4 * j) xs)) of Some p \<Rightarrow> Some p | None \<Rightarrow> List.find P (drop (4 * Suc j) xs))"
proof -
  have "drop (4 * j) xs = take 4 (drop (4 * j) xs) @ drop (4 * Suc j) xs"
    by (metis append_take_drop_id drop_drop add.commute mult_Suc_right)
  then show ?thesis by (metis find_append)
qed

lemma gpt_scan_blocks:
  assumes md: "medium ed m nblk" and ok: "list_all part_ok ps"
    and gh: "h_partitions_size gh = 128" "unat (h_partitions_num gh) = length ps" "length ps < 2 ^ 25"
    and K: "K = (length ps + 3) div 4" "unat lba0 + K \<le> nblk" "nblk < 2 ^ 32"
    and blk: "\<And>j. j < K \<Longrightarrow> m ((unat lba0 + j) * unat (EFI_BLKSPERSEC ed)) = entry_blocks ps ! j"
  shows "iblk_ok ed ib \<Longrightarrow> length buf = 512 \<Longrightarrow> j \<le> K \<Longrightarrow>
    \<exists>ib'. iblk_ok ed ib' \<and> gpt_scan ed gh (4 * j) (lba0 + of_nat j) buf ib =
      Ret (None, (case List.find is_openbsd (drop (4 * j) ps) of Some p \<Rightarrow> p_start_lba p | None \<Rightarrow> - 1), ib')"
proof (induction "K - j" arbitrary: j buf ib)
  case 0
  then have "j = K" by simp
  then have "length ps \<le> 4 * j" using K(1) by linarith
  then show ?case
    using 0 gh(2) by (intro exI [of _ ib]) (simp add: gpt_scan.simps [of _ _ "4 * j"])
next
  case (Suc x)
  then have j: "j < K" by simp
  then have more: "4 * j < length ps" using K(1) by linarith
  let ?qs = "take 4 (drop (4 * j) ps)"
  note rd = entry_sector_read [OF md ok K blk [OF j] j Suc.prems(1,2)]
  have qok: "list_all part_ok ?qs" using ok by (simp add: list_all_take list_all_drop)
  have sc: "scan_sector gh (pad (entry_bytes ?qs)) 0 = Ret (map_option p_start_lba (List.find is_openbsd ?qs))"
    using scan_sector_block [OF qok _ gh(1), of 0] by simp
  have len: "length (pad (entry_bytes ?qs)) = 512"
    using qok by (simp add: layout DEV_BSIZE_def)
  note fd = find_next_four [of is_openbsd j ps]
  have pps: "GPT_PARTSPERSEC gh = 4" using gh(1) by (simp add: GPT_PARTSPERSEC_def)
  have small: "\<not> 2 ^ 31 \<le> 4 * j + 4" using more gh(3) by simp
  note step = gpt_scan.simps [of ed gh "4 * j" "lba0 + of_nat j" buf ib]
  show ?case
  proof (cases "List.find is_openbsd ?qs")
    case (Some p)
    then show ?thesis
      using rd sc pps more gh(2) Suc.prems(1) fd
      by (intro exI [of _ "iblk_after ed ib"]) (simp add: step)
  next
    case None
    have e: "4 * Suc j = 4 * j + 4" "lba0 + of_nat (Suc j) = lba0 + of_nat j + 1" by simp_all
    have "gpt_scan ed gh (4 * j) (lba0 + of_nat j) buf ib =
        gpt_scan ed gh (4 * Suc j) (lba0 + of_nat (Suc j)) (pad (entry_bytes ?qs)) (iblk_after ed ib)"
      using rd sc pps more gh(2) small None unfolding e by (simp add: step)
    then show ?thesis
      using Suc.hyps(1) [of "Suc j" "iblk_after ed ib" "pad (entry_bytes ?qs)"] Suc.hyps(2) Suc.prems len j fd None
      by simp
  qed
qed

text \<open>A GPT as the search expects it: header at block 1, entries of 128 bytes before the usable area.\<close>

lemma findopenbsd_gpt_table:
  assumes md: "medium ed m nblk" "nblk < 2 ^ 32" and ib: "iblk_ok ed ib" and junk: "length junk = 512"
    and h: "uuid_ok (h_guid h)" "h_signature h = GPT_SIGNATURE" "h_partitions_size h = 128"
      "unat (h_partitions_num h) = length ps" "length ps < 2 ^ 25" "h_start_lba h < LastBlock ed"
    and K: "K = (length ps + 3) div 4" "unat (h_start_lba h) = unat (h_partitions_lba h) + K" "0 < K"
      "unat (h_start_lba h) \<le> nblk"
    and ok: "list_all part_ok ps" and nblk: "1 < nblk"
    and hd: "m (unat (EFI_BLKSPERSEC ed)) = header_block h"
    and blk: "\<And>j. j < K \<Longrightarrow> m ((unat (h_partitions_lba h) + j) * unat (EFI_BLKSPERSEC ed)) = entry_blocks ps ! j"
  shows "\<exists>ib'. iblk_ok ed ib' \<and> findopenbsd_gpt ed junk ib =
    Ret (None, (case List.find is_openbsd ps of Some p \<Rightarrow> p_start_lba p | None \<Rightarrow> - 1), ib')"
proof -
  let ?b = "header_block h"
  have rd: "efid_io F_READ ed (ucast (EFI_SECTOBLK ed 1)) 1 junk ib = Ret (True, ?b, iblk_after ed ib)"
    using efid_io_block [OF md(1) ib, of 1 junk] nblk junk hd by simp
  have dec: "dec_header ?b = h" by (rule dec_header_block [OF h(1)])
  have lt: "h_partitions_lba h < h_start_lba h" using K by (simp add: word_less_nat_alt)
  have prod: "unat (h_partitions_num h * h_partitions_size h) = 128 * length ps"
    using h(3-5) by (subst unat_mult_lem [THEN iffD1]) (simp_all add: mult.commute)
  have bs: "512 \<le> unat (BlockSize ed)" using md(1) by (auto simp: medium_def unat_gt_0 Suc_le_eq)
  have "128 * length ps div unat (BlockSize ed) \<le> 128 * length ps div 512"
    using bs by (intro div_le_mono2) simp_all
  also have "\<dots> \<le> K" using K(1) by linarith
  finally have "unat (h_partitions_num h * h_partitions_size h div BlockSize ed) \<le> K"
    using prod by (simp add: unat_div_distrib)
  then have fits: "\<not> h_start_lba h - h_partitions_lba h
      < ucast (h_partitions_num h * h_partitions_size h div BlockSize ed)"
    using K(2) unat_minus_small [OF less_imp_le [OF lt]] by (simp add: word_less_nat_alt unat_ucast_64)
  have rng: "unat (h_partitions_lba h) + K \<le> nblk" using K by simp
  have "\<exists>ib'. iblk_ok ed ib' \<and> gpt_scan ed h (4 * 0) (h_partitions_lba h + of_nat 0) ?b (iblk_after ed ib) =
      Ret (None, (case List.find is_openbsd (drop (4 * 0) ps) of Some p \<Rightarrow> p_start_lba p | None \<Rightarrow> - 1), ib')"
    using ib length_header_block [OF h(1)] blk
    by (intro gpt_scan_blocks [OF md(1) ok h(3-5) K(1) rng md(2)]) (simp_all add: DEV_BSIZE_def)
  then show ?thesis
    using rd dec h(2,3,6) lt fits
    by (simp add: findopenbsd_gpt_def Let_def not_le)
qed

section \<open>A disk partitioned by gdisk\<close>

text \<open>The same disk as the firmware shows it, with blocks of the sector size gdisk used.\<close>

fun read_run :: "bdev \<Rightarrow> nat \<Rightarrow> nat \<Rightarrow> u8 list option" where
  "read_run d s 0 = Some []"
| "read_run d s (Suc n) =
     (case bd_read d s of None \<Rightarrow> None | Some b \<Rightarrow> map_option ((@) b) (read_run d (Suc s) n))"

definition efi_view :: "genv \<Rightarrow> bdev \<Rightarrow> u64 \<Rightarrow> efi_diskinfo" where
  "efi_view e d dsize = \<lparr>BlockSize = of_nat (secsize e), LastBlock = dsize - 1, ReadOnly = False,
     ReadBlocks = (\<lambda>lba n. if unat lba + n div secsize e \<le> unat dsize
       then read_run d (unat lba) (n div secsize e) else None)\<rparr>"

text \<open>Its contents in units of 512 bytes, \<open>k\<close> to a block.\<close>

definition contents :: "bdev \<Rightarrow> nat \<Rightarrow> nat \<Rightarrow> u8 list" where
  "contents d k i = (case bd_read d (i div k) of
      Some b \<Rightarrow> if length b = 512 * k then bytes_at (512 * (i mod k)) 512 b else replicate 512 0
    | None \<Rightarrow> replicate 512 0)"

lemma concat_bytes_at: "length b = c * n \<Longrightarrow> concat (map (\<lambda>i. bytes_at (c * i) c b) [0..<n]) = b"
proof (induction n arbitrary: b)
  case (Suc n)
  have m: "map (\<lambda>i. bytes_at (c * i) c b) [0..<n] = map (\<lambda>i. bytes_at (c * i) c (take (c * n) b)) [0..<n]"
  proof (rule map_cong [OF refl])
    fix i assume "i \<in> set [0..<n]"
    then have "c * i + c \<le> c * n" by (metis Suc_leI atLeastLessThan_iff mult_Suc_right mult_le_mono2 set_upt add.commute)
    then show "bytes_at (c * i) c b = bytes_at (c * i) c (take (c * n) b)"
      by (simp add: bytes_at_def drop_take min_def)
  qed
  have "concat (map (\<lambda>i. bytes_at (c * i) c b) [0..<n]) = take (c * n) b"
    unfolding m using Suc.prems by (intro Suc.IH) simp
  moreover have "bytes_at (c * n) c b = drop (c * n) b"
    using Suc.prems by (simp add: bytes_at_def)
  ultimately show ?case by simp
qed simp

lemma secs_contents:
  assumes "bd_read d s = Some b" "length b = 512 * k" "0 < k"
  shows "secs (contents d k) (s * k) k = b"
proof -
  have "map (contents d k) [s * k..<s * k + k] = map (\<lambda>i. contents d k (s * k + i)) [0..<k]"
    by (simp add: map_add_upt [symmetric] add.commute)
  also have "\<dots> = map (\<lambda>i. bytes_at (512 * i) 512 b) [0..<k]"
    using assms by (intro map_cong) (simp_all add: contents_def)
  finally show ?thesis
    using concat_bytes_at [OF assms(2)] by (simp add: secs_def)
qed

lemma read_run_secs:
  assumes "0 < k" "\<And>s. a \<le> s \<Longrightarrow> s < a + n \<Longrightarrow> \<exists>b. bd_read d s = Some b \<and> length b = 512 * k"
  shows "read_run d a n = Some (secs (contents d k) (a * k) (k * n))"
  using assms(2)
proof (induction n arbitrary: a)
  case (Suc n)
  obtain b where b: "bd_read d a = Some b" "length b = 512 * k" using Suc.prems [of a] by auto
  have "read_run d (Suc a) n = Some (secs (contents d k) (Suc a * k) (k * n))"
    using Suc.prems by (intro Suc.IH) auto
  moreover have "b @ secs (contents d k) (Suc a * k) (k * n) = secs (contents d k) (a * k) (k * Suc n)"
    using secs_append [of "contents d k" "a * k" k "k * n"] secs_contents [OF b assms(1)] by (simp add: add.commute)
  ultimately show ?case using b(1) by simp
qed simp

lemma efi_view_medium:
  assumes k: "secsize e = 512 * k" "0 < k" and small: "unat dsize * k < 2 ^ 32" "secsize e < 2 ^ 32"
    and good: "\<And>w. w < dsize \<Longrightarrow> dev_good e d w"
  shows "medium (efi_view e d dsize) (contents d k) (unat dsize)" and "unat (EFI_BLKSPERSEC (efi_view e d dsize)) = k"
proof -
  let ?ed = "efi_view e d dsize"
  have bs: "unat (BlockSize ?ed) = 512 * k"
    using small(2) unfolding efi_view_def efi_diskinfo.simps k(1) [symmetric] by (intro unat_of_nat_small) simp
  show kk: "unat (EFI_BLKSPERSEC ?ed) = k"
    using bs by (simp add: EFI_BLKSPERSEC_def unat_div_distrib)
  have len: "length (contents d k i) = 512" for i
  proof -
    have "512 * (i mod k) + 512 \<le> 512 * k" using k(2) by (metis Suc_leI mod_less_divisor mult_Suc_right mult_le_mono2 add.commute)
    then show ?thesis by (auto simp: contents_def length_bytes_at split: option.split)
  qed
  have rd: "\<exists>b. bd_read d s = Some b \<and> length b = 512 * k" if "s < unat dsize" for s
  proof -
    have "s < 2 ^ 64" using that unat_word_less [of dsize] by simp
    then have "unat (of_nat s :: u64) = s" by (simp add: unat_of_nat_small)
    then show ?thesis
      using good [of "of_nat s"] that k(1) by (auto simp: dev_good_def word_less_nat_alt split: option.splits)
  qed
  have "ReadBlocks ?ed lba (512 * (k * n)) = Some (secs (contents d k) (unat lba * k) (k * n))"
    if "unat lba + n \<le> unat dsize" for lba n
  proof -
    have "512 * (k * n) div secsize e = n" using k by (simp add: mult.assoc [symmetric])
    then show ?thesis
      using read_run_secs [OF k(2), of "unat lba" n d] rd that by (simp add: efi_view_def)
  qed
  then show "medium ?ed (contents d k) (unat dsize)"
    using bs kk k(2) small(1) len by (auto simp: medium_def)
qed

lemma contents_block:
  assumes "dev_good e d w" "GPT_read e d w = Some b" "secsize e = 512 * k" "0 < k"
  shows "contents d k (unat w * k) = b"
  using assms GPT_read_good [OF assms(1)]
  by (auto simp: dev_good_def contents_def bytes_at_def DEV_BSIZE_def split: option.splits)

lemma find_loop_gpt:
  assumes md: "medium ed m nblk" "0 < nblk" "iblk_ok ed ib"
    and mbr: "dmbr_sign (m 0) = DOSMBR_SIGNATURE" "dp_typ (dec_dos (m 0) 0) = DOSPTYP_EFI" "dp_size (dec_dos (m 0) 0) \<noteq> 0"
    and gpt: "\<And>ib. iblk_ok ed ib \<Longrightarrow> \<exists>ib'. iblk_ok ed ib' \<and> findopenbsd_gpt ed junk ib = Ret (None, s, ib')"
    and s: "unat s * unat (EFI_BLKSPERSEC ed) < 2 ^ 32" "unat s < nblk"
  shows "\<exists>ib'. iblk_ok ed ib' \<and> findopenbsd ed junk ib = Ret (None, of_nat (unat s * unat (EFI_BLKSPERSEC ed)), ib')"
proof -
  let ?k = "unat (EFI_BLKSPERSEC ed)"
  have rd: "efid_io F_READ ed 0 1 (replicate 512 0) ib = Ret (True, m 0, iblk_after ed ib)"
    using efid_io_block [OF md(1,3), of 0 "replicate 512 0"] md(2) by (simp add: EFI_SECTOBLK_def)
  obtain ib' where g: "iblk_ok ed ib'" "findopenbsd_gpt ed junk (iblk_after ed ib) = Ret (None, s, ib')"
    using gpt [OF iblk_ok_after [OF md(3)]] by blast
  have ne: "DOSPTYP_EFI \<noteq> DOSPTYP_OPENBSD" by (simp add: DOSPTYP_EFI_def DOSPTYP_OPENBSD_def)
  have k: "?k > 0" using md(1) by (simp add: medium_def unat_gt_0)
  have sb: "unat (EFI_SECTOBLK ed s) = unat s * ?k"
    unfolding EFI_SECTOBLK_def using s by (subst unat_mult_lem [THEN iffD1]) (simp_all add: unat_ucast_64)
  have "unat s * 1 \<le> unat s * ?k" using k by (intro mult_le_mono) simp_all
  from le_less_trans [OF this s(1)] have "\<not> (0xffffffff < s \<or> 0xffffffff < EFI_SECTOBLK ed s)"
    using s(1) sb by (auto simp: word_less_nat_alt)
  moreover have "(ucast (EFI_SECTOBLK ed s) :: u32) = of_nat (unat s * ?k)"
    using unat_efi_sectoblk(1) [OF md(1) s(2)] s(1)
    by (intro word_unat_eq_iff [THEN iffD2]) (simp add: unat_of_nat_small del: of_nat_mult)
  ultimately have "use_gpt ed (None, s, ib') = Found None (of_nat (unat s * ?k)) ib'"
    by (simp add: use_gpt_def)
  moreover have "[0..<4] = [0, 1, 2, 3 :: nat]" by (simp add: upt_rec)
  ultimately have "find_loop (Suc n) ed junk 0 0 ib = Ret (None, of_nat (unat s * ?k), ib')" for n
    using rd mbr g ne by (simp add: Let_def)
  from this [of 255] show ?thesis
    using g(1) by (intro exI [of _ ib']) (simp add: findopenbsd_def DOS_MAXEBR_def)
qed

text \<open>A copy of a GPT on a disk is found by the GPT search.\<close>

lemma copy_on_found:
  assumes cp: "copy_on e d (stored_primary e dsize h ps) ps"
    and h: "uuid_ok (h_guid h)" and n: "unat (h_partitions_num h) = length ps" "length ps < 2 ^ 25"
    and ok: "list_all part_ok ps" and K: "K = (length ps + 3) div 4" "0 < K" "2 * K + 3 \<le> unat dsize"
    and k: "secsize e = 512 * k" "0 < k" "unat dsize * k < 2 ^ 32" "secsize e < 2 ^ 32"
    and good: "\<And>w. w < dsize \<Longrightarrow> dev_good e d w"
    and ib: "iblk_ok (efi_view e d dsize) ib" and junk: "length junk = 512"
  shows "\<exists>ib'. iblk_ok (efi_view e d dsize) ib' \<and> findopenbsd_gpt (efi_view e d dsize) junk ib =
    Ret (None, (case List.find is_openbsd ps of Some p \<Rightarrow> p_start_lba p | None \<Rightarrow> - 1), ib')"
proof -
  let ?hp = "stored_primary e dsize h ps" and ?ed = "efi_view e d dsize"
  note md = efi_view_medium [OF k good]
  note geo = copies_geometry [OF n K(1,3), where e = e]
  have small: "unat dsize < 2 ^ 32"
    using k(2,3) by (metis le_less_trans mult.right_neutral mult_le_mono2 Suc_leI One_nat_def)
  have hv: "uuid_ok (h_guid ?hp)" "h_signature ?hp = GPT_SIGNATURE" "h_partitions_size ?hp = 128"
    "unat (h_partitions_num ?hp) = length ps"
    using h n by (simp_all add: primary_header_def store_bounds_def Let_def sizeof_part_def)
  have one: "unat (dsize - 1) = unat dsize - 1"
    using K(3) by (intro unat_minus_small [THEN trans]) (simp_all add: word_le_nat_alt)
  have last: "h_start_lba ?hp < LastBlock ?ed"
    using geo(6) K one by (simp add: efi_view_def word_less_nat_alt)
  have blk: "contents d k ((unat (h_partitions_lba ?hp) + j) * unat (EFI_BLKSPERSEC ?ed)) = entry_blocks ps ! j"
    if j: "j < K" for j
  proof -
    have "unat (of_nat j :: u64) = j" using j K(3) small by (simp add: unat_of_nat_small)
    then have w: "unat (2 + of_nat j :: u64) = 2 + j" using j K(3) small by (subst unat_plus_small) simp_all
    then have "2 + of_nat j < dsize" using j K(3) by (simp add: word_less_nat_alt)
    moreover have "GPT_read e d (2 + of_nat j) = Some (entry_blocks ps ! j)"
      using cp j K(1) by (simp add: copy_on_def length_entry_blocks)
    ultimately show ?thesis
      using contents_block [OF good _ k(1,2)] w md(2) by force
  qed
  have "1 < dsize" using K(3) by (simp add: word_less_nat_alt)
  then have hd: "contents d k (unat (EFI_BLKSPERSEC ?ed)) = header_block ?hp"
    using contents_block [OF good _ k(1,2), of 1] cp md(2) by (simp add: copy_on_def)
  show ?thesis
    using geo(6) K
    by (intro findopenbsd_gpt_table [OF md(1) small ib junk hv n(2) last K(1) _ K(2) _ ok _ hd blk]) simp_all
qed

text \<open>
  C8: The boot loader finds what gdisk wrote. Take any GPT that \<open>GPT_store\<close> accepts on a working disk
  of less than 2^32 sectors of 512 bytes, with any block size that is a multiple of 512, and a
  protective MBR in front of it. After gdisk has stored it, the loader's search of that disk
  returns the start of the first entry of the OpenBSD type, in sectors of 512 bytes; it neither
  reports an error nor touches memory outside its buffers.
\<close>

theorem findopenbsd_finds_gdisk_partition:
  assumes st: "storable e d dsize h ps"
    and k: "secsize e = 512 * k" "0 < k" "secsize e < 2 ^ 32" "unat dsize * k < 2 ^ 32"
    and mbr: "dmbr_sign (contents d k 0) = DOSMBR_SIGNATURE"
      "dp_typ (dec_dos (contents d k 0) 0) = DOSPTYP_EFI" "dp_size (dec_dos (contents d k 0) 0) \<noteq> 0"
    and p: "List.find is_openbsd ps = Some p" and junk: "length junk = 512"
  shows "\<exists>d' h' ib. GPT_store e d dsize h ps = Ret (True, d', h')
    \<and> findopenbsd (efi_view e d' dsize) junk No_iblk = Ret (None, of_nat (unat (p_start_lba p) * k), ib)"
proof -
  let ?hp = "stored_primary e dsize h ps" let ?K = "(length ps + 3) div 4"
  obtain d' where d': "GPT_store e d dsize h ps = Ret (True, d', stored_backup e dsize h ps)"
    "copy_on e d' ?hp ps" "\<And>v. dev_good e d' v = dev_good e d v" "0 < dsize \<Longrightarrow> GPT_read e d' 0 = GPT_read e d 0"
    using GPT_store_good [OF st] by blast
  let ?ed = "efi_view e d' dsize" let ?m = "contents d' k"
  have n: "unat (h_partitions_num h) = length ps" "length ps < 2 ^ 25" and ok: "list_all part_ok ps"
    and D: "2 * ?K + 3 \<le> unat dsize" and good: "\<And>w. w < dsize \<Longrightarrow> dev_good e d' w"
    using st d'(3) by (simp_all add: storable_def)
  note geo = copies_geometry [OF n refl D, where e = e]
  note md = efi_view_medium [OF k(1,2,4,3) good]
  have pin: "p \<in> set ps" "is_openbsd p" using p by (auto simp: find_Some_iff)
  then have K: "0 < ?K" by (cases ps) simp_all
  have "\<not> uuid_is_nil (p_type p)"
    using pin(2) by (auto simp: is_openbsd_def uuid_is_nil_def enc_uuid_def openbsd_uuid_eq le_enc_numeral)
  moreover have "\<not> out_of_bounds (store_bounds dsize h) p"
    using st pin(1) by (simp add: storable_def list_all_iff)
  ultimately have "p_start_lba p \<le> h_end_lba ?hp"
    by (auto simp: out_of_bounds_def)
  then have start: "unat (p_start_lba p) < unat dsize"
    using geo(7) D by (simp add: word_le_nat_alt)
  have lt: "unat (p_start_lba p) * k < 2 ^ 32"
    using start k(4) by (meson le_less_trans mult_le_mono1 less_imp_le)
  have "0 < dsize" using D by (simp add: word_less_nat_alt)
  then have "GPT_read e d' 0 = GPT_read e d 0" "dev_good e d' 0" "dev_good e d 0"
    using d'(3,4) good [of 0] by auto
  moreover from this obtain b where "GPT_read e d 0 = Some b"
    by (auto simp: GPT_read_good dev_good_def split: option.splits)
  ultimately have m0: "?m 0 = contents d k 0"
    using contents_block [of e d' 0 b k] contents_block [of e d 0 b k] k(1,2) by simp
  have gpt: "\<exists>ib'. iblk_ok ?ed ib' \<and> findopenbsd_gpt ?ed junk ib = Ret (None, p_start_lba p, ib')"
    if "iblk_ok ?ed ib" for ib
    using copy_on_found [OF d'(2) _ n ok refl K D k(1,2,4,3) good that junk] st p by (simp add: storable_def)
  have "\<exists>ib. iblk_ok ?ed ib \<and> findopenbsd ?ed junk No_iblk = Ret (None, of_nat (unat (p_start_lba p) * unat (EFI_BLKSPERSEC ?ed)), ib)"
    using start lt mbr m0 md(2) by (intro find_loop_gpt [OF md(1) _ _ _ _ _ gpt]) (simp_all add: iblk_ok_def)
  then show ?thesis
    using d'(1) md(2) by (metis of_nat_mult)
qed

text \<open>A disk of 64 sectors with a protective MBR, and the small GPT of the store.\<close>

definition mbr_sector :: "u8 list" where
  "mbr_sector = replicate 450 0 @ [0xee] @ replicate 3 0 @ le_enc 4 1 @ le_enc 4 63 @ replicate 48 0 @ [0x55, 0xaa]"

definition mbr_dev :: bdev where
  "mbr_dev = \<lparr>bd_read = (\<lambda>s. Some (if s = 0 then mbr_sector else replicate 512 0)), bd_wlen = (\<lambda>_. 512)\<rparr>"

lemma mbr_sector_fields:
  "length mbr_sector = 512" "dmbr_sign mbr_sector = DOSMBR_SIGNATURE"
  "dp_typ (dec_dos mbr_sector 0) = DOSPTYP_EFI" "dp_size (dec_dos mbr_sector 0) \<noteq> 0"
  by (simp_all add: mbr_sector_def dmbr_sign_def dec_dos_def DOSMBR_SIGNATURE_def DOSPTYP_EFI_def bytes_at_def
      le_enc_numeral)

theorem findopenbsd_finds_gdisk_partition_witness:
  "\<exists>d' h' ib. GPT_store env0 mbr_dev 64 small_header small_parts = Ret (True, d', h')
    \<and> findopenbsd (efi_view env0 d' 64) (replicate 512 7) No_iblk = Ret (None, 4, ib)"
proof -
  let ?p = "(PRT_set_type_by_pid zero_part 0xa600)\<lparr>p_start_lba := 4, p_end_lba := 10\<rparr>"
  have "dev_good env0 mbr_dev w" if "w < 64" for w
    using that mbr_sector_fields(1)
    by (simp add: dev_good_def env0_def mbr_dev_def DEV_BSIZE_def word_less_nat_alt)
  then have "storable env0 mbr_dev 64 small_header small_parts"
    using small_storable by (simp add: storable_def)
  moreover have "\<not> is_openbsd zero_part"
    by (simp add: is_openbsd_def zero_part_def nil_uuid_def enc_uuid_def openbsd_uuid_eq le_enc_numeral)
  then have "List.find is_openbsd small_parts = Some ?p"
    using set_type_is_openbsd [of zero_part] by (simp add: small_parts_def is_openbsd_def)
  moreover have "contents mbr_dev 1 0 = mbr_sector"
    using mbr_sector_fields(1) by (simp add: contents_def mbr_dev_def bytes_at_def)
  ultimately show ?thesis
    using findopenbsd_finds_gdisk_partition [of env0 mbr_dev 64 small_header small_parts 1 ?p "replicate 512 7"]
      mbr_sector_fields by (simp add: env0_def)
qed

section \<open>Reads and block boundaries\<close>

text \<open>
  A read that starts on a block boundary of the medium is exact: for every block size that is a
  multiple of 512, every number of sectors and every buffer that holds them, the buffer then starts
  with the sectors of the medium and is otherwise unchanged, the last block being read through the
  internal buffer when only a part of it is wanted; no write leaves the buffer.
\<close>

theorem efid_io_aligned_exact:
  assumes "medium ed m nblk" and "iblk_ok ed ib"
    and "unat off mod unat (EFI_BLKSPERSEC ed) = 0"
    and "unat off + unat nsect \<le> nblk * unat (EFI_BLKSPERSEC ed)"
    and "512 * unat nsect < 2 ^ 32" "512 * unat nsect \<le> length buf"
  shows "\<exists>ib'. iblk_ok ed ib' \<and> efid_io F_READ ed off nsect buf ib =
    Ret (True, secs m (unat off) (unat nsect) @ drop (512 * unat nsect) buf, ib')"
proof -
  have "length (secs m (unat off) (unat nsect)) = 512 * unat nsect"
    using assms(1) by (intro length_secs) (simp add: medium_def)
  then show ?thesis
    using efid_io_aligned [OF assms] assms(2) by (intro exI [of _ "iblk_after ed ib"]) (simp add: overlay_def)
qed

text \<open>A medium with blocks of 4096 bytes.\<close>

definition disk_4k :: "(nat \<Rightarrow> u8 list) \<Rightarrow> efi_diskinfo" where
  "disk_4k m = \<lparr>BlockSize = 4096, LastBlock = 3, ReadOnly = False,
     ReadBlocks = (\<lambda>lba n. Some (secs m (8 * unat lba) (n div 512)))\<rparr>"

lemma disk_4k_blks [simp]: "EFI_BLKSPERSEC (disk_4k m) = 8" "BlockSize (disk_4k m) = 4096"
  by (simp_all add: EFI_BLKSPERSEC_def disk_4k_def)

lemma disk_4k_medium:
  assumes "\<And>i. length (m i) = 512"
  shows "medium (disk_4k m) m 4"
proof -
  have "ReadBlocks (disk_4k m) lba (512 * (8 * n)) = Some (secs m (unat lba * 8) (8 * n))" for lba n
    by (simp add: disk_4k_def mult.commute)
  then show ?thesis using assms by (simp add: medium_def)
qed

theorem efid_io_aligned_exact_witness:
  "\<exists>ib'. iblk_ok (disk_4k (\<lambda>i. replicate 512 (of_nat i))) ib' \<and>
    efid_io F_READ (disk_4k (\<lambda>i. replicate 512 (of_nat i))) 16 9 (replicate 5000 1) No_iblk =
    Ret (True, secs (\<lambda>i. replicate 512 (of_nat i)) 16 9 @ replicate 392 1, ib')"
  using efid_io_aligned_exact [OF disk_4k_medium, of "\<lambda>i. replicate 512 (of_nat i)" No_iblk 16 9 "replicate 5000 1"]
  by (simp add: iblk_ok_def)

text \<open>A read of one sector that starts inside a block writes past the end of a one-sector buffer.\<close>

lemma efid_io_unaligned:
  assumes md: "medium ed m nblk" and ib: "iblk_ok ed ib" and buf: "length buf = 512"
    and off: "unat off < nblk * unat (EFI_BLKSPERSEC ed)" "unat (EFI_BLKSPERSEC ed) \<le> unat off"
    and r: "0 < unat off mod unat (EFI_BLKSPERSEC ed)"
      "unat off mod unat (EFI_BLKSPERSEC ed) < unat (EFI_BLKSPERSEC ed) - 1"
  shows "efid_io F_READ ed off 1 buf ib = Undef"
proof -
  define blks where "blks = EFI_BLKSPERSEC ed"
  define lb where "lb = blks - off mod blks"
  have b: "blks \<noteq> 0" "2 < unat blks" using r by (auto simp: blks_def)
  have bs: "unat (BlockSize ed) = 512 * unat blks" and len: "\<And>i. length (m i) = 512"
    using md by (simp_all add: medium_def blks_def)
  have "BlockSize ed \<noteq> 512" using bs b by auto
  then obtain sz where sz: "iblk_after ed ib = Iblk sz" "BlockSize ed \<le> sz"
    using iblk_after_live [OF ib] by blast
  have om: "unat (off mod blks) = unat off mod unat blks" by (simp add: unat_mod_distrib)
  then have "off mod blks \<le> blks" using b by (simp add: word_le_nat_alt less_imp_le)
  then have lb: "unat lb = unat blks - unat off mod unat blks"
    unfolding lb_def by (simp add: unat_minus_small om)
  have one: "1 \<le> unat (off div blks)" using off(2) b by (simp add: unat_div_distrib blks_def div_greater_zero_iff Suc_le_eq)
  have "unat off div unat blks < nblk" using off(1) by (simp add: blks_def less_mult_imp_div_less)
  then have "unat (off div blks - 1) + 1 \<le> nblk"
    using one by (subst unat_minus_small) (simp_all add: word_le_nat_alt unat_div_distrib)
  then have "ReadBlocks ed (ucast (off div blks - 1)) (unat (BlockSize ed)) =
      Some (secs m (unat (off div blks - 1) * unat blks) (unat blks))"
    using medium_read [OF md, of "ucast (off div blks - 1)" 1] bs by (simp add: blks_def unat_ucast_64)
  moreover have "unat (lb * 512) = 512 * unat lb"
  proof -
    have "unat blks < 2 ^ 23"
      using bs unat_word_less [of "BlockSize ed"] by simp
    then show ?thesis using lb by (subst unat_mult_lem [THEN iffD1]) simp_all
  qed
  moreover have "unat (blks - lb) + 512 * unat lb \<le> 512 * unat blks" "2 \<le> unat lb"
  proof -
    have "lb \<le> blks" using lb by (simp add: word_le_nat_alt)
    then show "unat (blks - lb) + 512 * unat lb \<le> 512 * unat blks"
      using lb r(1) by (simp add: unat_minus_small blks_def)
    show "2 \<le> unat lb" using lb r(2) by (simp add: blks_def)
  qed
  moreover from this have "lb \<noteq> 0" by auto
  ultimately have "read_lead ed (iblk_after ed ib) blks (off div blks) lb buf = Undef"
    using sz len buf
    by (simp add: read_lead_def read_iblk_def put_bytes_def length_secs length_bytes_at word_gt_0)
  moreover have "lead_blks blks off = lb"
    using r(1) om by (auto simp: lead_blks_def lb_def blks_def word_unat_eq_iff)
  ultimately show ?thesis
    using b(1) get_iblk_ok [OF ib] by (simp add: efid_io_def Let_def flip: blks_def)
qed

text \<open>
  C36: On media with blocks of more than two sectors (4096 bytes, say) the label of an OpenBSD
  partition that starts on a block boundary cannot be read: the label is in the second sector of
  the partition, and reading that single sector copies more than one sector into the one-sector
  buffer of \<open>efi_getdisklabel\<close>, whatever the partition search reported and whatever the medium holds.
\<close>

theorem efi_getdisklabel_overflows:
  assumes md: "medium ed m nblk" and k: "2 < unat (EFI_BLKSPERSEC ed)" and junk: "length junk = 512"
    and found: "findopenbsd ed junk ib = Ret (err, start, ib')" "iblk_ok ed ib'"
    and start: "unat start mod unat (EFI_BLKSPERSEC ed) = 0" "0 < unat start"
      "unat start < nblk * unat (EFI_BLKSPERSEC ed)"
  shows "efi_getdisklabel ed junk l ib = Undef"
proof -
  let ?k = "unat (EFI_BLKSPERSEC ed)"
  obtain q where q: "unat start = ?k * q" "0 < q" using start(1,2) by (metis mod_0_imp_dvd dvdE mult_is_0 not_gr_zero)
  have "q < nblk" using start(3) q(1) by (metis mult.commute mult_less_cancel1)
  then have "?k * Suc q \<le> ?k * nblk" by (intro mult_le_mono) simp_all
  then have in_range: "unat start + ?k \<le> nblk * ?k" using q(1) by (simp add: mult.commute add.commute)
  have small: "nblk * ?k < 2 ^ 32" using md by (simp add: medium_def)
  have u: "unat (LABELSECTOR + start) = unat start + 1"
    using in_range small k by (simp add: LABELSECTOR_def unat_plus_small)
  then have ne: "start \<noteq> - 1" by (auto simp: LABELSECTOR_def)
  have "(unat start + 1) mod ?k = 1" using q(1) k mod_mult_self2 [of 1 ?k q] by (simp add: add.commute)
  moreover have "?k \<le> unat start" using q by simp
  ultimately have "efid_io F_READ ed (LABELSECTOR + start) 1 junk ib' = Undef"
    using u k in_range by (intro efid_io_unaligned [OF md found(2) junk]) simp_all
  then show ?thesis
    using found(1) ne by (simp add: efi_getdisklabel_def)
qed

definition obsd_mbr :: "u8 list" where
  "obsd_mbr = replicate 450 0 @ [0xa6] @ replicate 3 0 @ le_enc 4 8 @ le_enc 4 16 @ replicate 48 0 @ [0x55, 0xaa]"

theorem efi_getdisklabel_overflows_witness:
  "efi_getdisklabel (disk_4k (\<lambda>i. if i = 0 then obsd_mbr else replicate 512 0)) (replicate 512 1) [] No_iblk = Undef"
proof -
  let ?m = "\<lambda>i. if i = 0 then obsd_mbr else replicate 512 (0 :: u8)" and ?ed = "disk_4k (\<lambda>i. if i = 0 then obsd_mbr else replicate 512 0)"
  have mbr: "length obsd_mbr = 512" "dmbr_sign obsd_mbr = DOSMBR_SIGNATURE" "dp_typ (dec_dos obsd_mbr 0) = DOSPTYP_OPENBSD"
    "dp_size (dec_dos obsd_mbr 0) = 16" "dp_start (dec_dos obsd_mbr 0) = 8"
    by (simp_all add: obsd_mbr_def dmbr_sign_def dec_dos_def DOSMBR_SIGNATURE_def DOSPTYP_OPENBSD_def bytes_at_def le_enc_numeral)
  then have md: "medium ?ed ?m 4" by (intro disk_4k_medium) simp
  have "efid_io F_READ ?ed 0 1 (replicate 512 0) No_iblk = Ret (True, obsd_mbr, iblk_after ?ed No_iblk)"
    using efid_io_block [OF md, of No_iblk 0 "replicate 512 0"] by (simp add: EFI_SECTOBLK_def iblk_ok_def)
  moreover have "[0..<4] = [0, 1, 2, 3 :: nat]" by (simp add: upt_rec)
  ultimately have "find_loop (Suc n) ?ed (replicate 512 1) 0 0 No_iblk = Ret (None, 8, iblk_after ?ed No_iblk)" for n
    using mbr by simp
  from this [of 255] have "findopenbsd ?ed (replicate 512 1) No_iblk = Ret (None, 8, iblk_after ?ed No_iblk)"
    by (simp add: findopenbsd_def DOS_MAXEBR_def)
  from efi_getdisklabel_overflows [OF md _ _ this] show ?thesis by (simp add: iblk_ok_def iblk_after_def)
qed

end
