(* ===== verification/Boot_Args.thy ===== *)
theory Boot_Args
  imports BSD_Prelude
begin

unbundle bit_operations_syntax

text \<open>
  The arguments the boot program passes to the kernel: \<open>sys/stand/boot/bootarg.c\<close>, which collects and
  lays them out, and \<open>getbootinfo\<close> of \<open>sys/arch/amd64/amd64/machdep.c\<close>, which reads them. The
  layout of \<open>bootarg_t\<close> is that of the 64-bit boot program; what the allocator leaves in the holes of
  the structure, and its address, are fields of the model.
\<close>

section \<open>Collecting\<close>

record bootarg =
  ba_addr :: u64
  ba_type :: u32
  ba_hole :: "u8 list"
  ba_next :: u64
  ba_arg :: "u8 list"
  ba_tail :: "u8 list"

definition sizeof_bootarg :: nat where "sizeof_bootarg = 32"
definition sizeof_bootarg32 :: nat where "sizeof_bootarg32 = 16"
definition BOOTARG_END :: u32 where "BOOTARG_END = - 1"

definition ba_size :: "bootarg \<Rightarrow> nat" where
  "ba_size a = sizeof_bootarg + length (ba_arg a) - 4"

text \<open>\<open>alloc\<close> returned address \<open>addr\<close>, with \<open>hole\<close> and \<open>tail\<close> in the bytes that are not assigned.\<close>

definition addbootarg :: "u32 \<Rightarrow> u8 list \<Rightarrow> u64 \<Rightarrow> u8 list \<Rightarrow> u8 list \<Rightarrow> bootarg list \<Rightarrow> bootarg list" where
  "addbootarg t p addr hole tail bootarg_list =
     \<lparr>ba_addr = addr, ba_type = t, ba_hole = hole,
       ba_next = (case bootarg_list of [] \<Rightarrow> 0 | a # _ \<Rightarrow> ba_addr a), ba_arg = p, ba_tail = tail\<rparr> # bootarg_list"

definition bootarg_ok :: "bootarg \<Rightarrow> bool" where
  "bootarg_ok a \<longleftrightarrow> length (ba_hole a) = 4 \<and> length (ba_tail a) = 4 \<and> length (ba_arg a) < 2 ^ 31 - 12"

section \<open>Laying out\<close>

text \<open>The first loop: the sizes are added up until the limit \<open>*lenp\<close> would be passed.\<close>

fun total_size :: "nat \<Rightarrow> nat \<Rightarrow> nat list \<Rightarrow> nat" where
  "total_size lim l [] = l"
| "total_size lim l (s # ss) = (if lim < l + s then l else total_size lim (l + s) ss)"

text \<open>The bytes of a \<open>bootarg_t\<close> in memory.\<close>

definition image :: "bootarg \<Rightarrow> u8 list" where
  "image a = le_enc 4 (unat (ba_type a)) @ ba_hole a @ le_enc 8 (ba_size a) @ le_enc 8 (unat (ba_next a))
     @ ba_arg a @ ba_tail a"

fun copy_out :: "nat \<Rightarrow> nat \<Rightarrow> u8 list \<Rightarrow> bootarg list \<Rightarrow> (u8 list \<times> nat) outcome" where
  "copy_out l q v [] = Ret (v, q)"
| "copy_out l q v (p # ps) =
     (if q + ba_size p \<le> l - sizeof_bootarg
      then obind (put_bytes v q (image p)) (\<lambda>v'. copy_out l (q + ba_size p) v' ps)
      else Ret (v, q))"

definition makebootargs :: "u8 list \<Rightarrow> nat \<Rightarrow> bootarg list \<Rightarrow> (u8 list \<times> nat) outcome" where
  "makebootargs v lenp bootarg_list =
     (let l = total_size lenp sizeof_bootarg (map ba_size bootarg_list) in
      obind (copy_out l 0 v bootarg_list) (\<lambda>(v', q).
      obind (put_bytes v' q (le_enc 4 (unat BOOTARG_END))) (\<lambda>v''. Ret (v'', l))))"

text \<open>The 32-bit layout; \<open>p->ba_size + adj\<close> is 16 less, and \<open>ba_nextX\<close> is not written.\<close>

definition size32 :: "bootarg \<Rightarrow> nat" where
  "size32 a = ba_size a - (sizeof_bootarg - sizeof_bootarg32)"

fun copy_out32 :: "nat \<Rightarrow> nat \<Rightarrow> u8 list \<Rightarrow> bootarg list \<Rightarrow> (u8 list \<times> nat) outcome" where
  "copy_out32 l q v [] = Ret (v, q)"
| "copy_out32 l q v (p # ps) =
     (if q + size32 p > l - sizeof_bootarg32 then Ret (v, q)
      else obind (put_bytes v q (le_enc 4 (unat (ba_type p)))) (\<lambda>v1.
           obind (put_bytes v1 (q + 4) (le_enc 4 (size32 p))) (\<lambda>v2.
           obind (put_bytes v2 (q + 12) (take (ba_size p - (sizeof_bootarg - 4)) (ba_arg p))) (\<lambda>v3.
             copy_out32 l (q + size32 p) v3 ps))))"

definition makebootargs32 :: "u8 list \<Rightarrow> nat \<Rightarrow> bootarg list \<Rightarrow> (u8 list \<times> nat) outcome" where
  "makebootargs32 v lenp bootarg_list =
     (let l = total_size lenp sizeof_bootarg32 (map size32 bootarg_list) in
      obind (copy_out32 l 0 v bootarg_list) (\<lambda>(v', q).
      obind (put_bytes v' q (le_enc 4 (unat BOOTARG_END))) (\<lambda>v''. Ret (v'', l))))"

section \<open>Reading in the kernel\<close>

definition BOOTARG_MEMMAP :: u32 where "BOOTARG_MEMMAP = 0"
definition BOOTARG_DISKINFO :: u32 where "BOOTARG_DISKINFO = 1"
definition BOOTARG_CKSUMLEN :: u32 where "BOOTARG_CKSUMLEN = 3"
definition BOOTARG_CONSDEV :: u32 where "BOOTARG_CONSDEV = 5"
definition BOOTARG_BOOTMAC :: u32 where "BOOTARG_BOOTMAC = 7"
definition BOOTARG_DDB :: u32 where "BOOTARG_DDB = 8"
definition BOOTARG_BOOTDUID :: u32 where "BOOTARG_BOOTDUID = 9"
definition BOOTARG_BOOTSR :: u32 where "BOOTARG_BOOTSR = 10"
definition BOOTARG_EFIINFO :: u32 where "BOOTARG_EFIINFO = 11"

text \<open>
  The variables the function sets; pointers into the argument area are offsets there. \<open>k_com\<close> is
  unit, address and speed of the serial console.
\<close>

record kboot =
  k_memmap :: "nat option"
  k_diskinfo :: "nat option"
  k_cksumlen :: u32
  k_com :: "(u32 \<times> u32 \<times> u32) option"
  k_bootmac :: "nat option"
  k_db_console :: u32
  k_bootduid :: "u8 list"
  k_bootsr :: "u8 list \<times> u8 list"
  k_efiinfo :: "nat option"
  k_docninit :: nat

definition dev_major :: "u32 \<Rightarrow> u32" where "dev_major x = drop_bit 8 x AND 0xff"
definition dev_minor :: "u32 \<Rightarrow> u32" where "dev_minor x = (x AND 0xff) OR drop_bit 8 (x AND 0xffff0000)"

definition ports :: "u32 list" where "ports = [0x3f8, 0x2f8, 0x3e8, 0x2e8]"

definition le32 :: "u8 list \<Rightarrow> u32" where "le32 b = of_nat (le_dec b)"

text \<open>The console argument: device, speed, address, frequency.\<close>

definition set_consdev :: "u8 list \<Rightarrow> kboot \<Rightarrow> kboot" where
  "set_consdev b k =
     (let consdev = le32 (bytes_at 0 4 b); conspeed = le32 (bytes_at 4 4 b); addr = le32 (bytes_at 8 4 b);
          unit = dev_minor consdev;
          consaddr = (if addr = - 1 \<and> 0 \<le> sint unit \<and> sint unit < int (length ports) then ports ! unat unit else addr)
      in if dev_major consdev = 8 \<and> consaddr \<noteq> - 1
         then k\<lparr>k_com := Some (unit, consaddr, conspeed), k_docninit := Suc (k_docninit k)\<rparr> else k)"

text \<open>One argument at offset \<open>q\<close>; the key of a softraid volume is wiped from the area.\<close>

definition kern_arg :: "u32 \<Rightarrow> u32 \<Rightarrow> nat \<Rightarrow> u8 list \<Rightarrow> kboot \<Rightarrow> (u8 list \<times> kboot) outcome" where
  "kern_arg t sz q v k =
     (if t = BOOTARG_MEMMAP then Ret (v, k\<lparr>k_memmap := Some (q + 12)\<rparr>)
      else if t = BOOTARG_DISKINFO then Ret (v, k\<lparr>k_diskinfo := Some (q + 12)\<rparr>)
      else if t = BOOTARG_CKSUMLEN then
        obind (obj_bytes v (q + 12) 4) (\<lambda>b. Ret (v, k\<lparr>k_cksumlen := le32 b\<rparr>))
      else if t = BOOTARG_CONSDEV then
        (if 28 \<le> unat (scast sz :: u64) then obind (obj_bytes v (q + 12) 16) (\<lambda>b. Ret (v, set_consdev b k))
         else Ret (v, k))
      else if t = BOOTARG_BOOTMAC then Ret (v, k\<lparr>k_bootmac := Some (q + 12)\<rparr>)
      else if t = BOOTARG_DDB then
        obind (obj_bytes v (q + 12) 4) (\<lambda>b. Ret (v, k\<lparr>k_db_console := le32 b\<rparr>))
      else if t = BOOTARG_BOOTDUID then
        obind (obj_bytes v (q + 12) 8) (\<lambda>b. Ret (v, k\<lparr>k_bootduid := b\<rparr>))
      else if t = BOOTARG_BOOTSR then
        obind (obj_bytes v (q + 12) 48) (\<lambda>b.
        obind (put_bytes v (q + 12) (replicate 48 0)) (\<lambda>v'.
          Ret (v', k\<lparr>k_bootsr := (bytes_at 0 16 b, bytes_at 16 32 b)\<rparr>)))
      else if t = BOOTARG_EFIINFO then
        obind (obj_bytes v (q + 12 + 32) 8) (\<lambda>b.
          Ret (v, k\<lparr>k_efiinfo := Some (q + 12),
            k_docninit := (if le_dec b \<noteq> 0 then Suc (k_docninit k) else k_docninit k)\<rparr>))
      else Ret (v, k))"

text \<open>
  The loop. \<open>ba_size\<close> is an \<open>int\<close>; a step backwards or none at all is possible in the code, so the
  model counts steps and \<open>Hang\<close> is that the count was not enough. A position before the area is
  \<open>Undef\<close>.
\<close>

fun kern_loop :: "nat \<Rightarrow> nat \<Rightarrow> int \<Rightarrow> u8 list \<Rightarrow> kboot \<Rightarrow> (u8 list \<times> kboot) outcome" where
  "kern_loop 0 bootinfo_size q v k = Hang"
| "kern_loop (Suc n) bootinfo_size q v k =
     (if q < 0 then Undef
      else obind (obj_bytes v (nat q) 4) (\<lambda>t.
        if le32 t = BOOTARG_END \<or> \<not> nat q < bootinfo_size then Ret (v, k)
        else obind (obj_bytes v (nat q + 4) 4) (\<lambda>s.
             obind (kern_arg (le32 t) (le32 s) (nat q) v k) (\<lambda>r.
             obind (obj_bytes (fst r) (nat q + 4) 4) (\<lambda>s'.
               kern_loop n bootinfo_size (q + sint (le32 s')) (fst r) (snd r))))))"

text \<open>The state afterwards and whether \<open>cninit\<close> is called.\<close>

definition getbootinfo :: "nat \<Rightarrow> u8 list \<Rightarrow> nat \<Rightarrow> kboot \<Rightarrow> (u8 list \<times> kboot \<times> bool) outcome" where
  "getbootinfo steps v bootinfo_size k =
     obind (kern_loop steps bootinfo_size 0 v (k\<lparr>k_docninit := 0\<rparr>)) (\<lambda>(v', k').
       Ret (v', k', 0 < k_docninit k'))"

section \<open>What fits\<close>

text \<open>The arguments that are passed: the longest run from the newest on that leaves room for the end mark.\<close>

fun fitting :: "(bootarg \<Rightarrow> nat) \<Rightarrow> nat \<Rightarrow> nat \<Rightarrow> bootarg list \<Rightarrow> bootarg list" where
  "fitting sz lim l [] = []"
| "fitting sz lim l (p # ps) = (if lim < l + sz p then [] else p # fitting sz lim (l + sz p) ps)"

abbreviation bytes32 :: "bootarg list \<Rightarrow> nat" where
  "bytes32 as \<equiv> sum_list (map size32 as)"

lemma total_size_fitting: "total_size lim l (map sz as) = l + sum_list (map sz (fitting sz lim l as))"
  by (induction sz lim l as rule: fitting.induct) auto

lemma total_size_le: "l \<le> lim \<Longrightarrow> total_size lim l ss \<le> lim"
  by (induction lim l ss rule: total_size.induct) auto

lemma fitting_all: "l + sum_list (map sz as) \<le> lim \<Longrightarrow> fitting sz lim l as = as"
  by (induction sz lim l as rule: fitting.induct) auto

lemma size32_eq: "size32 a = 12 + length (ba_arg a)"
  by (simp add: size32_def ba_size_def sizeof_bootarg_def sizeof_bootarg32_def)

section \<open>The argument area\<close>

text \<open>An argument in the area at offset \<open>q\<close>, and consecutive arguments.\<close>

definition arg_at :: "u8 list \<Rightarrow> nat \<Rightarrow> bootarg \<Rightarrow> bool" where
  "arg_at v q a \<longleftrightarrow> q + size32 a \<le> length v \<and> bytes_at q 4 v = le_enc 4 (unat (ba_type a))
     \<and> bytes_at (q + 4) 4 v = le_enc 4 (size32 a) \<and> bytes_at (q + 12) (length (ba_arg a)) v = ba_arg a"

fun args_at :: "u8 list \<Rightarrow> nat \<Rightarrow> bootarg list \<Rightarrow> bool" where
  "args_at v q [] \<longleftrightarrow> True"
| "args_at v q (a # as) \<longleftrightarrow> arg_at v q a \<and> args_at v (q + size32 a) as"

lemma bytes_at_overlay_before: "off' + n \<le> off \<Longrightarrow> off \<le> length v \<Longrightarrow> bytes_at off' n (overlay v off src) = bytes_at off' n v"
  unfolding overlay_def by (subst bytes_at_append_left) (auto simp: bytes_at_def drop_take)

lemma bytes_at_overlay_same: "off + length src \<le> length v \<Longrightarrow> n = length src \<Longrightarrow> bytes_at off n (overlay v off src) = src"
  unfolding overlay_def bytes_at_def by simp

lemma bytes_at_overlay_after:
  "off + length src \<le> off' \<Longrightarrow> off + length src \<le> length v \<Longrightarrow> bytes_at off' n (overlay v off src) = bytes_at off' n v"
  unfolding overlay_def bytes_at_def by simp

lemmas bytes_at_overlay = bytes_at_overlay_before bytes_at_overlay_same bytes_at_overlay_after

text \<open>Writing from \<open>q'\<close> on does not change arguments before.\<close>

lemma arg_at_overlay_before:
  "q + size32 a \<le> q' \<Longrightarrow> q' + length src \<le> length v \<Longrightarrow> arg_at (overlay v q' src) q a = arg_at v q a"
  by (simp add: arg_at_def size32_eq bytes_at_overlay_before length_overlay)

lemma arg_at_overlay_after:
  "q' + length src \<le> q \<Longrightarrow> q' + length src \<le> length v \<Longrightarrow> arg_at (overlay v q' src) q a = arg_at v q a"
  by (simp add: arg_at_def size32_eq bytes_at_overlay_after length_overlay)

lemma args_at_overlay_before:
  "q + bytes32 as \<le> q' \<Longrightarrow> q' + length src \<le> length v \<Longrightarrow> args_at (overlay v q' src) q as = args_at v q as"
  by (induction as arbitrary: q) (auto simp: arg_at_overlay_before)

lemma args_at_overlay_after:
  "q' + length src \<le> q \<Longrightarrow> q' + length src \<le> length v \<Longrightarrow> args_at (overlay v q' src) q as = args_at v q as"
  by (induction as arbitrary: q) (auto simp: arg_at_overlay_after)

lemma drop_overlay: "off + length src \<le> n \<Longrightarrow> off + length src \<le> length v \<Longrightarrow> drop n (overlay v off src) = drop n v"
  by (simp add: overlay_def)

text \<open>One argument written.\<close>

lemma write_arg:
  assumes "q + size32 a \<le> length v"
  obtains v1 v2 v3 where "put_bytes v q (le_enc 4 (unat (ba_type a))) = Ret v1"
    "put_bytes v1 (q + 4) (le_enc 4 (size32 a)) = Ret v2"
    "put_bytes v2 (q + 12) (take (ba_size a - (sizeof_bootarg - 4)) (ba_arg a)) = Ret v3"
    "arg_at v3 q a" "length v3 = length v" "\<And>n. q + size32 a \<le> n \<Longrightarrow> drop n v3 = drop n v"
    "\<And>q' as. q' + bytes32 as \<le> q \<Longrightarrow> args_at v3 q' as = args_at v q' as"
proof -
  let ?v1 = "overlay v q (le_enc 4 (unat (ba_type a)))"
  let ?v2 = "overlay ?v1 (q + 4) (le_enc 4 (size32 a))"
  let ?v3 = "overlay ?v2 (q + 12) (ba_arg a)"
  have len: "q + 12 + length (ba_arg a) \<le> length v" using assms by (simp add: size32_eq)
  then have l: "length ?v1 = length v" "length ?v2 = length v" "length ?v3 = length v"
    by (simp_all add: length_overlay)
  have arg: "take (ba_size a - (sizeof_bootarg - 4)) (ba_arg a) = ba_arg a"
    by (simp add: ba_size_def sizeof_bootarg_def)
  have "arg_at ?v3 q a"
    using len l unfolding arg_at_def by (simp add: size32_eq bytes_at_overlay)
  moreover have "drop n ?v3 = drop n v" if "q + size32 a \<le> n" for n
    using that len l by (simp add: drop_overlay size32_eq)
  moreover have "args_at ?v3 q' as = args_at v q' as" if "q' + bytes32 as \<le> q" for q' as
    using that len l by (simp add: args_at_overlay_before)
  ultimately show ?thesis
    using that [of ?v1 ?v2 ?v3] len l arg by (simp add: put_bytes_def)
qed

lemma copy_out32_fitting:
  assumes "q + 16 + bytes32 (fitting size32 lim (q + 16) as) \<le> length v"
    and "l = q + 16 + bytes32 (fitting size32 lim (q + 16) as)"
  shows "\<exists>v'. copy_out32 l q v as = Ret (v', q + bytes32 (fitting size32 lim (q + 16) as)) \<and> length v' = length v
    \<and> args_at v' q (fitting size32 lim (q + 16) as)
    \<and> drop (q + bytes32 (fitting size32 lim (q + 16) as)) v' = drop (q + bytes32 (fitting size32 lim (q + 16) as)) v
    \<and> (\<forall>q' bs. q' + bytes32 bs \<le> q \<longrightarrow> args_at v' q' bs = args_at v q' bs)"
  using assms
proof (induction as arbitrary: q v)
  case (Cons a as)
  show ?case
  proof (cases "lim < q + 16 + size32 a")
    case True
    then have "l = q + 16" using Cons.prems by simp
    with True show ?thesis by (simp add: sizeof_bootarg32_def size32_eq)
  next
    case False
    let ?q = "q + size32 a" let ?f = "fitting size32 lim (?q + 16) as"
    have f: "fitting size32 lim (q + 16) (a # as) = a # ?f" using False by (simp add: add.assoc add.commute [of "size32 a"])
    obtain v1 v2 v3 where w: "put_bytes v q (le_enc 4 (unat (ba_type a))) = Ret v1"
      "put_bytes v1 (q + 4) (le_enc 4 (size32 a)) = Ret v2"
      "put_bytes v2 (q + 12) (take (ba_size a - (sizeof_bootarg - 4)) (ba_arg a)) = Ret v3"
      "arg_at v3 q a" "length v3 = length v" "\<And>n. q + size32 a \<le> n \<Longrightarrow> drop n v3 = drop n v"
      "\<And>q' bs. q' + bytes32 bs \<le> q \<Longrightarrow> args_at v3 q' bs = args_at v q' bs"
      using write_arg [of q a v] Cons.prems f by auto
    have "?q + 16 + bytes32 ?f \<le> length v3" "l = ?q + 16 + bytes32 ?f"
      using Cons.prems f w(5) by simp_all
    from Cons.IH [OF this] obtain v' where v': "copy_out32 l ?q v3 as = Ret (v', ?q + bytes32 ?f)"
      "length v' = length v3" "args_at v' ?q ?f" "drop (?q + bytes32 ?f) v' = drop (?q + bytes32 ?f) v3"
      "\<And>q' bs. q' + bytes32 bs \<le> ?q \<Longrightarrow> args_at v' q' bs = args_at v3 q' bs"
      by blast
    have step: "copy_out32 l q v (a # as) = copy_out32 l ?q v3 as"
      using w(1-3) Cons.prems(2) f by (simp add: sizeof_bootarg32_def)
    have "args_at v' q [a] = args_at v3 q [a]" by (rule v'(5)) simp
    then show ?thesis
      unfolding step f using v' w(4-7) by (intro exI [of _ v']) (auto simp: add.assoc)
  qed
qed (simp add: sizeof_bootarg32_def)

lemma makebootargs32_area:
  assumes "16 \<le> lim" "lim \<le> length v" and f: "f = fitting size32 lim 16 as"
  shows "\<exists>b. makebootargs32 v lim as = Ret (b, 16 + bytes32 f) \<and> length b = length v
    \<and> args_at b 0 f \<and> bytes_at (bytes32 f) 4 b = le_enc 4 (unat BOOTARG_END)
    \<and> drop (bytes32 f + 4) b = drop (bytes32 f + 4) v"
proof -
  have t: "total_size lim sizeof_bootarg32 (map size32 as) = 16 + bytes32 f"
    using f by (simp add: total_size_fitting sizeof_bootarg32_def)
  have le: "16 + bytes32 f \<le> lim"
    using total_size_le [of 16 lim "map size32 as"] assms(1) f by (simp add: total_size_fitting)
  then obtain v' where v': "copy_out32 (16 + bytes32 f) 0 v as = Ret (v', bytes32 f)" "length v' = length v"
    "args_at v' 0 f" "drop (bytes32 f) v' = drop (bytes32 f) v"
    using copy_out32_fitting [of 0 lim as v "16 + bytes32 f"] assms(2) f by auto
  let ?b = "overlay v' (bytes32 f) (le_enc 4 (unat BOOTARG_END))"
  have "drop (bytes32 f + 4) ?b = drop 4 (drop (bytes32 f) v')"
    using le assms(2) v'(2) by (subst drop_overlay) (simp_all add: add.commute)
  then have "drop (bytes32 f + 4) ?b = drop (bytes32 f + 4) v"
    unfolding v'(4) by (simp add: add.commute)
  then show ?thesis
    using v'(1-3) t le assms(2)
    by (intro exI [of _ ?b]) (simp add: makebootargs32_def put_bytes_def length_overlay bytes_at_overlay_same args_at_overlay_before)
qed

section \<open>What the kernel makes of an argument\<close>

text \<open>The sizes the boot program uses for each type.\<close>

definition arg_wf :: "bootarg \<Rightarrow> bool" where
  "arg_wf a \<longleftrightarrow> ba_type a \<noteq> BOOTARG_END \<and> length (ba_arg a) < 2 ^ 31 - 12
     \<and> (ba_type a \<in> {BOOTARG_CKSUMLEN, BOOTARG_DDB} \<longrightarrow> length (ba_arg a) = 4)
     \<and> (ba_type a = BOOTARG_CONSDEV \<longrightarrow> length (ba_arg a) = 16)
     \<and> (ba_type a = BOOTARG_BOOTDUID \<longrightarrow> length (ba_arg a) = 8)
     \<and> (ba_type a = BOOTARG_BOOTSR \<longrightarrow> length (ba_arg a) = 48)
     \<and> (ba_type a = BOOTARG_EFIINFO \<longrightarrow> length (ba_arg a) = 76)"

text \<open>The specification: the effect of an argument, given its type and contents and where it lies.\<close>

definition arg_effect :: "nat \<Rightarrow> bootarg \<Rightarrow> kboot \<Rightarrow> kboot" where
  "arg_effect q a k =
     (let t = ba_type a; d = ba_arg a in
      if t = BOOTARG_MEMMAP then k\<lparr>k_memmap := Some (q + 12)\<rparr>
      else if t = BOOTARG_DISKINFO then k\<lparr>k_diskinfo := Some (q + 12)\<rparr>
      else if t = BOOTARG_CKSUMLEN then k\<lparr>k_cksumlen := le32 d\<rparr>
      else if t = BOOTARG_CONSDEV then set_consdev d k
      else if t = BOOTARG_BOOTMAC then k\<lparr>k_bootmac := Some (q + 12)\<rparr>
      else if t = BOOTARG_DDB then k\<lparr>k_db_console := le32 d\<rparr>
      else if t = BOOTARG_BOOTDUID then k\<lparr>k_bootduid := d\<rparr>
      else if t = BOOTARG_BOOTSR then k\<lparr>k_bootsr := (take 16 d, drop 16 d)\<rparr>
      else if t = BOOTARG_EFIINFO then k\<lparr>k_efiinfo := Some (q + 12),
        k_docninit := (if le_dec (bytes_at 32 8 d) \<noteq> 0 then Suc (k_docninit k) else k_docninit k)\<rparr>
      else k)"

fun args_effect :: "nat \<Rightarrow> bootarg list \<Rightarrow> kboot \<Rightarrow> kboot" where
  "args_effect q [] k = k"
| "args_effect q (a # as) k = args_effect (q + size32 a) as (arg_effect q a k)"

lemmas bootarg_types = BOOTARG_MEMMAP_def BOOTARG_DISKINFO_def BOOTARG_CKSUMLEN_def BOOTARG_CONSDEV_def
  BOOTARG_BOOTMAC_def BOOTARG_DDB_def BOOTARG_BOOTDUID_def BOOTARG_BOOTSR_def BOOTARG_EFIINFO_def

text \<open>The same argument with the softraid key wiped.\<close>

definition wiped :: "bootarg \<Rightarrow> bootarg" where
  "wiped a = (if ba_type a = BOOTARG_BOOTSR then a\<lparr>ba_arg := replicate 48 0\<rparr> else a)"

lemma size32_wiped: "arg_wf a \<Longrightarrow> size32 (wiped a) = size32 a"
  by (simp add: wiped_def size32_eq arg_wf_def)

lemma ba_type_wiped [simp]: "ba_type (wiped a) = ba_type a"
  by (simp add: wiped_def)

lemma le32_type: "le32 (le_enc 4 (unat (w :: u32))) = w"
  by (simp add: le32_def)

lemma le32_small: "n < 2 ^ 32 \<Longrightarrow> le32 (le_enc 4 n) = of_nat n"
  by (simp add: le32_def le_dec_enc)

lemma obj_bytes_in: "off + n \<le> length v \<Longrightarrow> obj_bytes v off n = Ret (bytes_at off n v)"
  by (simp add: obj_bytes_def)

lemma kern_arg_effect:
  assumes at: "arg_at v q a" and wf: "arg_wf a"
  shows "\<exists>v'. kern_arg (ba_type a) (of_nat (size32 a)) q v k = Ret (v', arg_effect q a k)
    \<and> length v' = length v \<and> arg_at v' q (wiped a)
    \<and> (\<forall>q' bs. q' + bytes32 bs \<le> q \<or> q + size32 a \<le> q' \<longrightarrow> args_at v' q' bs = args_at v q' bs)
    \<and> (\<forall>q'. q + size32 a \<le> q' \<longrightarrow> bytes_at q' 4 v' = bytes_at q' 4 v)"
proof -
  have len: "q + 12 + length (ba_arg a) \<le> length v" and d: "bytes_at (q + 12) (length (ba_arg a)) v = ba_arg a"
    using at by (simp_all add: arg_at_def size32_eq)
  have d': "obj_bytes v (q + 12) n = Ret (ba_arg a)" if "length (ba_arg a) = n" for n
    using that len d by (simp add: obj_bytes_def)
  let ?v = "overlay v (q + 12) (replicate 48 0)"
  show ?thesis
  proof (cases "ba_type a = BOOTARG_BOOTSR")
    case True
    then have l: "length (ba_arg a) = 48" using wf by (simp add: arg_wf_def)
    have "bytes_at 0 16 (ba_arg a) = take 16 (ba_arg a)" "bytes_at 16 32 (ba_arg a) = drop 16 (ba_arg a)"
      using l by (simp_all add: bytes_at_def)
    then have "kern_arg (ba_type a) (of_nat (size32 a)) q v k = Ret (?v, arg_effect q a k)"
      using True l len d' by (simp add: kern_arg_def arg_effect_def Let_def put_bytes_def
bootarg_types)
    moreover have "arg_at ?v q (wiped a)"
      using True l len at by (simp add: arg_at_def wiped_def size32_eq bytes_at_overlay length_overlay)
    moreover have "args_at ?v q' bs = args_at v q' bs" if "q' + bytes32 bs \<le> q \<or> q + size32 a \<le> q'" for q' bs
      using that l len by (auto simp: size32_eq args_at_overlay_before args_at_overlay_after)
    ultimately show ?thesis
      using l len by (intro exI [of _ ?v]) (auto simp: length_overlay size32_eq bytes_at_overlay_after)
  next
    case False
    have big: "28 \<le> unat (scast (of_nat (size32 a) :: u32) :: u64)" if "ba_type a = BOOTARG_CONSDEV"
      using that wf by (simp add: arg_wf_def size32_eq)
    have fb: "obj_bytes v (q + 12 + 32) 8 = Ret (bytes_at 32 8 (ba_arg a))" if "ba_type a = BOOTARG_EFIINFO"
    proof -
      have l: "length (ba_arg a) = 76" using that wf by (auto simp: arg_wf_def)
      have "bytes_at 32 8 (bytes_at (q + 12) 76 v) = bytes_at (q + 12 + 32) 8 v"
        by (simp add: bytes_at_def drop_take min_def add.commute)
      then show ?thesis using l len d by (simp add: obj_bytes_def)
    qed
    have "kern_arg (ba_type a) (of_nat (size32 a)) q v k = Ret (v, arg_effect q a k)"
    proof -
      consider "ba_type a = BOOTARG_CKSUMLEN" | "ba_type a = BOOTARG_CONSDEV" | "ba_type a = BOOTARG_DDB"
        | "ba_type a = BOOTARG_BOOTDUID" | "ba_type a = BOOTARG_EFIINFO"
        | "ba_type a \<notin> {BOOTARG_CKSUMLEN, BOOTARG_CONSDEV, BOOTARG_DDB, BOOTARG_BOOTDUID, BOOTARG_EFIINFO}"
        by blast
      then show ?thesis
        using big fb wf False
        by cases (simp_all add: kern_arg_def arg_effect_def d' arg_wf_def bootarg_types)
    qed
    then show ?thesis
      using False at by (intro exI [of _ v]) (simp add: wiped_def)
  qed
qed

lemma sint_size32: "arg_wf a \<Longrightarrow> sint (of_nat (size32 a) :: u32) = int (size32 a)"
proof -
  assume "arg_wf a"
  then have lt: "size32 a < 2 ^ 31" by (simp add: arg_wf_def size32_eq)
  then have "unat (of_nat (size32 a) :: u32) = size32 a" by (intro unat_of_nat_small) simp
  then show ?thesis using lt by (subst sint_small) simp_all
qed

lemma kern_loop_args:
  assumes "args_at v q as" "list_all arg_wf as" "bytes_at (q + bytes32 as) 4 v = le_enc 4 (unat BOOTARG_END)"
    and "q + bytes32 as + 4 \<le> length v" "q + bytes32 as \<le> sz" "length as < n"
  shows "\<exists>v'. kern_loop n sz (int q) v k = Ret (v', args_effect q as k) \<and> length v' = length v
    \<and> args_at v' q (map wiped as) \<and> (\<forall>q' bs. q' + bytes32 bs \<le> q \<longrightarrow> args_at v' q' bs = args_at v q' bs)"
  using assms
proof (induction as arbitrary: n q v k)
  case Nil
  then obtain m where "n = Suc m" by (cases n) auto
  with Nil show ?case by (simp add: obj_bytes_in le32_type)
next
  case (Cons a as)
  obtain m where n: "n = Suc m" "length as < m" using Cons.prems(6) by (cases n) auto
  have at: "arg_at v q a" and wf: "arg_wf a" using Cons.prems(1,2) by simp_all
  have pos: "0 < size32 a" by (simp add: size32_eq)
  have small: "size32 a < 2 ^ 32" using wf by (simp add: arg_wf_def size32_eq)
  obtain v1 where v1: "kern_arg (ba_type a) (of_nat (size32 a)) q v k = Ret (v1, arg_effect q a k)"
    "length v1 = length v" "arg_at v1 q (wiped a)"
    "\<And>q' bs. q' + bytes32 bs \<le> q \<or> q + size32 a \<le> q' \<Longrightarrow> args_at v1 q' bs = args_at v q' bs"
    "\<And>q'. q + size32 a \<le> q' \<Longrightarrow> bytes_at q' 4 v1 = bytes_at q' 4 v"
    using kern_arg_effect [OF at wf, of k] by blast
  let ?q = "q + size32 a"
  have b: "obj_bytes v q 4 = Ret (le_enc 4 (unat (ba_type a)))" "obj_bytes v (q + 4) 4 = Ret (le_enc 4 (size32 a))"
    "obj_bytes v1 (q + 4) 4 = Ret (le_enc 4 (size32 a))"
    using at v1(2,3) wf by (simp_all add: arg_at_def obj_bytes_def size32_eq size32_wiped [unfolded size32_eq])
  have step: "kern_loop n sz (int q) v k = kern_loop m sz (int ?q) v1 (arg_effect q a k)"
    using n(1) b v1(1) Cons.prems(5) sint_size32 [OF wf] pos wf
    by (simp add: le32_type le32_small [OF small] arg_wf_def)
  have "args_at v1 ?q as" "bytes_at (?q + bytes32 as) 4 v1 = le_enc 4 (unat BOOTARG_END)"
    using Cons.prems(1,3) v1(4) [of ?q as] v1(5) [of "?q + bytes32 as"] by (simp_all add: add.assoc)
  then obtain v' where v': "kern_loop m sz (int ?q) v1 (arg_effect q a k) = Ret (v', args_effect ?q as (arg_effect q a k))"
    "length v' = length v1" "args_at v' ?q (map wiped as)"
    "\<And>q' bs. q' + bytes32 bs \<le> ?q \<Longrightarrow> args_at v' q' bs = args_at v1 q' bs"
    using Cons.IH [of v1 ?q m "arg_effect q a k"] Cons.prems(2,4,5) v1(2) n(2) by (auto simp: add.assoc)
  have "args_at v' q [wiped a] = args_at v1 q [wiped a]" by (rule v'(4)) (simp add: size32_wiped [OF wf])
  then have "args_at v' q (map wiped (a # as))"
    using v'(3) v1(3) by (simp add: size32_wiped [OF wf])
  moreover have "args_at v' q' bs = args_at v q' bs" if "q' + bytes32 bs \<le> q" for q' bs
    using that v'(4) [of q' bs] v1(4) [of q' bs] by simp
  ultimately show ?case
    unfolding step using v'(1,2) v1(2) by (intro exI [of _ v']) auto
qed

lemma makebootargs32_read:
  assumes lim: "16 \<le> lim" "lim \<le> length v" and wf: "list_all arg_wf as"
    and f: "f = fitting size32 lim 16 as" and n: "length f < n"
  shows "\<exists>b v'. makebootargs32 v lim as = Ret (b, 16 + bytes32 f) \<and> length b = length v \<and> drop lim b = drop lim v
    \<and> getbootinfo n b (16 + bytes32 f) k =
        Ret (v', args_effect 0 f (k\<lparr>k_docninit := 0\<rparr>), 0 < k_docninit (args_effect 0 f (k\<lparr>k_docninit := 0\<rparr>)))
    \<and> args_at v' 0 (map wiped f)"
proof -
  obtain b where b: "makebootargs32 v lim as = Ret (b, 16 + bytes32 f)" "length b = length v" "args_at b 0 f"
    "bytes_at (bytes32 f) 4 b = le_enc 4 (unat BOOTARG_END)" "drop (bytes32 f + 4) b = drop (bytes32 f + 4) v"
    using makebootargs32_area [OF lim f] by blast
  have le: "16 + bytes32 f \<le> lim"
    using total_size_le [OF lim(1), of "map size32 as"] f by (simp add: total_size_fitting)
  have "set (fitting sz lm l xs) \<subseteq> set xs" for sz lm l xs
    by (induction sz lm l xs rule: fitting.induct) auto
  from this [of size32 lim 16 as] have "list_all arg_wf f" using wf f by (auto simp: list_all_iff)
  then obtain v' where v': "kern_loop n (16 + bytes32 f) 0 b (k\<lparr>k_docninit := 0\<rparr>) =
      Ret (v', args_effect 0 f (k\<lparr>k_docninit := 0\<rparr>))" "args_at v' 0 (map wiped f)"
    using kern_loop_args [of b 0 f "16 + bytes32 f" n "k\<lparr>k_docninit := 0\<rparr>"] b le lim n by auto
  have "drop lim b = drop (lim - (bytes32 f + 4)) (drop (bytes32 f + 4) b)" using le by simp
  then have "drop lim b = drop lim v" unfolding b(5) using le by simp
  then show ?thesis using b(1,2) v' by (auto simp: getbootinfo_def)
qed

text \<open>
  C9: The kernel sees the arguments the boot program collected. For a list of well-formed arguments and
  an area of at least \<open>lim\<close> bytes, \<open>makebootargs32\<close> stays within the first \<open>lim\<close> bytes and lays out
  the longest run of newest arguments that fits; \<open>getbootinfo\<close> then ends after one step per
  argument, its variables are those obtained by applying the arguments in order, and every
  argument it points to is intact in the area, except the softraid key, which is wiped.
\<close>

theorem getbootinfo_reads_makebootargs32:
  assumes lim: "16 \<le> lim" "lim \<le> length v" and wf: "list_all arg_wf as"
    and f: "f = fitting size32 lim 16 as" and n: "length f < n"
  shows "\<exists>b v'. makebootargs32 v lim as = Ret (b, 16 + bytes32 f) \<and> length b = length v \<and> drop lim b = drop lim v
    \<and> getbootinfo n b (16 + bytes32 f) k =
        Ret (v', args_effect 0 f (k\<lparr>k_docninit := 0\<rparr>), 0 < k_docninit (args_effect 0 f (k\<lparr>k_docninit := 0\<rparr>)))
    \<and> args_at v' 0 (map wiped f)"
  using makebootargs32_read [OF assms] .

definition sample_args :: "bootarg list" where
  "sample_args = addbootarg BOOTARG_CKSUMLEN (le_enc 4 7) 64 (replicate 4 0) (replicate 4 0)
     (addbootarg BOOTARG_BOOTDUID [1, 2, 3, 4, 5, 6, 7, 8] 32 (replicate 4 0) (replicate 4 0) [])"

definition k0 :: kboot where
  "k0 = \<lparr>k_memmap = None, k_diskinfo = None, k_cksumlen = 0, k_com = None, k_bootmac = None, k_db_console = 0,
     k_bootduid = [], k_bootsr = ([], []), k_efiinfo = None, k_docninit = 0\<rparr>"

theorem getbootinfo_reads_makebootargs32_witness:
  "\<exists>b v'. makebootargs32 (replicate 4096 0) 4096 sample_args = Ret (b, 52) \<and>
     getbootinfo 3 b 52 k0 = Ret (v', k0\<lparr>k_cksumlen := 7, k_bootduid := [1, 2, 3, 4, 5, 6, 7, 8]\<rparr>, False)"
proof -
  have f: "fitting size32 4096 16 sample_args = sample_args"
    by (rule fitting_all) (simp add: sample_args_def addbootarg_def size32_eq)
  have "list_all arg_wf sample_args"
    by (simp add: sample_args_def addbootarg_def arg_wf_def BOOTARG_END_def bootarg_types)
  moreover have "bytes32 sample_args = 36"
    by (simp add: sample_args_def addbootarg_def size32_eq)
  moreover have "args_effect 0 sample_args (k0\<lparr>k_docninit := 0\<rparr>) = k0\<lparr>k_cksumlen := 7, k_bootduid := [1, 2, 3, 4, 5, 6, 7, 8]\<rparr>"
    by (simp add: sample_args_def addbootarg_def arg_effect_def bootarg_types le32_def le_dec_enc k0_def)
  moreover have "length sample_args = 2" by (simp add: sample_args_def addbootarg_def)
  ultimately show ?thesis
    using getbootinfo_reads_makebootargs32 [of 4096 "replicate 4096 0" sample_args sample_args 3 k0] f
    by (auto simp: k0_def)
qed

end
