(* ===== verification/Libsa_Errno.thy ===== *)
theory Libsa_Errno
  imports BSD_Prelude
begin

text \<open>
  The error numbers of the boot program: \<open>sys/sys/errno.h\<close> and, above \<open>ELAST\<close>, \<open>sys/lib/libsa/saerrno.h\<close>.
\<close>

definition EPERM :: int where "EPERM = 1"
definition ENOENT :: int where "ENOENT = 2"
definition EIO :: int where "EIO = 5"
definition ENXIO :: int where "ENXIO = 6"
definition EBADF :: int where "EBADF = 9"
definition ENOTDIR :: int where "ENOTDIR = 20"
definition EINVAL :: int where "EINVAL = 22"
definition EMFILE :: int where "EMFILE = 24"
definition EFBIG :: int where "EFBIG = 27"
definition EROFS :: int where "EROFS = 30"
definition EOPNOTSUPP :: int where "EOPNOTSUPP = 45"
definition EFTYPE :: int where "EFTYPE = 79"
definition EADAPT :: int where "EADAPT = 92"
definition EUNIT :: int where "EUNIT = 94"
definition EPART :: int where "EPART = 95"
definition ERDLAB :: int where "ERDLAB = 96"
definition EOFFSET :: int where "EOFFSET = 97"

lemmas errno_defs = EPERM_def ENOENT_def EIO_def ENXIO_def EBADF_def ENOTDIR_def EINVAL_def EMFILE_def EFBIG_def
  EROFS_def EOPNOTSUPP_def EFTYPE_def EADAPT_def EUNIT_def EPART_def ERDLAB_def EOFFSET_def

end
