(* ===== verification/Efi_Disk.thy ===== *)
theory Efi_Disk
  imports Efi_Find Boot_Args Libsa_Errno
begin

unbundle bit_operations_syntax

text \<open>
  The disks of the boot program: \<open>efidev.c\<close>, second half (disk structures, opening a device by
  name, the strategy routine), and \<open>sys/arch/amd64/stand/libsa/diskprobe.c\<close> as compiled for EFI
  (probing, numbering, lookup, checksums). Pointers to disks are positions in the list of disks or of
  softraid volumes. The softraid functions of \<open>softraid.c\<close> are parameters.
\<close>

section \<open>Disks\<close>

definition BDI_INVALID :: u32 where "BDI_INVALID = 1"
definition BDI_GOODLABEL :: u32 where "BDI_GOODLABEL = 2"
definition BDI_BADLABEL :: u32 where "BDI_BADLABEL = 4"
definition BDI_EL_TORITO :: u32 where "BDI_EL_TORITO = 8"

record bios_diskinfo =
  bios_number :: u32
  bios_cylinders :: u32
  bios_heads :: u32
  bios_sectors :: u32
  bios_edd :: u32
  bsd_dev :: u32
  checksum :: u32
  flags :: u32

definition zero_bios :: bios_diskinfo where
  "zero_bios = \<lparr>bios_number = 0, bios_cylinders = 0, bios_heads = 0, bios_sectors = 0, bios_edd = 0,
     bsd_dev = 0, checksum = 0, flags = 0\<rparr>"

record diskinfo =
  efi_info :: "efi_diskinfo option"
  bios_info :: bios_diskinfo
  disklabel_of :: label
  sr_vol :: "nat option"
  bsddev :: u32
  bootdev :: u32

text \<open>\<open>memset\<close>, then the firmware interface of the disk.\<close>

definition efid_init :: "efi_diskinfo \<Rightarrow> diskinfo" where
  "efid_init blkio = \<lparr>efi_info = Some blkio, bios_info = zero_bios,
     disklabel_of = replicate sizeof_disklabel 0, sr_vol = None, bsddev = 0, bootdev = 0\<rparr>"

text \<open>\<open>dip->diskio\<close> is \<open>efid_diskio\<close> for every disk; a softraid volume has no \<open>efi_info\<close>.\<close>

definition diskio :: "rw \<Rightarrow> diskinfo \<Rightarrow> u32 \<Rightarrow> u32 \<Rightarrow> u8 list \<Rightarrow> iblk \<Rightarrow> (int \<times> u8 list \<times> iblk) outcome" where
  "diskio rw dip off nsect buf ib =
     (case efi_info dip of None \<Rightarrow> Undef | Some ed \<Rightarrow> efid_diskio rw ed off nsect buf ib)"

section \<open>Device numbers\<close>

definition B_ADAPTOR :: "u32 \<Rightarrow> u32" where "B_ADAPTOR v = drop_bit 24 v AND 0x0f"
definition B_CONTROLLER :: "u32 \<Rightarrow> u32" where "B_CONTROLLER v = drop_bit 20 v AND 0xf"
definition B_UNIT :: "u32 \<Rightarrow> u32" where "B_UNIT v = drop_bit 16 v AND 0xf"
definition B_PARTITION :: "u32 \<Rightarrow> u32" where "B_PARTITION v = drop_bit 8 v AND 0xff"
definition B_TYPE :: "u32 \<Rightarrow> u32" where "B_TYPE v = v AND 0xff"

definition MAKEBOOTDEV :: "u32 \<Rightarrow> u32 \<Rightarrow> u32 \<Rightarrow> u32 \<Rightarrow> u32 \<Rightarrow> u32" where
  "MAKEBOOTDEV ty adaptor controller un prt =
     ty OR push_bit 24 adaptor OR push_bit 20 controller OR push_bit 16 un OR push_bit 8 prt OR 0xa0000000"

section \<open>Probing\<close>

definition RAW_PART :: u32 where "RAW_PART = 2"
definition DTYPE_SCSI :: u16 where "DTYPE_SCSI = 4"
definition DTYPE_ESDI :: u16 where "DTYPE_ESDI = 5"
definition DTYPE_ST506 :: u16 where "DTYPE_ST506 = 6"

text \<open>
  The three variables that live across the loop: device type, number of SCSI and of other disks.
\<close>

record probe =
  pr_type :: u32
  pr_scsi :: u32
  pr_ide :: u32

definition probe0 :: probe where "probe0 = \<lparr>pr_type = 0, pr_scsi = 0, pr_ide = 0\<rparr>"

text \<open>Type, unit and flag of a disk: without a label the type is not assigned.\<close>

definition classify :: "bool \<Rightarrow> u16 \<Rightarrow> probe \<Rightarrow> u32 \<Rightarrow> u32 \<times> u32 \<times> probe" where
  "classify labelled ty p fl =
     (if \<not> labelled then (pr_ide p, fl, p\<lparr>pr_ide := pr_ide p + 1\<rparr>)
      else if ty = DTYPE_SCSI
      then (pr_scsi p, fl OR BDI_GOODLABEL, p\<lparr>pr_type := 4, pr_scsi := pr_scsi p + 1\<rparr>)
      else if ty = DTYPE_ESDI \<or> ty = DTYPE_ST506
      then (pr_ide p, fl OR BDI_GOODLABEL, p\<lparr>pr_type := 0, pr_ide := pr_ide p + 1\<rparr>)
      else (pr_ide p, fl OR BDI_BADLABEL, p\<lparr>pr_type := 0, pr_ide := pr_ide p + 1\<rparr>))"

text \<open>One disk: \<open>junk\<close> is the uninitialised stack buffer of the label search.\<close>

definition probe_disk :: "u8 list \<Rightarrow> nat \<Rightarrow> diskinfo \<Rightarrow> probe \<Rightarrow> iblk \<Rightarrow> (diskinfo \<times> probe \<times> iblk) outcome" where
  "probe_disk junk n dip p ib =
     (case efi_info dip of
        None \<Rightarrow> Undef
      | Some ed \<Rightarrow>
          obind (efi_getdisklabel ed junk (disklabel_of dip) ib) (\<lambda>(msg, l, ib').
            case classify (msg = None) (d_type l) p (flags (bios_info dip)) of
              (bsdunit, fl, p') \<Rightarrow>
                Ret (dip\<lparr>disklabel_of := l,
                  bios_info := (bios_info dip)\<lparr>bios_number := 0x80 OR of_nat n, flags := fl, checksum := 0,
                    bsd_dev := MAKEBOOTDEV (pr_type p') 0 0 bsdunit RAW_PART\<rparr>\<rparr>, p', ib')))"

fun hardprobe_loop :: "(nat \<Rightarrow> u8 list) \<Rightarrow> nat \<Rightarrow> diskinfo list \<Rightarrow> probe \<Rightarrow> iblk \<Rightarrow> (diskinfo list \<times> iblk) outcome" where
  "hardprobe_loop junk n [] p ib = Ret ([], ib)"
| "hardprobe_loop junk n (dip # dips) p ib =
     obind (probe_disk (junk n) n dip p ib) (\<lambda>r.
     obind (hardprobe_loop junk (Suc n) dips (fst (snd r)) (snd (snd r))) (\<lambda>s. Ret (fst r # fst s, snd s)))"

definition efi_hardprobe :: "(nat \<Rightarrow> u8 list) \<Rightarrow> diskinfo list \<Rightarrow> iblk \<Rightarrow> (diskinfo list \<times> iblk) outcome" where
  "efi_hardprobe junk efi_disklist ib = hardprobe_loop junk 0 efi_disklist probe0 ib"

definition dklookup :: "diskinfo list \<Rightarrow> u32 \<Rightarrow> diskinfo option" where
  "dklookup disklist dev = List.find (\<lambda>dip. bios_number (bios_info dip) = dev) disklist"

definition bios_dklookup :: "diskinfo list \<Rightarrow> u32 \<Rightarrow> bios_diskinfo option" where
  "bios_dklookup disklist dev = map_option bios_info (dklookup disklist dev)"

section \<open>Checksums of the disks\<close>

definition next_sum :: "u32 \<Rightarrow> u8 list \<Rightarrow> u32" where
  "next_sum c buf = ucast (adler32 (ucast c :: u64) (Some buf))"

text \<open>A disk that takes part: a hard disk without an error so far.\<close>

definition summed :: "diskinfo \<Rightarrow> bool" where
  "summed dip \<longleftrightarrow> bios_number (bios_info dip) AND 0x80 \<noteq> 0 \<and> flags (bios_info dip) AND BDI_INVALID = 0"

definition same_sum :: "diskinfo \<Rightarrow> diskinfo \<Rightarrow> bool" where
  "same_sum dip dip2 \<longleftrightarrow> summed dip2 \<and> checksum (bios_info dip) = checksum (bios_info dip2)"

text \<open>The loop over the disks; the first list holds those already done.\<close>

fun disksum_loop :: "u8 list \<Rightarrow> u32 \<Rightarrow> diskinfo list \<Rightarrow> diskinfo list \<Rightarrow> bool \<Rightarrow> iblk \<Rightarrow>
    (diskinfo list \<times> bool \<times> iblk) outcome" where
  "disksum_loop buf blk seen [] reprobe ib = Ret (seen, reprobe, ib)"
| "disksum_loop buf blk seen (dip # dips) reprobe ib =
     (if \<not> summed dip then disksum_loop buf blk (seen @ [dip]) dips reprobe ib
      else obind (diskio F_READ dip blk 1 buf ib) (\<lambda>r.
        if fst r \<noteq> 0
        then disksum_loop (fst (snd r)) blk
               (seen @ [dip\<lparr>bios_info := (bios_info dip)\<lparr>flags := flags (bios_info dip) OR BDI_INVALID\<rparr>\<rparr>])
               dips reprobe (snd (snd r))
        else
          let dip' = dip\<lparr>bios_info := (bios_info dip)\<lparr>checksum := next_sum (checksum (bios_info dip)) (fst (snd r))\<rparr>\<rparr>
          in disksum_loop (fst (snd r)) blk (seen @ [dip']) dips
               (reprobe \<or> list_ex (same_sum dip') seen) (snd (snd r))))"

definition disksum :: "u8 list \<Rightarrow> u32 \<Rightarrow> diskinfo list \<Rightarrow> iblk \<Rightarrow> (diskinfo list \<times> bool \<times> iblk) outcome" where
  "disksum junk blk disklist ib = disksum_loop junk blk [] disklist False ib"

definition MAX_CKSUMLEN :: nat where "MAX_CKSUMLEN = 65536 div 512"

text \<open>\<open>for (i = 0; disksum(i++) && i < MAX_CKSUMLEN; );\<close> with the final \<open>i\<close>.\<close>

function cksum_loop :: "(nat \<Rightarrow> u8 list) \<Rightarrow> nat \<Rightarrow> diskinfo list \<Rightarrow> iblk \<Rightarrow> (nat \<times> diskinfo list \<times> iblk) outcome" where
  "cksum_loop junk i dl ib =
     obind (disksum (junk i) (of_nat i) dl ib) (\<lambda>r.
       if fst (snd r) \<and> Suc i < MAX_CKSUMLEN then cksum_loop junk (Suc i) (fst r) (snd (snd r))
       else Ret (Suc i, fst r, snd (snd r)))"
  by pat_completeness auto
termination
  by (relation "measure (\<lambda>(_, i, _). MAX_CKSUMLEN - i)") auto

declare cksum_loop.simps [simp del]

definition enc_bios :: "bios_diskinfo \<Rightarrow> u8 list" where
  "enc_bios b = le_enc 4 (unat (bios_number b)) @ le_enc 4 (unat (bios_cylinders b)) @ le_enc 4 (unat (bios_heads b))
     @ le_enc 4 (unat (bios_sectors b)) @ le_enc 4 (unat (bios_edd b)) @ le_enc 4 (unat (bsd_dev b))
     @ le_enc 4 (unat (checksum b)) @ le_enc 4 (unat (flags b))"

text \<open>
  The disks found, then the two arguments for the kernel. \<open>fin\<close> is what the allocator left in the
  last element of the array, of which only the number is assigned; \<open>a1\<close> and \<open>a2\<close> are the
  allocations of the arguments; \<open>srprobe\<close> may use the disks and the static buffer.
\<close>

definition diskprobe :: "(diskinfo list \<Rightarrow> iblk \<Rightarrow> iblk) \<Rightarrow> (nat \<Rightarrow> u8 list) \<Rightarrow> (nat \<Rightarrow> u8 list) \<Rightarrow> bios_diskinfo \<Rightarrow>
    u64 \<times> u8 list \<times> u8 list \<Rightarrow> u64 \<times> u8 list \<times> u8 list \<Rightarrow> diskinfo list \<Rightarrow> iblk \<Rightarrow> bootarg list \<Rightarrow>
    (nat \<times> diskinfo list \<times> iblk \<times> bootarg list) outcome" where
  "diskprobe srprobe junk junk2 fin a1 a2 efi_disklist ib args =
     obind (efi_hardprobe junk efi_disklist ib) (\<lambda>(dl, ib1).
     obind (cksum_loop junk2 0 dl (srprobe dl ib1)) (\<lambda>(len, dl', ib2).
       Ret (len, dl', ib2,
         addbootarg BOOTARG_DISKINFO (concat (map enc_bios (map bios_info dl' @ [fin\<lparr>bios_number := - 1\<rparr>])))
           (fst a2) (fst (snd a2)) (snd (snd a2))
           (addbootarg BOOTARG_CKSUMLEN (le_enc 4 len) (fst a1) (fst (snd a1)) (snd (snd a1)) args))))"

text \<open>The table of disks as displayed: kind, unit, number, label, geometry, flags, checksum.\<close>

definition dump_row :: "diskinfo \<Rightarrow> char \<times> u32 \<times> u32 \<times> string \<times> (u32 \<times> u32 \<times> u32) \<times> u32 \<times> u32" where
  "dump_row dip =
     (let bdi = bios_info dip; d = bios_number bdi in
      (if flags bdi AND BDI_EL_TORITO \<noteq> 0 then CHR ''c'' else if d AND 0x80 \<noteq> 0 then CHR ''h'' else CHR ''f'',
       if flags bdi AND BDI_EL_TORITO \<noteq> 0 then 0 else d AND 0x7f,
       d, if flags bdi AND BDI_BADLABEL \<noteq> 0 then ''*none*'' else ''label'',
       (bios_cylinders bdi, bios_heads bdi, bios_sectors bdi), flags bdi, checksum bdi))"

definition dump_diskinfo :: "diskinfo list \<Rightarrow> (char \<times> u32 \<times> u32 \<times> string \<times> (u32 \<times> u32 \<times> u32) \<times> u32 \<times> u32) list" where
  "dump_diskinfo disklist = map dump_row disklist"

section \<open>Opening a device\<close>

definition bdevs :: "string list" where
  "bdevs = [''wd'', [], ''fd'', [], ''sd'', ''st'', ''cd'', [],
     [], [], [], [], [], [], [], [], [], ''hd'', []]"

text \<open>A character of a C string; the terminator can be read, nothing after it.\<close>

definition str_at :: "string \<Rightarrow> nat \<Rightarrow> char outcome" where
  "str_at s i = (if i < length s then Ret (s ! i) else if i = length s then Ret NUL else Undef)"

text \<open>Softraid volumes, and the functions of \<open>softraid.c\<close> the device code calls.\<close>

record sr_volume =
  sbv_unit :: u32
  sbv_level :: u32
  sbv_keys :: bool
  sbv_part :: char
  sbv_diskinfo :: "diskinfo option"
  sbv_uuid :: "u8 list"
  sbv_maskkey :: "u8 list option"

record sr_ops =
  sr_crypto_decrypt_keys :: "sr_volume \<Rightarrow> int \<times> sr_volume"
  sr_getdisklabel :: "sr_volume \<Rightarrow> label \<Rightarrow> string option \<times> label"
  sr_strategy :: "nat \<Rightarrow> rw \<Rightarrow> u32 \<Rightarrow> u64 \<Rightarrow> u8 list \<Rightarrow> (int \<times> u8 list \<times> u64) outcome"

datatype devref = Disk nat | Volume nat

record efi_world =
  disklist :: "diskinfo list"
  sr_volumes :: "sr_volume list"
  bootdev_dip :: "devref option"
  bios_bootdev :: u32

text \<open>The open file: its device and whether it is opened raw.\<close>

record open_file =
  f_devdata :: "devref option"
  f_raw :: bool

text \<open>The name before the colon: its length, the unit and the partition.\<close>

definition char_between :: "char \<Rightarrow> char \<Rightarrow> char \<Rightarrow> bool" where
  "char_between a b c \<longleftrightarrow> of_char a \<le> (of_char c :: nat) \<and> of_char c \<le> (of_char b :: nat)"

definition parse_dev :: "string \<Rightarrow> (int + nat \<times> nat \<times> nat) outcome" where
  "parse_dev cp =
     obind (str_at cp 4) (\<lambda>c4.
     obind (if c4 = CHR '':'' then Ret (Some 2)
            else obind (str_at cp 5) (\<lambda>c5. Ret (if c5 = CHR '':'' then Some 3 else None))) (\<lambda>dl.
       case dl of
         None \<Rightarrow> Ret (Inl ENOENT)
       | Some devlen \<Rightarrow>
           obind (str_at cp devlen) (\<lambda>u.
             if \<not> char_between (CHR ''0'') (CHR ''9'') u then Ret (Inl EUNIT)
             else obind (str_at cp (devlen + 1)) (\<lambda>p.
               if \<not> char_between (CHR ''a'') (CHR ''p'') p then Ret (Inl EPART)
               else Ret (Inr (devlen, of_char u - 48, of_char p - 97))))))"

text \<open>A softraid volume; a diskinfo is made up for it when it has none.\<close>

definition fake_diskinfo :: "nat \<Rightarrow> diskinfo" where
  "fake_diskinfo i = \<lparr>efi_info = None, bios_info = zero_bios\<lparr>flags := BDI_BADLABEL\<rparr>,
     disklabel_of = replicate sizeof_disklabel 0, sr_vol = Some i, bsddev = 0, bootdev = 0\<rparr>"

definition level_C :: u32 where "level_C = 0x43"

definition open_label :: "sr_ops \<Rightarrow> nat \<Rightarrow> sr_volume \<Rightarrow> int \<times> sr_volume" where
  "open_label ops i bv =
     (let dip = (case sbv_diskinfo bv of Some d \<Rightarrow> d | None \<Rightarrow> fake_diskinfo i);
          bv1 = bv\<lparr>sbv_diskinfo := Some dip\<rparr>
      in if flags (bios_info dip) AND BDI_BADLABEL \<noteq> 0 then
           (let bv2 = bv1\<lparr>sbv_part := CHR ''c''\<rparr>; r = sr_getdisklabel ops bv2 (disklabel_of dip);
                d2 = dip\<lparr>disklabel_of := snd r\<rparr>
            in if fst r \<noteq> None then (ERDLAB, bv2\<lparr>sbv_diskinfo := Some d2\<rparr>)
               else (0, bv2\<lparr>sbv_diskinfo := Some (d2\<lparr>bios_info :=
                 (bios_info d2)\<lparr>flags := flags (bios_info d2) AND NOT BDI_BADLABEL\<rparr>\<rparr>)\<rparr>))
         else (0, bv1))"

fun find_index :: "('a \<Rightarrow> bool) \<Rightarrow> 'a list \<Rightarrow> nat option" where
  "find_index P [] = None"
| "find_index P (x # xs) = (if P x then Some 0 else map_option Suc (find_index P xs))"

definition open_sr :: "sr_ops \<Rightarrow> nat \<Rightarrow> nat \<Rightarrow> open_file \<Rightarrow> efi_world \<Rightarrow> int \<times> open_file \<times> efi_world" where
  "open_sr ops un prt f w =
     (case find_index (\<lambda>bv. sbv_unit bv = of_nat un) (sr_volumes w) of
        None \<Rightarrow> (EADAPT, f, w)
      | Some i \<Rightarrow>
          let bv = sr_volumes w ! i;
              k = (if sbv_level bv = level_C \<and> \<not> sbv_keys bv then sr_crypto_decrypt_keys ops bv else (0, bv))
          in if fst k \<noteq> 0 then (EPERM, f, w\<lparr>sr_volumes := (sr_volumes w)[i := snd k]\<rparr>)
             else let r = open_label ops i (snd k) in
               if fst r \<noteq> 0 then (fst r, f, w\<lparr>sr_volumes := (sr_volumes w)[i := snd r]\<rparr>)
               else (0, f\<lparr>f_devdata := Some (Volume i)\<rparr>,
                 w\<lparr>sr_volumes := (sr_volumes w)[i := (snd r)\<lparr>sbv_part := char_of (prt + 97)\<rparr>],
                   bootdev_dip := Some (Volume i)\<rparr>))"

text \<open>The BIOS number of a device name.\<close>

definition bios_of :: "nat \<Rightarrow> nat \<Rightarrow> efi_world \<Rightarrow> u32 option" where
  "bios_of maj un w =
     (if maj = 0 \<or> maj = 4 \<or> maj = 17 then Some (of_nat un OR 0x80)
      else if maj = 2 then Some (of_nat un)
      else if maj = 6 then Some (bios_bootdev w AND 0xff)
      else None)"

definition fix_bootdev :: "nat \<Rightarrow> nat \<Rightarrow> diskinfo \<Rightarrow> diskinfo" where
  "fix_bootdev un prt dip =
     (let b = bsd_dev (bios_info dip) in
      dip\<lparr>bsddev := MAKEBOOTDEV (B_TYPE b) (B_ADAPTOR b) (B_CONTROLLER b) (of_nat un) (of_nat prt),
          bootdev := MAKEBOOTDEV (B_TYPE b) (B_ADAPTOR b) (B_CONTROLLER b) (B_UNIT b) (of_nat prt)\<rparr>)"

text \<open>
  The message for an unknown device looks for a colon in the name that may already have been cut at
  it: without another one the loop runs off the end.
\<close>

definition open_disk :: "nat \<Rightarrow> nat \<Rightarrow> nat \<Rightarrow> string \<Rightarrow> string \<Rightarrow> open_file \<Rightarrow> efi_world \<Rightarrow>
    (int \<times> open_file \<times> efi_world) outcome" where
  "open_disk devlen un prt dev file f w =
     (case find_index (strn_eq devlen dev) bdevs of
        None \<Rightarrow> if CHR '':'' \<in> set file then Ret (EADAPT, f, w) else Undef
      | Some maj \<Rightarrow>
          (case bios_of maj un w of
             None \<Rightarrow> Ret (ENXIO, f, w)
           | Some biosdev \<Rightarrow>
               (case find_index (\<lambda>dip. bios_number (bios_info dip) = biosdev) (disklist w) of
                  None \<Rightarrow> Ret (ENXIO, f, w)
                | Some i \<Rightarrow> Ret (0, f\<lparr>f_devdata := Some (Disk i)\<rparr>,
                    w\<lparr>bootdev_dip := Some (Disk i),
                      disklist := (disklist w)[i := fix_bootdev un prt (disklist w ! i)]\<rparr>))))"

text \<open>The error, the name that is left, the file and the state.\<close>

definition efiopen :: "sr_ops \<Rightarrow> string \<Rightarrow> open_file \<Rightarrow> efi_world \<Rightarrow> (int \<times> string \<times> open_file \<times> efi_world) outcome" where
  "efiopen ops file f0 w =
     (let f = f0\<lparr>f_devdata := None\<rparr> in
      obind (parse_dev file) (\<lambda>r. case r of
          Inl e \<Rightarrow> Ret (e, file, f, w)
        | Inr (devlen, un, prt) \<Rightarrow>
            let rest = drop (devlen + 3) file;
                file' = (if rest \<noteq> [] then rest else file);
                f' = (if rest \<noteq> [] then f else f\<lparr>f_raw := True\<rparr>)
            in if strn_eq 2 ''sr'' file
               then (case open_sr ops un prt f' w of (e, f'', w') \<Rightarrow> Ret (e, file', f'', w'))
               else obind (open_disk devlen un prt file file' f' w) (\<lambda>(e, f'', w'). Ret (e, file', f'', w'))))"

section \<open>Strategy\<close>

text \<open>\<open>error\<close> is an eight-bit variable: an error of \<open>diskio\<close>, -1, is returned as 255.\<close>

definition nsectors :: "u64 \<Rightarrow> u64" where
  "nsectors sz = (sz + 511) div 512"

definition efistrategy :: "sr_ops \<Rightarrow> diskinfo \<Rightarrow> rw \<Rightarrow> u32 \<Rightarrow> u64 \<Rightarrow> u8 list \<Rightarrow> iblk \<Rightarrow>
    (int \<times> u8 list \<times> u64 \<times> iblk) outcome" where
  "efistrategy ops dip rw blk sz buf ib =
     (case sr_vol dip of
        Some i \<Rightarrow> obind (sr_strategy ops i rw blk sz buf) (\<lambda>(e, b, rs). Ret (e, b, rs, ib))
      | None \<Rightarrow>
          let nsect = nsectors sz; pn = unat (B_PARTITION (bsddev dip)) in
          if MAXPARTITIONS \<le> pn then Undef
          else
            let blk' = blk + p_offset (disklabel_of dip) pn in
            if sint blk' < 0 then Ret (EINVAL, buf, nsect * 512, ib)
            else obind (diskio rw dip blk' (ucast nsect) buf ib) (\<lambda>(e, b, ib').
              Ret (e mod 256, b, nsect * 512, ib')))"

definition eficlose :: "open_file \<Rightarrow> int \<times> open_file" where
  "eficlose f = (0, f\<lparr>f_devdata := None\<rparr>)"

definition efiioctl :: "open_file \<Rightarrow> int" where
  "efiioctl f = 0"

end
