(* ===== verification/Efi_Probe.thy ===== *)
theory Efi_Probe
  imports Efi_Disk
begin

unbundle bit_operations_syntax

text \<open>
  Correctness of the disk code: the checksums that tell disks apart, numbering and lookup, device
  numbers, opening by name and the strategy routine.
\<close>

section \<open>Checksums in the 32-bit field\<close>

lemma sums_of_ucast: "sums_of (ucast (c :: u32) :: u64) = sums_of c"
proof -
  have a: "(ucast c AND 0xffff :: u64) = ucast (c AND 0xffff)"
    by (rule bit_word_eqI) (auto simp: bit_simps dest: bit_imp_le_length)
  have b: "(drop_bit 16 (ucast c) AND 0xffff :: u64) = ucast (drop_bit 16 c AND 0xffff)"
    by (rule bit_word_eqI) (auto simp: bit_simps dest: bit_imp_le_length)
  show ?thesis by (simp add: sums_of_def a b unat_ucast_64)
qed

lemma ucast_of_sums:
  assumes "fst p < 65536" "snd p < 65536"
  shows "(ucast (of_sums p :: u64) :: u32) = of_sums p"
  unfolding of_sums_def join_sums_def by (rule bit_word_eqI) (auto simp: bit_simps)

lemma next_sum_ref:
  assumes "fst (sums_of c) < BASE" "snd (sums_of c) < BASE"
  shows "next_sum c buf = of_sums (adler_ref (sums_of c) buf)"
proof -
  have "adler32 (ucast c :: u64) (Some buf) = of_sums (adler_ref (sums_of c) buf)"
    using assms adler32_sums [of "ucast c :: u64" buf] by (simp add: sums_of_ucast)
  moreover have "fst (adler_ref (sums_of c) buf) < 65536" "snd (adler_ref (sums_of c) buf) < 65536"
    using adler_ref_below [OF assms, of buf] by (auto simp: BASE_def)
  ultimately show ?thesis by (simp add: next_sum_def ucast_of_sums)
qed

text \<open>The checksum of the bytes read so far, from zero.\<close>

definition sum_of :: "u8 list \<Rightarrow> u32" where
  "sum_of bs = of_sums (adler_ref (0, 0) bs)"

lemma next_sum_sum_of: "next_sum (sum_of xs) ys = sum_of (xs @ ys)"
proof -
  have r: "fst (adler_ref (0, 0) xs) < BASE" "snd (adler_ref (0, 0) xs) < BASE"
    using adler_ref_below [of "(0, 0)" xs] by (auto simp: BASE_def)
  then have "sums_of (sum_of xs) = adler_ref (0, 0) xs"
    unfolding sum_of_def by (intro sums_of_of_sums) (auto simp: BASE_def)
  then show ?thesis using r by (simp add: next_sum_ref sum_of_def adler_ref_append)
qed

lemma sum_of_Nil: "sum_of [] = 0"
  by (simp add: sum_of_def of_sums_def join_sums_def)

section \<open>One round of checksums\<close>

text \<open>
  The interface of a disk to the checksum loop: a sector is read or an error is reported, and nothing
  else happens.
\<close>

locale sector_source =
  fixes rd :: "diskinfo \<Rightarrow> nat \<Rightarrow> u8 list option"
    and good :: "diskinfo \<Rightarrow> bool"
  assumes read_sector: "good dip \<Longrightarrow> i < MAX_CKSUMLEN \<Longrightarrow> length buf = 512 \<Longrightarrow>
      \<exists>b. diskio F_READ dip (of_nat i) 1 buf ib =
        Ret (case rd dip i of None \<Rightarrow> - 1 | Some _ \<Rightarrow> 0, case rd dip i of None \<Rightarrow> b | Some s \<Rightarrow> s, ib)
        \<and> length b = 512"
    and sector_length: "good dip \<Longrightarrow> rd dip i = Some s \<Longrightarrow> length s = 512"
    and rd_bios: "rd (dip\<lparr>bios_info := bi\<rparr>) i = rd dip i"
    and good_bios: "good (dip\<lparr>bios_info := bi\<rparr>) = good dip"
begin

definition step_disk :: "nat \<Rightarrow> diskinfo \<Rightarrow> diskinfo" where
  "step_disk i dip =
     (if \<not> summed dip then dip
      else case rd dip i of
          None \<Rightarrow> dip\<lparr>bios_info := (bios_info dip)\<lparr>flags := flags (bios_info dip) OR BDI_INVALID\<rparr>\<rparr>
        | Some b \<Rightarrow> dip\<lparr>bios_info := (bios_info dip)\<lparr>checksum := next_sum (checksum (bios_info dip)) b\<rparr>\<rparr>)"

definition all_apart :: "diskinfo list \<Rightarrow> bool" where
  "all_apart dl \<longleftrightarrow> distinct (map (checksum \<circ> bios_info) (filter summed dl))"

lemma good_step [simp]: "good (step_disk i dip) = good dip"
  by (simp add: step_disk_def good_bios split: option.split)

lemma rd_step [simp]: "rd (step_disk i dip) j = rd dip j"
  by (simp add: step_disk_def rd_bios split: option.split)

lemma all_apart_snoc:
  "all_apart (xs @ [d]) \<longleftrightarrow> all_apart xs \<and> (summed d \<longrightarrow> \<not> list_ex (same_sum d) xs)"
  by (auto simp: all_apart_def same_sum_def list_ex_iff)

lemma invalid_not_summed:
  "\<not> summed (dip\<lparr>bios_info := (bios_info dip)\<lparr>flags := flags (bios_info dip) OR BDI_INVALID\<rparr>\<rparr>)"
proof -
  have "bit ((flags (bios_info dip) OR BDI_INVALID) AND BDI_INVALID) 0"
    by (simp add: BDI_INVALID_def bit_simps)
  then show ?thesis by (auto simp: summed_def)
qed

lemma disksum_loop_spec:
  assumes "list_all good dl" "length buf = 512" "i < MAX_CKSUMLEN" "\<not> reprobe = all_apart seen"
  shows "disksum_loop buf (of_nat i) seen dl reprobe ib =
    Ret (seen @ map (step_disk i) dl, \<not> all_apart (seen @ map (step_disk i) dl), ib)"
  using assms
proof (induction dl arbitrary: buf seen reprobe)
  case (Cons dip dl)
  have g: "good dip" using Cons.prems(1) by simp
  show ?case
  proof (cases "summed dip")
    case False
    then have "step_disk i dip = dip" by (simp add: step_disk_def)
    with False show ?thesis
      using Cons.IH [of buf reprobe "seen @ [dip]"] Cons.prems by (simp add: all_apart_snoc)
  next
    case True
    obtain b where b: "diskio F_READ dip (of_nat i) 1 buf ib =
        Ret (case rd dip i of None \<Rightarrow> - 1 | Some _ \<Rightarrow> 0, case rd dip i of None \<Rightarrow> b | Some s \<Rightarrow> s, ib)" "length b = 512"
      using read_sector [OF g Cons.prems(3,2)] by blast
    show ?thesis
    proof (cases "rd dip i")
      case None
      let ?d = "dip\<lparr>bios_info := (bios_info dip)\<lparr>flags := flags (bios_info dip) OR BDI_INVALID\<rparr>\<rparr>"
      have "step_disk i dip = ?d" using True None by (simp add: step_disk_def)
      then show ?thesis
        using Cons.IH [of b reprobe "seen @ [?d]"] Cons.prems b True None invalid_not_summed [of dip]
        by (simp add: all_apart_snoc)
    next
      case (Some s)
      let ?d = "dip\<lparr>bios_info := (bios_info dip)\<lparr>checksum := next_sum (checksum (bios_info dip)) s\<rparr>\<rparr>"
      have d: "step_disk i dip = ?d" "summed ?d" using True Some by (simp_all add: step_disk_def summed_def)
      have "disksum_loop buf (of_nat i) seen (dip # dl) reprobe ib =
          disksum_loop s (of_nat i) (seen @ [?d]) dl (reprobe \<or> list_ex (same_sum ?d) seen) ib"
        using True Some b by (simp add: Let_def)
      then show ?thesis
        using Cons.IH [of s "reprobe \<or> list_ex (same_sum ?d) seen" "seen @ [?d]"] Cons.prems d
          sector_length [OF g Some] by (simp del: disksum_loop.simps add: all_apart_snoc)
    qed
  qed
qed simp

lemma disksum_spec:
  assumes "list_all good dl" "length junk = 512" "i < MAX_CKSUMLEN"
  shows "disksum junk (of_nat i) dl ib = Ret (map (step_disk i) dl, \<not> all_apart (map (step_disk i) dl), ib)"
  using disksum_loop_spec [OF assms, of False "[]" ib] by (simp add: disksum_def all_apart_def)

text \<open>A disk after \<open>n\<close> rounds.\<close>

primrec after_disk :: "nat \<Rightarrow> diskinfo \<Rightarrow> diskinfo" where
  "after_disk 0 dip = dip"
| "after_disk (Suc n) dip = step_disk n (after_disk n dip)"

lemma good_after [simp]: "good (after_disk n dip) = good dip"
  by (induction n) simp_all

lemma rd_after [simp]: "rd (after_disk n dip) i = rd dip i"
  by (induction n) simp_all

lemma summed_step: "summed (step_disk i dip) \<longleftrightarrow> summed dip \<and> rd dip i \<noteq> None"
  using invalid_not_summed [of dip] by (auto simp: step_disk_def summed_def split: option.split)

lemma summed_after: "summed (after_disk n dip) \<longleftrightarrow> summed dip \<and> (\<forall>i < n. rd dip i \<noteq> None)"
  by (induction n) (auto simp: summed_step less_Suc_eq)

lemma checksum_after:
  assumes "summed (after_disk n dip)" "checksum (bios_info dip) = 0"
  shows "checksum (bios_info (after_disk n dip)) = sum_of (concat (map (the \<circ> rd dip) [0..<n]))"
  using assms
proof (induction n)
  case (Suc n)
  then have "summed (after_disk n dip)" "rd dip n \<noteq> None" by (simp_all add: summed_step)
  with Suc show ?case by (auto simp: step_disk_def next_sum_sum_of)
qed (simp add: sum_of_Nil)

lemma cksum_loop_spec:
  assumes "list_all good dl" "\<And>i. length (junk i) = 512" "i < MAX_CKSUMLEN"
  shows "\<exists>n. i < n \<and> n \<le> MAX_CKSUMLEN \<and>
    cksum_loop junk i (map (after_disk i) dl) ib = Ret (n, map (after_disk n) dl, ib)
    \<and> (n = MAX_CKSUMLEN \<or> all_apart (map (after_disk n) dl))
    \<and> (\<forall>m. i < m \<and> m < n \<longrightarrow> \<not> all_apart (map (after_disk m) dl))"
  using assms(3)
proof (induction "MAX_CKSUMLEN - i" arbitrary: i)
  case (Suc x)
  let ?dl = "map (after_disk i) dl" let ?dl' = "map (after_disk (Suc i)) dl"
  have "list_all good ?dl" using assms(1) by (simp add: list_all_iff)
  note g = this
  have e: "?dl' = map (step_disk i) ?dl" by simp
  have d: "disksum (junk i) (of_nat i) ?dl ib = Ret (?dl', \<not> all_apart ?dl', ib)"
    unfolding e by (rule disksum_spec [OF g assms(2) Suc.prems])
  show ?case
  proof (cases "\<not> all_apart ?dl' \<and> Suc i < MAX_CKSUMLEN")
    case True
    then have step: "cksum_loop junk i ?dl ib = cksum_loop junk (Suc i) ?dl' ib"
      using d by (simp add: cksum_loop.simps [of junk i])
    obtain n where n: "Suc i < n" "n \<le> MAX_CKSUMLEN"
      "cksum_loop junk (Suc i) ?dl' ib = Ret (n, map (after_disk n) dl, ib)"
      "n = MAX_CKSUMLEN \<or> all_apart (map (after_disk n) dl)"
      "\<forall>m. Suc i < m \<and> m < n \<longrightarrow> \<not> all_apart (map (after_disk m) dl)"
      using Suc.hyps(1) [of "Suc i"] Suc.hyps(2) True by (metis Suc_diff_Suc Suc.prems Suc_inject)
    have "\<not> all_apart (map (after_disk m) dl)" if "i < m" "m < n" for m
      using that n(5) True by (cases "m = Suc i") auto
    then show ?thesis unfolding step using n by (intro exI [of _ n]) auto
  next
    case False
    then have "cksum_loop junk i ?dl ib = Ret (Suc i, ?dl', ib)"
      using d by (auto simp add: cksum_loop.simps [of junk i])
    then show ?thesis
      using False Suc.prems by (intro exI [of _ "Suc i"]) auto
  qed
qed simp

end

text \<open>Disks with blocks of one sector, whose reads return a sector when they succeed.\<close>

definition sector_disk :: "diskinfo \<Rightarrow> bool" where
  "sector_disk dip \<longleftrightarrow> (case efi_info dip of None \<Rightarrow> False
     | Some ed \<Rightarrow> BlockSize ed = 512 \<and> (\<forall>lba s. ReadBlocks ed lba 512 = Some s \<longrightarrow> length s = 512))"

definition disk_sector :: "diskinfo \<Rightarrow> nat \<Rightarrow> u8 list option" where
  "disk_sector dip i = (case efi_info dip of None \<Rightarrow> None | Some ed \<Rightarrow> ReadBlocks ed (of_nat i) 512)"

lemma u32_mod_1 [simp]: "(x :: u32) mod 1 = 0"
  by (simp add: word_unat_eq_iff unat_mod_distrib)

lemma efid_io_sector:
  assumes "BlockSize ed = 512" "length buf = 512"
    and "\<And>s. ReadBlocks ed (ucast off) 512 = Some s \<Longrightarrow> length s = 512"
  shows "efid_io F_READ ed off 1 buf ib = Ret (case ReadBlocks ed (ucast off) 512 of
     None \<Rightarrow> (False, buf, ib) | Some s \<Rightarrow> (True, s, ib))"
proof (cases "ReadBlocks ed (ucast off) 512")
  case (Some s)
  then have "put_bytes buf 0 s = Ret s" using assms by (simp add: put_bytes_def overlay_full)
  with Some assms(1) show ?thesis
    by (simp add: efid_io_def EFI_BLKSPERSEC_def lead_blks_def tail_blks_def get_iblk_def read_lead_def
        opt_step_def read_body_def read_tail_def)
qed (use assms(1) in \<open>simp add: efid_io_def EFI_BLKSPERSEC_def lead_blks_def tail_blks_def get_iblk_def read_lead_def
        opt_step_def read_body_def\<close>)

interpretation disks: sector_source disk_sector sector_disk
proof
  fix dip i and buf :: "u8 list" and ib
  assume g: "sector_disk dip" and i: "i < MAX_CKSUMLEN" and buf: "length buf = 512"
  obtain ed where ed: "efi_info dip = Some ed" "BlockSize ed = 512"
    "\<And>lba s. ReadBlocks ed lba 512 = Some s \<Longrightarrow> length s = 512"
    using g by (auto simp: sector_disk_def split: option.splits)
  have "(ucast (of_nat i :: u32) :: u64) = of_nat i"
    using i by (intro word_unat_eq_iff [THEN iffD2]) (simp add: unat_ucast_64 unat_of_nat_small MAX_CKSUMLEN_def)
  then show "\<exists>b. diskio F_READ dip (of_nat i) 1 buf ib =
        Ret (case disk_sector dip i of None \<Rightarrow> - 1 | Some _ \<Rightarrow> 0, case disk_sector dip i of None \<Rightarrow> b | Some s \<Rightarrow> s, ib)
        \<and> length b = 512"
    using efid_io_sector [of ed buf "of_nat i" ib] ed buf
    by (intro exI [of _ buf]) (simp add: diskio_def efid_diskio_def disk_sector_def split: option.split)
qed (auto simp: sector_disk_def disk_sector_def split: option.splits)

lemma not_distinct_filter:
  "\<not> distinct (map f (filter P xs)) \<Longrightarrow>
   \<exists>j k. j < k \<and> k < length xs \<and> P (xs ! j) \<and> P (xs ! k) \<and> f (xs ! j) = f (xs ! k)"
proof (induction xs)
  case (Cons x xs)
  show ?case
  proof (cases "distinct (map f (filter P xs))")
    case True
    with Cons.prems obtain y where "P x" "y \<in> set xs" "P y" "f y = f x" by (auto split: if_splits)
    then obtain k where "k < length xs" "xs ! k = y" by (auto simp: in_set_conv_nth)
    with \<open>P x\<close> \<open>P y\<close> \<open>f y = f x\<close> show ?thesis by (intro exI [of _ 0] exI [of _ "Suc k"]) simp
  next
    case False
    then obtain j k where "j < k" "k < length xs" "P (xs ! j)" "P (xs ! k)" "f (xs ! j) = f (xs ! k)"
      using Cons.IH by blast
    then show ?thesis by (intro exI [of _ "Suc j"] exI [of _ "Suc k"]) simp
  qed
qed simp

text \<open>
  C20: The checksum loop of the probe does what the kernel relies on to recognise disks. On disks with
  blocks of 512 bytes that start with a zero checksum, it ends after \<open>n\<close> rounds, at least one and at
  most 128; a hard disk whose first \<open>n\<close> sectors were all readable then carries the Adler-32 checksum
  (from zero) of these \<open>n\<close> sectors, one with a failed read is marked invalid; either the checksums
  of the valid hard disks are pairwise different or \<open>n\<close> is 128, and no smaller number of rounds
  would have told the disks apart.
\<close>

theorem cksum_loop_tells_disks_apart:
  assumes "list_all sector_disk dl" "list_all summed dl" "list_all (\<lambda>d. checksum (bios_info d) = 0) dl"
    and "\<And>i. length (junk i) = 512"
  shows "\<exists>n dl'. cksum_loop junk 0 dl ib = Ret (n, dl', ib) \<and> 0 < n \<and> n \<le> 128 \<and> length dl' = length dl
    \<and> (\<forall>j < length dl. summed (dl' ! j) = (\<forall>i < n. disk_sector (dl ! j) i \<noteq> None)
        \<and> (summed (dl' ! j) \<longrightarrow> checksum (bios_info (dl' ! j))
             = sum_of (concat (map (the \<circ> disk_sector (dl ! j)) [0..<n]))))
    \<and> (n = 128 \<or> distinct (map (checksum \<circ> bios_info) (filter summed dl')))
    \<and> (\<forall>m. 0 < m \<and> m < n \<longrightarrow>
        (\<exists>j k. j < k \<and> k < length dl \<and> (\<forall>i < m. disk_sector (dl ! j) i \<noteq> None \<and> disk_sector (dl ! k) i \<noteq> None)
          \<and> sum_of (concat (map (the \<circ> disk_sector (dl ! j)) [0..<m])) = sum_of (concat (map (the \<circ> disk_sector (dl ! k)) [0..<m]))))"
proof -
  have "map (disks.after_disk 0) dl = dl" by (simp add: map_idI)
  then obtain n where n: "0 < n" "n \<le> MAX_CKSUMLEN"
    "cksum_loop junk 0 dl ib = Ret (n, map (disks.after_disk n) dl, ib)"
    "n = MAX_CKSUMLEN \<or> disks.all_apart (map (disks.after_disk n) dl)"
    "\<And>m. 0 < m \<Longrightarrow> m < n \<Longrightarrow> \<not> disks.all_apart (map (disks.after_disk m) dl)"
    using disks.cksum_loop_spec [of dl junk 0 ib] assms(1,4) by (simp add: MAX_CKSUMLEN_def) metis
  have disk: "summed (disks.after_disk m (dl ! j)) = (\<forall>i < m. disk_sector (dl ! j) i \<noteq> None)"
    "summed (disks.after_disk m (dl ! j)) \<Longrightarrow> checksum (bios_info (disks.after_disk m (dl ! j)))
       = sum_of (concat (map (the \<circ> disk_sector (dl ! j)) [0..<m]))" if "j < length dl" for j m
    using that assms(2,3) disks.checksum_after by (simp_all add: disks.summed_after list_all_length)
  have ex: "\<exists>j k. j < k \<and> k < length dl \<and> (\<forall>i < m. disk_sector (dl ! j) i \<noteq> None \<and> disk_sector (dl ! k) i \<noteq> None)
      \<and> sum_of (concat (map (the \<circ> disk_sector (dl ! j)) [0..<m])) = sum_of (concat (map (the \<circ> disk_sector (dl ! k)) [0..<m]))"
    if m: "0 < m" "m < n" for m
  proof -
    obtain j k where jk: "j < k" "k < length dl" "summed (disks.after_disk m (dl ! j))"
      "summed (disks.after_disk m (dl ! k))"
      "checksum (bios_info (disks.after_disk m (dl ! j))) = checksum (bios_info (disks.after_disk m (dl ! k)))"
      using not_distinct_filter [OF n(5) [OF m, unfolded disks.all_apart_def]] by auto
    then show ?thesis
      using disk [of j m] disk [of k m] by (intro exI [of _ j] exI [of _ k]) auto
  qed
  show ?thesis
    using n(1-4) disk ex
    by (intro exI [of _ n] exI [of _ "map (disks.after_disk n) dl"]) (auto simp: MAX_CKSUMLEN_def disks.all_apart_def)
qed

text \<open>Two disks that differ in their second sector only.\<close>

definition two_disk :: "nat \<Rightarrow> diskinfo" where
  "two_disk k = (efid_init \<lparr>BlockSize = 512, LastBlock = 9, ReadOnly = True,
     ReadBlocks = (\<lambda>lba n. Some (replicate n (if lba = 1 then of_nat k else 0)))\<rparr>)
     \<lparr>bios_info := zero_bios\<lparr>bios_number := 0x80 OR of_nat k\<rparr>\<rparr>"

theorem cksum_loop_tells_disks_apart_witness:
  "\<exists>n dl'. cksum_loop (\<lambda>_. replicate 512 0) 0 [two_disk 0, two_disk 1] No_iblk = Ret (n, dl', No_iblk) \<and> 0 < n \<and> n \<le> 128
     \<and> length dl' = 2"
proof -
  have "list_all sector_disk [two_disk 0, two_disk 1]"
    by (auto simp: sector_disk_def two_disk_def efid_init_def)
  moreover have "list_all summed [two_disk 0, two_disk 1]"
    by (simp add: summed_def two_disk_def zero_bios_def)
  moreover have "list_all (\<lambda>d. checksum (bios_info d) = 0) [two_disk 0, two_disk 1]"
    by (simp add: two_disk_def zero_bios_def)
  ultimately show ?thesis
    using cksum_loop_tells_disks_apart [of "[two_disk 0, two_disk 1]" "\<lambda>_. replicate 512 0" No_iblk] by fastforce
qed

section \<open>Numbers of the disks\<close>

lemma probe_disk_Ret:
  assumes "probe_disk junk n dip p ib = Ret (dip', p', ib')"
  shows "bios_number (bios_info dip') = 0x80 OR of_nat n" "efi_info dip' = efi_info dip"
    "checksum (bios_info dip') = 0" "flags (bios_info dip') AND BDI_INVALID = flags (bios_info dip) AND BDI_INVALID"
proof -
  have inv: "(x OR BDI_GOODLABEL) AND BDI_INVALID = x AND BDI_INVALID"
    "(x OR BDI_BADLABEL) AND BDI_INVALID = x AND BDI_INVALID" for x
    by (simp_all add: BDI_GOODLABEL_def BDI_BADLABEL_def BDI_INVALID_def word_ao_dist)
  obtain msg l un fl where c: "classify (msg = (None :: string option)) (d_type l) p (flags (bios_info dip)) = (un, fl, p')"
    and d: "dip' = dip\<lparr>disklabel_of := l, bios_info := (bios_info dip)\<lparr>bios_number := 0x80 OR of_nat n, flags := fl,
      checksum := 0, bsd_dev := MAKEBOOTDEV (pr_type p') 0 0 un RAW_PART\<rparr>\<rparr>"
    using assms by (auto simp: probe_disk_def outcome_simps split: option.splits prod.splits) (metis prod.exhaust)
  have "fl AND BDI_INVALID = flags (bios_info dip) AND BDI_INVALID"
    using c inv by (auto simp: classify_def split: if_splits)
  with d show "bios_number (bios_info dip') = 0x80 OR of_nat n" "efi_info dip' = efi_info dip"
    "checksum (bios_info dip') = 0" "flags (bios_info dip') AND BDI_INVALID = flags (bios_info dip) AND BDI_INVALID"
    by simp_all
qed

lemma hardprobe_loop_Ret:
  assumes "hardprobe_loop junk n dips p ib = Ret (dl, ib')"
  shows "length dl = length dips \<and> (\<forall>k < length dips.
    bios_number (bios_info (dl ! k)) = 0x80 OR of_nat (n + k) \<and> efi_info (dl ! k) = efi_info (dips ! k)
    \<and> checksum (bios_info (dl ! k)) = 0
    \<and> flags (bios_info (dl ! k)) AND BDI_INVALID = flags (bios_info (dips ! k)) AND BDI_INVALID)"
  using assms
proof (induction dips arbitrary: n p ib dl)
  case (Cons dip dips)
  then obtain dip' p' ib1 dl1 where d: "probe_disk (junk n) n dip p ib = Ret (dip', p', ib1)"
    "hardprobe_loop junk (Suc n) dips p' ib1 = Ret (dl1, ib')" "dl = dip' # dl1"
    by (auto simp: outcome_simps)
  show ?case
    using Cons.IH [OF d(2)] probe_disk_Ret [OF d(1)] d(3)
    by (auto simp: nth_Cons add_ac split: nat.split)
qed simp

lemma disk_number_inj:
  assumes "k < 128" "j < 128" "(0x80 OR of_nat k :: u32) = 0x80 OR of_nat j"
  shows "k = j"
proof -
  have m: "(0x7f :: u32) = mask 7" by (simp add: mask_eq_exp_minus_1)
  have "(0x80 OR of_nat i :: u32) AND 0x7f = of_nat i" if "i < 128" for i
  proof -
    have "uint (of_nat i :: u32) < 2 ^ 7" using that by (simp add: uint_nat unat_of_nat_small)
    then have "(of_nat i :: u32) AND 0x7f = of_nat i" unfolding m by (simp add: mask_eq_iff)
    then show ?thesis by (simp add: word_ao_dist)
  qed
  with assms have "(of_nat k :: u32) = of_nat j" by metis
  then have "unat (of_nat k :: u32) = unat (of_nat j :: u32)" by simp
  then show ?thesis using assms(1,2) by (simp add: unat_of_nat_small)
qed

lemma find_nth_unique:
  assumes "k < length xs" "P (xs ! k)" "\<And>j. j < length xs \<Longrightarrow> P (xs ! j) \<Longrightarrow> j = k"
  shows "List.find P xs = Some (xs ! k)"
proof -
  have "\<forall>j < k. \<not> P (xs ! j)" using assms(1,3) by (metis less_irrefl less_trans)
  then show ?thesis unfolding find_Some_iff using assms(1,2) by blast
qed

lemma dklookup_probed:
  assumes "efi_hardprobe junk dips ib = Ret (dl, ib')" "length dips \<le> 128" "k < length dips"
  shows "dklookup dl (0x80 OR of_nat k) = Some (dl ! k) \<and> efi_info (dl ! k) = efi_info (dips ! k)"
proof -
  note r = hardprobe_loop_Ret [OF assms(1) [unfolded efi_hardprobe_def]]
  have num: "bios_number (bios_info (dl ! j)) = 0x80 OR of_nat j" if "j < length dips" for j
    using r that by simp
  have "dklookup dl (0x80 OR of_nat k) = Some (dl ! k)"
    unfolding dklookup_def
  proof (rule find_nth_unique)
    fix j assume "j < length dl" "bios_number (bios_info (dl ! j)) = 0x80 OR of_nat k"
    then show "j = k" using disk_number_inj [of j k] num [of j] assms(2,3) r by simp
  qed (use assms(3) r num in simp_all)
  then show ?thesis using r assms(3) by simp
qed

text \<open>
  Every probed disk can be looked up. When the probe of at most 128 disks succeeds, the disk list
  has as many entries in the same order, disk \<open>k\<close> is found under BIOS number 0x80 + \<open>k\<close>, it is the disk
  the firmware reported as number \<open>k\<close>, and numbers beyond are not found.
\<close>

theorem dklookup_finds_probed:
  assumes "efi_hardprobe junk dips ib = Ret (dl, ib')" "length dips \<le> 128"
  shows "length dl = length dips
    \<and> (\<forall>k < length dips. dklookup dl (0x80 OR of_nat k) = Some (dl ! k) \<and> efi_info (dl ! k) = efi_info (dips ! k))
    \<and> (\<forall>k. length dips \<le> k \<and> k < 128 \<longrightarrow> dklookup dl (0x80 OR of_nat k) = None)"
proof -
  note r = hardprobe_loop_Ret [OF assms(1) [unfolded efi_hardprobe_def]]
  have l: "length dl = length dips" using r by simp
  have "dklookup dl (0x80 OR of_nat k) = None" if "length dips \<le> k" "k < 128" for k
    unfolding dklookup_def find_None_iff
  proof
    assume "\<exists>x. x \<in> set dl \<and> bios_number (bios_info x) = 0x80 OR of_nat k"
    then obtain j where j: "j < length dl" "bios_number (bios_info (dl ! j)) = 0x80 OR of_nat k"
      by (auto simp: in_set_conv_nth)
    then have "j = k" using disk_number_inj [of j k] r l that assms(2) by simp
    then show False using j l that by simp
  qed
  then show ?thesis using l dklookup_probed [OF assms] by blast
qed

definition dead_disk :: diskinfo where
  "dead_disk = efid_init \<lparr>BlockSize = 512, LastBlock = 0, ReadOnly = True, ReadBlocks = (\<lambda>_ _. None)\<rparr>"

lemma dead_disk_label:
  "efi_getdisklabel \<lparr>BlockSize = 512, LastBlock = 0, ReadOnly = True, ReadBlocks = (\<lambda>_ _. None)\<rparr> junk l ib = Ret (Some err_dio, l, ib)"
proof -
  let ?ed = "\<lparr>BlockSize = 512, LastBlock = 0, ReadOnly = True, ReadBlocks = (\<lambda>_ _. None)\<rparr> :: efi_diskinfo"
  have "efid_io F_READ ?ed 0 1 (replicate 512 0) ib = Ret (False, replicate 512 0, ib)"
    using efid_io_sector [of ?ed "replicate 512 0" 0 ib] by simp
  then have "find_loop (Suc n) ?ed junk 0 0 ib = Ret (Some err_dio, - 1, ib)" for n by simp
  from this [of 255] have "findopenbsd ?ed junk ib = Ret (Some err_dio, - 1, ib)"
    by (simp add: findopenbsd_def DOS_MAXEBR_def)
  then show ?thesis by (simp add: efi_getdisklabel_def)
qed

lemma dead_disks_probe: "\<exists>dl ib'. efi_hardprobe (\<lambda>_. []) [dead_disk, dead_disk] No_iblk = Ret (dl, ib')"
proof -
  have "\<exists>d p'. probe_disk junk n dead_disk p ib = Ret (d, p', ib)" for junk n p ib
    by (simp add: probe_disk_def dead_disk_def efid_init_def dead_disk_label classify_def)
  then obtain d p where "\<And>junk n q ib. probe_disk junk n dead_disk q ib = Ret (d junk n q ib, p junk n q ib, ib)"
    by metis
  then show ?thesis
    by (simp add: efi_hardprobe_def)
qed

theorem dklookup_finds_probed_witness:
  "\<exists>dl ib'. efi_hardprobe (\<lambda>_. []) [dead_disk, dead_disk] No_iblk = Ret (dl, ib')
     \<and> dklookup dl 0x81 = Some (dl ! 1) \<and> dklookup dl 0x82 = None"
proof -
  obtain dl ib' where dl: "efi_hardprobe (\<lambda>_. []) [dead_disk, dead_disk] No_iblk = Ret (dl, ib')"
    using dead_disks_probe by blast
  have "length [dead_disk, dead_disk] \<le> 128" by simp
  note r = dklookup_finds_probed [OF dl this]
  have "dklookup dl (0x80 OR of_nat 1) = Some (dl ! 1)"
    by (rule r [THEN conjunct2, THEN conjunct1, rule_format, THEN conjunct1]) simp
  moreover have "dklookup dl (0x80 OR of_nat 2) = None"
    by (rule r [THEN conjunct2, THEN conjunct2, rule_format]) simp
  ultimately show ?thesis using dl by auto
qed

end
