(* ===== verification/Efi_Open.thy ===== *)
theory Efi_Open
  imports Efi_Probe
begin

unbundle bit_operations_syntax

text \<open>
  Device numbers, opening a device by name and reading a partition.
\<close>

section \<open>Device numbers\<close>

lemma bit_bound: "unat (w :: 'a::len word) < 2 ^ k \<Longrightarrow> bit w n \<Longrightarrow> n < k"
proof -
  assume "unat w < 2 ^ k" "bit w n"
  then have "bit (unat w) n" by (simp add: bit_unsigned_iff)
  moreover have "take_bit k (unat w) = unat w" using \<open>unat w < 2 ^ k\<close> by (simp add: take_bit_nat_eq_self)
  ultimately show "n < k" by (metis bit_take_bit_iff)
qed

lemma devmagic: "bit (0xa0000000 :: int) n \<longleftrightarrow> 28 \<le> n \<and> bit (0xa :: int) (n - 28)"
proof -
  have "(0xa0000000 :: int) = push_bit 28 0xa" by simp
  then show ?thesis by (simp only: bit_push_bit_iff) auto
qed

lemma low_masks: "(0xff :: u32) = mask 8" "(0x0f :: u32) = mask 4"
  by (simp_all add: mask_eq_exp_minus_1)

definition bootdev_ok :: "u32 \<Rightarrow> u32 \<Rightarrow> u32 \<Rightarrow> u32 \<Rightarrow> u32 \<Rightarrow> bool" where
  "bootdev_ok t a c u p \<longleftrightarrow> unat t < 2 ^ 8 \<and> unat a < 2 ^ 4 \<and> unat c < 2 ^ 4 \<and> unat u < 2 ^ 4 \<and> unat p < 2 ^ 8"

lemma bootdev_fields:
  assumes "bootdev_ok t a c u p"
  shows "B_TYPE (MAKEBOOTDEV t a c u p) = t" "B_PARTITION (MAKEBOOTDEV t a c u p) = p"
    "B_UNIT (MAKEBOOTDEV t a c u p) = u" "B_CONTROLLER (MAKEBOOTDEV t a c u p) = c"
    "B_ADAPTOR (MAKEBOOTDEV t a c u p) = a"
proof -
  have b: "bit t n \<Longrightarrow> n < 8" "bit a n \<Longrightarrow> n < 4" "bit c n \<Longrightarrow> n < 4" "bit u n \<Longrightarrow> n < 4" "bit p n \<Longrightarrow> n < 8" for n
    using assms unfolding bootdev_ok_def by (blast dest: bit_bound)+
  have v: "bit (MAKEBOOTDEV t a c u p) n \<longleftrightarrow> n < 32 \<and> (bit t n \<or> 24 \<le> n \<and> bit a (n - 24) \<or> 20 \<le> n \<and> bit c (n - 20)
      \<or> 16 \<le> n \<and> bit u (n - 16) \<or> 8 \<le> n \<and> bit p (n - 8) \<or> 28 \<le> n \<and> bit (0xa :: int) (n - 28))" for n
    unfolding MAKEBOOTDEV_def using bit_imp_le_length [of t n] by (auto simp: bit_simps devmagic)
  have f: "bit (drop_bit k w AND mask j) n \<longleftrightarrow> n < j \<and> bit w (n + k)" for k j n and w :: u32
    using bit_imp_le_length [of w "n + k"] by (auto simp: bit_simps add.commute)
  have g: "drop_bit 0 w AND m = w AND m" for w m :: u32 by simp
  note f0 = f [of 0, unfolded g]
  show "B_TYPE (MAKEBOOTDEV t a c u p) = t"
    unfolding B_TYPE_def low_masks by (rule bit_word_eqI) (auto simp: f0 v dest: b)
  show "B_PARTITION (MAKEBOOTDEV t a c u p) = p"
    unfolding B_PARTITION_def low_masks by (rule bit_word_eqI) (auto simp: f v dest: b)
  show "B_UNIT (MAKEBOOTDEV t a c u p) = u"
    unfolding B_UNIT_def low_masks by (rule bit_word_eqI) (auto simp: f v dest: b)
  show "B_CONTROLLER (MAKEBOOTDEV t a c u p) = c"
    unfolding B_CONTROLLER_def low_masks by (rule bit_word_eqI) (auto simp: f v dest: b)
  show "B_ADAPTOR (MAKEBOOTDEV t a c u p) = a"
    unfolding B_ADAPTOR_def low_masks by (rule bit_word_eqI) (auto simp: f v dest: b)
qed

text \<open>
  The fields of a boot device number are read back exactly: for a type and partition below 256 and
  an adaptor, controller and unit below 16, each of the five accessors returns the field
  \<open>MAKEBOOTDEV\<close> was given.
\<close>

theorem bootdev_roundtrip:
  assumes "bootdev_ok t a c u p"
  shows "B_TYPE (MAKEBOOTDEV t a c u p) = t \<and> B_PARTITION (MAKEBOOTDEV t a c u p) = p
    \<and> B_UNIT (MAKEBOOTDEV t a c u p) = u \<and> B_CONTROLLER (MAKEBOOTDEV t a c u p) = c
    \<and> B_ADAPTOR (MAKEBOOTDEV t a c u p) = a"
  using bootdev_fields [OF assms] by simp

theorem bootdev_roundtrip_witness: "B_UNIT (MAKEBOOTDEV 4 0 0 9 15) = 9"
  using bootdev_roundtrip [of 4 0 0 9 15] by (simp add: bootdev_ok_def)

section \<open>Opening by name\<close>

lemma parse_dev_two:
  assumes "length dev = 2" "un < 10" "prt < 16" "CHR '':'' \<notin> set dev"
  shows "parse_dev (dev @ [char_of (48 + un), char_of (97 + prt), CHR '':''] @ rest) = Ret (Inr (2, un, prt))"
proof -
  obtain a b where "dev = [a, b]" using assms(1) by (auto simp: numeral_2_eq_2 length_Suc_conv)
  moreover have "of_char (char_of (48 + un) :: char) = 48 + un" "of_char (char_of (97 + prt) :: char) = 97 + prt"
    using assms by (simp_all add: of_char_of)
  ultimately show ?thesis
    using assms(2,3) by (simp add: parse_dev_def str_at_def char_between_def nth_Cons')
qed

lemma find_index_Some:
  "find_index P xs = Some i \<Longrightarrow> i < length xs \<and> P (xs ! i) \<and> (\<forall>j < i. \<not> P (xs ! j))"
proof (induction xs arbitrary: i)
  case (Cons x xs)
  then show ?case by (cases i) (auto split: if_splits simp: less_Suc_eq_0_disj)
qed simp

lemma efiopen_disk_name:
  assumes "parse_dev name = Ret (Inr (devlen, un, prt))" "drop (devlen + 3) name = rest" "rest \<noteq> []"
    and "\<not> strn_eq 2 ''sr'' name"
  shows "efiopen ops name f w = obind (open_disk devlen un prt name rest (f\<lparr>f_devdata := None\<rparr>) w)
    (\<lambda>(e, f', w'). Ret (e, rest, f', w'))"
  using assms by (auto simp add: efiopen_def Let_def)

lemma fix_bootdev_fields:
  assumes "un < 16" "prt < 16"
  shows "B_PARTITION (bsddev (fix_bootdev un prt dip)) = of_nat prt" "B_UNIT (bsddev (fix_bootdev un prt dip)) = of_nat un"
    "B_TYPE (bsddev (fix_bootdev un prt dip)) = B_TYPE (bsd_dev (bios_info dip))"
    "B_UNIT (bootdev (fix_bootdev un prt dip)) = B_UNIT (bsd_dev (bios_info dip))"
    "B_PARTITION (bootdev (fix_bootdev un prt dip)) = of_nat prt"
proof -
  have m: "unat (w AND mask n) < 2 ^ n" for w :: u32 and n
  proof -
    have "uint (w AND mask n) < 2 ^ n" by (rule and_mask_lt_2p)
    then have "int (unat (w AND mask n)) < int (2 ^ n)" by simp
    then show ?thesis by (simp only: of_nat_less_iff)
  qed
  have b: "unat (B_TYPE v) < 2 ^ 8" "unat (B_ADAPTOR v) < 2 ^ 4" "unat (B_CONTROLLER v) < 2 ^ 4" "unat (B_UNIT v) < 2 ^ 4" for v
    unfolding B_TYPE_def B_ADAPTOR_def B_CONTROLLER_def B_UNIT_def low_masks by (rule m)+
  have n: "unat (of_nat un :: u32) = un" "unat (of_nat prt :: u32) = prt"
    using assms by (simp_all add: unat_of_nat_small)
  let ?b = "bsd_dev (bios_info dip)"
  have "bootdev_ok (B_TYPE ?b) (B_ADAPTOR ?b) (B_CONTROLLER ?b) (of_nat un) (of_nat prt)"
    "bootdev_ok (B_TYPE ?b) (B_ADAPTOR ?b) (B_CONTROLLER ?b) (B_UNIT ?b) (of_nat prt)"
    using b [of ?b] n assms by (simp_all add: bootdev_ok_def)
  then show "B_PARTITION (bsddev (fix_bootdev un prt dip)) = of_nat prt" "B_UNIT (bsddev (fix_bootdev un prt dip)) = of_nat un"
    "B_TYPE (bsddev (fix_bootdev un prt dip)) = B_TYPE (bsd_dev (bios_info dip))"
    "B_UNIT (bootdev (fix_bootdev un prt dip)) = B_UNIT (bsd_dev (bios_info dip))"
    "B_PARTITION (bootdev (fix_bootdev un prt dip)) = of_nat prt"
    by (simp_all add: fix_bootdev_def Let_def bootdev_fields)
qed

lemma efiopen_disk:
  assumes dev: "dev \<in> {''wd'', ''sd'', ''hd''}" and un: "un < 10" and prt: "prt < 16" and rest: "rest \<noteq> []"
    and found: "find_index (\<lambda>dip. bios_number (bios_info dip) = of_nat un OR 0x80) (disklist w) = Some i"
  shows "efiopen ops (dev @ [char_of (48 + un), char_of (97 + prt), CHR '':''] @ rest) f w
      = Ret (0, rest, f\<lparr>f_devdata := Some (Disk i)\<rparr>,
          w\<lparr>bootdev_dip := Some (Disk i), disklist := (disklist w)[i := fix_bootdev un prt (disklist w ! i)]\<rparr>)"
proof -
  let ?name = "dev @ [char_of (48 + un), char_of (97 + prt), CHR '':''] @ rest"
  have p: "parse_dev ?name = Ret (Inr (2, un, prt))"
    using dev un prt by (intro parse_dev_two) auto
  have d: "drop (2 + 3) ?name = rest" "\<not> strn_eq 2 ''sr'' ?name"
    using dev by (auto simp: strn_eq_def)
  have "\<exists>maj. find_index (strn_eq 2 ?name) bdevs = Some maj \<and> (maj = 0 \<or> maj = 4 \<or> maj = 17)"
    using dev by (auto simp: bdevs_def strn_eq_def)
  then obtain maj where "find_index (strn_eq 2 ?name) bdevs = Some maj" "bios_of maj un w = Some (of_nat un OR 0x80)"
    by (auto simp: bios_of_def)
  then show ?thesis
    using found efiopen_disk_name [OF p d(1) rest d(2), of ops f w] by (simp add: open_disk_def)
qed

text \<open>
  Opening \<open>wd\<close>, \<open>sd\<close> or \<open>hd\<close> with a unit digit, a partition letter and a path opens the first disk
  with BIOS number 0x80 + unit: the call succeeds, the path is what is left of the name, the disk
  becomes the boot disk, its device numbers carry the partition (and, for the BSD one, the unit)
  asked for, and no other disk changes.
\<close>

theorem efiopen_opens_disk:
  assumes dev: "dev \<in> {''wd'', ''sd'', ''hd''}" and un: "un < 10" and prt: "prt < 16" and rest: "rest \<noteq> []"
    and found: "find_index (\<lambda>dip. bios_number (bios_info dip) = of_nat un OR 0x80) (disklist w) = Some i"
  shows "\<exists>w'. efiopen ops (dev @ [char_of (48 + un), char_of (97 + prt), CHR '':''] @ rest) f w
      = Ret (0, rest, f\<lparr>f_devdata := Some (Disk i)\<rparr>, w')
    \<and> bootdev_dip w' = Some (Disk i) \<and> length (disklist w') = length (disklist w)
    \<and> B_PARTITION (bsddev (disklist w' ! i)) = of_nat prt \<and> B_UNIT (bsddev (disklist w' ! i)) = of_nat un
    \<and> B_PARTITION (bootdev (disklist w' ! i)) = of_nat prt
    \<and> B_UNIT (bootdev (disklist w' ! i)) = B_UNIT (bsd_dev (bios_info (disklist w ! i)))
    \<and> (\<forall>j. j \<noteq> i \<longrightarrow> disklist w' ! j = disklist w ! j)"
proof -
  have "i < length (disklist w)" using find_index_Some [OF found] by simp
  then show ?thesis
    using efiopen_disk [OF assms, of ops f] fix_bootdev_fields [of un prt "disklist w ! i"] un prt by simp
qed

definition ops0 :: sr_ops where
  "ops0 = \<lparr>sr_crypto_decrypt_keys = (\<lambda>bv. (1, bv)), sr_getdisklabel = (\<lambda>bv l. (Some no_label, l)),
     sr_strategy = (\<lambda>i rw blk sz buf. Ret (5, buf, 0))\<rparr>"

definition w1 :: efi_world where
  "w1 = \<lparr>disklist = [two_disk 0, two_disk 1], sr_volumes = [], bootdev_dip = None, bios_bootdev = 0\<rparr>"

theorem efiopen_opens_disk_witness:
  "\<exists>w'. efiopen ops0 (''sd'' @ [char_of (48 + 1 :: nat), char_of (97 + 0 :: nat), CHR '':''] @ ''/bsd'') \<lparr>f_devdata = None, f_raw = False\<rparr> w1
     = Ret (0, ''/bsd'', \<lparr>f_devdata = Some (Disk 1), f_raw = False\<rparr>, w')"
  using efiopen_opens_disk [of "''sd''" 1 0 "''/bsd''" w1 1 ops0 "\<lparr>f_devdata = None, f_raw = False\<rparr>"]
  by (auto simp: w1_def two_disk_def zero_bios_def)

text \<open>
  An unknown device name is not reported but runs the loader off the end of the name: after the
  device part has been cut off, the loop that prints the name searches the rest for a colon; when
  there is none it reads beyond the terminating zero.
\<close>

theorem efiopen_unknown_overruns:
  assumes "length dev = 2" "dev \<notin> set bdevs" "dev \<noteq> ''sr''" "CHR '':'' \<notin> set dev" "(un :: nat) < 10" "(prt :: nat) < 16"
    and "rest \<noteq> []" "CHR '':'' \<notin> set rest"
  shows "efiopen ops (dev @ [char_of (48 + un), char_of (97 + prt), CHR '':''] @ rest) f w = Undef"
proof -
  let ?name = "dev @ [char_of (48 + un), char_of (97 + prt), CHR '':''] @ rest"
  have p: "parse_dev ?name = Ret (Inr (2, un, prt))" by (rule parse_dev_two [OF assms(1,5,6,4)])
  obtain a b where ab: "dev = [a, b]" using assms(1) by (auto simp: numeral_2_eq_2 length_Suc_conv)
  have "find_index (strn_eq 2 ?name) bdevs = None"
    using assms(2) ab by (simp add: bdevs_def strn_eq_def)
  then have "open_disk 2 un prt ?name rest (f\<lparr>f_devdata := None\<rparr>) w = Undef"
    using assms(8) by (simp add: open_disk_def)
  moreover have "drop (2 + 3) ?name = rest" "\<not> strn_eq 2 ''sr'' ?name"
    using ab assms(3) by (auto simp: strn_eq_def)
  ultimately show ?thesis
    using efiopen_disk_name [OF p _ assms(7), of ops f w] by simp
qed

theorem efiopen_unknown_overruns_witness:
  "efiopen ops0 (''xd'' @ [char_of (48 + 0 :: nat), char_of (97 + 0 :: nat), CHR '':''] @ ''/bsd'') \<lparr>f_devdata = None, f_raw = False\<rparr> w1 = Undef"
  by (rule efiopen_unknown_overruns) (simp_all add: bdevs_def)

section \<open>Reading a partition\<close>

lemma unat_nsectors: "unat sz + 511 < 2 ^ 64 \<Longrightarrow> unat (nsectors sz) = (unat sz + 511) div 512"
  unfolding nsectors_def by (simp add: unat_div_distrib unat_plus_small)

lemma efistrategy_medium:
  assumes dip: "sr_vol dip = None" "efi_info dip = Some ed" "unat (B_PARTITION (bsddev dip)) < 16"
    and md: "medium ed m nblk" "iblk_ok ed ib"
    and s: "s = unat blk + unat (p_offset (disklabel_of dip) (unat (B_PARTITION (bsddev dip))))" "s < 2 ^ 31"
      "s mod unat (EFI_BLKSPERSEC ed) = 0"
    and n: "n = (unat sz + 511) div 512" "s + n \<le> nblk * unat (EFI_BLKSPERSEC ed)" "512 * n < 2 ^ 32"
      "512 * n \<le> length buf"
  shows "\<exists>ib'. efistrategy ops dip F_READ blk sz buf ib =
    Ret (0, secs m s n @ drop (512 * n) buf, of_nat (512 * n), ib') \<and> iblk_ok ed ib'"
proof -
  let ?off = "p_offset (disklabel_of dip) (unat (B_PARTITION (bsddev dip)))"
  have "unat sz < 512 * n + 1" using n(1) by linarith
  then have sz: "unat sz + 511 < 2 ^ 64" using n(3) by simp
  then have ns: "unat (nsectors sz) = n" using n(1) by (simp add: unat_nsectors)
  have nu: "unat (ucast (nsectors sz) :: u32) = n"
    using ns n(3) by (simp add: unsigned_ucast_eq take_bit_nat_eq_self)
  have b: "unat (blk + ?off) = s" using s(1,2) by (simp add: unat_plus_small)
  then have "sint (blk + ?off) = int s" using s(2) by (simp add: sint_small)
  then have pos: "\<not> sint (blk + ?off) < 0" by simp
  have "nsectors sz = of_nat n"
    using ns n(3) by (intro word_unat_eq_iff [THEN iffD2]) (simp add: unat_of_nat_small)
  then have rs: "nsectors sz * 512 = of_nat (512 * n)" by (simp add: mult.commute)
  have len: "length (secs m s n) = 512 * n" using md(1) by (intro length_secs) (simp add: medium_def)
  have "efid_io F_READ ed (blk + ?off) (ucast (nsectors sz)) buf ib =
      Ret (True, overlay buf 0 (secs m s n), iblk_after ed ib)"
    using efid_io_aligned [OF md, of "blk + ?off" "ucast (nsectors sz)" buf] b nu s(3) n by simp
  then have "diskio F_READ dip (blk + ?off) (ucast (nsectors sz)) buf ib =
      Ret (0, secs m s n @ drop (512 * n) buf, iblk_after ed ib)"
    using dip(2) len by (simp add: diskio_def efid_diskio_def overlay_def)
  then show ?thesis
    using dip(1,3) pos rs md(2) by (intro exI [of _ "iblk_after ed ib"]) (simp add: efistrategy_def Let_def MAXPARTITIONS_def)
qed

text \<open>
  Reading from an open partition: for a block that lies, with the partition's offset, on a block
  boundary of the medium, \<open>efistrategy\<close> returns success and the sectors of the partition, as many as
  hold the size asked for; the number of bytes it reports is the size rounded up to 512 and the rest of the
  buffer is unchanged.
\<close>

theorem efistrategy_reads:
  assumes dip: "sr_vol dip = None" "efi_info dip = Some ed" "unat (B_PARTITION (bsddev dip)) < 16"
    and md: "medium ed m nblk" "iblk_ok ed ib"
    and s: "s = unat blk + unat (p_offset (disklabel_of dip) (unat (B_PARTITION (bsddev dip))))" "s < 2 ^ 31"
      "s mod unat (EFI_BLKSPERSEC ed) = 0"
    and n: "n = (unat sz + 511) div 512" "s + n \<le> nblk * unat (EFI_BLKSPERSEC ed)" "512 * n < 2 ^ 32"
      "512 * n \<le> length buf"
  shows "\<exists>ib'. efistrategy ops dip F_READ blk sz buf ib =
    Ret (0, secs m s n @ drop (512 * n) buf, of_nat (512 * n), ib') \<and> iblk_ok ed ib'"
  using assms by (rule efistrategy_medium)

theorem efistrategy_reads_witness:
  "\<exists>ib'. efistrategy ops0 (efid_init (disk_4k (\<lambda>i. replicate 512 (of_nat i)))) F_READ 8 700 (replicate 2000 1) No_iblk =
    Ret (0, secs (\<lambda>i. replicate 512 (of_nat i)) 8 2 @ replicate 976 1, 1024, ib')"
proof -
  let ?ed = "disk_4k (\<lambda>i. replicate 512 (of_nat i))"
  have p: "p_offset (disklabel_of (efid_init ?ed)) 0 = 0"
    by (simp add: efid_init_def p_offset_def bytes_at_def le_dec_zeros sizeof_disklabel_def)
  have "medium ?ed (\<lambda>i. replicate 512 (of_nat i)) 4" by (rule disk_4k_medium) simp
  moreover have "sr_vol (efid_init ?ed) = None" "efi_info (efid_init ?ed) = Some ?ed" "B_PARTITION (bsddev (efid_init ?ed)) = 0"
    "iblk_ok ?ed No_iblk"
    by (simp_all add: efid_init_def B_PARTITION_def iblk_ok_def)
  ultimately have "\<exists>ib'. efistrategy ops0 (efid_init ?ed) F_READ 8 700 (replicate 2000 1) No_iblk =
      Ret (0, secs (\<lambda>i. replicate 512 (of_nat i)) 8 2 @ drop (512 * 2) (replicate 2000 1), of_nat (512 * 2), ib') \<and> iblk_ok ?ed ib'"
    using p by (intro efistrategy_reads [where nblk = 4]) simp_all
  then show ?thesis by auto
qed

section \<open>Disks without a label\<close>

text \<open>
  A disk without a label can get the device number of another disk. The device type is not reset
  in the loop of the EFI probe (the BIOS probe sets it to zero there): after a first disk with a SCSI
  label, a second one without a label is numbered from the other counter but keeps the SCSI type, so
  both disks become unit 0 of type 4.
\<close>

theorem unlabelled_disk_shares_number:
  assumes "efi_info d1 = Some e1" "efi_getdisklabel e1 (junk 0) (disklabel_of d1) ib = Ret (None, l1, ib1)"
    and "d_type l1 = DTYPE_SCSI"
    and "efi_info d2 = Some e2" "efi_getdisklabel e2 (junk 1) (disklabel_of d2) ib1 = Ret (Some msg, l2, ib2)"
  shows "\<exists>r1 r2. efi_hardprobe junk [d1, d2] ib = Ret ([r1, r2], ib2)
    \<and> bsd_dev (bios_info r1) = bsd_dev (bios_info r2) \<and> bsd_dev (bios_info r2) = MAKEBOOTDEV 4 0 0 0 2"
  using assms
  by (simp add: efi_hardprobe_def probe_disk_def classify_def probe0_def RAW_PART_def)

text \<open>A disk with an OpenBSD partition at sector 8 whose label says SCSI.\<close>

definition scsi_label :: label where
  "scsi_label = le_enc 4 0x82564557 @ le_enc 2 4 @ replicate 126 0 @ le_enc 4 0x82564557 @ replicate 272 0"

definition scsi_disk :: efi_diskinfo where
  "scsi_disk = \<lparr>BlockSize = 512, LastBlock = 63, ReadOnly = False,
     ReadBlocks = (\<lambda>lba n. Some (if lba = 0 then obsd_mbr else seal scsi_label @ replicate 104 0))\<rparr>"

lemma scsi_disk_label:
  assumes "length junk = 512"
  shows "efi_getdisklabel scsi_disk junk l ib = Ret (None, seal scsi_label, ib)"
proof -
  have mbr: "length obsd_mbr = 512" "dmbr_sign obsd_mbr = DOSMBR_SIGNATURE" "dp_typ (dec_dos obsd_mbr 0) = DOSPTYP_OPENBSD"
    "dp_size (dec_dos obsd_mbr 0) = 16" "dp_start (dec_dos obsd_mbr 0) = 8"
    by (simp_all add: obsd_mbr_def dmbr_sign_def dec_dos_def DOSMBR_SIGNATURE_def DOSPTYP_OPENBSD_def bytes_at_def le_enc_numeral)
  have len: "length scsi_label = sizeof_disklabel" by (simp add: scsi_label_def sizeof_disklabel_def)
  then have lab: "length (seal scsi_label @ replicate 104 0) = 512"
    using length_seal by (simp add: sizeof_disklabel_def)
  have io: "efid_io F_READ scsi_disk 0 1 (replicate 512 0) ib = Ret (True, obsd_mbr, ib)"
    "efid_io F_READ scsi_disk 9 1 junk ib = Ret (True, seal scsi_label @ replicate 104 0, ib)"
    using efid_io_sector [of scsi_disk "replicate 512 0" 0 ib] efid_io_sector [of scsi_disk junk 9 ib] mbr(1) lab assms
    by (simp_all add: scsi_disk_def)
  moreover have "[0..<4] = [0, 1, 2, 3 :: nat]" by (simp add: upt_rec)
  ultimately have "find_loop (Suc n) scsi_disk junk 0 0 ib = Ret (None, 8, ib)" for n
    using mbr by simp
  from this [of 255] have f: "findopenbsd scsi_disk junk ib = Ret (None, 8, ib)"
    by (simp add: findopenbsd_def DOS_MAXEBR_def)
  have "d_npartitions scsi_label = 0"
    by (simp add: d_npartitions_def scsi_label_def layout) (simp add: bytes_at_def le_dec_zeros)
  moreover have "has_magic scsi_label"
    by (simp add: has_magic_def d_magic_def d_magic2_def scsi_label_def layout le_dec_enc DISKMAGIC_def)
  ultimately have "getdisklabel (seal scsi_label @ replicate 104 0) = Ret (None, Some (seal scsi_label))"
    by (intro getdisklabel_sealed [OF len]) (simp_all add: DEV_BSIZE_def sizeof_disklabel_def)
  then show ?thesis using f io(2) by (simp add: efi_getdisklabel_def LABELSECTOR_def)
qed

theorem unlabelled_disk_shares_number_witness:
  "\<exists>r1 r2. efi_hardprobe (\<lambda>_. replicate 512 0) [efid_init scsi_disk, dead_disk] No_iblk = Ret ([r1, r2], No_iblk)
    \<and> bsd_dev (bios_info r1) = bsd_dev (bios_info r2)"
proof -
  let ?e2 = "\<lparr>BlockSize = 512, LastBlock = 0, ReadOnly = True, ReadBlocks = (\<lambda>_ _. None)\<rparr> :: efi_diskinfo"
  have "d_type (seal scsi_label) = d_type scsi_label"
    by (simp add: d_type_def seal_def Let_def bytes_at_overlay_outside' length_overlay scsi_label_def sizeof_disklabel_def)
  also have "\<dots> = DTYPE_SCSI"
    by (simp add: d_type_def scsi_label_def layout le_dec_enc DTYPE_SCSI_def)
  finally have ty: "d_type (seal scsi_label) = DTYPE_SCSI" .
  have e: "efi_info (efid_init scsi_disk) = Some scsi_disk" "efi_info dead_disk = Some ?e2"
    by (simp_all add: efid_init_def dead_disk_def)
  from unlabelled_disk_shares_number [OF e(1) scsi_disk_label ty e(2) dead_disk_label, of "\<lambda>_. replicate 512 0" No_iblk]
  show ?thesis by auto
qed

end
