(* ===== verification/Efi_Path.thy ===== *)
theory Efi_Path
  imports Efi_Open
begin

text \<open>
  The boot device of the EFI boot program: the loop of \<open>efi_main\<close> over the device path of the image, and
  \<open>efi_diskprobe\<close>, which lists the disks of the firmware with the boot disk in front (\<open>efiboot.c\<close>). The
  position in the list is the BIOS number the disk gets later. A device path is the list of its nodes before
  the end node; the answers of the firmware are the arguments. The theorems: the order of the list,
  that a boot node of one disk only makes that disk number 0x80, and that the loop of \<open>efi_main\<close> does
  not look for a hard drive node: it takes a first node of another type that has the subtype of one.
\<close>

section \<open>Device paths\<close>

record dp_node =
  dp_type :: nat
  dp_subtype :: nat
  dp_data :: "u8 list"

definition MEDIA_DEVICE_PATH :: nat where "MEDIA_DEVICE_PATH = 4"
definition MEDIA_HARDDRIVE_DP :: nat where "MEDIA_HARDDRIVE_DP = 1"
definition ACPI_DEVICE_PATH :: nat where "ACPI_DEVICE_PATH = 2"
definition ACPI_DP :: nat where "ACPI_DP = 1"

text \<open>The loop of \<open>efi_main\<close>: the node \<open>efi_bootdp\<close> is set to, if any.\<close>

fun bootdp_loop :: "dp_node list \<Rightarrow> dp_node option" where
  "bootdp_loop [] = None"
| "bootdp_loop (dp # dps) =
     (if dp_type dp mod 128 = MEDIA_DEVICE_PATH then bootdp_loop dps
      else if dp_subtype dp = MEDIA_HARDDRIVE_DP then Some dp
      else None)"

text \<open>
  \<open>efi_bootdp\<close> and \<open>bios_bootdev\<close> after the loop; \<open>None\<close> as the argument: the firmware has no
  device path for the image. \<open>dev0\<close> is the initial value of \<open>bios_bootdev\<close>.
\<close>

definition boot_node :: "dp_node list option \<Rightarrow> u32 \<Rightarrow> dp_node option \<times> u32" where
  "boot_node dp0 dev0 =
     (case dp0 of None \<Rightarrow> (None, dev0)
      | Some dps \<Rightarrow> (case bootdp_loop dps of None \<Rightarrow> (None, dev0) | Some dp \<Rightarrow> (Some dp, 0x80)))"

section \<open>efi_diskprobe\<close>

text \<open>
  A handle with the block protocol: whether its medium is a partition, its disk, and the device path.
\<close>

record blk_handle =
  h_logical :: bool
  h_blkio :: efi_diskinfo
  h_path :: "dp_node list option"

text \<open>Two comparisons of memory, of the header and of the node, against each node of the path.\<close>

fun path_has :: "dp_node \<Rightarrow> dp_node list \<Rightarrow> bool" where
  "path_has b [] = False"
| "path_has b (dp # dps) =
     ((dp_type b = dp_type dp \<and> dp_subtype b = dp_subtype dp \<and> length (dp_data b) = length (dp_data dp)
        \<and> take (length (dp_data dp)) (dp_data b) = dp_data dp) \<or> path_has b dps)"

definition is_bootdev :: "dp_node option \<Rightarrow> blk_handle \<Rightarrow> bool" where
  "is_bootdev bootdp h =
     (case bootdp of None \<Rightarrow> False
      | Some b \<Rightarrow> (case h_path h of None \<Rightarrow> False | Some dps \<Rightarrow> path_has b dps))"

text \<open>A handle that does not give the block protocol makes the program panic.\<close>

fun diskprobe_loop :: "dp_node option \<Rightarrow> blk_handle option list \<Rightarrow> diskinfo list \<Rightarrow> diskinfo list outcome" where
  "diskprobe_loop bootdp [] l = Ret l"
| "diskprobe_loop bootdp (None # hs) l = Exit 1"
| "diskprobe_loop bootdp (Some h # hs) l =
     (if h_logical h then diskprobe_loop bootdp hs l
      else let di = efid_init (h_blkio h) in
        diskprobe_loop bootdp hs (if is_bootdev bootdp h then di # l else l @ [di]))"

text \<open>\<open>None\<close>: the firmware gives no handles, and the program panics.\<close>

definition efi_diskprobe :: "dp_node option \<Rightarrow> blk_handle option list option \<Rightarrow> diskinfo list outcome" where
  "efi_diskprobe bootdp hs = (case hs of None \<Rightarrow> Exit 1 | Some l \<Rightarrow> diskprobe_loop bootdp l [])"

section \<open>The order of the disks\<close>

definition disks_where :: "(blk_handle \<Rightarrow> bool) \<Rightarrow> blk_handle list \<Rightarrow> diskinfo list" where
  "disks_where P hs = map (\<lambda>h. efid_init (h_blkio h)) (filter (\<lambda>h. \<not> h_logical h \<and> P h) hs)"

lemma diskprobe_loop_eq:
  "diskprobe_loop bootdp (map Some hs) l =
     Ret (rev (disks_where (is_bootdev bootdp) hs) @ l @ disks_where (\<lambda>h. \<not> is_bootdev bootdp h) hs)"
  by (induction hs arbitrary: l) (auto simp: disks_where_def Let_def)

lemma path_has_member: "path_has b dps \<longleftrightarrow> b \<in> set dps"
  by (induction dps) auto

text \<open>
  C29: the boot disk is the first disk. When the boot node occurs in the device path of exactly one disk of
  the firmware that is not a partition, the list of efi_diskprobe begins with that disk, followed by
  the others in the order of the firmware, and after a successful probe of at most 128 disks it is the disk
  found under the number 0x80 that efi_main passes to boot.
\<close>

theorem boot_disk_is_first:
  assumes "boot_node (Some dps) dev0 = (Some b, dev)"
    and "filter (\<lambda>h. \<not> h_logical h \<and> is_bootdev (Some b) h) hs = [h]"
    and "efi_diskprobe (Some b) (Some (map Some hs)) = Ret disks"
    and "efi_hardprobe junk disks ib = Ret (dl, ib')"
    and "length disks \<le> 128"
  shows "disks = efid_init (h_blkio h) # disks_where (\<lambda>h. \<not> is_bootdev (Some b) h) hs
    \<and> (\<exists>d. dklookup dl dev = Some d \<and> efi_info d = Some (h_blkio h))"
proof -
  have l: "disks = efid_init (h_blkio h) # disks_where (\<lambda>h. \<not> is_bootdev (Some b) h) hs"
    using assms(2,3) by (simp add: efi_diskprobe_def diskprobe_loop_eq disks_where_def)
  have "dev = 0x80"
    using assms(1) by (auto simp: boot_node_def split: option.splits)
  moreover have "dklookup dl (0x80 OR of_nat 0) = Some (dl ! 0) \<and> efi_info (dl ! 0) = efi_info (disks ! 0)"
    by (rule dklookup_probed [OF assms(4,5)]) (simp add: l)
  ultimately show ?thesis
    using l by (simp add: efid_init_def)
qed

definition hd_node0 :: dp_node where
  "hd_node0 = \<lparr>dp_type = 3, dp_subtype = 1, dp_data = [0, 0, 0, 0]\<rparr>"

definition handles0 :: "blk_handle list" where
  "handles0 = [\<lparr>h_logical = False, h_blkio = the (efi_info dead_disk), h_path = None\<rparr>,
     \<lparr>h_logical = False, h_blkio = the (efi_info dead_disk), h_path = Some [hd_node0]\<rparr>,
     \<lparr>h_logical = True, h_blkio = the (efi_info dead_disk), h_path = Some [hd_node0]\<rparr>]"

lemma dead_disk_init: "efid_init (the (efi_info dead_disk)) = dead_disk"
  by (simp add: dead_disk_def efid_init_def)

theorem boot_disk_is_first_witness:
  "boot_node (Some [hd_node0]) 0 = (Some hd_node0, 0x80) \<and>
   (\<exists>dl ib'. efi_hardprobe (\<lambda>_. []) [dead_disk, dead_disk] No_iblk = Ret (dl, ib')
     \<and> (\<exists>d. dklookup dl 0x80 = Some d \<and> efi_info d = efi_info dead_disk))"
proof
  show b: "boot_node (Some [hd_node0]) 0 = (Some hd_node0, 0x80)"
    by (simp add: boot_node_def hd_node0_def MEDIA_DEVICE_PATH_def MEDIA_HARDDRIVE_DP_def)
  obtain dl ib' where dl: "efi_hardprobe (\<lambda>_. []) [dead_disk, dead_disk] No_iblk = Ret (dl, ib')"
    using dead_disks_probe by blast
  have f: "filter (\<lambda>h. \<not> h_logical h \<and> is_bootdev (Some hd_node0) h) handles0
      = [\<lparr>h_logical = False, h_blkio = the (efi_info dead_disk), h_path = Some [hd_node0]\<rparr>]"
    by (simp add: handles0_def is_bootdev_def hd_node0_def)
  have l: "efi_diskprobe (Some hd_node0) (Some (map Some handles0)) = Ret [dead_disk, dead_disk]"
    by (simp add: efi_diskprobe_def handles0_def is_bootdev_def hd_node0_def dead_disk_init)
  have "\<exists>d. dklookup dl 0x80 = Some d \<and> efi_info d = Some (the (efi_info dead_disk))"
    using boot_disk_is_first [OF b f l dl] by simp
  then show "\<exists>dl ib'. efi_hardprobe (\<lambda>_. []) [dead_disk, dead_disk] No_iblk = Ret (dl, ib')
     \<and> (\<exists>d. dklookup dl 0x80 = Some d \<and> efi_info d = efi_info dead_disk)"
    using dl by (auto simp: dead_disk_def efid_init_def)
qed

text \<open>
  C39: the boot node is not the hard drive node. For an image whose device path begins, as paths of disks do,
  with the ACPI node of a PCI root bridge, efi_main takes that root node, because the test for the type
  of the node is the wrong way round and only its subtype is compared; and then every disk under the same
  root bridge counts as the boot disk, and efi_diskprobe lists the disks in the opposite order.
\<close>

theorem acpi_root_taken_for_boot_disk:
  assumes "dp_type rb mod 128 = ACPI_DEVICE_PATH" "dp_subtype rb = ACPI_DP"
    and "\<forall>h \<in> set hs. \<exists>dps. h_path h = Some (rb # dps)"
  shows "boot_node (Some (rb # rest)) dev0 = (Some rb, 0x80)
    \<and> efi_diskprobe (Some rb) (Some (map Some hs)) = Ret (rev (disks_where (\<lambda>_. True) hs))"
proof -
  have "filter (\<lambda>h. \<not> h_logical h \<and> is_bootdev (Some rb) h) hs = filter (\<lambda>h. \<not> h_logical h \<and> True) hs"
    using assms(3) by (intro filter_cong refl) (auto simp: is_bootdev_def)
  moreover have "filter (\<lambda>h. \<not> h_logical h \<and> \<not> is_bootdev (Some rb) h) hs = []"
    using assms(3) by (auto simp: is_bootdev_def filter_empty_conv)
  ultimately show ?thesis
    using assms(1,2)
    by (simp add: boot_node_def efi_diskprobe_def diskprobe_loop_eq disks_where_def
        MEDIA_DEVICE_PATH_def MEDIA_HARDDRIVE_DP_def ACPI_DEVICE_PATH_def ACPI_DP_def)
qed

definition root0 :: dp_node where
  "root0 = \<lparr>dp_type = 2, dp_subtype = 1, dp_data = [0xd0, 0x41, 0x03, 0x0a, 0, 0, 0, 0]\<rparr>"

definition handles1 :: "blk_handle list" where
  "handles1 = [\<lparr>h_logical = False, h_blkio = the (efi_info dead_disk), h_path = Some [root0, hd_node0]\<rparr>,
     \<lparr>h_logical = False, h_blkio = the (efi_info dead_disk), h_path = Some [root0]\<rparr>]"

theorem acpi_root_taken_for_boot_disk_witness:
  "boot_node (Some [root0, hd_node0]) 0 = (Some root0, 0x80)
    \<and> efi_diskprobe (Some root0) (Some (map Some handles1)) = Ret (rev (disks_where (\<lambda>_. True) handles1))"
  by (rule acpi_root_taken_for_boot_disk) (simp_all add: root0_def handles1_def ACPI_DEVICE_PATH_def ACPI_DP_def)

end
