(* ===== verification/Libsa_String.thy ===== *)
theory Libsa_String
  imports C_Strings BSD_Prelude "HOL-Library.Signed_Division"
begin

text \<open>
  String functions of the boot program: \<open>sys/lib/libkern/strlcpy.c\<close> and
  \<open>sys/lib/libsa/strtol.c\<close>. A C string is the list of its characters before the terminating zero;
  reading beyond the zero is \<open>Undef\<close>. A \<open>long\<close> has 64 bits and its overflow is \<open>Undef\<close>.
\<close>

section \<open>strlcpy\<close>

text \<open>
  The copy loop: what is stored, whether the terminator was among it, and the rest of the source.
\<close>

fun strlcpy_copy :: "nat \<Rightarrow> string \<Rightarrow> string \<times> bool \<times> string" where
  "strlcpy_copy 0 src = ([], False, src)"
| "strlcpy_copy (Suc n) [] = ([], True, [])"
| "strlcpy_copy (Suc n) (c # src) = (case strlcpy_copy n src of (d, done, rest) \<Rightarrow> (c # d, done, rest))"

text \<open>The string left in the destination (unchanged when it has no room) and the value returned.\<close>

definition strlcpy :: "string \<Rightarrow> string \<Rightarrow> nat \<Rightarrow> string \<times> nat" where
  "strlcpy dst src dsize =
     (if dsize = 0 then (dst, length src)
      else case strlcpy_copy (dsize - 1) src of (d, done, rest) \<Rightarrow> (d, length d + length rest))"

lemma strlcpy_copy_take:
  "strlcpy_copy n src = (take n src, length src < n, drop n src)"
  by (induction n src rule: strlcpy_copy.induct) auto

lemma strlcpy_take: "strlcpy dst src dsize = (if dsize = 0 then dst else take (dsize - 1) src, length src)"
  by (auto simp: strlcpy_def strlcpy_copy_take min_def)

lemma strlcpy_length: "0 < n \<Longrightarrow> length (fst (strlcpy d s n)) < n"
  by (simp add: strlcpy_take)

section \<open>strtol\<close>

definition LONG_MAX :: int where "LONG_MAX = 9223372036854775807"
definition LONG_MIN :: int where "LONG_MIN = -9223372036854775808"

text \<open>The first loop. A string without a printable character has no end for it.\<close>

definition strtol_skipped :: "char \<Rightarrow> bool" where
  "strtol_skipped c \<longleftrightarrow> of_char c \<le> (32 :: nat) \<or> 127 \<le> (of_char c :: nat)"

fun skip_blanks :: "string \<Rightarrow> string outcome" where
  "skip_blanks [] = Undef"
| "skip_blanks (c # s) = (if strtol_skipped c then skip_blanks s else Ret (c # s))"

definition long_op :: "int \<Rightarrow> (int \<Rightarrow> 'a outcome) \<Rightarrow> 'a outcome" where
  "long_op x f = (if LONG_MIN \<le> x \<and> x \<le> LONG_MAX then f x else Undef)"

text \<open>The digit loop, with \<open>any\<close> and what is left when it stops.\<close>

fun digits_loop :: "nat \<Rightarrow> bool \<Rightarrow> int \<Rightarrow> int \<Rightarrow> int \<Rightarrow> int \<Rightarrow> string \<Rightarrow> (int \<times> int \<times> string) outcome" where
  "digits_loop base neg cutoff cutlim acc any [] = Ret (acc, any, [])"
| "digits_loop base neg cutoff cutlim acc any (c # s) =
     (case digit_val c of
        None \<Rightarrow> Ret (acc, any, c # s)
      | Some d \<Rightarrow>
          if base \<le> d then Ret (acc, any, c # s)
          else if any < 0 then digits_loop base neg cutoff cutlim acc any s
          else if neg then
            (if acc < cutoff \<or> acc = cutoff \<and> cutlim < int d
             then digits_loop base neg cutoff cutlim LONG_MIN (- 1) s
             else long_op (acc * int base) (\<lambda>x. long_op (x - int d) (\<lambda>y. digits_loop base neg cutoff cutlim y 1 s)))
          else
            (if cutoff < acc \<or> acc = cutoff \<and> cutlim < int d
             then digits_loop base neg cutoff cutlim LONG_MAX (- 1) s
             else long_op (acc * int base) (\<lambda>x. long_op (x + int d) (\<lambda>y. digits_loop base neg cutoff cutlim y 1 s))))"

text \<open>Limit and last digit, with C's division.\<close>

definition cut_values :: "bool \<Rightarrow> nat \<Rightarrow> int \<times> int" where
  "cut_values neg base =
     (let lim = (if neg then LONG_MIN else LONG_MAX); cl = lim smod int base; co = lim sdiv int base in
      if neg then (if cl > 0 then (co + 1, - (cl - int base)) else (co, - cl)) else (co, cl))"

definition strtol_prefix :: "nat \<Rightarrow> string \<Rightarrow> nat \<times> string" where
  "strtol_prefix base t =
     (let hex = ((base = 0 \<or> base = 16) \<and> t \<noteq> [] \<and> hd t = CHR ''0'' \<and> tl t \<noteq> [] \<and> (hd (tl t) = CHR ''x'' \<or> hd (tl t) = CHR ''X''));
          u = (if hex then drop 2 t else t);
          b = (if hex then 16 else base)
      in (if b = 0 then (if u \<noteq> [] \<and> hd u = CHR ''0'' then 8 else 10) else b, u))"

text \<open>What follows the blanks: the value and what the end pointer leaves.\<close>

definition strtol_tail :: "string \<Rightarrow> nat \<Rightarrow> string \<Rightarrow> (int \<times> string) outcome" where
  "strtol_tail nptr base0 t =
     (case take_sign t of (neg, t') \<Rightarrow>
      case strtol_prefix base0 t' of (base, u) \<Rightarrow>
      case cut_values neg base of (cutoff, cutlim) \<Rightarrow>
        obind (digits_loop base neg cutoff cutlim 0 0 u) (\<lambda>(acc, any, s).
          Ret (acc, if any \<noteq> 0 then s else nptr)))"

definition strtol :: "string \<Rightarrow> nat \<Rightarrow> (int \<times> string) outcome" where
  "strtol nptr base0 = obind (skip_blanks nptr) (strtol_tail nptr base0)"

text \<open>
  \<open>strtoll\<close> of \<open>strtoll.c\<close> differs in the blanks it skips, those of the macro \<open>isspace\<close> of
  \<open>stand.h\<close>, and stops at the terminator.
\<close>

definition sa_strtoll :: "string \<Rightarrow> nat \<Rightarrow> (int \<times> string) outcome" where
  "sa_strtoll nptr base0 = strtol_tail nptr base0 (dropWhile is_blank nptr)"

section \<open>The value is the number, saturated\<close>

definition clamp :: "int \<Rightarrow> int" where
  "clamp v = max LONG_MIN (min LONG_MAX v)"

definition sgn_of :: "bool \<Rightarrow> int" where
  "sgn_of neg = (if neg then - 1 else 1)"

definition magnitude :: "bool \<Rightarrow> nat" where
  "magnitude neg = (if neg then 9223372036854775808 else 9223372036854775807)"

lemma clamp_sgn: "clamp (sgn_of neg * int a) = sgn_of neg * int (min a (magnitude neg))"
  by (cases neg) (auto simp: clamp_def sgn_of_def magnitude_def LONG_MIN_def LONG_MAX_def)

lemma cut_values_eq:
  assumes "0 < base"
  shows "cut_values neg base = (sgn_of neg * int (magnitude neg div base), int (magnitude neg mod base))"
proof -
  have l: "(if neg then LONG_MIN else LONG_MAX) = sgn_of neg * int (magnitude neg)"
    by (simp add: sgn_of_def magnitude_def LONG_MIN_def LONG_MAX_def)
  have nn: "\<not> int m mod int base < 0" for m
    using assms by (simp add: not_less)
  show ?thesis
    unfolding cut_values_def Let_def l
    by (cases neg)
      (use assms nn in \<open>auto simp: sgn_of_def signed_divide_int_def signed_modulo_int_def zdiv_int zmod_int sgn_if\<close>)
qed

text \<open>The comparison with the limits tells exactly whether the next digit leaves the range.\<close>

lemma beyond_limit:
  assumes "d < (b :: nat)"
  shows "(M div b < a \<or> a = M div b \<and> M mod b < d) \<longleftrightarrow> M < a * b + d"
proof -
  have M: "M = M div b * b + M mod b" by simp
  have m: "M mod b < b" using assms by simp
  consider "a < M div b" | "a = M div b" | "M div b < a" by linarith
  then show ?thesis
  proof cases
    case 1
    then have "(a + 1) * b \<le> M div b * b" by (intro mult_le_mono1) simp
    moreover have "M div b * b \<le> M" by simp
    ultimately have "a * b + d \<le> M" using assms by (simp only: distrib_right)
    with 1 show ?thesis by simp
  next
    case 2
    with M show ?thesis by (metis add_less_cancel_left less_irrefl)
  next
    case 3
    then have "(M div b + 1) * b \<le> a * b" by (intro mult_le_mono1) simp
    moreover have "M < M div b * b + b" using M m by linarith
    ultimately have "M < a * b + d" by (simp only: distrib_right)
    with 3 show ?thesis by simp
  qed
qed

lemma digits_loop_saturated:
  "any < 0 \<Longrightarrow> digits_loop base neg co cl acc any s = Ret (acc, any, dropWhile (is_digit base) s)"
  by (induction s) (auto simp: is_digit_def split: option.splits)

definition accumulate :: "nat \<Rightarrow> nat \<Rightarrow> string \<Rightarrow> nat" where
  "accumulate base a ds = a * base ^ length ds + horner base ds"

lemma accumulate_Cons:
  "digit_val c = Some d \<Longrightarrow> accumulate base a (c # ds) = accumulate base (a * base + d) ds"
  using horner_append [of base "[c]" ds] by (simp add: accumulate_def horner_def algebra_simps)

lemma accumulate_ge: "0 < base \<Longrightarrow> a \<le> accumulate base a ds"
  by (simp add: accumulate_def trans_le_add1)

lemma long_op_in_range:
  "a \<le> magnitude neg \<Longrightarrow> long_op (sgn_of neg * int a) f = f (sgn_of neg * int a)"
  by (cases neg) (auto simp: long_op_def sgn_of_def magnitude_def LONG_MIN_def LONG_MAX_def)

text \<open>The test against cutoff and cutlim, and one step of the arithmetic.\<close>

lemma cutoff_test:
  assumes "d < base"
  shows "(if neg then sgn_of neg * int a < sgn_of neg * int (magnitude neg div base)
            \<or> sgn_of neg * int a = sgn_of neg * int (magnitude neg div base) \<and> int (magnitude neg mod base) < int d
          else sgn_of neg * int (magnitude neg div base) < sgn_of neg * int a
            \<or> sgn_of neg * int a = sgn_of neg * int (magnitude neg div base) \<and> int (magnitude neg mod base) < int d)
         \<longleftrightarrow> magnitude neg < a * base + d"
  using beyond_limit [OF assms, of "magnitude neg" a] by (auto simp: sgn_of_def)

lemma digit_step:
  fixes g :: "int \<Rightarrow> (int \<times> int \<times> string) outcome"
  assumes "a * base + d \<le> magnitude neg"
  shows "long_op (sgn_of neg * int a * int base) (\<lambda>x. long_op (if neg then x - int d else x + int d) g)
    = g (sgn_of neg * int (a * base + d))"
proof -
  have e1: "sgn_of neg * int a * int base = sgn_of neg * int (a * base)" by simp
  have e2: "(if neg then sgn_of neg * int (a * base) - int d else sgn_of neg * int (a * base) + int d)
      = sgn_of neg * int (a * base + d)"
    by (simp add: sgn_of_def)
  have "a * base \<le> magnitude neg" using assms by simp
  then show ?thesis unfolding e1 using assms by (simp only: long_op_in_range e2)
qed

lemma digits_loop_value:
  assumes "0 < base" "0 \<le> any" "a \<le> magnitude neg"
  shows "\<exists>any'. digits_loop base neg (sgn_of neg * int (magnitude neg div base)) (int (magnitude neg mod base))
             (sgn_of neg * int a) any s
           = Ret (sgn_of neg * int (min (accumulate base a (takeWhile (is_digit base) s)) (magnitude neg)),
                  any', dropWhile (is_digit base) s)
         \<and> (any' = 0 \<longleftrightarrow> any = 0 \<and> takeWhile (is_digit base) s = [])"
  using assms(2,3)
proof (induction s arbitrary: a any)
  case Nil
  then show ?case by (simp add: accumulate_def horner_def)
next
  case (Cons c s)
  show ?case
  proof (cases "is_digit base c")
    case False
    with Cons show ?thesis
      by (auto simp: is_digit_def accumulate_def horner_def split: option.splits)
  next
    case True
    then obtain d where d: "digit_val c = Some d" "d < base"
      by (auto simp: is_digit_def split: option.splits)
    note lim = cutoff_test [where neg = neg and a = a, OF d(2)]
    show ?thesis
    proof (cases "magnitude neg < a * base + d")
      case True
      with lim Cons.prems d \<open>is_digit base c\<close> accumulate_ge [of base "a * base + d" "takeWhile (is_digit base) s"] show ?thesis
        by (auto simp: digits_loop_saturated accumulate_Cons assms min_absorb2 sgn_of_def magnitude_def LONG_MIN_def LONG_MAX_def
            split: if_splits)
    next
      case False
      note step = digit_step [OF leI [OF False]]
      obtain any' where "digits_loop base neg (sgn_of neg * int (magnitude neg div base)) (int (magnitude neg mod base))
             (sgn_of neg * int (a * base + d)) 1 s
           = Ret (sgn_of neg * int (min (accumulate base (a * base + d) (takeWhile (is_digit base) s)) (magnitude neg)),
                  any', dropWhile (is_digit base) s) \<and> any' \<noteq> 0"
        using Cons.IH [of 1 "a * base + d"] False by auto
      with lim step False Cons.prems d \<open>is_digit base c\<close> show ?thesis
        by (auto simp: accumulate_Cons split: if_splits)
    qed
  qed
qed

text \<open>
  The radix prefix. Both functions read the digits of the same number; a prefix \<open>0x\<close> that no
  digit follows counts as a prefix here and not in libc, which sees the number 0.
\<close>

lemma strtol_tail_ret:
  assumes "take_sign t = (neg, t')" and "strtol_prefix base t' = (b, u)" and "base = 0 \<or> 2 \<le> base"
  shows "strtol_tail s base t = Ret (clamp (sgn_of neg * int (horner b (takeWhile (is_digit b) u))),
           if takeWhile (is_digit b) u = [] then s else dropWhile (is_digit b) u)"
proof -
  have pos: "0 < b"
    using assms(2,3) by (auto simp: strtol_prefix_def Let_def split: if_splits)
  obtain any' where
    "digits_loop b neg (fst (cut_values neg b)) (snd (cut_values neg b)) 0 0 u
     = Ret (clamp (sgn_of neg * int (horner b (takeWhile (is_digit b) u))), any', dropWhile (is_digit b) u)"
    "any' = 0 \<longleftrightarrow> takeWhile (is_digit b) u = []"
    using digits_loop_value [OF pos, of 0 0 neg u]
    by (auto simp: cut_values_eq [OF pos] accumulate_def clamp_sgn)
  then show ?thesis
    by (simp add: strtol_tail_def assms(1,2) split_beta)
qed

lemma skip_blanks_dropWhile:
  "skip_blanks s = (if dropWhile strtol_skipped s = [] then Undef else Ret (dropWhile strtol_skipped s))"
  by (induction s) auto

lemma strtoll_value:
  fixes base :: nat
  assumes "take_sign (dropWhile c_isspace s) = (neg, t)"
  defines "hex \<equiv> (base = 0 \<or> base = 16) \<and> hex_prefix t"
  defines "u \<equiv> if hex then drop 2 t else t"
  defines "b \<equiv> if hex then 16 else if base \<noteq> 0 then base else if u \<noteq> [] \<and> hd u = CHR ''0'' then 8 else 10"
  shows "fst (strtoll base s) = clamp (sgn_of neg * int (horner b (takeWhile (is_digit b) u)))"
proof -
  let ?h = "int (horner b (takeWhile (is_digit b) u))"
  have "fst (strtoll base s) = (if takeWhile (is_digit b) u = [] then 0
      else max LLONG_MIN (min LLONG_MAX (if neg then - ?h else ?h)))"
    unfolding strtoll_def assms(1) Let_def prod.case b_def u_def hex_def by (simp only: if_distrib [of fst] fst_conv)
  also have "\<dots> = clamp (sgn_of neg * ?h)"
    by (simp add: horner_def clamp_def sgn_of_def LLONG_MAX_def LLONG_MIN_def LONG_MAX_def LONG_MIN_def)
  finally show ?thesis .
qed

lemma zero_digits:
  "is_digit 16 (CHR ''0'') \<and> is_digit 8 (CHR ''0'') \<and> \<not> is_digit 16 (CHR ''x'') \<and> \<not> is_digit 16 (CHR ''X'')
   \<and> \<not> is_digit 8 (CHR ''x'') \<and> \<not> is_digit 8 (CHR ''X'')"
  by (simp add: is_digit_def digit_val_def)

lemma strtol_prefix_value:
  fixes base :: nat and t :: string
  assumes "base = 0 \<or> 2 \<le> base"
  defines "bu \<equiv> strtol_prefix base t"
  defines "hex \<equiv> (base = 0 \<or> base = 16) \<and> hex_prefix t"
  defines "u \<equiv> if hex then drop 2 t else t"
  defines "b \<equiv> if hex then 16 else if base \<noteq> 0 then base else if u \<noteq> [] \<and> hd u = CHR ''0'' then 8 else 10"
  shows "horner (fst bu) (takeWhile (is_digit (fst bu)) (snd bu)) = horner b (takeWhile (is_digit b) u)"
proof (cases "hex \<longleftrightarrow> (base = 0 \<or> base = 16) \<and> t \<noteq> [] \<and> hd t = CHR ''0'' \<and> tl t \<noteq> [] \<and> (hd (tl t) = CHR ''x'' \<or> hd (tl t) = CHR ''X'')")
  case True
  then have "fst bu = b \<and> snd bu = u"
    by (auto simp: bu_def b_def u_def strtol_prefix_def Let_def)
  then show ?thesis by simp
next
  case False
  then have "(base = 0 \<or> base = 16) \<and> (\<exists>x r. t = CHR ''0'' # x # r \<and> (x = CHR ''x'' \<or> x = CHR ''X'') \<and> (r = [] \<or> \<not> is_digit 16 (hd r)))"
    by (auto simp: hex_def hex_prefix_def neq_Nil_conv split: list.splits)
  then obtain x r where "base = 0 \<or> base = 16" "t = CHR ''0'' # x # r" "x = CHR ''x'' \<or> x = CHR ''X''"
      "r = [] \<or> \<not> is_digit 16 (hd r)"
    by blast
  note r = this
  have nh: "\<not> hex" using r by (cases r) (simp_all add: hex_def hex_prefix_def)
  have l: "horner (fst bu) (takeWhile (is_digit (fst bu)) (snd bu)) = 0"
    using r by (cases r) (simp_all add: bu_def strtol_prefix_def Let_def horner_def)
  have "b = 16 \<or> b = 8"
    using r nh by (auto simp: b_def u_def)
  then have "takeWhile (is_digit b) u = [CHR ''0'']"
    using r nh zero_digits by (auto simp: u_def)
  then show ?thesis unfolding l by (simp add: horner_def digit_val_def)
qed

text \<open>
  C22: the boot program's strtol returns the value that strtoll(3) of the C library returns for the
  same text without its leading blanks, in every radix: the number read, saturated at the bounds of
  long. No step of its accumulation leaves the range of long, although the comparison with cutoff
  and cutlim precedes the multiplication. The text must have a printable character.
\<close>

theorem strtol_as_libc:
  assumes "base = 0 \<or> 2 \<le> base" and "t = dropWhile strtol_skipped s" and "t \<noteq> []"
  shows "\<exists>r. strtol s base = Ret (fst (strtoll base t), r)"
proof -
  have t: "skip_blanks s = Ret t"
    using assms by (simp add: skip_blanks_dropWhile)
  have "\<not> strtol_skipped (hd t)"
    using assms(2,3) hd_dropWhile by blast
  then have nb: "dropWhile c_isspace t = t"
    using assms(3) by (cases t) (auto simp: strtol_skipped_def c_isspace_def)
  obtain neg t' where sg: "take_sign t = (neg, t')" by fastforce
  obtain b u where pf: "strtol_prefix base t' = (b, u)" by fastforce
  have "fst (strtoll base t) = clamp (sgn_of neg * int (horner b (takeWhile (is_digit b) u)))"
    using strtoll_value [of t neg t' base] strtol_prefix_value [OF assms(1), of t'] sg pf nb by simp
  then show ?thesis
    using strtol_tail_ret [OF sg pf assms(1), of s] t by (simp add: strtol_def)
qed

theorem strtol_as_libc_witness:
  "\<exists>r. strtol '' -0x1F'' 0 = Ret (-31, r)"
  using strtol_as_libc [of 0 "''-0x1F''" "'' -0x1F''"]
  by (simp add: strtol_skipped_def text_eval)

end
