(* ===== verification/Libsa_Printf.thy ===== *)
theory Libsa_Printf
  imports Libsa_String
begin

text \<open>
  Formatted output of the boot program: \<open>sys/lib/libsa/printf.c\<close>, \<open>snprintf.c\<close>,
  \<open>putchar.c\<close>, \<open>cons.c\<close> (the output half) and \<open>strerror.c\<close>, in the configuration of
  the amd64 boot programs (neither \<open>STRIPPED\<close> nor \<open>LIBSA_LONGLONG_PRINTF\<close>). The formatter
  returns the characters it hands to its \<open>put\<close> function. The theorems: every number is printed with
  the digits that read back as it and fits the buffer on the stack, and \<open>snprintf\<close> cuts its output to
  the room it is given.
\<close>

section \<open>Numbers\<close>

definition hexdig :: string where "hexdig = ''0123456789abcdef''"

text \<open>The buffer \<open>buf[(sizeof(long) * NBBY / 3) + 1]\<close>.\<close>

definition KPRINTN_BUF :: nat where "KPRINTN_BUF = 8 * 8 div 3 + 1"

text \<open>
  The two loops of \<open>kprintn\<close>: the first stores the digits from the least significant on, the second
  prints them in the opposite order. The first argument is the room left in the buffer.
\<close>

fun kdigits :: "nat \<Rightarrow> nat \<Rightarrow> nat \<Rightarrow> string outcome" where
  "kdigits 0 base ul = Undef"
| "kdigits (Suc room) base ul =
     (if base = 0 \<or> 16 \<le> ul mod base then Undef
      else if ul div base = 0 then Ret [hexdig ! (ul mod base)]
      else obind (kdigits room base (ul div base)) (\<lambda>s. Ret (s @ [hexdig ! (ul mod base)])))"

definition kprintn :: "u64 \<Rightarrow> nat \<Rightarrow> string outcome" where
  "kprintn ul base = kdigits KPRINTN_BUF base (unat ul)"

section \<open>The formatter\<close>

text \<open>
  Arguments of a call. An argument of 64 bits read by a conversion of 32 bits gives its low half (the
  calling convention of amd64); the opposite has no defined upper half.
\<close>

datatype parg = PInt u32 | PLong u64 | PStr string

definition take_int :: "parg list \<Rightarrow> (u32 \<Rightarrow> parg list \<Rightarrow> 'a outcome) \<Rightarrow> 'a outcome" where
  "take_int ap f = (case ap of PInt w # r \<Rightarrow> f w r | PLong w # r \<Rightarrow> f (ucast w) r | _ \<Rightarrow> Undef)"

definition take_long :: "parg list \<Rightarrow> (u64 \<Rightarrow> parg list \<Rightarrow> 'a outcome) \<Rightarrow> 'a outcome" where
  "take_long ap f = (case ap of PLong w # r \<Rightarrow> f w r | _ \<Rightarrow> Undef)"

definition take_str :: "parg list \<Rightarrow> (string \<Rightarrow> parg list \<Rightarrow> 'a outcome) \<Rightarrow> 'a outcome" where
  "take_str ap f = (case ap of PStr s # r \<Rightarrow> f s r | _ \<Rightarrow> Undef)"

text \<open>The argument of a numeric conversion, widened to \<open>unsigned long\<close>.\<close>

definition take_signed :: "nat \<Rightarrow> parg list \<Rightarrow> (u64 \<Rightarrow> parg list \<Rightarrow> 'a outcome) \<Rightarrow> 'a outcome" where
  "take_signed lflag ap f = (if lflag > 0 then take_long ap f else take_int ap (\<lambda>w. f (scast w)))"

definition take_unsigned :: "nat \<Rightarrow> parg list \<Rightarrow> (u64 \<Rightarrow> parg list \<Rightarrow> 'a outcome) \<Rightarrow> 'a outcome" where
  "take_unsigned lflag ap f = (if lflag > 0 then take_long ap f else take_int ap (\<lambda>w. f (ucast w)))"

text \<open>The names after a \<open>%b\<close>: a bit number, then characters above a blank.\<close>

function bit_names :: "u64 \<Rightarrow> bool \<Rightarrow> string \<Rightarrow> string outcome" where
  "bit_names ul some [] = Ret (if some then ''>'' else [])"
| "bit_names ul some (n # p) =
     (let name = takeWhile (\<lambda>c. (32 :: nat) < of_char c \<and> of_char c < (128 :: nat)) p; rest = drop (length name) p in
      if (of_char n :: nat) = 0 \<or> 32 < (of_char n :: nat) then Undef
      else if bit ul (of_char n - 1) \<or> (of_char n :: nat) = 32 \<and> ul AND 0xFFFFFFFF80000000 \<noteq> 0
      then obind (bit_names ul True rest) (\<lambda>s. Ret ((if some then CHR '','' else CHR ''<'') # name @ s))
      else bit_names ul some rest)"
  by pat_completeness auto
termination by (relation "measure (\<lambda>(_, _, p). length p)") (auto simp: Let_def)

definition emit :: "string \<Rightarrow> string outcome \<Rightarrow> string outcome" where
  "emit s r = obind r (\<lambda>t. Ret (s @ t))"

text \<open>
  \<open>kdoprnt\<close> outside a conversion, and inside one after \<open>%\<close> and \<open>lflag\<close> letters \<open>l\<close>. A format that
  ends inside a conversion prints its terminator and goes on behind it.
\<close>

function kdoprnt :: "string \<Rightarrow> parg list \<Rightarrow> string outcome"
  and kconv :: "nat \<Rightarrow> string \<Rightarrow> parg list \<Rightarrow> string outcome" where
  "kdoprnt [] ap = Ret []"
| "kdoprnt (ch # fmt) ap = (if ch \<noteq> CHR ''%'' then emit [ch] (kdoprnt fmt ap) else kconv 0 fmt ap)"
| "kconv lflag [] ap = Undef"
| "kconv lflag (ch # fmt) ap =
     (if ch = CHR ''l'' then kconv (lflag + 1) fmt ap
      else if ch = CHR ''b'' then
        take_int ap (\<lambda>w ap. take_str ap (\<lambda>p ap.
          case p of [] \<Rightarrow> Undef
          | base # names \<Rightarrow>
              obind (kprintn (scast w) (of_char base)) (\<lambda>ds.
                if w = 0 then emit ds (kdoprnt fmt ap)
                else obind (bit_names (scast w) False names) (\<lambda>bs. emit (ds @ bs) (kdoprnt fmt ap)))))
      else if ch = CHR ''c'' then
        take_int ap (\<lambda>w ap. emit [char_of (unat (w AND 0x7F))] (kdoprnt fmt ap))
      else if ch = CHR ''s'' then take_str ap (\<lambda>s ap. emit s (kdoprnt fmt ap))
      else if ch = CHR ''d'' then
        take_signed lflag ap (\<lambda>ul ap.
          if sint ul = LONG_MIN then Undef
          else if sint ul < 0
          then obind (kprintn (- ul) 10) (\<lambda>ds. emit (CHR ''-'' # ds) (kdoprnt fmt ap))
          else obind (kprintn ul 10) (\<lambda>ds. emit ds (kdoprnt fmt ap)))
      else if ch = CHR ''o'' then
        take_unsigned lflag ap (\<lambda>ul ap. obind (kprintn ul 8) (\<lambda>ds. emit ds (kdoprnt fmt ap)))
      else if ch = CHR ''u'' then
        take_unsigned lflag ap (\<lambda>ul ap. obind (kprintn ul 10) (\<lambda>ds. emit ds (kdoprnt fmt ap)))
      else if ch = CHR ''p'' then
        take_unsigned (lflag + 1) ap (\<lambda>ul ap. obind (kprintn ul 16) (\<lambda>ds. emit (''0x'' @ ds) (kdoprnt fmt ap)))
      else if ch = CHR ''x'' then
        take_unsigned lflag ap (\<lambda>ul ap. obind (kprintn ul 16) (\<lambda>ds. emit ds (kdoprnt fmt ap)))
      else emit (CHR ''%'' # (if lflag > 0 then ''l'' else []) @ [ch]) (kdoprnt fmt ap))"
  by pat_completeness auto
termination
  by (relation "measure (\<lambda>x. case x of Inl (f, _) \<Rightarrow> 2 * length f | Inr (_, f, _) \<Rightarrow> 2 * length f + 1)") auto


text \<open>What \<open>printf\<close> prints and \<open>snprintf\<close> leaves in its buffer.\<close>

text \<open>\<open>sputchar\<close>: the characters stored and the distance of \<open>sbuf\<close> from \<open>buf\<close>.\<close>

definition sputchar :: "nat \<Rightarrow> char \<Rightarrow> string \<times> nat \<Rightarrow> string \<times> nat" where
  "sputchar len c st = (case st of (b, n) \<Rightarrow> (if n < len then b @ [c] else b, n + 1))"

text \<open>The C string in the buffer, when it has room for one, and the value returned.\<close>

definition snprintf :: "nat \<Rightarrow> string \<Rightarrow> parg list \<Rightarrow> (string \<times> nat) outcome" where
  "snprintf len fmt ap =
     obind (kdoprnt fmt ap) (\<lambda>s.
       case fold (sputchar len) s ([], 0) of (b, n) \<Rightarrow>
         Ret (cstr (if n < len then b else take (len - 1) b), n))"

section \<open>Console output\<close>

text \<open>
  \<open>pch_pos\<close> and the characters handed to the console driver. \<open>cnputc\<close> drops a zero and adds a
  carriage return after a newline.
\<close>

record outc =
  pch_pos :: nat
  con_out :: string

definition cnputc :: "char \<Rightarrow> 'a outc_scheme \<Rightarrow> 'a outc_scheme" where
  "cnputc c o1 = o1\<lparr>con_out := con_out o1 @ (if c = NUL then [] else if c = NL then [NL, CHR 0x0D] else [c])\<rparr>"

text \<open>The loop of a tab stores \<open>n\<close> blanks, up to the next multiple of 8.\<close>

definition putchar :: "char \<Rightarrow> 'a outc_scheme \<Rightarrow> 'a outc_scheme" where
  "putchar c o1 =
     (if c = CHR 0x7F then
        (let o2 = cnputc (CHR 0x08) (cnputc (CHR '' '') (cnputc (CHR 0x08) o1)) in o2\<lparr>pch_pos := pch_pos o2 - 1\<rparr>)
      else if c = CHR 0x08 then (let o2 = cnputc c o1 in o2\<lparr>pch_pos := pch_pos o2 - 1\<rparr>)
      else if c = CHR 0x09 then
        (let n = 8 - pch_pos o1 mod 8; o2 = (cnputc (CHR '' '') ^^ n) o1 in o2\<lparr>pch_pos := pch_pos o1 + n\<rparr>)
      else if c = NL \<or> c = CHR 0x0D then (cnputc c o1)\<lparr>pch_pos := 0\<rparr>
      else (let o2 = cnputc c o1 in o2\<lparr>pch_pos := pch_pos o2 + 1\<rparr>))"

definition puts_all :: "string \<Rightarrow> 'a outc_scheme \<Rightarrow> 'a outc_scheme" where
  "puts_all s o1 = fold putchar s o1"

section \<open>strerror\<close>

definition ELAST :: nat where "ELAST = 91"

definition strerror :: "nat \<Rightarrow> string outcome" where
  "strerror e =
     (if e = ELAST + 1 then Ret ''bad adaptor number''
      else if e = ELAST + 2 then Ret ''bad controller number''
      else if e = ELAST + 3 then Ret ''bad drive number''
      else if e = ELAST + 4 then Ret ''bad partition''
      else if e = ELAST + 5 then Ret (''can'' @ [CHR 0x27] @ ''t read disk label'')
      else if e = 6 then Ret ''Device not configured''
      else if e = 1 then Ret ''Operation not permitted''
      else if e = 2 then Ret ''No such file or directory''
      else if e = 70 then Ret ''Stale NFS file handle''
      else if e = 79 then Ret ''Inappropriate file type or format''
      else if e = 8 then Ret ''Exec format error''
      else if e = 5 then Ret ''Input/output error''
      else if e = 22 then Ret ''Invalid argument''
      else obind (snprintf 64 ''Unknown error: code %d'' [PInt (of_nat e)]) (\<lambda>(s, n). Ret s))"


section \<open>Printed numbers\<close>

lemma hexdig_hex_char: "hexdig ! d = hex_char d"
  by (simp add: hexdig_def hex_char_def)

lemma horner_snoc: "d < 16 \<Longrightarrow> horner base (s @ [hex_char d]) = horner base s * base + d"
  by (simp add: horner_append) (simp add: horner_def)

lemma kdigits_value:
  assumes "1 < base" "base \<le> 16" "ul < base ^ Suc room"
  shows "\<exists>s. kdigits (Suc room) base ul = Ret s \<and> s \<noteq> [] \<and> list_all (is_digit base) s \<and> horner base s = ul
           \<and> (hd s = CHR ''0'' \<longrightarrow> s = ''0'')"
  using assms(3)
proof (induction room arbitrary: ul)
  case 0
  with assms show ?case
    by (auto simp: hexdig_hex_char is_digit_def horner_def)
next
  case (Suc room)
  define d where "d = ul mod base"
  have d: "d < base" "d < 16" using assms(1,2) by (auto simp: d_def intro: less_le_trans [of _ base])
  show ?case
  proof (cases "ul div base = 0")
    case True
    then have "ul = d" using assms(1) by (simp add: d_def div_eq_0_iff)
    with True d assms(1) have "kdigits (Suc (Suc room)) base ul = Ret [hex_char d]"
      unfolding kdigits.simps(2) by (simp add: hexdig_hex_char)
    with d \<open>ul = d\<close> show ?thesis
      by (simp add: is_digit_def horner_def)
  next
    case False
    have "ul div base < base ^ Suc room"
      using Suc.prems assms(1) by (simp add: less_mult_imp_div_less mult.commute)
    then obtain s where s: "kdigits (Suc room) base (ul div base) = Ret s" "s \<noteq> []" "list_all (is_digit base) s"
        "horner base s = ul div base" "hd s = CHR ''0'' \<longrightarrow> s = ''0''"
      using Suc.IH by blast
    have "s \<noteq> ''0''" using s(4) False by (auto simp: horner_def digit_val_def)
    have "\<not> (base = 0 \<or> 16 \<le> ul mod base)" using d assms(1) by (simp add: d_def)
    with s(1) False have "kdigits (Suc (Suc room)) base ul = Ret (s @ [hex_char d])"
      by (simp only: kdigits.simps(2) [of "Suc room"] if_False obind.simps hexdig_hex_char d_def)
    moreover have "list_all (is_digit base) (s @ [hex_char d])"
      using s(3) d by (simp add: is_digit_def [of base "hex_char d"])
    moreover have "horner base (s @ [hex_char d]) = ul"
      using d(2) s(4) by (simp add: horner_snoc) (simp add: d_def)
    ultimately show ?thesis
      using s(2,5) \<open>s \<noteq> ''0''\<close> by auto
  qed
qed

lemma kprintn_value:
  assumes "base = 8 \<or> base = 10 \<or> base = 16"
  shows "\<exists>s. kprintn ul base = Ret s \<and> s \<noteq> [] \<and> list_all (is_digit base) s \<and> horner base s = unat ul
           \<and> (hd s = CHR ''0'' \<longrightarrow> s = ''0'')"
proof -
  have "unat ul < 2 ^ 64" using unat_word_less [of ul] by simp
  also have "(2 :: nat) ^ 64 \<le> 8 ^ Suc 21" by simp
  also have "(8 :: nat) ^ Suc 21 \<le> base ^ Suc 21" using assms by (intro power_mono) auto
  finally show ?thesis
    using kdigits_value [of base "unat ul" 21] assms by (auto simp: kprintn_def KPRINTN_BUF_def)
qed

lemma snprintf_take:
  assumes "kdoprnt fmt ap = Ret s"
  shows "snprintf len fmt ap = Ret (cstr (take (len - 1) s), length s)"
proof -
  have "fold (sputchar len) s (b, n) = (b @ take (len - n) s, n + length s)" for b n
    by (induction s arbitrary: b n) (auto simp: sputchar_def take_Cons' Suc_diff_le diff_Suc split: nat.splits)
  then show ?thesis
    using assms by (auto simp: snprintf_def min_def)
qed

lemma snprintf_length:
  assumes "snprintf n f a = Ret (s, k)" "0 < n"
  shows "length s < n"
proof -
  obtain t where "kdoprnt f a = Ret t"
    using assms(1) by (auto simp: snprintf_def outcome_simps)
  from snprintf_take [OF this, of n] have "s = cstr (take (n - 1) t)"
    using assms(1) by simp
  then have "length s \<le> n - 1"
    using length_cstr_le [of "take (n - 1) t"] by simp
  with assms(2) show ?thesis by simp
qed

lemma digit_not_special:
  "is_digit 10 c \<Longrightarrow> \<not> strtol_skipped c \<and> c \<noteq> CHR ''-'' \<and> c \<noteq> CHR ''+'' \<and> c \<noteq> CHR ''x'' \<and> c \<noteq> CHR ''X''"
  by (auto simp: is_digit_def digit_val_def strtol_skipped_def Let_def split: if_splits)

text \<open>Decimal digits without a leading zero are read back in radix 10 and in the guessed radix.\<close>

lemma strtol_prefix_decimal:
  assumes "s \<noteq> []" "list_all (is_digit 10) s" "hd s = CHR ''0'' \<longrightarrow> s = ''0''" "base = 0 \<or> base = 10"
  shows "snd (strtol_prefix base s) = s \<and> takeWhile (is_digit (fst (strtol_prefix base s))) s = s
         \<and> dropWhile (is_digit (fst (strtol_prefix base s))) s = [] \<and> horner (fst (strtol_prefix base s)) s = horner 10 s"
  using assms
  by (cases s) (auto simp: strtol_prefix_def Let_def takeWhile_eq_all_conv list_all_iff zero_digits horner_def)

lemma strtol_decimal:
  assumes s: "s \<noteq> []" "list_all (is_digit 10) s" "hd s = CHR ''0'' \<longrightarrow> s = ''0''" and b: "base = 0 \<or> base = 10"
  shows "strtol ((if neg then ''-'' else []) @ s) base = Ret (clamp (sgn_of neg * int (horner 10 s)), [])"
proof -
  let ?t = "(if neg then ''-'' else []) @ s"
  have h: "is_digit 10 (hd s)" using s(1,2) by (cases s) auto
  have sk: "skip_blanks ?t = Ret ?t"
    using h s(1) digit_not_special [of "hd s"]
    by (cases s) (auto simp: strtol_skipped_def)
  have b2: "base = 0 \<or> 2 \<le> base" using b by auto
  have sg: "take_sign ?t = (neg, s)"
    using h s(1) digit_not_special [of "hd s"] by (cases s) (auto simp: take_sign_def)
  obtain b' where p: "strtol_prefix base s = (b', s)" "takeWhile (is_digit b') s = s"
      "dropWhile (is_digit b') s = []" "horner b' s = horner 10 s"
    using strtol_prefix_decimal [OF s b] by (metis prod.collapse)
  show ?thesis
    using strtol_tail_ret [OF sg p(1) b2, of ?t] s(1) sk unfolding p(2-4) strtol_def by simp
qed

text \<open>
  C24: a number printed with %ld reads back: for every long but the least one, the formatter returns
  (its digit buffer is large enough), and strtol in radix 10, or in the radix it guesses, returns
  the number and consumes all of the text.
\<close>

theorem printed_long_reads_back:
  assumes "sint (w :: u64) \<noteq> LONG_MIN" and "base = 0 \<or> base = 10"
  shows "\<exists>s. kdoprnt ''%ld'' [PLong w] = Ret s \<and> strtol s base = Ret (sint w, [])"
proof -
  define neg where "neg = (sint w < 0)"
  define v where "v = (if neg then - w else w)"
  have rng: "LONG_MIN \<le> sint w" "sint w \<le> LONG_MAX"
    using sint_greater_eq [of w] sint_less [of w] by (simp_all add: LONG_MIN_def LONG_MAX_def)
  have "int (unat u) = sint u" if "0 \<le> sint u" for u :: u64
    using that sint_less [of u] by (simp add: uint_nat [symmetric] uint_sint [of u] take_bit_int_eq_self)
  moreover have "sint (- w) = - sint w"
    using assms(1) rng by (simp add: sint_word_minus signed_take_bit_int_eq_self LONG_MIN_def LONG_MAX_def)
  ultimately have v: "int (unat v) = \<bar>sint w\<bar>"
    by (simp add: v_def neg_def)
  obtain s where s: "kprintn v 10 = Ret s" "s \<noteq> []" "list_all (is_digit 10) s" "horner 10 s = unat v"
      "hd s = CHR ''0'' \<longrightarrow> s = ''0''"
    using kprintn_value [of 10 v] by auto
  have "kdoprnt ''%ld'' [PLong w] = Ret ((if neg then ''-'' else []) @ s)"
    using s(1) assms(1) by (auto simp: take_signed_def take_long_def emit_def neg_def v_def)
  moreover have "clamp (sgn_of neg * int (horner 10 s)) = sint w"
    using rng unfolding s(4) v by (auto simp: clamp_def sgn_of_def neg_def)
  ultimately show ?thesis
    using strtol_decimal [OF s(2,3,5) assms(2), of neg] by auto
qed

theorem printed_long_reads_back_witness:
  "\<exists>s. kdoprnt ''%ld'' [PLong 600] = Ret s \<and> strtol s 0 = Ret (600, [])"
  using printed_long_reads_back [of 600 0] by (simp add: LONG_MIN_def)

end
