(* ===== verification/Boot_State.thy ===== *)
theory Boot_State
  imports Libsa_Printf
begin

unbundle bit_operations_syntax

text \<open>
  The state of the boot program and what its commands share: \<open>struct cmd_state\<close> of
  \<open>sys/stand/boot/cmd.h\<close> with the other globals of \<open>cmd.c\<close>, \<open>vars.c\<close> and \<open>boot.c\<close>, the input half
  of the console (\<open>getchar.c\<close>), and the consoles of \<open>dev_i386.c\<close> and \<open>cons.c\<close>. The file functions
  of libsa, the kernel loader and the firmware are the environment \<open>benv\<close>. The console is a list of
  keys, each with the number of times \<open>cnischar\<close> answers no before it is there; the clock is the list
  of its readings. When no key is left, \<open>getchar\<close> waits for ever.
\<close>

section \<open>State\<close>

datatype cmd_type = CMDT_CMD | CMDT_VAR | CMDT_SET | CMDT_MDC

text \<open>The functions the command tables point to.\<close>

datatype cmd_fn = F_nop | F_boot | F_echo | F_env | F_help | F_ls | F_machine | F_reboot | F_set | F_stty | F_time
  | F_addr | F_howto | F_device | F_tty | F_image | F_timeout | F_db_console
  | F_mboot | F_comaddr | F_diskinfo | F_memory | F_video | F_exit | F_poweroff

record cmd_entry =
  cmd_name :: string
  cmd_kind :: cmd_type
  cmd_exec :: cmd_fn

abbreviation cmd_row :: "string \<Rightarrow> cmd_type \<Rightarrow> cmd_fn \<Rightarrow> cmd_entry" where
  "cmd_row n k f \<equiv> \<lparr>cmd_name = n, cmd_kind = k, cmd_exec = f\<rparr>"

text \<open>A region of the memory map (\<open>bios_memmap_t\<close>).\<close>

record region =
  mm_addr :: u64
  mm_size :: u64
  mm_type :: u32

record bstate = outc +
  cs_bootdev :: string
  cs_image :: string
  cs_boothowto :: u32
  cs_conf :: string
  cs_addr :: u64
  cs_timeout :: int
  cs_path :: string
  cs_cmd :: "cmd_entry option"
  cs_argv :: "string list"
  cmd_buf :: string
  environ :: "string option"
  doboot :: bool
  db_console :: int
  prog_ident :: string
  bootprompt :: bool
  kernelfile :: string
  rnddata :: string
  keys :: "(nat \<times> char) list"
  readings :: "int list"
  cn_dev :: nat
  com_addr :: int
  memmap :: "region list"
  cnvmem :: u32
  extmem :: u32
  efi_video :: "(int \<times> int) list"
  conout_mode :: int

definition CMD_BUFF_SIZE :: nat where "CMD_BUFF_SIZE = 133"
definition BOOTDEVLEN :: nat where "BOOTDEVLEN = 1024"
definition MAXPATHLEN :: nat where "MAXPATHLEN = 1024"
definition MAX_ARGV :: nat where "MAX_ARGV = 8"

definition argc :: "bstate \<Rightarrow> nat" where "argc st = length (cs_argv st)"

section \<open>Environment\<close>

text \<open>
  A file: what \<open>fstat\<close> gives, its contents and the error that ends reading, if any.
\<close>

record bstat =
  st_mode :: u32
  st_uid :: u32
  st_gid :: u32
  st_size :: u64

record bfile =
  f_stat :: "bstat option"
  f_data :: string
  f_err :: "nat option"

record benv =
  fs_open :: "string \<Rightarrow> nat + bfile"
  fs_stat :: "string \<Rightarrow> nat + bstat"
  fs_opendir :: "string \<Rightarrow> nat + string list"
  loadfile :: "string \<Rightarrow> u64 \<Rightarrow> nat + u64 list"
  mdrandom :: "string \<Rightarrow> string"
  skip_conf :: bool
  diskinfo_text :: string

section \<open>Output\<close>

definition printf :: "string \<Rightarrow> parg list \<Rightarrow> bstate \<Rightarrow> bstate outcome" where
  "printf fmt ap st = obind (kdoprnt fmt ap) (\<lambda>s. Ret (puts_all s st))"

text \<open>A handler that prints and returns 0.\<close>

definition say :: "string \<Rightarrow> parg list \<Rightarrow> bstate \<Rightarrow> (int \<times> bstate) outcome" where
  "say fmt ap st = obind (printf fmt ap st) (\<lambda>st. Ret (0, st))"

definition with_strerror :: "nat \<Rightarrow> (string \<Rightarrow> 'a outcome) \<Rightarrow> 'a outcome" where
  "with_strerror e f = obind (strerror e) f"

section \<open>Keyboard and clock\<close>

definition cnischar :: "bstate \<Rightarrow> bool \<times> bstate" where
  "cnischar st = (case keys st of
       [] \<Rightarrow> (False, st)
     | (n, c) # ks \<Rightarrow> if n = 0 then (True, st) else (False, st\<lparr>keys := (n - 1, c) # ks\<rparr>))"

definition getchar :: "bstate \<Rightarrow> (char \<times> bstate) outcome" where
  "getchar st = (case keys st of
       [] \<Rightarrow> Hang
     | (n, k) # ks \<Rightarrow>
         (let c = (if k = CHR 0x0D then NL else k); st = st\<lparr>keys := ks\<rparr> in
          if (of_char c :: nat) < 32 \<and> c \<noteq> NL \<or> c = CHR 0x7F then Ret (c, st) else Ret (c, putchar c st)))"

definition getsecs_now :: "bstate \<Rightarrow> (int \<times> bstate) outcome" where
  "getsecs_now st = (case readings st of [] \<Rightarrow> Hang | t # ts \<Rightarrow> Ret (t, st\<lparr>readings := ts\<rparr>))"

section \<open>Consoles\<close>

definition major :: "nat \<Rightarrow> nat" where "major x = x div 256 mod 256"
definition minor :: "nat \<Rightarrow> nat" where "minor x = x mod 256 + x div 65536 * 256"
definition makedev :: "nat \<Rightarrow> nat \<Rightarrow> nat" where
  "makedev x y = (x mod 256) * 256 + y mod 256 + (y div 256 mod 65536) * 65536"

definition cdevs :: "string list" where
  "cdevs = [''cn'', [], [], [], [], [], [], [], ''com'', [], [], [], ''pc'']"

definition ttyname :: "bstate \<Rightarrow> string outcome" where
  "ttyname st = obind (aget cdevs (major (cn_dev st))) (\<lambda>d.
     obind (snprintf 8 ''%s%d'' [PStr d, PInt (of_nat (minor (cn_dev st)))]) (\<lambda>(s, n). Ret s))"

text \<open>
  The loop over the digits at the end of the name, from the last one to the left; the unit is an
  \<open>int\<close>, and its overflow is not defined.
\<close>

fun unit_loop :: "int \<Rightarrow> string \<Rightarrow> (int \<times> string) outcome" where
  "unit_loop unit [] = Ret (unit, [])"
| "unit_loop unit (c # s) =
     (if 48 \<le> (of_char c :: nat) \<and> of_char c \<le> (57 :: nat)
      then let u = (if unit < 0 then 0 else unit * 10) + int (of_char c) - 48
           in if u < 2 ^ 31 then unit_loop u s else Undef
      else Ret (unit, c # s))"

fun cdev_loop :: "string list \<Rightarrow> nat \<Rightarrow> string \<Rightarrow> nat \<Rightarrow> nat option" where
  "cdev_loop [] i name n = None"
| "cdev_loop (d # ds) i name n = (if strn_eq n name d then Some i else cdev_loop ds (i + 1) name n)"

text \<open>\<open>None\<close> is \<open>NODEV\<close>.\<close>

definition ttydev :: "string \<Rightarrow> nat option outcome" where
  "ttydev name = obind (unit_loop (- 1) (rev name)) (\<lambda>(unit, rest).
     if rest = [] \<or> unit < 0 then Ret None
     else Ret (map_option (\<lambda>i. makedev i (nat unit)) (cdev_loop cdevs 0 name (length rest))))"

text \<open>
  \<open>cnspeed\<close> in the EFI boot program: for a serial line it calls \<open>comspeed\<close>, which \<open>efiboot.c\<close>
  defines as an \<open>int\<close>.
\<close>

definition cnspeed :: "nat \<Rightarrow> int outcome" where
  "cnspeed dev = (if major dev = 8 then Undef else Ret 9600)"

text \<open>\<open>cnset\<close> with the one entry of \<open>constab\<close> in \<open>conf.c\<close>, whose priority is not \<open>CN_DEAD\<close> after the probe.\<close>

definition cnset :: "nat \<Rightarrow> bstate \<Rightarrow> bool \<times> bstate" where
  "cnset dev st =
     (if major (cn_dev st) = major dev
      then (if cn_dev st = dev then (False, st) else (False, st\<lparr>cn_dev := dev\<rparr>))
      else (True, st))"

section \<open>What input functions consume\<close>

definition inputs :: "bstate \<Rightarrow> nat" where
  "inputs st = length (keys st) + length (readings st)"

text \<open>Output leaves the rest of the state alone.\<close>

lemma more_cnputc [simp]: "outc.more (cnputc ch st) = outc.more st"
  by (simp add: cnputc_def)

lemma more_cnputc_pow [simp]: "outc.more ((cnputc ch ^^ n) st) = outc.more st"
  by (induction n) simp_all

lemma more_putchar [simp]: "outc.more (putchar ch st) = outc.more st"
  by (simp add: putchar_def Let_def)

lemma more_puts_all [simp]: "outc.more (puts_all s st) = outc.more st"
  by (induction s arbitrary: st) (simp_all add: puts_all_def)

lemma puts_all_form: "\<exists>p c. puts_all s (st :: bstate) = st\<lparr>pch_pos := p, con_out := c\<rparr>"
proof -
  have "r = st\<lparr>pch_pos := pch_pos r, con_out := con_out r\<rparr>" if "outc.more r = outc.more st" for r :: bstate
    using that by (cases r; cases st) simp
  from this [OF more_puts_all] show ?thesis by blast
qed

lemma puts_all_untouched: "(\<And>p c. f (st\<lparr>pch_pos := p, con_out := c\<rparr>) = f st) \<Longrightarrow> f (puts_all s (st :: bstate)) = f st"
  using puts_all_form [of s st] by auto

lemma puts_all_fields [simp]:
  "keys (puts_all s (st :: bstate)) = keys st"
  "readings (puts_all s st) = readings st"
  "cs_argv (puts_all s st) = cs_argv st"
  "cs_path (puts_all s st) = cs_path st"
  "cs_bootdev (puts_all s st) = cs_bootdev st"
  "cs_image (puts_all s st) = cs_image st"
  "cs_boothowto (puts_all s st) = cs_boothowto st"
  "cs_timeout (puts_all s st) = cs_timeout st"
  "cs_addr (puts_all s st) = cs_addr st"
  "cs_cmd (puts_all s st) = cs_cmd st"
  "cs_conf (puts_all s st) = cs_conf st"
  "cmd_buf (puts_all s st) = cmd_buf st"
  "environ (puts_all s st) = environ st"
  "doboot (puts_all s st) = doboot st"
  "bootprompt (puts_all s st) = bootprompt st"
  "kernelfile (puts_all s st) = kernelfile st"
  "memmap (puts_all s st) = memmap st"
  by (rule puts_all_untouched; simp)+

lemma putchar_keys: "(putchar c (st :: bstate))\<lparr>keys := ks\<rparr> = putchar c (st\<lparr>keys := ks\<rparr>)"
proof -
  have cn: "(cnputc ch (s :: bstate))\<lparr>keys := ks\<rparr> = cnputc ch (s\<lparr>keys := ks\<rparr>)" for ch s
    by (simp add: cnputc_def)
  have "((cnputc ch ^^ n) (s :: bstate))\<lparr>keys := ks\<rparr> = (cnputc ch ^^ n) (s\<lparr>keys := ks\<rparr>)" for ch n s
    by (induction n) (simp_all add: cn)
  from this [symmetric] show ?thesis by (simp add: putchar_def Let_def cn [symmetric])
qed

lemma puts_all_keys: "(puts_all s (st :: bstate))\<lparr>keys := ks\<rparr> = puts_all s (st\<lparr>keys := ks\<rparr>)"
  by (induction s arbitrary: st) (simp_all add: puts_all_def putchar_keys)

lemma putchar_puts_all: "putchar c st = puts_all [c] st"
  by (simp add: puts_all_def)

lemma printf_Ret [outcome_simps]:
  "printf fmt ap st = Ret st' \<longleftrightarrow> (\<exists>s. kdoprnt fmt ap = Ret s \<and> st' = puts_all s st)"
  by (auto simp: printf_def outcome_simps)

lemma printf_puts: "printf fmt ap st = Ret st' \<Longrightarrow> \<exists>s. st' = puts_all s st"
  by (auto simp: printf_Ret)

lemma say_Ret [outcome_simps]:
  "say fmt ap st = Ret (r, st') \<longleftrightarrow> r = 0 \<and> (\<exists>s. kdoprnt fmt ap = Ret s \<and> st' = puts_all s st)"
  by (auto simp: say_def outcome_simps)

lemma inputs_puts_all [simp]: "inputs (puts_all s st) = inputs st"
  by (simp add: inputs_def)

end
