(* ===== verification/Boot_Vars.thy ===== *)
theory Boot_Vars
  imports Boot_State
begin

unbundle bit_operations_syntax

text \<open>
  The variables of the boot program: \<open>sys/stand/boot/vars.c\<close>. Every handler takes the state and
  returns its value and the new state. The theorems: what the option parser accepts and does, and that
  \<open>env\<close> never replaces a definition, although its loop is written to remove the old one.
\<close>

section \<open>Boot flags\<close>

definition RB_ASKNAME :: u32 where "RB_ASKNAME = 0x0001"
definition RB_SINGLE :: u32 where "RB_SINGLE = 0x0002"
definition RB_KDB :: u32 where "RB_KDB = 0x0040"
definition RB_CONFIG :: u32 where "RB_CONFIG = 0x0400"

text \<open>The letters of one argument: the flags so far, or the letter that is no option.\<close>

fun flag_loop :: "u32 \<Rightarrow> string \<Rightarrow> char + u32" where
  "flag_loop howto [] = Inr howto"
| "flag_loop howto (c # cp) =
     (if c = CHR ''a'' then flag_loop (howto OR RB_ASKNAME) cp
      else if c = CHR ''c'' then flag_loop (howto OR RB_CONFIG) cp
      else if c = CHR ''s'' then flag_loop (howto OR RB_SINGLE) cp
      else if c = CHR ''d'' then flag_loop (howto OR RB_KDB) cp
      else Inl c)"

fun parse_loop :: "u32 \<Rightarrow> string list \<Rightarrow> bstate \<Rightarrow> (int \<times> bstate) outcome" where
  "parse_loop howto [] st = Ret (0, st\<lparr>cs_boothowto := howto\<rparr>)"
| "parse_loop howto (a # as) st =
     (if a \<noteq> [] \<and> hd a = CHR ''-'' then
        (case flag_loop howto (tl a) of
           Inl c \<Rightarrow> obind (printf (''howto: bad option: %c'' @ [NL]) [PInt (of_char c)] st) (\<lambda>st. Ret (1, st))
         | Inr howto' \<Rightarrow> parse_loop howto' as st)
      else obind (printf (''boot: illegal argument %s'' @ [NL]) [PStr a] st) (\<lambda>st. Ret (1, st)))"

definition bootparse :: "nat \<Rightarrow> bstate \<Rightarrow> (int \<times> bstate) outcome" where
  "bootparse i st = parse_loop (cs_boothowto st) (drop i (cs_argv st)) st"

definition Xhowto :: "bstate \<Rightarrow> (int \<times> bstate) outcome" where
  "Xhowto st =
     (if argc st = 1 then
        Ret (0, puts_all
          ((if cs_boothowto st \<noteq> 0
            then ''-'' @ (if cs_boothowto st AND RB_ASKNAME \<noteq> 0 then ''a'' else [])
                 @ (if cs_boothowto st AND RB_CONFIG \<noteq> 0 then ''c'' else [])
                 @ (if cs_boothowto st AND RB_SINGLE \<noteq> 0 then ''s'' else [])
                 @ (if cs_boothowto st AND RB_KDB \<noteq> 0 then ''d'' else [])
            else []) @ [NL]) st)
      else obind (bootparse 1 st) (\<lambda>(r, st). Ret (0, st)))"

section \<open>Numbers and names\<close>

definition Xdb_console :: "bstate \<Rightarrow> (int \<times> bstate) outcome" where
  "Xdb_console st =
     (if argc st \<noteq> 2 then
        say (if db_console st = 0 then ''off'' @ [NL] else if db_console st = 1 then ''on'' @ [NL] else ''unset'' @ [NL]) [] st
      else let a = cs_argv st ! 1 in
        if a = ''0'' \<or> a = ''off'' then Ret (0, st\<lparr>db_console := 0\<rparr>)
        else if a = ''1'' \<or> a = ''on'' then Ret (0, st\<lparr>db_console := 1\<rparr>)
        else Ret (0, st))"

text \<open>\<open>(int)strtol(...)\<close> keeps the low 32 bits.\<close>

definition Xtimeout :: "bstate \<Rightarrow> (int \<times> bstate) outcome" where
  "Xtimeout st =
     (if argc st \<noteq> 2 then say (''%d'' @ [NL]) [PInt (word_of_int (cs_timeout st))] st
      else obind (strtol (cs_argv st ! 1) 0) (\<lambda>(v, r). Ret (0, st\<lparr>cs_timeout := sint (word_of_int v :: u32)\<rparr>)))"

definition Xdevice :: "bstate \<Rightarrow> (int \<times> bstate) outcome" where
  "Xdevice st =
     (if argc st \<noteq> 2 then say (''%s'' @ [NL]) [PStr (cs_bootdev st)] st
      else Ret (0, st\<lparr>cs_bootdev := fst (strlcpy (cs_bootdev st) (cs_argv st ! 1) BOOTDEVLEN)\<rparr>))"

definition Ximage :: "bstate \<Rightarrow> (int \<times> bstate) outcome" where
  "Ximage st =
     (if argc st \<noteq> 2 then say (''%s'' @ [NL]) [PStr (cs_image st)] st
      else Ret (0, st\<lparr>cs_image := fst (strlcpy (cs_image st) (cs_argv st ! 1) (MAXPATHLEN - 16))\<rparr>))"

definition Xaddr :: "bstate \<Rightarrow> (int \<times> bstate) outcome" where
  "Xaddr st =
     (if argc st \<noteq> 2 then say (''%p'' @ [NL]) [PLong (cs_addr st)] st
      else obind (strtol (cs_argv st ! 1) 0) (\<lambda>(v, r). Ret (0, st\<lparr>cs_addr := word_of_int v\<rparr>)))"

definition Xtty :: "bstate \<Rightarrow> (int \<times> bstate) outcome" where
  "Xtty st =
     (if argc st \<noteq> 2 then obind (ttyname st) (\<lambda>n. say (''%s'' @ [NL]) [PStr n] st)
      else let a = cs_argv st ! 1 in
        obind (ttydev a) (\<lambda>d. case d of
            None \<Rightarrow> say (''%s not a console device'' @ [NL]) [PStr a] st
          | Some dev \<Rightarrow>
              obind (printf (''switching console to %s'' @ [NL]) [PStr a] st) (\<lambda>st.
                case cnset dev st of (failed, st) \<Rightarrow>
                  if failed then say (''%s console not present'' @ [NL]) [PStr a] st
                  else say (''%s'' @ [NL]) [PStr (prog_ident st)] st)))"

section \<open>The table of the variables\<close>

definition cmd_set :: "cmd_entry list" where
  "cmd_set =
     [cmd_row ''addr'' CMDT_VAR F_addr, cmd_row ''howto'' CMDT_VAR F_howto, cmd_row ''device'' CMDT_VAR F_device,
      cmd_row ''tty'' CMDT_VAR F_tty, cmd_row ''image'' CMDT_VAR F_image, cmd_row ''timeout'' CMDT_VAR F_timeout,
      cmd_row ''db_console'' CMDT_VAR F_db_console]"

definition exec_var :: "cmd_fn \<Rightarrow> bstate \<Rightarrow> (int \<times> bstate) outcome" where
  "exec_var f st =
     (case f of F_addr \<Rightarrow> Xaddr st | F_howto \<Rightarrow> Xhowto st | F_device \<Rightarrow> Xdevice st | F_tty \<Rightarrow> Xtty st
      | F_image \<Rightarrow> Ximage st | F_timeout \<Rightarrow> Xtimeout st | F_db_console \<Rightarrow> Xdb_console st | _ \<Rightarrow> Undef)"

fun set_loop :: "cmd_entry list \<Rightarrow> bstate \<Rightarrow> (int \<times> bstate) outcome" where
  "set_loop [] st = Ret (0, st)"
| "set_loop (ct # cts) st =
     obind (printf (''%s'' @ [CHR 0x09] @ '' '') [PStr (cmd_name ct)] st) (\<lambda>st.
     obind (exec_var (cmd_exec ct) st) (\<lambda>(r, st). set_loop cts st))"

definition Xset :: "bstate \<Rightarrow> (int \<times> bstate) outcome" where
  "Xset st = obind (printf (''%s'' @ [NL]) [PStr (prog_ident st)] st) (set_loop cmd_set)"

section \<open>The environment\<close>

text \<open>
  \<open>environ\<close> is a buffer of 4096 bytes, here the string in it. The loop: \<open>pre\<close> is what lies before
  \<open>p\<close>, the last argument the text from \<open>p\<close> to the terminator. A definition without \<open>=\<close> or without
  newline makes a search run behind the terminator. A definition that compares equal is overwritten by
  what follows it, and the loop goes on at \<open>q\<close>, which is then behind the terminator: \<open>Undef\<close>.
\<close>

definition ENV_SIZE :: nat where "ENV_SIZE = 4096"

function env_loop :: "string \<Rightarrow> string \<Rightarrow> string \<Rightarrow> (string \<times> string) outcome" where
  "env_loop var pre p =
     (if p = [] then Ret (pre, [])
      else if CHR ''='' \<notin> set p \<or> NL \<notin> set p then Undef
      else let name = takeWhile (\<lambda>c. c \<noteq> CHR ''='') p;
               l = max (length var) (length name) + 1;
               ln = Suc (length (takeWhile (\<lambda>c. c \<noteq> NL) p))
           in if strn_eq l p var then Undef
              else env_loop var (pre @ take ln p) (drop ln p))"
  by pat_completeness auto
termination by (relation "measure (\<lambda>(_, _, p). length p)") auto

declare env_loop.simps [simp del]

text \<open>What the loop leaves, and the new definition printed behind it.\<close>

definition Xenv :: "bstate \<Rightarrow> (int \<times> bstate) outcome" where
  "Xenv st =
     (if argc st = 1 then
        (case environ st of Some e \<Rightarrow> say ''%s'' [PStr e] st | None \<Rightarrow> say (''empty'' @ [NL]) [] st)
      else
        obind (case environ st of None \<Rightarrow> Ret ([], []) | Some e \<Rightarrow> env_loop (cs_argv st ! 1) [] e) (\<lambda>(pre, p).
        obind (snprintf (ENV_SIZE - length pre) (''%s=%s'' @ [NL])
                 [PStr (cs_argv st ! 1), PStr (if argc st = 3 then cs_argv st ! 2 else [])]) (\<lambda>(s, n).
        Ret (0, st\<lparr>environ := Some (pre @ s)\<rparr>))))"


section \<open>Boot flags: what the parser accepts\<close>

definition flag_of :: "char \<Rightarrow> u32" where
  "flag_of c = (if c = CHR ''a'' then RB_ASKNAME else if c = CHR ''c'' then RB_CONFIG
     else if c = CHR ''s'' then RB_SINGLE else if c = CHR ''d'' then RB_KDB else 0)"

definition good_arg :: "string \<Rightarrow> bool" where
  "good_arg a \<longleftrightarrow> a \<noteq> [] \<and> hd a = CHR ''-'' \<and> list_all (\<lambda>c. c \<in> set ''acsd'') (tl a)"

definition flags_of :: "string list \<Rightarrow> u32" where
  "flags_of as = foldr (OR) (map flag_of (concat (map tl as))) 0"

lemma flag_loop_eq:
  "flag_loop h cp = (if list_all (\<lambda>c. c \<in> set ''acsd'') cp
     then Inr (h OR foldr (OR) (map flag_of cp) 0)
     else Inl (hd (dropWhile (\<lambda>c. c \<in> set ''acsd'') cp)))"
  by (induction cp arbitrary: h) (auto simp: flag_of_def or.assoc)

lemma flags_of_Cons: "flags_of (a # as) = foldr (OR) (map flag_of (tl a)) 0 OR flags_of as"
proof -
  have "foldr (OR) xs z = foldr (OR) xs 0 OR z" for xs :: "u32 list" and z
    by (induction xs) (simp_all add: or.assoc)
  from this [of _ "flags_of as"] show ?thesis by (simp add: flags_of_def)
qed

lemma printf_illegal: "\<exists>s. printf (''boot: illegal argument %s'' @ [NL]) [PStr a] st = Ret (puts_all s st)"
  by (simp add: printf_def take_str_def emit_def NL_def) blast

lemma printf_bad_option: "\<exists>s. printf (''howto: bad option: %c'' @ [NL]) [PInt w] st = Ret (puts_all s st)"
  by (simp add: printf_def take_int_def emit_def NL_def) blast

lemma parse_loop_good:
  "list_all good_arg as \<Longrightarrow> parse_loop h as st = Ret (0, st\<lparr>cs_boothowto := h OR flags_of as\<rparr>)"
proof (induction as arbitrary: h)
  case Nil
  show ?case by (simp add: flags_of_def)
next
  case (Cons a as)
  then show ?case by (simp add: good_arg_def flag_loop_eq flags_of_Cons or.assoc)
qed

lemma parse_loop_bad: "\<not> list_all good_arg as \<Longrightarrow> \<exists>s. parse_loop h as st = Ret (1, puts_all s st)"
proof (induction as arbitrary: h)
  case (Cons a as)
  show ?case
  proof (cases "good_arg a")
    case True
    with Cons show ?thesis by (simp add: good_arg_def flag_loop_eq)
  next
    case False
    then show ?thesis
      using printf_illegal [of a st] printf_bad_option [of "of_char (hd (dropWhile (\<lambda>c. c \<in> set ''acsd'') (tl a)))" st]
      by (auto simp: good_arg_def flag_loop_eq)
  qed
qed simp

text \<open>
  C32: bootparse takes its arguments as a whole. When all of them from the given one on are a dash
  followed by letters of a, c, s, d, it adds exactly their flags to boothowto and returns 0; otherwise it
  prints a message, returns 1 and changes nothing, whatever flags came before the fault.
\<close>

theorem bootparse_all_or_nothing:
  "if list_all good_arg (drop i (cs_argv st))
   then bootparse i st = Ret (0, st\<lparr>cs_boothowto := cs_boothowto st OR flags_of (drop i (cs_argv st))\<rparr>)
   else \<exists>msg. bootparse i st = Ret (1, puts_all msg st)"
  by (simp add: bootparse_def parse_loop_good parse_loop_bad)

section \<open>The environment only grows\<close>

fun env_text :: "(string \<times> string) list \<Rightarrow> string" where
  "env_text [] = []"
| "env_text ((n, v) # ds) = n @ ''='' @ v @ [NL] @ env_text ds"

definition env_defs_ok :: "(string \<times> string) list \<Rightarrow> bool" where
  "env_defs_ok ds \<longleftrightarrow> list_all (\<lambda>(n, v). NL \<notin> set n \<and> NL \<notin> set v) ds"

lemma env_loop_keeps:
  assumes "NL \<notin> set var" "env_defs_ok ds"
  shows "env_loop var pre (env_text ds) = Ret (pre @ env_text ds, [])"
  using assms(2)
proof (induction ds arbitrary: pre)
  case Nil
  show ?case by (simp add: env_loop.simps)
next
  case (Cons d ds)
  obtain n v where d: "d = (n, v)" by fastforce
  let ?p = "env_text (d # ds)"
  define line where "line = n @ ''='' @ v"
  have p: "?p = line @ NL # env_text ds" by (simp add: d line_def)
  have nl: "NL \<notin> set line" using Cons.prems by (simp add: line_def d env_defs_ok_def NL_def)
  then have tw: "takeWhile (\<lambda>c. c \<noteq> NL) ?p = line"
    unfolding p by (subst takeWhile_append2) auto
  have "\<not> strn_eq (max (length var) k + 1) ?p var" for k
  proof
    assume eq: "strn_eq (max (length var) k + 1) ?p var"
    then have "take (max (length var) k + 1) ?p = var"
      by (simp add: strn_eq_def)
    moreover from this have "length ?p \<le> max (length var) k + 1"
      by (metis length_take less_le_not_le max.cobounded1 min_def nat_le_linear not_less_eq_eq Suc_eq_plus1)
    ultimately have "?p = var" by simp
    with p assms(1) show False by (metis in_set_conv_decomp)
  qed
  moreover have "CHR ''='' \<in> set ?p" "NL \<in> set ?p" "?p \<noteq> []" by (simp_all add: p line_def)
  ultimately have "env_loop var pre ?p = env_loop var (pre @ take (Suc (length line)) ?p) (drop (Suc (length line)) ?p)"
    by (simp add: env_loop.simps [of var pre ?p] tw Let_def)
  also have "\<dots> = env_loop var (pre @ line @ [NL]) (env_text ds)"
    unfolding p by simp
  finally show ?case
    using Cons.IH [of "pre @ line @ [NL]"] Cons.prems unfolding p by (simp add: env_defs_ok_def)
qed

lemma kdoprnt_definition: "kdoprnt (''%s=%s'' @ [NL]) [PStr a, PStr b] = Ret (a @ ''='' @ b @ [NL])"
  by (simp add: take_str_def emit_def NL_def)

text \<open>
  env never replaces a definition. Whatever is defined already, and also when the variable is, the
  command leaves all of the old text and prints the new definition behind it: the comparison that should
  find the old definition includes the character after the name, which is an equals sign in the
  environment and the terminator in the argument.
\<close>

theorem Xenv_never_replaces:
  assumes "environ st = Some (env_text ds)" "env_defs_ok ds"
    and "cs_argv st = [cmd0, var, val]" "NL \<notin> set var" "NUL \<notin> set var" "NUL \<notin> set val"
    and "length (env_text ds) + length var + length val + 2 < ENV_SIZE"
  shows "Xenv st = Ret (0, st\<lparr>environ := Some (env_text (ds @ [(var, val)]))\<rparr>)"
proof -
  have e: "env_text (ds @ [(var, val)]) = env_text ds @ var @ ''='' @ val @ [NL]"
    by (induction ds rule: env_text.induct) auto
  have "NUL \<notin> set (var @ ''='' @ val @ [NL])"
    using assms(5,6) by (simp add: NUL_def NL_def)
  from cstr_no_NUL [OF this] show ?thesis
    using assms(7) snprintf_take [OF kdoprnt_definition, of "ENV_SIZE - length (env_text ds)" var val]
    by (simp add: Xenv_def argc_def assms(1,3) env_loop_keeps [OF assms(4,2)] e)
qed


definition env_state0 :: bstate where
  "env_state0 = \<lparr>pch_pos = 0, con_out = [], cs_bootdev = ''hd0a'', cs_image = ''/bsd'', cs_boothowto = 0,
     cs_conf = ''/etc/boot.conf'', cs_addr = 0, cs_timeout = 5, cs_path = [], cs_cmd = None,
     cs_argv = [''env'', ''a'', ''2''], cmd_buf = [], environ = Some (env_text [(''a'', ''1'')]), doboot = True,
     db_console = - 1, prog_ident = [], bootprompt = True, kernelfile = ''/bsd'', rnddata = [], keys = [],
     readings = [], cn_dev = makedev 12 0, com_addr = - 1, memmap = [], cnvmem = 0, extmem = 0,
     efi_video = [], conout_mode = 0\<rparr>"

theorem Xenv_never_replaces_witness:
  "Xenv env_state0 = Ret (0, env_state0\<lparr>environ := Some (''a=1'' @ [NL] @ ''a=2'' @ [NL])\<rparr>)"
  using Xenv_never_replaces [of env_state0 "[(''a'', ''1'')]" "''env''" "''a''" "''2''"]
  by (simp add: env_state0_def env_defs_ok_def ENV_SIZE_def NL_def NUL_def)

end
