(* ===== verification/Boot_Mem.thy ===== *)
theory Boot_Mem
  imports Boot_State
begin

unbundle bit_operations_syntax

text \<open>
  The memory map of the boot program: the functions of \<open>sys/arch/amd64/stand/libsa/memprobe.c\<close> that
  the EFI program contains, and \<open>efi_memprobe\<close> with its helper in \<open>efiboot.c\<close>. The map is the list of
  the entries of \<open>bios_memmap[64]\<close> together with the memory behind the array, seen as entries too, since
  two of the functions reach there. Addresses are \<open>u64\<close>; the arguments of the editing functions are
  \<open>long long\<close>. The theorems: the map the firmware reports and the map passed on cover the same
  addresses, type by type, and an insertion by \<open>mem_add\<close> writes behind the array.
\<close>

section \<open>Types and moves\<close>

definition BIOS_MAP_END :: u32 where "BIOS_MAP_END = 0"
definition BIOS_MAP_FREE :: u32 where "BIOS_MAP_FREE = 1"
definition BIOS_MAP_RES :: u32 where "BIOS_MAP_RES = 2"
definition BIOS_MAP_ACPI :: u32 where "BIOS_MAP_ACPI = 3"
definition BIOS_MAP_NVS :: u32 where "BIOS_MAP_NVS = 4"

definition MEMMAP_ENTRIES :: nat where "MEMMAP_ENTRIES = 64"
definition PAGE_SIZE :: int where "PAGE_SIZE = 4096"

text \<open>\<open>bcopy\<close>, which copies overlapping objects correctly, of \<open>n\<close> entries.\<close>

definition move :: "region list \<Rightarrow> nat \<Rightarrow> nat \<Rightarrow> int \<Rightarrow> region list outcome" where
  "move mm src dst n =
     (if 0 \<le> n \<and> int src + n \<le> int (length mm) then put_bytes mm dst (take (nat n) (drop src mm)) else Undef)"

lemma move_Ret [outcome_simps]:
  "move mm src dst n = Ret mm' \<longleftrightarrow>
     0 \<le> n \<and> src + nat n \<le> length mm \<and> dst + nat n \<le> length mm \<and> mm' = overlay mm dst (take (nat n) (drop src mm))"
  by (auto simp: move_def outcome_simps)

lemma length_aset: "aset xs i v = Ret ys \<Longrightarrow> length ys = length xs"
  by (auto simp: outcome_simps)

text \<open>The bounds of a region as \<open>int64_t\<close>.\<close>

definition sp_of :: "region \<Rightarrow> int" where "sp_of r = sint (mm_addr r)"
definition ep_of :: "region \<Rightarrow> int" where "ep_of r = sint (mm_addr r + mm_size r)"

section \<open>mem_limit\<close>

function limit_loop :: "int \<Rightarrow> nat \<Rightarrow> region list \<Rightarrow> region list outcome" where
  "limit_loop ml i mm =
     obind (aget mm i) (\<lambda>p.
       if mm_type p = BIOS_MAP_END then Ret mm
       else if mm_type p \<noteq> BIOS_MAP_FREE then limit_loop ml (i + 1) mm
       else if sp_of p \<ge> ml \<and> ep_of p \<ge> ml then
         obind (move mm (i + 1) i (int MEMMAP_ENTRIES - int i)) (\<lambda>mm'. limit_loop ml (i + 1) mm')
       else if sp_of p < ml \<and> ep_of p \<ge> ml then
         limit_loop ml (i + 1) (mm[i := p\<lparr>mm_size := mm_size p - word_of_int (ep_of p - ml)\<rparr>])
       else limit_loop ml (i + 1) mm)"
  by pat_completeness auto
termination
  by (relation "measure (\<lambda>(_, i, mm). length mm - i)") (auto simp: outcome_simps length_overlay)

declare limit_loop.simps [simp del]

definition mem_limit :: "int \<Rightarrow> region list \<Rightarrow> region list outcome" where
  "mem_limit ml mm = limit_loop ml 0 mm"

section \<open>mem_delete\<close>

definition eats_whole :: "int \<Rightarrow> int \<Rightarrow> region \<Rightarrow> bool outcome" where
  "eats_whole sa ea p = long_op (sa - sp_of p) (\<lambda>d.
     if d \<le> PAGE_SIZE then long_op (ep_of p - ea) (\<lambda>e. Ret (e \<le> PAGE_SIZE)) else Ret False)"

function delete_loop :: "int \<Rightarrow> int \<Rightarrow> nat \<Rightarrow> region list \<Rightarrow> region list outcome" where
  "delete_loop sa ea i mm =
     obind (aget mm i) (\<lambda>p.
       if mm_type p = BIOS_MAP_END then Ret mm
       else if mm_type p \<noteq> BIOS_MAP_FREE then delete_loop sa ea (i + 1) mm
       else obind (eats_whole sa ea p) (\<lambda>whole.
         if whole then move mm (i + 1) i (int MEMMAP_ENTRIES - int i)
         else if sa \<le> sp_of p \<and> sp_of p < ea then
           Ret (mm[i := p\<lparr>mm_addr := word_of_int ea, mm_size := word_of_int (ep_of p - ea)\<rparr>])
         else if sa < ep_of p \<and> ep_of p \<le> ea then
           Ret (mm[i := p\<lparr>mm_size := word_of_int (sa - sp_of p)\<rparr>])
         else if sp_of p < sa \<and> ea < ep_of p then
           obind (move mm i (i + 1) (int MEMMAP_ENTRIES - int i - 1)) (\<lambda>mm'.
           obind (aget mm' (i + 1)) (\<lambda>p1.
             Ret (mm'[i + 1 := p1\<lparr>mm_addr := word_of_int ea, mm_size := word_of_int (ep_of p - ea)\<rparr>,
                      i := p\<lparr>mm_size := word_of_int (sa - sp_of p)\<rparr>])))
         else delete_loop sa ea (i + 1) mm))"
  by pat_completeness auto
termination
  by (relation "measure (\<lambda>(_, _, i, mm). length mm - i)") (auto simp: outcome_simps)

declare delete_loop.simps [simp del]

definition mem_delete :: "int \<Rightarrow> int \<Rightarrow> region list \<Rightarrow> region list outcome" where
  "mem_delete sa ea mm = delete_loop sa ea 0 mm"

section \<open>mem_add\<close>

text \<open>The loop: the map and the position where it stopped.\<close>

function add_loop :: "int \<Rightarrow> int \<Rightarrow> nat \<Rightarrow> region list \<Rightarrow> (region list \<times> nat) outcome" where
  "add_loop sa ea i mm =
     obind (aget mm i) (\<lambda>p.
       if mm_type p = BIOS_MAP_END then Ret (mm, i)
       else if mm_type p \<noteq> BIOS_MAP_FREE then add_loop sa ea (i + 1) mm
       else if sp_of p \<le> sa \<and> ea \<le> ep_of p then Ret (mm, i)
       else if sa < sp_of p \<and> sp_of p \<le> ea then
         Ret (mm[i := p\<lparr>mm_addr := word_of_int sa, mm_size := word_of_int (ep_of p - sa)\<rparr>], i)
       else if sa \<le> ep_of p \<and> ep_of p < ea then
         Ret (mm[i := p\<lparr>mm_size := word_of_int (ea - sp_of p)\<rparr>], i)
       else if ea < sp_of p then
         obind (move mm i (i + 1) (int MEMMAP_ENTRIES - (int i - 1))) (\<lambda>mm'.
           Ret (mm'[i := p\<lparr>mm_addr := word_of_int sa, mm_size := word_of_int (ea - sa)\<rparr>], i))
       else add_loop sa ea (i + 1) mm)"
  by pat_completeness auto
termination
  by (relation "measure (\<lambda>(_, _, i, mm). length mm - i)") (auto simp: outcome_simps)

declare add_loop.simps [simp del]

definition mem_add :: "int \<Rightarrow> int \<Rightarrow> region list \<Rightarrow> region list outcome" where
  "mem_add sa ea mm =
     obind (add_loop sa ea 0 mm) (\<lambda>(mm, i).
     obind (aget mm i) (\<lambda>p.
       if mm_type p = BIOS_MAP_END then
         obind (aset mm (i + 1) p) (\<lambda>mm.
           Ret (mm[i := \<lparr>mm_addr = word_of_int sa, mm_size = word_of_int (ea - sa), mm_type = BIOS_MAP_FREE\<rparr>]))
       else Ret mm))"

section \<open>dump_biosmem and mem_pass\<close>

fun dump_loop :: "nat \<Rightarrow> u32 \<Rightarrow> region list \<Rightarrow> bstate \<Rightarrow> (u32 \<times> bstate) outcome" where
  "dump_loop i total1 [] st = Undef"
| "dump_loop i total1 (p # ps) st =
     (if mm_type p = BIOS_MAP_END then Ret (total1, st)
      else obind (printf (''Region %ld: type %u at 0x%llx for %uKB'' @ [NL])
             [PLong (of_nat i), PInt (mm_type p), PLong (mm_addr p), PInt (ucast (mm_size p div 1024))] st) (\<lambda>st.
           dump_loop (i + 1)
             (if mm_type p = BIOS_MAP_FREE then ucast (ucast total1 + mm_size p div 1024) else total1) ps st))"

definition dump_biosmem :: "bstate \<Rightarrow> bstate outcome" where
  "dump_biosmem st = obind (dump_loop 0 0 (memmap st) st) (\<lambda>(total1, st).
     obind (printf (''Low ram: %dKB  High ram: %dKB'' @ [NL]) [PInt (cnvmem st), PInt (extmem st)] st)
       (printf (''Total free memory: %uKB'' @ [NL]) [PInt total1]))"

text \<open>What \<open>mem_pass\<close> passes: the entries up to and with the end marker.\<close>

fun mem_pass :: "region list \<Rightarrow> region list outcome" where
  "mem_pass [] = Undef"
| "mem_pass (p # ps) =
     (if mm_type p = BIOS_MAP_END then Ret [p] else obind (mem_pass ps) (\<lambda>r. Ret (p # r)))"

section \<open>The firmware's map\<close>

record efi_md =
  md_type :: nat
  md_start :: u64
  md_pages :: u64

text \<open>
  The types 0 reserved, 1 and 2 loader, 3 and 4 boot services, 5 and 6 runtime services, 7
  conventional, 8 unusable, 9 ACPI reclaim, 10 ACPI NVS.
\<close>

definition md_map_type :: "nat \<Rightarrow> u32" where
  "md_map_type t =
     (if t = 0 \<or> t = 8 \<or> t = 5 \<or> t = 6 then BIOS_MAP_RES
      else if t = 1 \<or> t = 2 \<or> t = 3 \<or> t = 4 \<or> t = 7 then BIOS_MAP_FREE
      else if t = 9 then BIOS_MAP_ACPI
      else if t = 10 then BIOS_MAP_NVS
      else BIOS_MAP_RES)"

definition md_region :: "efi_md \<Rightarrow> region" where
  "md_region d = \<lparr>mm_addr = md_start d, mm_size = md_pages d * 4096, mm_type = md_map_type (md_type d)\<rparr>"

text \<open>The inner loop: join the new region with the first of its type that touches it, or append it.\<close>

function merge_loop :: "region \<Rightarrow> nat \<Rightarrow> region list \<Rightarrow> region list outcome" where
  "merge_loop bm0 i mm =
     obind (aget mm i) (\<lambda>bm.
       if mm_type bm = BIOS_MAP_END then
         obind (aget mm (i + 1)) (\<lambda>nx. Ret (mm[i := bm0, i + 1 := nx\<lparr>mm_type := BIOS_MAP_END\<rparr>]))
       else if mm_type bm \<noteq> mm_type bm0 then merge_loop bm0 (i + 1) mm
       else if mm_addr bm \<le> mm_addr bm0 \<and> mm_addr bm0 \<le> mm_addr bm + mm_size bm then
         Ret (mm[i := bm\<lparr>mm_size := mm_addr bm0 + mm_size bm0 - mm_addr bm\<rparr>])
       else if mm_addr bm0 \<le> mm_addr bm \<and> mm_addr bm \<le> mm_addr bm0 + mm_size bm0 then
         Ret (mm[i := bm\<lparr>mm_size := mm_addr bm + mm_size bm - mm_addr bm0, mm_addr := mm_addr bm0\<rparr>])
       else merge_loop bm0 (i + 1) mm)"
  by pat_completeness auto
termination
  by (relation "measure (\<lambda>(_, i, mm). length mm - i)") (auto simp: outcome_simps)

declare merge_loop.simps [simp del]

fun md_loop :: "efi_md list \<Rightarrow> region list \<Rightarrow> region list outcome" where
  "md_loop [] mm = Ret mm"
| "md_loop (d # ds) mm = obind (merge_loop (md_region d) 0 mm) (md_loop ds)"

text \<open>The last loop: \<open>cnvmem\<close> and \<open>extmem\<close> in KB, both \<open>u_int\<close>.\<close>

fun ext_loop :: "region list \<Rightarrow> u32 \<Rightarrow> u32 \<Rightarrow> (u32 \<times> u32) outcome" where
  "ext_loop [] cnv ext = Undef"
| "ext_loop (bm # mm) cnv ext =
     (if mm_type bm = BIOS_MAP_END then Ret (cnv, ext)
      else ext_loop mm
        (if mm_addr bm < 0x0a0000 then ucast (max (ucast cnv) ((mm_addr bm + mm_size bm) div 1024)) else cnv)
        (if mm_addr bm \<ge> 0x10000 \<and> mm_addr bm div 1024 = ucast (ext + 1024)
         then ucast (ucast ext + mm_size bm div 1024) else ext))"

text \<open>\<open>None\<close>: the firmware does not give a map, and the program panics.\<close>

definition efi_memprobe_internal :: "efi_md list option \<Rightarrow> bstate \<Rightarrow> bstate outcome" where
  "efi_memprobe_internal fw st =
     obind (aget (memmap st) 0) (\<lambda>r.
     let mm = (memmap st)[0 := r\<lparr>mm_type := BIOS_MAP_END\<rparr>] in
     case fw of None \<Rightarrow> Exit 1
     | Some ds \<Rightarrow> obind (md_loop ds mm) (\<lambda>mm. obind (ext_loop mm 0 0) (\<lambda>(cnv, ext).
         Ret (st\<lparr>memmap := mm, cnvmem := cnv, extmem := ext\<rparr>))))"

fun probe_print :: "region list \<Rightarrow> nat \<Rightarrow> bstate \<Rightarrow> bstate outcome" where
  "probe_print [] n st = Undef"
| "probe_print (bm # mm) n st =
     (if mm_type bm = BIOS_MAP_END then Ret st
      else if mm_type bm = BIOS_MAP_FREE \<and> mm_size bm > 12 * 1024 then
        obind (printf (if n \<noteq> 0 then '' '' else []) [] st) (\<lambda>st.
        obind (if mm_size bm > 1024 * 1024 then printf ''%uM'' [PLong (mm_size bm div 1024 div 1024)] st
               else printf ''%uK'' [PLong (mm_size bm div 1024)] st) (probe_print mm (n + 1)))
      else probe_print mm n st)"

definition efi_memprobe :: "efi_md list option \<Rightarrow> bstate \<Rightarrow> bstate outcome" where
  "efi_memprobe fw st =
     obind (printf '' mem['' [] st) (\<lambda>st.
     obind (efi_memprobe_internal fw st) (\<lambda>st.
     obind (probe_print (memmap st) 0 st) (printf '']'' [])))"


section \<open>The map covers what the firmware reports\<close>

definition lo :: "region \<Rightarrow> nat" where "lo r = unat (mm_addr r)"
definition hi :: "region \<Rightarrow> nat" where "hi r = unat (mm_addr r) + unat (mm_size r)"

definition cells :: "region \<Rightarrow> nat set" where "cells r = {lo r..<hi r}"

text \<open>A region that is not empty and does not wrap around, nor ends at the last address.\<close>

definition proper :: "region \<Rightarrow> bool" where
  "proper r \<longleftrightarrow> lo r < hi r \<and> hi r < 2 ^ 64 \<and> mm_type r \<noteq> BIOS_MAP_END"

definition covered :: "u32 \<Rightarrow> region list \<Rightarrow> nat set" where
  "covered t rs = \<Union> (cells ` {r \<in> set rs. mm_type r = t})"

definition live :: "region list \<Rightarrow> region list" where
  "live mm = takeWhile (\<lambda>r. mm_type r \<noteq> BIOS_MAP_END) mm"

definition apart :: "region \<Rightarrow> region \<Rightarrow> bool" where
  "apart a b \<longleftrightarrow> cells a \<inter> cells b = {}"

text \<open>The two ways of joining.\<close>

definition join_right :: "region \<Rightarrow> region \<Rightarrow> region" where
  "join_right bm bm0 = bm\<lparr>mm_size := mm_addr bm0 + mm_size bm0 - mm_addr bm\<rparr>"

definition join_left :: "region \<Rightarrow> region \<Rightarrow> region" where
  "join_left bm bm0 = bm\<lparr>mm_size := mm_addr bm + mm_size bm - mm_addr bm0, mm_addr := mm_addr bm0\<rparr>"

definition follows :: "region \<Rightarrow> region \<Rightarrow> bool" where
  "follows bm bm0 \<longleftrightarrow> mm_addr bm \<le> mm_addr bm0 \<and> mm_addr bm0 \<le> mm_addr bm + mm_size bm"

definition precedes :: "region \<Rightarrow> region \<Rightarrow> bool" where
  "precedes bm bm0 \<longleftrightarrow> mm_addr bm0 \<le> mm_addr bm \<and> mm_addr bm \<le> mm_addr bm0 + mm_size bm0"

fun merge_list :: "region \<Rightarrow> region list \<Rightarrow> region list" where
  "merge_list bm0 [] = [bm0]"
| "merge_list bm0 (b # L) =
     (if mm_type b \<noteq> mm_type bm0 then b # merge_list bm0 L
      else if follows b bm0 then join_right b bm0 # L
      else if precedes b bm0 then join_left b bm0 # L
      else b # merge_list bm0 L)"

lemma hi_word: "proper r \<Longrightarrow> unat (mm_addr r + mm_size r) = hi r"
  by (simp add: proper_def hi_def unat_plus_small)

lemma follows_iff: "proper b \<Longrightarrow> follows b bm0 \<longleftrightarrow> lo b \<le> lo bm0 \<and> lo bm0 \<le> hi b"
  by (simp add: follows_def word_le_nat_alt hi_word lo_def)

lemma precedes_iff: "proper bm0 \<Longrightarrow> precedes b bm0 \<longleftrightarrow> lo bm0 \<le> lo b \<and> lo b \<le> hi bm0"
  by (simp add: precedes_def word_le_nat_alt hi_word lo_def)

lemma apart_iff: "proper a \<Longrightarrow> proper b \<Longrightarrow> apart a b \<longleftrightarrow> hi a \<le> lo b \<or> hi b \<le> lo a"
  by (auto simp: apart_def cells_def proper_def)

lemma join_right_spans:
  assumes "proper b" "proper bm0" "lo b \<le> hi bm0"
  shows "lo (join_right b bm0) = lo b" "hi (join_right b bm0) = hi bm0"
proof -
  have "unat (mm_addr bm0 + mm_size bm0 - mm_addr b) = hi bm0 - lo b"
    using assms by (simp add: unat_minus_small word_le_nat_alt hi_word lo_def)
  with assms show "lo (join_right b bm0) = lo b" "hi (join_right b bm0) = hi bm0"
    by (simp_all add: join_right_def lo_def hi_def)
qed

lemma join_left_spans:
  assumes "proper b" "proper bm0" "lo bm0 \<le> hi b"
  shows "lo (join_left b bm0) = lo bm0" "hi (join_left b bm0) = hi b"
proof -
  have "unat (mm_addr b + mm_size b - mm_addr bm0) = hi b - lo bm0"
    using assms by (simp add: unat_minus_small word_le_nat_alt hi_word lo_def)
  with assms show "lo (join_left b bm0) = lo bm0" "hi (join_left b bm0) = hi b"
    by (simp_all add: join_left_def lo_def hi_def)
qed

text \<open>Joining regions that are apart and touch gives their union.\<close>

lemma join_union:
  assumes "proper b" "proper bm0" "apart b bm0" "mm_type b = mm_type bm0"
  shows "follows b bm0 \<Longrightarrow> cells (join_right b bm0) = cells b \<union> cells bm0 \<and> proper (join_right b bm0) \<and> mm_type (join_right b bm0) = mm_type b"
    and "\<not> follows b bm0 \<Longrightarrow> precedes b bm0 \<Longrightarrow> cells (join_left b bm0) = cells b \<union> cells bm0 \<and> proper (join_left b bm0) \<and> mm_type (join_left b bm0) = mm_type b"
proof -
  assume "follows b bm0"
  then have "lo b \<le> lo bm0" "lo bm0 = hi b"
    using assms by (auto simp: follows_iff apart_iff proper_def)
  then show "cells (join_right b bm0) = cells b \<union> cells bm0 \<and> proper (join_right b bm0) \<and> mm_type (join_right b bm0) = mm_type b"
    using assms join_right_spans [of b bm0] by (auto simp: cells_def proper_def join_right_def)
next
  assume "\<not> follows b bm0" "precedes b bm0"
  then have "lo bm0 \<le> lo b" "lo b = hi bm0"
    using assms by (auto simp: precedes_iff follows_iff apart_iff proper_def)
  then show "cells (join_left b bm0) = cells b \<union> cells bm0 \<and> proper (join_left b bm0) \<and> mm_type (join_left b bm0) = mm_type b"
    using assms join_left_spans [of b bm0] by (auto simp: cells_def proper_def join_left_def)
qed

lemma covered_simps [simp]:
  "covered t [] = {}"
  "covered t (r # rs) = (if mm_type r = t then cells r \<union> covered t rs else covered t rs)"
  by (auto simp: covered_def)

lemma merge_list_covers:
  assumes "proper bm0" "list_all proper L" "list_all (\<lambda>b. apart b bm0) L"
  shows "covered t (merge_list bm0 L) = covered t (bm0 # L) \<and> list_all proper (merge_list bm0 L)"
  using assms(2,3)
proof (induction L)
  case (Cons b L)
  then show ?case
    using join_union [of b bm0] assms(1) by (auto split: if_splits)
qed (simp add: assms(1))

lemma merge_list_apart:
  assumes "proper bm0" "list_all proper L" "list_all (\<lambda>b. apart b bm0) L" "list_all (\<lambda>b. apart b x) (bm0 # L)"
  shows "list_all (\<lambda>b. apart b x) (merge_list bm0 L)"
  using assms(2-4)
proof (induction L)
  case (Cons b L)
  then show ?case
    using join_union [of b bm0] assms(1) by (auto simp: apart_def Int_Un_distrib2)
qed simp

text \<open>The loop over the array is \<open>merge_list\<close> on the live entries.\<close>

lemma merge_loop_list:
  assumes "list_all (\<lambda>r. mm_type r \<noteq> BIOS_MAP_END) L" "mm_type e = BIOS_MAP_END"
  shows "\<exists>e' rest'. merge_loop bm0 (length P) (P @ L @ e # n # rest) = Ret (P @ merge_list bm0 L @ e' # rest')
           \<and> mm_type e' = BIOS_MAP_END
           \<and> (if length (merge_list bm0 L) = length L then e' = e \<and> rest' = n # rest else rest' = rest)"
  using assms(1)
proof (induction L arbitrary: P)
  case Nil
  show ?case
    using assms(2) by (simp add: merge_loop.simps aget_def nth_append list_update_append)
next
  case (Cons b L)
  have step: "aget (P @ (b # L) @ e # n # rest) (length P) = Ret b"
    by (simp add: aget_def)
  obtain e' rest' where IH: "merge_loop bm0 (length P + 1) (P @ (b # L) @ e # n # rest) = Ret (P @ (b # merge_list bm0 L) @ e' # rest')"
      "mm_type e' = BIOS_MAP_END"
      "if length (merge_list bm0 L) = length L then e' = e \<and> rest' = n # rest else rest' = rest"
    using Cons.IH [of "P @ [b]"] Cons.prems by auto
  show ?case
    unfolding merge_loop.simps [of bm0 "length P"] step
    using IH Cons.prems assms(2) by (auto simp: follows_def precedes_def join_right_def join_left_def)
qed


lemma length_merge_list: "length L \<le> length (merge_list bm0 L) \<and> length (merge_list bm0 L) \<le> Suc (length L)"
  by (induction L) auto

lemma live_append: "list_all proper L \<Longrightarrow> mm_type e = BIOS_MAP_END \<Longrightarrow> live (L @ e # rest) = L"
  unfolding live_def by (subst takeWhile_append2) (auto simp: list_all_iff proper_def)

text \<open>
  The firmware's map as regions: nothing empty, nothing that wraps, no two that overlap.
\<close>

definition sane_map :: "region list \<Rightarrow> bool" where
  "sane_map rs \<longleftrightarrow> list_all proper rs \<and> sorted_wrt apart rs"

lemma md_loop_covers:
  assumes "sane_map (map md_region ds)" "list_all proper L" "mm_type e = BIOS_MAP_END"
    and "list_all (\<lambda>b. list_all (apart b) (map md_region ds)) L" "length ds \<le> length rest"
  shows "\<exists>L' e' rest'. md_loop ds (L @ e # rest) = Ret (L' @ e' # rest') \<and> mm_type e' = BIOS_MAP_END
      \<and> list_all proper L' \<and> (\<forall>t. covered t L' = covered t L \<union> covered t (map md_region ds))
      \<and> (length L + length ds < n \<longrightarrow> drop n (L' @ e' # rest') = drop n (L @ e # rest))"
  using assms
proof (induction ds arbitrary: L e rest)
  case Nil
  then show ?case by (intro exI [of _ L] exI [of _ e] exI [of _ rest]) simp
next
  case (Cons d ds)
  let ?b = "md_region d"
  from Cons.prems(5) obtain r0 rest0 where rest: "rest = r0 # rest0" by (cases rest) auto
  have b: "proper ?b" "list_all (\<lambda>b. apart b ?b) L" "list_all (apart ?b) (map md_region ds)" "sane_map (map md_region ds)"
    using Cons.prems(1,4) by (auto simp: sane_map_def list_all_iff)
  have nE: "list_all (\<lambda>r. mm_type r \<noteq> BIOS_MAP_END) L" using Cons.prems(2) by (auto simp: list_all_iff proper_def)
  obtain e1 rest1 where m: "merge_loop ?b 0 (L @ e # r0 # rest0) = Ret (merge_list ?b L @ e1 # rest1)"
      "mm_type e1 = BIOS_MAP_END"
      "if length (merge_list ?b L) = length L then e1 = e \<and> rest1 = r0 # rest0 else rest1 = rest0"
    using merge_loop_list [OF nE Cons.prems(3), of ?b "[]" r0 rest0] unfolding list.size append_Nil by blast
  have len: "length ds \<le> length rest1" using m(3) Cons.prems(5) by (auto simp: rest split: if_splits)
  have ap: "list_all (\<lambda>b. list_all (apart b) (map md_region ds)) (merge_list ?b L)"
  proof -
    have "list_all (\<lambda>b. apart b x) (merge_list ?b L)" if "x \<in> set (map md_region ds)" for x
    proof (rule merge_list_apart [OF b(1) Cons.prems(2) b(2)])
      show "list_all (\<lambda>b. apart b x) (?b # L)"
        using that b(3) Cons.prems(4) unfolding list_all_iff list.map list.set by blast
    qed
    then show ?thesis unfolding list_all_iff by blast
  qed
  note cov = merge_list_covers [OF b(1) Cons.prems(2) b(2)]
  have same: "drop n (merge_list ?b L @ e1 # rest1) = drop n (L @ e # rest)" if "length L + length (d # ds) < n"
  proof -
    have "Suc (Suc (length L)) \<le> n" using that by simp
    then obtain k where "n = Suc (Suc (length L)) + k" using le_Suc_ex by blast
    moreover have "length (merge_list ?b L) = length L \<or> length (merge_list ?b L) = Suc (length L)"
      using length_merge_list [of L ?b] by linarith
    ultimately show ?thesis
      using m(3) by (elim disjE) (simp_all add: rest)
  qed
  obtain L' e' rest' where IH: "md_loop ds (merge_list ?b L @ e1 # rest1) = Ret (L' @ e' # rest')"
      "mm_type e' = BIOS_MAP_END" "list_all proper L'"
      "\<forall>t. covered t L' = covered t (merge_list ?b L) \<union> covered t (map md_region ds)"
      "length (merge_list ?b L) + length ds < n \<longrightarrow> drop n (L' @ e' # rest') = drop n (merge_list ?b L @ e1 # rest1)"
    using Cons.IH [OF b(4) _ m(2) ap len] cov by blast
  show ?case
    using IH m(1) cov same length_merge_list [of L ?b]
    by (intro exI [of _ L'] exI [of _ e'] exI [of _ rest']) (auto simp: rest)
qed


text \<open>
  C12: the memory map describes exactly the memory the firmware reports. When the descriptors are not
  empty, do not overlap and do not wrap around, and there are fewer of them than entries, building the
  map returns, and for every type the addresses in its regions of that type are those of the descriptors
  of that type, in whatever order the firmware lists them; entries behind the last one that can be
  needed keep their contents.
\<close>

theorem memory_map_covers_firmware_map:
  assumes "sane_map (map md_region ds)" "length ds < length mm" "length ds < n" "mm_type (hd mm) = BIOS_MAP_END"
  shows "\<exists>mm'. md_loop ds mm = Ret mm' \<and> (\<forall>t. covered t (live mm') = covered t (map md_region ds))
           \<and> drop n mm' = drop n mm"
proof -
  from assms(2) obtain e rest where mm: "mm = e # rest" by (cases mm) auto
  obtain L' e' rest' where "md_loop ds ([] @ e # rest) = Ret (L' @ e' # rest')" "mm_type e' = BIOS_MAP_END"
      "list_all proper L'" "\<forall>t. covered t L' = covered t [] \<union> covered t (map md_region ds)"
      "length ([] :: region list) + length ds < n \<longrightarrow> drop n (L' @ e' # rest') = drop n ([] @ e # rest)"
    using md_loop_covers [of ds "[]" e rest n] assms by (auto simp: mm)
  then show ?thesis
    using assms(3) live_append [of L' e' rest'] by (auto simp: mm)
qed

definition md0 :: "efi_md list" where
  "md0 = [\<lparr>md_type = 7, md_start = 0x1000, md_pages = 2\<rparr>, \<lparr>md_type = 0, md_start = 0x9000, md_pages = 1\<rparr>,
          \<lparr>md_type = 3, md_start = 0x3000, md_pages = 4\<rparr>]"

definition map0 :: "region list" where
  "map0 = replicate 66 \<lparr>mm_addr = 0, mm_size = 0, mm_type = 0\<rparr>"

lemma sane_md0: "sane_map (map md_region md0)"
  by (simp add: sane_map_def md0_def md_region_def proper_def lo_def hi_def md_map_type_def apart_iff
      BIOS_MAP_FREE_def BIOS_MAP_RES_def BIOS_MAP_END_def)

theorem memory_map_covers_firmware_map_witness:
  "\<exists>mm'. md_loop md0 map0 = Ret mm' \<and> (\<forall>t. covered t (live mm') = covered t (map md_region md0))
           \<and> drop 64 mm' = drop 64 map0"
  using memory_map_covers_firmware_map [OF sane_md0, of map0 64]
  by (simp add: md0_def map0_def BIOS_MAP_END_def)

section \<open>mem_add writes behind the array\<close>

text \<open>
  C40: mem_add, when it inserts a region before the first one, moves 65 entries of an array of 64: the
  entry behind the array is overwritten with the last entry, and the one after it with the entry that was
  behind the array. Without two further entries' worth of memory there the store is outside of all memory.
\<close>

theorem mem_add_writes_behind_array:
  assumes "mm = p # ps" "length mm = MEMMAP_ENTRIES + 2 + k" "mm_type p = BIOS_MAP_FREE" "sa < ea" "ea < sp_of p"
    and "sp_of p \<le> ep_of p"
  shows "\<exists>mm'. mem_add sa ea mm = Ret mm' \<and> mm' ! MEMMAP_ENTRIES = mm ! (MEMMAP_ENTRIES - 1)
           \<and> mm' ! (MEMMAP_ENTRIES + 1) = mm ! MEMMAP_ENTRIES"
proof -
  define mm1 where "mm1 = overlay mm 1 (take 65 mm)"
  have mv: "move mm 0 (0 + 1) (int MEMMAP_ENTRIES - (int 0 - 1)) = Ret mm1"
    using assms(2) by (simp add: outcome_simps MEMMAP_ENTRIES_def mm1_def)
  have l: "length mm1 = length mm"
    using assms(2) by (simp add: mm1_def overlay_def MEMMAP_ENTRIES_def)
  define q where "q = p\<lparr>mm_addr := word_of_int sa, mm_size := word_of_int (ea - sa)\<rparr>"
  have "add_loop sa ea 0 mm = Ret (mm1[0 := q], 0)"
    unfolding add_loop.simps [of sa ea 0 mm] using assms mv
    by (simp add: aget_def BIOS_MAP_FREE_def BIOS_MAP_END_def q_def)
  then have "mem_add sa ea mm = Ret (mm1[0 := q])"
    using assms(2,3) l by (simp add: mem_add_def aget_def MEMMAP_ENTRIES_def q_def BIOS_MAP_FREE_def BIOS_MAP_END_def)
  moreover have "mm1 ! 64 = mm ! 63" "mm1 ! 65 = mm ! 64"
    using assms(2) by (simp_all add: mm1_def overlay_def nth_append MEMMAP_ENTRIES_def)
  ultimately show ?thesis
    by (simp add: MEMMAP_ENTRIES_def)
qed

definition full_map0 :: "region list" where
  "full_map0 = \<lparr>mm_addr = 0x100000, mm_size = 0x100000, mm_type = 1\<rparr> # replicate 65 \<lparr>mm_addr = 0, mm_size = 0, mm_type = 0\<rparr>"

theorem mem_add_writes_behind_array_witness:
  "\<exists>mm'. mem_add 0x1000 0x2000 full_map0 = Ret mm' \<and> mm' ! MEMMAP_ENTRIES = full_map0 ! (MEMMAP_ENTRIES - 1)
           \<and> mm' ! (MEMMAP_ENTRIES + 1) = full_map0 ! MEMMAP_ENTRIES"
  by (rule mem_add_writes_behind_array [where k = 0 and p = "hd full_map0" and ps = "tl full_map0"])
    (simp_all add: full_map0_def MEMMAP_ENTRIES_def BIOS_MAP_FREE_def sp_of_def ep_of_def)

end
