(* ===== verification/Boot_Machine.thy ===== *)
theory Boot_Machine
  imports Boot_Mem
begin

text \<open>
  The machine commands of the EFI boot program: \<open>sys/arch/amd64/stand/libsa/cmd_i386.c\<close> as compiled
  with \<open>EFIBOOT\<close> (where \<open>machine boot\<close> is not supported) and the commands of \<open>efiboot.c\<close>. Leaving the
  program for the firmware is \<open>Exit\<close>.
\<close>

definition cmd_machine :: "cmd_entry list" where
  "cmd_machine =
     [cmd_row ''boot'' CMDT_CMD F_mboot, cmd_row ''comaddr'' CMDT_CMD F_comaddr,
      cmd_row ''diskinfo'' CMDT_CMD F_diskinfo, cmd_row ''memory'' CMDT_CMD F_memory,
      cmd_row ''video'' CMDT_CMD F_video, cmd_row ''exit'' CMDT_CMD F_exit,
      cmd_row ''poweroff'' CMDT_CMD F_poweroff]"

definition Xdiskinfo :: "benv \<Rightarrow> bstate \<Rightarrow> (int \<times> bstate) outcome" where
  "Xdiskinfo e st = Ret (0, puts_all (diskinfo_text e) st)"

definition Xmboot :: "bstate \<Rightarrow> (int \<times> bstate) outcome" where
  "Xmboot st = say (''Not supported yet'' @ [NL]) [] st"

definition Xcomaddr :: "bstate \<Rightarrow> (int \<times> bstate) outcome" where
  "Xcomaddr st =
     (if argc st \<ge> 2
      then obind (strtol (cs_argv st ! 1) 0) (\<lambda>(v, r). Ret (0, st\<lparr>com_addr := sint (word_of_int v :: u32)\<rparr>))
      else Ret (0, st))"

section \<open>machine memory\<close>

text \<open>The suffix of a size: the factor, and whether there is one.\<close>

definition scale :: "string \<Rightarrow> int \<Rightarrow> (int \<times> string) outcome" where
  "scale p size1 =
     (case p of [] \<Rightarrow> Ret (size1, p)
      | c # r \<Rightarrow>
         (if c = CHR ''G'' \<or> c = CHR ''g'' then
            long_op (size1 * 1024) (\<lambda>s. long_op (s * 1024) (\<lambda>s. long_op (s * 1024) (\<lambda>s. Ret (s, r))))
          else if c = CHR ''M'' \<or> c = CHR ''m'' then
            long_op (size1 * 1024) (\<lambda>s. long_op (s * 1024) (\<lambda>s. Ret (s, r)))
          else if c = CHR ''K'' \<or> c = CHR ''k'' then long_op (size1 * 1024) (\<lambda>s. Ret (s, r))
          else Ret (size1, p)))"

text \<open>One argument: \<open>None\<close> for a syntax error, which ends the command with a message.\<close>

definition mem_spec :: "string \<Rightarrow> bstate \<Rightarrow> (string option \<times> bstate) outcome" where
  "mem_spec a st =
     (if a = [] then Undef
      else
        obind (sa_strtoll (tl a) 0) (\<lambda>(size0, p).
        obind (scale p size0) (\<lambda>(size1, p).
        obind (case p of c # r \<Rightarrow> (if c = CHR ''@'' then obind (sa_strtoll r 0) (\<lambda>(v, _). Ret v)
                                  else Ret (if hd a = CHR ''='' then - 1 else 0))
               | [] \<Rightarrow> Ret (if hd a = CHR ''='' then - 1 else 0)) (\<lambda>addr.
          if addr = 0 \<or> size1 = 0 then Ret (Some (''bad language'' @ [NL]), st)
          else if hd a = CHR ''-'' then
            long_op (addr + size1) (\<lambda>ea. obind (mem_delete addr ea (memmap st)) (\<lambda>mm. Ret (None, st\<lparr>memmap := mm\<rparr>)))
          else if hd a = CHR ''+'' then
            long_op (addr + size1) (\<lambda>ea. obind (mem_add addr ea (memmap st)) (\<lambda>mm. Ret (None, st\<lparr>memmap := mm\<rparr>)))
          else if hd a = CHR ''='' then
            obind (mem_limit size1 (memmap st)) (\<lambda>mm. Ret (None, st\<lparr>memmap := mm\<rparr>))
          else Ret (Some (''bad OP'' @ [NL]), st)))))"

fun memory_loop :: "string list \<Rightarrow> bstate \<Rightarrow> (int \<times> bstate) outcome" where
  "memory_loop [] st = obind (dump_biosmem st) (\<lambda>st. Ret (0, st))"
| "memory_loop (a # as) st =
     obind (mem_spec a st) (\<lambda>(err, st). case err of Some m \<Rightarrow> say m [] st | None \<Rightarrow> memory_loop as st)"

definition Xmemory :: "bstate \<Rightarrow> (int \<times> bstate) outcome" where
  "Xmemory st = memory_loop (drop 1 (cs_argv st)) st"

section \<open>Commands of efiboot.c\<close>

definition EFI_VIDEO_MAX :: nat where "EFI_VIDEO_MAX = 32"

fun video_loop :: "(int \<times> int) list \<Rightarrow> nat \<Rightarrow> bstate \<Rightarrow> (nat \<times> bstate) outcome" where
  "video_loop [] i st = Ret (i, st)"
| "video_loop ((cols, rows) # vs) i st =
     (if i < EFI_VIDEO_MAX \<and> cols > 0 then
        obind (printf (''Mode %d: %d x %d'' @ [NL])
          [PInt (of_nat i), PInt (word_of_int cols), PInt (word_of_int rows)] st) (video_loop vs (i + 1))
      else Ret (i, st))"

definition Xvideo_efi :: "bstate \<Rightarrow> (int \<times> bstate) outcome" where
  "Xvideo_efi st =
     obind (video_loop (efi_video st) 0 st) (\<lambda>(i, st).
     obind (if argc st = 2 then obind (strtol (cs_argv st ! 1) 10) (\<lambda>(v, r). Ret (sint (word_of_int v :: u32))) else Ret (- 1)) (\<lambda>mode.
     obind (printf ([NL] @ ''Current Mode = %d'' @ [NL]) [PInt (word_of_int (conout_mode st))] st) (\<lambda>st.
       if 0 \<le> mode \<and> mode < int i then Ret (0, st\<lparr>conout_mode := mode\<rparr>) else Ret (0, st))))"

definition Xexit_efi :: "bstate \<Rightarrow> (int \<times> bstate) outcome" where
  "Xexit_efi st = Exit 0"

definition Xpoweroff_efi :: "bstate \<Rightarrow> (int \<times> bstate) outcome" where
  "Xpoweroff_efi st = Exit 0"

text \<open>Dispatch over the table.\<close>

definition exec_machine :: "benv \<Rightarrow> cmd_fn \<Rightarrow> bstate \<Rightarrow> (int \<times> bstate) outcome" where
  "exec_machine e f st =
     (case f of F_mboot \<Rightarrow> Xmboot st | F_comaddr \<Rightarrow> Xcomaddr st | F_diskinfo \<Rightarrow> Xdiskinfo e st
      | F_memory \<Rightarrow> Xmemory st | F_video \<Rightarrow> Xvideo_efi st | F_exit \<Rightarrow> Xexit_efi st
      | F_poweroff \<Rightarrow> Xpoweroff_efi st | _ \<Rightarrow> Undef)"

end
