(* ===== verification/Efi_Time.thy ===== *)
theory Efi_Time
  imports Libsa_Printf
begin

text \<open>
  The clock of the EFI boot program: \<open>getsecs\<close> of \<open>efiboot.c\<close> turns the date the firmware gives
  into seconds since 1970, and \<open>ctime\<close> of \<open>sys/lib/libsa/ctime.c\<close> turns seconds into text. The theorems
  compare both with a calendar: the sum of the lengths of the years and of the months.
\<close>

section \<open>getsecs\<close>

record efi_time =
  Year :: nat
  Month :: nat
  Day :: nat
  Hour :: nat
  Minute :: nat
  Second :: nat
  TimeZone :: int

definition daytab :: "int list list" where
  "daytab = [[0, -1, 30, 58, 89, 119, 150, 180, 211, 242, 272, 303, 333, 364],
             [0, -1, 30, 59, 90, 120, 151, 181, 212, 243, 273, 304, 334, 365]]"

definition isleap_efi :: "nat \<Rightarrow> bool" where
  "isleap_efi y \<longleftrightarrow> y mod 4 = 0 \<and> (y mod 100 \<noteq> 0 \<or> y mod 400 = 0)"

text \<open>The loop over the years, from \<open>y\<close> to the year of the date.\<close>

function leap_loop :: "nat \<Rightarrow> nat \<Rightarrow> int \<Rightarrow> int" where
  "leap_loop y year r = (if y < year then leap_loop (y + 1) year (if isleap_efi y then r + 1 else r) else r)"
  by pat_completeness auto
termination by (relation "measure (\<lambda>(y, year, r). year - y)") auto

declare leap_loop.simps [simp del]

definition getsecs :: "efi_time \<Rightarrow> int outcome" where
  "getsecs t =
     (let r = (int (Year t) - 1970) * 365;
          r = leap_loop 1970 (Year t) r
      in obind (aget (daytab ! (if isleap_efi (Year t) then 1 else 0)) (Month t)) (\<lambda>d.
           let r = r + (d + int (Day t));
               r = r * (60 * 60 * 24);
               r = r + (((int (Hour t) * 60) + int (Minute t)) * 60 + int (Second t))
           in Ret (if - 24 * 60 < TimeZone t \<and> TimeZone t < 24 * 60 then r + TimeZone t * 60 else r)))"

section \<open>ctime\<close>

definition isleap_sa :: "nat \<Rightarrow> bool" where
  "isleap_sa y \<longleftrightarrow> y mod 4 = 0 \<and> y mod 100 \<noteq> 0 \<or> y mod 400 = 0"

definition wdays :: "string list" where
  "wdays = [''Sun'', ''Mon'', ''Tue'', ''Wed'', ''Thu'', ''Fri'', ''Sat'']"

definition months :: "string list" where
  "months = [''Jan'', ''Feb'', ''Mar'', ''Apr'', ''May'', ''Jun'',
             ''Jul'', ''Aug'', ''Sep'', ''Oct'', ''Nov'', ''Dec'']"

definition monthcnt :: "int list" where
  "monthcnt = [31, 28, 31, 30, 31, 30, 31, 31, 30, 31, 30, 31]"

text \<open>The loop over the years: the days left and the year.\<close>

function year_loop :: "int \<Rightarrow> nat \<Rightarrow> int \<times> nat" where
  "year_loop tt year = (if 365 \<le> tt then year_loop (tt - (if isleap_sa year then 366 else 365)) (year + 1) else (tt, year))"
  by pat_completeness auto
termination by (relation "measure (\<lambda>(tt, year). nat tt)") auto

declare year_loop.simps [simp del]

text \<open>The loop over the months reads the table at every step.\<close>

function month_loop :: "int \<Rightarrow> nat \<Rightarrow> (int \<times> nat) outcome" where
  "month_loop tt month =
     obind (aget monthcnt month) (\<lambda>c. if tt > c then month_loop (tt - c) (month + 1) else Ret (tt, month))"
  by pat_completeness auto
termination
  by (relation "measure (\<lambda>(tt, month). 12 - month)") (auto simp: aget_def monthcnt_def split: if_splits)

declare month_loop.simps [simp del]

text \<open>Weekday, month, day, hour, minute, second and year, with C's division.\<close>

record ctime_parts =
  c_wday :: int
  c_month :: nat
  c_day :: int
  c_hh :: int
  c_mm :: int
  c_ss :: int
  c_year :: nat

definition ctime_split :: "int \<Rightarrow> ctime_parts outcome" where
  "ctime_split clock =
     (let tt = clock; ss = tt smod 60; tt = tt sdiv 60;
          mm = tt smod 60; tt = tt sdiv 60;
          hh = tt smod 24; tt = tt sdiv 24;
          wday = (4 + tt) smod 7
      in case year_loop tt 1970 of (tt, year) \<Rightarrow>
         obind (month_loop (tt + 1) 0) (\<lambda>(tt, month).
           Ret \<lparr>c_wday = wday, c_month = month,
                c_day = (if month > 2 \<and> isleap_sa year then tt - 1 else tt),
                c_hh = hh, c_mm = mm, c_ss = ss, c_year = year\<rparr>))"

definition ctime :: "int \<Rightarrow> string outcome" where
  "ctime clock = obind (ctime_split clock) (\<lambda>p.
     obind (snprintf 64 (''%s %s %d %d:%d:%d %d'' @ [NL])
       [PStr (if c_wday p < 0 \<or> c_wday p \<ge> 7 then ''???'' else wdays ! nat (c_wday p)),
        PStr (if c_month p \<ge> 12 then ''???'' else months ! c_month p),
        PInt (word_of_int (c_day p)), PInt (word_of_int (c_hh p)), PInt (word_of_int (c_mm p)),
        PInt (word_of_int (c_ss p)), PInt (of_nat (c_year p))]) (\<lambda>(s, n). Ret s))"

section \<open>The calendar\<close>

definition year_len :: "nat \<Rightarrow> int" where
  "year_len y = (if isleap_efi y then 366 else 365)"

definition month_len :: "nat \<Rightarrow> nat \<Rightarrow> int" where
  "month_len y m =
     (if m = 2 then (if isleap_efi y then 29 else 28)
      else if m \<in> {4, 6, 9, 11} then 30 else 31)"

definition years_before :: "nat \<Rightarrow> nat \<Rightarrow> int" where
  "years_before y0 y = sum_list (map year_len [y0..<y])"

definition day_of_year :: "nat \<Rightarrow> nat \<Rightarrow> nat \<Rightarrow> int" where
  "day_of_year y m d = sum_list (map (month_len y) [1..<m]) + int d - 1"

definition valid_time :: "efi_time \<Rightarrow> bool" where
  "valid_time t \<longleftrightarrow> 1970 \<le> Year t \<and> 1 \<le> Month t \<and> Month t \<le> 12 \<and> 1 \<le> Day t
     \<and> int (Day t) \<le> month_len (Year t) (Month t) \<and> Hour t < 24 \<and> Minute t < 60 \<and> Second t < 60"

definition days_of :: "efi_time \<Rightarrow> int" where
  "days_of t = years_before 1970 (Year t) + day_of_year (Year t) (Month t) (Day t)"

lemma isleap_agree: "isleap_sa y = isleap_efi y"
proof -
  have "y mod 400 = 0 \<Longrightarrow> y mod 4 = 0"
    by presburger
  then show ?thesis by (auto simp: isleap_sa_def isleap_efi_def)
qed

lemma years_before_step: "y < Y \<Longrightarrow> years_before y Y = year_len y + years_before (y + 1) Y"
  by (simp add: years_before_def upt_rec)

lemma years_before_nonneg: "0 \<le> years_before y Y"
  unfolding years_before_def by (intro sum_list_nonneg) (auto simp: year_len_def)

lemma leap_loop_eq: "y \<le> Y \<Longrightarrow> leap_loop y Y r + (int Y - int y) * 365 = r + years_before y Y"
proof (induction y Y r rule: leap_loop.induct)
  case (1 y Y r)
  show ?case
  proof (cases "y < Y")
    case True
    with 1 show ?thesis
      by (simp add: leap_loop.simps [of y] years_before_step year_len_def algebra_simps split: if_splits)
  next
    case False
    with 1 have "y = Y" by simp
    then show ?thesis by (simp add: leap_loop.simps [of Y Y] years_before_def)
  qed
qed

lemma month_cases:
  assumes "1 \<le> m" "m \<le> 12"
  obtains "m = 1" | "m = 2" | "m = 3" | "m = 4" | "m = 5" | "m = 6" | "m = 7" | "m = 8" | "m = 9" | "m = 10" | "m = 11" | "m = (12 :: nat)"
proof -
  have "m \<in> {1, 2, 3, 4, 5, 6, 7, 8, 9, 10, 11, 12}" using assms by simp arith
  then show thesis using that by blast
qed

lemma daytab_eq:
  assumes "1 \<le> m" "m \<le> 12"
  shows "aget (daytab ! (if isleap_efi y then 1 else 0)) m = Ret (day_of_year y m 0)"
  using assms
  by (cases rule: month_cases)
    (simp_all add: aget_def daytab_def day_of_year_def month_len_def upt_rec numeral_eq_Suc)

lemma getsecs_days:
  assumes "valid_time t"
  shows "getsecs t = Ret (days_of t * 86400 + int (Hour t) * 3600 + int (Minute t) * 60 + int (Second t)
           + (if \<bar>TimeZone t\<bar> < 1440 then TimeZone t * 60 else 0))"
proof -
  have y: "1970 \<le> Year t" and m: "1 \<le> Month t" "Month t \<le> 12"
    using assms by (auto simp: valid_time_def)
  have "leap_loop 1970 (Year t) ((int (Year t) - 1970) * 365) = years_before 1970 (Year t)"
    using leap_loop_eq [OF y, of "(int (Year t) - 1970) * 365"] by simp
  then show ?thesis
    by (auto simp: getsecs_def daytab_eq [OF m] days_of_def day_of_year_def Let_def abs_less_iff algebra_simps)
qed


section \<open>Text of a date\<close>

lemma year_loop_eq:
  "y \<le> Y \<Longrightarrow> 0 \<le> d \<Longrightarrow> d < 365 \<Longrightarrow> year_loop (years_before y Y + d) y = (d, Y)"
proof (induction "Y - y" arbitrary: y)
  case 0
  then show ?case by (simp add: years_before_def year_loop.simps)
next
  case (Suc n)
  then have "y < Y" by simp
  with Suc.hyps(1) [of "y + 1"] Suc show ?case
    using years_before_nonneg [of "y + 1" Y]
    by (simp add: year_loop.simps [of _ y] years_before_step year_len_def isleap_agree)
qed

text \<open>The month loop, which takes every February for one of 28 days.\<close>

lemma month_loop_eq:
  assumes "1 \<le> m" "m \<le> 12" "1 \<le> d" "d \<le> monthcnt ! (m - 1)"
  shows "month_loop (sum_list (take (m - 1) monthcnt) + d) 0 = Ret (d, m - 1)"
  using assms(1,2)
proof (cases rule: month_cases)
qed (use assms(3,4) in \<open>simp_all add: month_loop.simps monthcnt_def aget_def\<close>)


lemma day_of_year_monthcnt:
  assumes "1 \<le> m" "m \<le> 12"
  shows "day_of_year y m d + 1 = sum_list (take (m - 1) monthcnt) + (if 2 < m \<and> isleap_efi y then int d + 1 else int d)"
    and "month_len y m = (if m = 2 \<and> isleap_efi y then 29 else monthcnt ! (m - 1))"
  using assms
  by (cases rule: month_cases; simp add: day_of_year_def month_len_def monthcnt_def upt_rec numeral_eq_Suc)+

lemma day_of_year_nonneg:
  assumes "1 \<le> d"
  shows "0 \<le> day_of_year y m d"
proof -
  have "0 \<le> sum_list (map (month_len y) [1..<m])"
    by (intro sum_list_nonneg) (auto simp: month_len_def)
  then show ?thesis using assms by (simp add: day_of_year_def)
qed

lemma C_division_nonneg:
  assumes "0 \<le> x" "0 < n"
  shows "x smod n = x mod (n :: int)" and "x sdiv n = x div n"
  using assms by (cases "x = 0"; simp add: signed_modulo_int_def signed_divide_int_def sgn_if)+

lemma C_division_digit:
  assumes "0 \<le> a" "a < n" "0 \<le> q"
  shows "(a + n * q) smod n = (a :: int)" and "(a + n * q) sdiv n = q"
proof -
  have "0 \<le> a + n * q" "0 < n" using assms by simp_all
  then show "(a + n * q) smod n = a" "(a + n * q) sdiv n = q"
    using assms by (simp_all only: C_division_nonneg) simp_all
qed

text \<open>The clock without a time zone, taken apart by \<open>ctime\<close>.\<close>

lemma ctime_split_getsecs:
  assumes "valid_time t" "1440 \<le> \<bar>TimeZone t\<bar>" "day_of_year (Year t) (Month t) (Day t) < 365"
    and "month_loop (day_of_year (Year t) (Month t) (Day t) + 1) 0 = Ret (d, m)"
  shows "obind (getsecs t) ctime_split =
    Ret \<lparr>c_wday = (4 + days_of t) mod 7, c_month = m, c_day = (if m > 2 \<and> isleap_efi (Year t) then d - 1 else d),
         c_hh = int (Hour t), c_mm = int (Minute t), c_ss = int (Second t), c_year = Year t\<rparr>"
proof -
  have v: "1970 \<le> Year t" "1 \<le> Day t" "Hour t < 24" "Minute t < 60" "Second t < 60"
    using assms(1) by (simp_all add: valid_time_def)
  define T where "T = days_of t * 86400 + int (Hour t) * 3600 + int (Minute t) * 60 + int (Second t)"
  have g: "getsecs t = Ret T" using getsecs_days [OF assms(1)] assms(2) by (simp add: T_def)
  have d0: "0 \<le> days_of t"
    using years_before_nonneg [of 1970 "Year t"] day_of_year_nonneg [OF v(2)] by (simp add: days_of_def)
  have "T = int (Second t) + 60 * (int (Minute t) + 60 * (int (Hour t) + 24 * days_of t))"
    by (simp add: T_def)
  then have T: "T smod 60 = int (Second t)" "T sdiv 60 smod 60 = int (Minute t)"
      "T sdiv 60 sdiv 60 smod 24 = int (Hour t)" "T sdiv 60 sdiv 60 sdiv 24 = days_of t"
    using v d0 by (simp_all only: C_division_digit of_nat_0_le_iff of_nat_less_numeral_iff zero_le_numeral
        add_nonneg_nonneg mult_nonneg_nonneg)
  have "year_loop (days_of t) 1970 = (day_of_year (Year t) (Month t) (Day t), Year t)"
    unfolding days_of_def using v(1) assms(3) day_of_year_nonneg [OF v(2)] by (intro year_loop_eq) auto
  moreover have "(4 + days_of t) smod 7 = (4 + days_of t) mod 7"
    using d0 by (simp add: C_division_nonneg)
  ultimately show ?thesis
    using assms(4) by (simp add: g ctime_split_def Let_def T isleap_agree)
qed


text \<open>
  getsecs is the calendar: for every date from 1970 on, the seconds it returns are 86400 times
  the days of the years and months before the date, plus the time of day, plus the offset of the time
  zone when the firmware gives one of less than a day.
\<close>

theorem getsecs_counts_seconds:
  assumes "valid_time t"
  shows "getsecs t = Ret (days_of t * 86400 + int (Hour t) * 3600 + int (Minute t) * 60 + int (Second t)
           + (if \<bar>TimeZone t\<bar> < 1440 then TimeZone t * 60 else 0))"
  by (rule getsecs_days [OF assms])

definition leap_day0 :: efi_time where
  "leap_day0 = \<lparr>Year = 1972, Month = 3, Day = 7, Hour = 1, Minute = 2, Second = 3, TimeZone = 60\<rparr>"

lemma valid_leap_day0: "valid_time leap_day0"
  by (simp add: valid_time_def leap_day0_def month_len_def)

theorem getsecs_counts_seconds_witness:
  "getsecs leap_day0 = Ret ((365 + 365 + 31 + 29 + 6) * 86400 + 3600 + 120 + 3 + 3600)"
proof -
  have "days_of leap_day0 = 365 + 365 + 31 + 29 + 6"
    by (simp add: days_of_def leap_day0_def years_before_def year_len_def isleap_efi_def
        day_of_year_def month_len_def upt_rec)
  then show ?thesis
    using getsecs_counts_seconds [OF valid_leap_day0] by (simp add: leap_day0_def)
qed

lemma monthcnt_sums:
  assumes "1 \<le> m" "m \<le> 12"
  shows "sum_list (take m monthcnt) = sum_list (take (m - 1) monthcnt) + monthcnt ! (m - 1)"
    and "sum_list (take m monthcnt) \<le> (if m = 12 then 365 else 334)"
    and "1 \<le> monthcnt ! (m - 1)"
  using assms by (cases rule: month_cases; simp add: monthcnt_def)+

lemma valid_bounds:
  assumes "valid_time t" "\<not> isleap_efi (Year t) \<or> Month t < 3 \<and> \<not> (Month t = 2 \<and> Day t = 29)"
  shows "day_of_year (Year t) (Month t) (Day t) < 365"
    and "month_loop (day_of_year (Year t) (Month t) (Day t) + 1) 0 = Ret (int (Day t), Month t - 1)"
proof -
  have m: "1 \<le> Month t" "Month t \<le> 12" "1 \<le> Day t"
    using assms(1) by (auto simp: valid_time_def)
  have d: "int (Day t) \<le> monthcnt ! (Month t - 1)"
    using assms day_of_year_monthcnt(2) [OF m(1,2), of "Year t"]
    by (auto simp: valid_time_def monthcnt_def split: if_splits)
  have e: "day_of_year (Year t) (Month t) (Day t) + 1 = sum_list (take (Month t - 1) monthcnt) + int (Day t)"
    using day_of_year_monthcnt(1) [OF m(1,2), of "Year t" "Day t"] assms(2) by auto
  show "month_loop (day_of_year (Year t) (Month t) (Day t) + 1) 0 = Ret (int (Day t), Month t - 1)"
    unfolding e using m d by (intro month_loop_eq) auto
  show "day_of_year (Year t) (Month t) (Day t) < 365"
    using monthcnt_sums [OF m(1,2)] d e by (simp split: if_splits)
qed


definition day0 :: efi_time where
  "day0 = \<lparr>Year = 1971, Month = 12, Day = 31, Hour = 23, Minute = 59, Second = 58, TimeZone = 2047\<rparr>"


text \<open>
  in a leap year ctime is wrong from 1 March on: a day of March is shown as the day after it, and
  the last day of a month is shown as day 0 of the month after it. The other days are right. (The test
  that takes the extra day back asks for months after March, and the month was chosen before it.)
\<close>

theorem ctime_wrong_in_leap_years:
  assumes "valid_time t" "1440 \<le> \<bar>TimeZone t\<bar>" "isleap_efi (Year t)" "3 \<le> Month t"
    and "\<not> (Month t = 12 \<and> Day t = 31)"
  defines "last_day \<equiv> int (Day t) = month_len (Year t) (Month t)"
  shows "obind (getsecs t) ctime_split =
    Ret \<lparr>c_wday = (4 + days_of t) mod 7,
         c_month = (if last_day then Month t else Month t - 1),
         c_day = (if last_day then 0 else if Month t = 3 then int (Day t) + 1 else int (Day t)),
         c_hh = int (Hour t), c_mm = int (Minute t), c_ss = int (Second t), c_year = Year t\<rparr>"
proof -
  have m: "1 \<le> Month t" "Month t \<le> 12" "1 \<le> Day t" and d: "int (Day t) \<le> monthcnt ! (Month t - 1)"
    using assms(1,4) day_of_year_monthcnt(2) [of "Month t" "Year t"] by (auto simp: valid_time_def)
  have ld: "last_day \<longleftrightarrow> int (Day t) = monthcnt ! (Month t - 1)"
    using day_of_year_monthcnt(2) [OF m(1,2), of "Year t"] assms(4) by (simp add: last_day_def)
  have e: "day_of_year (Year t) (Month t) (Day t) + 1 = sum_list (take (Month t - 1) monthcnt) + (int (Day t) + 1)"
    using day_of_year_monthcnt(1) [OF m(1,2), of "Year t" "Day t"] assms(3,4) by simp
  have n: "last_day \<Longrightarrow> Month t < 12"
    using assms(5) m ld by (cases "Month t = 12") (auto simp: monthcnt_def)
  have "month_loop (sum_list (take (Month t - 1) monthcnt) + (int (Day t) + 1)) 0
      = Ret (if last_day then (1, Month t) else (int (Day t) + 1, Month t - 1))"
  proof (cases last_day)
    case True
    have "sum_list (take (Month t - 1) monthcnt) + (int (Day t) + 1) = sum_list (take (Month t) monthcnt) + 1"
      using True ld monthcnt_sums(1) [OF m(1,2)] by simp
    moreover have "month_loop (sum_list (take (Month t) monthcnt) + 1) 0 = Ret (1, Month t)"
      using month_loop_eq [of "Month t + 1" 1] monthcnt_sums(3) [of "Month t + 1"] n [OF True] by simp
    ultimately show ?thesis
      using True by (simp only: if_True)
  next
    case False
    then show ?thesis
      using month_loop_eq [of "Month t" "int (Day t) + 1"] m d ld by simp
  qed
  note loop = this [folded e]
  have "day_of_year (Year t) (Month t) (Day t) < 365"
    using monthcnt_sums(1,2) [OF m(1,2)] d e assms(5) by (auto simp: monthcnt_def split: if_splits)
  then show ?thesis
    using ctime_split_getsecs [OF assms(1,2), of "if last_day then 1 else int (Day t) + 1"
        "if last_day then Month t else Month t - 1"] loop assms(3,4) n by auto
qed

theorem ctime_wrong_in_leap_years_witness:
  "obind (getsecs (leap_day0\<lparr>TimeZone := 2047\<rparr>)) ctime_split =
    Ret \<lparr>c_wday = 2, c_month = 2, c_day = 8, c_hh = 1, c_mm = 2, c_ss = 3, c_year = 1972\<rparr>"
proof -
  have "days_of (leap_day0\<lparr>TimeZone := 2047\<rparr>) = 796"
    by (simp add: days_of_def leap_day0_def years_before_def year_len_def isleap_efi_def
        day_of_year_def month_len_def upt_rec)
  then show ?thesis
    using ctime_wrong_in_leap_years [of "leap_day0\<lparr>TimeZone := 2047\<rparr>"]
    by (simp add: leap_day0_def valid_time_def month_len_def isleap_efi_def)
qed

end
