(* ===== verification/Boot_Cmd.thy ===== *)
theory Boot_Cmd
  imports Boot_Vars Boot_Machine Efi_Time
begin

unbundle bit_operations_syntax

text \<open>
  The command line of the boot program: \<open>sys/stand/boot/cmd.c\<close>. \<open>docmd\<close> cuts the line into words, finds
  the command by any prefix of its name and calls its handler; \<open>getcmd\<close> reads a line from the console with
  a time limit, \<open>read_conf\<close> the lines of \<open>/etc/boot.conf\<close>.
\<close>

section \<open>Tables\<close>

definition cmd_table :: "cmd_entry list" where
  "cmd_table =
     [cmd_row ''#'' CMDT_CMD F_nop, cmd_row ''boot'' CMDT_CMD F_boot, cmd_row ''echo'' CMDT_CMD F_echo,
      cmd_row ''env'' CMDT_CMD F_env, cmd_row ''help'' CMDT_CMD F_help, cmd_row ''ls'' CMDT_CMD F_ls,
      cmd_row ''machine'' CMDT_MDC F_machine, cmd_row ''reboot'' CMDT_CMD F_reboot,
      cmd_row ''set'' CMDT_SET F_set, cmd_row ''stty'' CMDT_CMD F_stty, cmd_row ''time'' CMDT_CMD F_time]"

section \<open>Handlers\<close>

definition qualify :: "string \<Rightarrow> bstate \<Rightarrow> bstate outcome" where
  "qualify name st =
     (if CHR '':'' \<in> set name then Ret (st\<lparr>cs_path := fst (strlcpy (cs_path st) name MAXPATHLEN)\<rparr>)
      else obind (snprintf MAXPATHLEN ''%s:%s'' [PStr (cs_bootdev st), PStr name]) (\<lambda>(s, n).
        Ret (st\<lparr>cs_path := s\<rparr>)))"

definition Xboot :: "bstate \<Rightarrow> (int \<times> bstate) outcome" where
  "Xboot st =
     (if argc st > 1 \<and> \<not> (cs_argv st ! 1 \<noteq> [] \<and> hd (cs_argv st ! 1) = CHR ''-'') then
        obind (qualify (cs_argv st ! 1) st) (\<lambda>st.
        obind (bootparse 2 st) (\<lambda>(r, st). Ret (if r \<noteq> 0 then 0 else 1, st)))
      else
        obind (bootparse 1 st) (\<lambda>(r, st).
          if r \<noteq> 0 then Ret (0, st)
          else obind (snprintf MAXPATHLEN ''%s:%s'' [PStr (cs_bootdev st), PStr (cs_image st)]) (\<lambda>(s, n).
            Ret (1, st\<lparr>cs_path := s\<rparr>))))"

definition Xnop :: "bstate \<Rightarrow> (int \<times> bstate) outcome" where
  "Xnop st = (if doboot st then Xboot (st\<lparr>doboot := False\<rparr>) else Ret (0, st))"

fun print_help :: "cmd_entry list \<Rightarrow> bstate \<Rightarrow> bstate outcome" where
  "print_help [] st = Ret (putchar NL st)"
| "print_help (ct # cts) st = obind (printf '' %s'' [PStr (cmd_name ct)] st) (print_help cts)"

definition Xmachine :: "bstate \<Rightarrow> (int \<times> bstate) outcome" where
  "Xmachine st = obind (printf ''machine:'' [] st) (\<lambda>st. obind (print_help cmd_machine st) (\<lambda>st. Ret (0, st)))"

definition Xhelp :: "bstate \<Rightarrow> (int \<times> bstate) outcome" where
  "Xhelp st = obind (printf ''commands:'' [] st) (\<lambda>st. obind (print_help cmd_table st) Xmachine)"

fun echo_loop :: "string list \<Rightarrow> bstate \<Rightarrow> bstate outcome" where
  "echo_loop [] st = Ret (putchar NL st)"
| "echo_loop (a # as) st = obind (printf ''%s '' [PStr a] st) (echo_loop as)"

definition Xecho :: "bstate \<Rightarrow> (int \<times> bstate) outcome" where
  "Xecho st = obind (echo_loop (drop 1 (cs_argv st)) st) (\<lambda>st. Ret (0, st))"

text \<open>The speed argument, an \<open>int\<close>.\<close>

fun speed_loop :: "int \<Rightarrow> string \<Rightarrow> int outcome" where
  "speed_loop sp [] = Ret sp"
| "speed_loop sp (c # cp) =
     (if 48 \<le> (of_char c :: nat) \<and> of_char c \<le> (57 :: nat)
      then let s = sp * 10 + (int (of_char c) - 48) in if s < 2 ^ 31 then speed_loop s cp else Undef
      else Ret sp)"

definition Xstty :: "bstate \<Rightarrow> (int \<times> bstate) outcome" where
  "Xstty st =
     (if argc st = 1 then
        obind (ttyname st) (\<lambda>n. obind (cnspeed 0) (\<lambda>s. say (''%s speed is %d'' @ [NL]) [PStr n, PInt (word_of_int s)] st))
      else let a = cs_argv st ! 1 in
        obind (ttydev a) (\<lambda>d. case d of
            None \<Rightarrow> say (''%s not a console device'' @ [NL]) [PStr a] st
          | Some dev \<Rightarrow>
              if argc st = 2 then obind (cnspeed dev) (\<lambda>s. say (''%s speed is %d'' @ [NL]) [PStr a, PInt (word_of_int s)] st)
              else obind (speed_loop 0 (cs_argv st ! 2)) (\<lambda>sp. obind (cnspeed dev) (\<lambda>s. Ret (0, st)))))"

definition Xtime :: "bstate \<Rightarrow> (int \<times> bstate) outcome" where
  "Xtime st = obind (getsecs_now st) (\<lambda>(tt, st).
     if argc st = 1 then obind (ctime tt) (\<lambda>s. say s [] st) else Ret (0, st))"

definition Xreboot :: "bstate \<Rightarrow> (int \<times> bstate) outcome" where
  "Xreboot st = obind (printf (''Rebooting...'' @ [NL]) [] st) (\<lambda>st. Exit 0)"

section \<open>ls\<close>

definition mode_bit :: "u32 \<Rightarrow> u32 \<Rightarrow> bool" where "mode_bit m b \<longleftrightarrow> m AND b \<noteq> 0"

definition lsrwx :: "u32 \<Rightarrow> char \<Rightarrow> char \<Rightarrow> string" where
  "lsrwx m s0 s1 = [if mode_bit m 4 then CHR ''r'' else CHR ''-'', if mode_bit m 2 then CHR ''w'' else CHR ''-'',
     if mode_bit m 1 then s0 else s1]"

definition ls_line :: "string \<Rightarrow> bstat \<Rightarrow> bstate \<Rightarrow> bstate outcome" where
  "ls_line name sb st =
     (let m = st_mode sb;
          sx = (\<lambda>b c d. if mode_bit m b then (c, d) else (CHR ''x'', CHR ''-''));
          u = sx 0x800 (CHR ''s'') (CHR ''S''); g = sx 0x400 (CHR ''s'') (CHR ''S''); t = sx 0x200 (CHR ''t'') (CHR ''T'');
          s = ''-fc-d-b---l-s-w-'' ! unat (drop_bit 12 (m AND 0xF000))
              # lsrwx (drop_bit 6 m) (fst u) (snd u) @ lsrwx (drop_bit 3 m) (fst g) (snd g) @ lsrwx m (fst t) (snd t)
      in printf ('' %u,%u'' @ [CHR 0x09] @ ''%lu'' @ [CHR 0x09] @ ''%s'' @ [NL])
           [PInt (st_uid sb), PInt (st_gid sb), PLong (st_size sb), PStr name] (puts_all s st))"


text \<open>
  The loop over a directory. \<open>base\<close> is \<open>cmd.path\<close> with the slash; a name that does not fit behind it is
  stored outside of the buffer.
\<close>

fun ls_loop :: "benv \<Rightarrow> string \<Rightarrow> string list \<Rightarrow> bstate \<Rightarrow> bstate outcome" where
  "ls_loop e base [] st = Ret st"
| "ls_loop e base (name # ns) st =
     (if MAXPATHLEN \<le> length base + length name then Undef
      else let st = st\<lparr>cs_path := base @ name\<rparr> in
        obind (case fs_stat e (cs_path st) of
            Inl err \<Rightarrow> obind (strerror err) (\<lambda>m. printf (''stat(%s): %s'' @ [NL]) [PStr (cs_path st), PStr m] st)
          | Inr sb \<Rightarrow> ls_line name sb st) (ls_loop e base ns))"

definition Xls :: "benv \<Rightarrow> bstate \<Rightarrow> (int \<times> bstate) outcome" where
  "Xls e st =
     obind (qualify (if argc st > 1 then cs_argv st ! 1 else ''/.'') st) (\<lambda>st.
     case fs_stat e (cs_path st) of
       Inl err \<Rightarrow> obind (strerror err) (\<lambda>m. say (''stat(%s): %s'' @ [NL]) [PStr (cs_path st), PStr m] st)
     | Inr sb \<Rightarrow>
         if st_mode sb AND 0xF000 \<noteq> 0x4000 then obind (ls_line (cs_path st) sb st) (\<lambda>st. Ret (0, st))
         else (case fs_opendir e (cs_path st) of
             Inl err \<Rightarrow> obind (strerror err) (\<lambda>m. say (''opendir(%s): %s'' @ [NL]) [PStr (cs_path st), PStr m] st)
           | Inr names \<Rightarrow>
               if MAXPATHLEN \<le> length (cs_path st) + 1 then Undef
               else obind (ls_loop e (cs_path st @ ''/'') names (st\<lparr>cs_path := cs_path st @ ''/''\<rparr>)) (\<lambda>st. Ret (0, st))))"

section \<open>docmd\<close>

text \<open>The word at \<open>p\<close> and the start of the next one.\<close>

definition nextword :: "string \<Rightarrow> string \<times> string option" where
  "nextword p =
     (let word = takeWhile (\<lambda>c. \<not> is_blank c) p; r = dropWhile (\<lambda>c. \<not> is_blank c) p; q = dropWhile is_blank (drop 1 r)
      in (word, if q = [] then None else Some q))"

fun whatcmd :: "cmd_entry list \<Rightarrow> string \<Rightarrow> cmd_entry option" where
  "whatcmd [] word = None"
| "whatcmd (ct # cts) word = (if strn_eq (length word) word (cmd_name ct) then Some ct else whatcmd cts word)"

lemma nextword_shorter:
  assumes "nextword p = (w, Some q)"
  shows "length q < length p"
proof -
  define r where "r = dropWhile (\<lambda>c. \<not> is_blank c) p"
  have "(if dropWhile is_blank (drop 1 r) = [] then None else Some (dropWhile is_blank (drop 1 r))) = Some q"
    using assms unfolding nextword_def Let_def r_def by (simp only: prod.inject)
  then have q: "q = dropWhile is_blank (drop 1 r)" "q \<noteq> []"
    by (metis option.distinct(1) option.inject)+
  have "length q \<le> length (drop 1 r)"
    unfolding q(1) by (rule length_dropWhile_le)
  moreover have "r \<noteq> []"
    using q by (metis drop_Nil dropWhile.simps(1))
  moreover have "length r \<le> length p"
    unfolding r_def by (rule length_dropWhile_le)
  ultimately show ?thesis by (cases r) auto
qed

text \<open>The loop that fills \<open>argv\<close> from position \<open>n\<close> on.\<close>

function arg_loop :: "nat \<Rightarrow> string option \<Rightarrow> string list" where
  "arg_loop n None = []"
| "arg_loop n (Some p) =
     (if n + 1 < MAX_ARGV then (case nextword p of (w, q) \<Rightarrow> w # arg_loop (n + 1) q) else [])"
  by pat_completeness auto
termination
  by (relation "measure (\<lambda>(n, p). case p of None \<Rightarrow> 0 | Some s \<Rightarrow> Suc (length s))")
    (auto dest!: nextword_shorter [OF sym] split: option.splits)

definition exec_cmd :: "benv \<Rightarrow> cmd_fn \<Rightarrow> bstate \<Rightarrow> (int \<times> bstate) outcome" where
  "exec_cmd e f st =
     (case f of F_nop \<Rightarrow> Xnop st | F_boot \<Rightarrow> Xboot st | F_echo \<Rightarrow> Xecho st | F_env \<Rightarrow> Xenv st | F_help \<Rightarrow> Xhelp st
      | F_ls \<Rightarrow> Xls e st | F_machine \<Rightarrow> Xmachine st | F_reboot \<Rightarrow> Xreboot st | F_set \<Rightarrow> Xset st | F_stty \<Rightarrow> Xstty st
      | F_time \<Rightarrow> Xtime st
      | F_addr \<Rightarrow> exec_var f st | F_howto \<Rightarrow> exec_var f st | F_device \<Rightarrow> exec_var f st | F_tty \<Rightarrow> exec_var f st
      | F_image \<Rightarrow> exec_var f st | F_timeout \<Rightarrow> exec_var f st | F_db_console \<Rightarrow> exec_var f st
      | _ \<Rightarrow> exec_machine e f st)"

text \<open>The end of \<open>docmd\<close>: \<open>argv\<close> is filled and ended by a null pointer, and the handler is called.\<close>

definition run_cmd :: "benv \<Rightarrow> cmd_entry \<Rightarrow> string list \<Rightarrow> string option \<Rightarrow> bstate \<Rightarrow> (int \<times> bstate) outcome" where
  "run_cmd e ct pre p st =
     (let av = cmd_name ct # pre @ arg_loop (1 + length pre) p in
      if MAX_ARGV \<le> length av then Undef
      else exec_cmd e (cmd_exec ct) (st\<lparr>cs_argv := av, cs_cmd := Some ct\<rparr>))"

definition docmd :: "benv \<Rightarrow> bstate \<Rightarrow> (int \<times> bstate) outcome" where
  "docmd e st =
     (case cs_cmd st of
        Some ct \<Rightarrow> run_cmd e ct [] None st
      | None \<Rightarrow>
          let p = dropWhile is_blank (cmd_buf st) in
          if p = [] \<or> hd p = CHR ''#'' then Ret (0, st\<lparr>cs_argv := take 1 (cs_argv st)\<rparr>)
          else (case nextword p of (w, q) \<Rightarrow>
            (case whatcmd cmd_table w of
               None \<Rightarrow> run_cmd e (hd cmd_table) [w] q st
             | Some ct \<Rightarrow>
                 (case (cmd_kind ct, q) of
                    (CMDT_SET, Some r) \<Rightarrow>
                      (case nextword r of (w', q') \<Rightarrow> (case whatcmd cmd_set w' of
                         None \<Rightarrow> say (''%s: syntax error'' @ [NL]) [PStr (cmd_name ct)] (st\<lparr>cs_argv := take 1 (cs_argv st)\<rparr>)
                       | Some cs \<Rightarrow> run_cmd e cs [] q' st))
                  | (CMDT_MDC, Some r) \<Rightarrow>
                      (case nextword r of (w', q') \<Rightarrow> (case whatcmd cmd_machine w' of
                         None \<Rightarrow> say (''%s: syntax error'' @ [NL]) [PStr (cmd_name ct)] (st\<lparr>cs_argv := take 1 (cs_argv st)\<rparr>)
                       | Some cs \<Rightarrow> run_cmd e cs [] q' st))
                  | _ \<Rightarrow> run_cmd e ct [] q st))))"

section \<open>readline\<close>

text \<open>Waiting with a time limit: the clock is read at every thousandth poll. \<open>i\<close> is a \<open>u_long\<close>.\<close>

function wait_key :: "u64 \<Rightarrow> int \<Rightarrow> bstate \<Rightarrow> bstate outcome" where
  "wait_key i tt st =
     (case cnischar st of (there, st1) \<Rightarrow>
        if there then Ret st1
        else if unat i mod 1000 = 0 then
          obind (getsecs_now st1) (\<lambda>(t, st2). if t \<ge> tt then Ret st2 else wait_key (i + 1) tt st2)
        else wait_key (i + 1) tt st1)"
  by pat_completeness auto

lemma readings_cnischar: "cnischar st = (b, st1) \<Longrightarrow> readings st1 = readings st"
  by (auto simp: cnischar_def split: list.splits if_splits)

lemma readings_getsecs_now: "getsecs_now st = Ret (t, st1) \<Longrightarrow> length (readings st) = Suc (length (readings st1))"
  by (auto simp: getsecs_now_def split: list.splits)

definition polls_left :: "u64 \<Rightarrow> nat" where
  "polls_left i = (1000 - unat i mod 1000) mod 1000"

lemma polls_left_less:
  assumes "unat i mod 1000 \<noteq> 0"
  shows "polls_left (i + 1) < polls_left i"
proof (cases "i = - 1")
  case True
  then show ?thesis using assms by (simp add: polls_left_def)
next
  case False
  have "unat i mod 1000 < 1000" by simp
  then show ?thesis
    using assms unat_inc [OF False] by (auto simp: polls_left_def mod_Suc)
qed

termination wait_key
  by (relation "measures [\<lambda>(i, tt, st). length (readings st), \<lambda>(i, tt, st). polls_left i]")
    (auto dest!: readings_cnischar [OF sym] readings_getsecs_now intro: polls_left_less)

declare wait_key.simps [simp del]

text \<open>Waiting without a limit.\<close>

function wait_forever :: "bstate \<Rightarrow> bstate outcome" where
  "wait_forever st =
     (if keys st = [] then Hang else case cnischar st of (there, st1) \<Rightarrow> if there then Ret st1 else wait_forever st1)"
  by pat_completeness auto
termination
  by (relation "measure (\<lambda>st. fst (hd (keys st)))") (auto simp: cnischar_def neq_Nil_conv split: if_splits)

declare wait_forever.simps [simp del]

text \<open>The editing loop: \<open>p\<close> is what is in the buffer of \<open>n\<close> bytes so far.\<close>

lemma keys_getchar: "getchar st = Ret (c, st1) \<Longrightarrow> length (keys st) = Suc (length (keys st1)) \<and> readings st1 = readings st"
  by (auto simp: getchar_def Let_def putchar_puts_all split: list.splits if_splits)

function edit_loop :: "nat \<Rightarrow> string \<Rightarrow> bstate \<Rightarrow> (string \<times> bstate) outcome" where
  "edit_loop n p st =
     obind (getchar st) (\<lambda>(ch, st).
       if ch = CHR 0x15 then edit_loop n [] (puts_all (replicate (length p) (CHR 0x7F)) st)
       else if ch = NL \<or> ch = CHR 0x0D then Ret (p, st)
       else if ch = CHR 0x08 \<or> ch = CHR 0x7F then
         (if p \<noteq> [] then edit_loop n (butlast p) (putchar (CHR 0x7F) st) else edit_loop n p st)
       else if 32 \<le> (of_char ch :: nat) \<and> of_char ch < (127 :: nat) then
         (if length p < n - 1 then edit_loop n (p @ [ch]) st
          else edit_loop n p (putchar (CHR 0x7F) (putchar (CHR 0x07) st)))
       else edit_loop n p st)"
  by pat_completeness auto
termination
  by (relation "measure (\<lambda>(n, p, st). length (keys st))") (auto simp: putchar_puts_all dest!: keys_getchar)

declare edit_loop.simps [simp del]

definition readline :: "nat \<Rightarrow> int \<Rightarrow> bstate \<Rightarrow> (string \<times> bstate) outcome" where
  "readline n to st =
     (let edit = (\<lambda>st. edit_loop n [] (st\<lparr>cs_timeout := 0\<rparr>)) in
      if to > 0 then
        obind (getsecs_now st) (\<lambda>(t, st).
        obind (wait_key 0 (t + to) st) (\<lambda>st.
          case cnischar st of (there, st) \<Rightarrow>
            if \<not> there then Ret (fst (strlcpy (cmd_buf st) ''boot'' 5), putchar NL st) else edit st))
      else obind (wait_forever st) edit)"

definition getcmd :: "benv \<Rightarrow> bstate \<Rightarrow> (int \<times> bstate) outcome" where
  "getcmd e st =
     obind (readline CMD_BUFF_SIZE (cs_timeout st) (st\<lparr>cs_cmd := None\<rparr>)) (\<lambda>(line, st).
       docmd e (st\<lparr>cmd_buf := line, cs_cmd := (if line = [] then Some (hd cmd_table) else None)\<rparr>))"

section \<open>read_conf\<close>

text \<open>
  The inner loop of \<open>read_conf\<close>: the bytes stored, the rest of the file, and whether the last \<open>read\<close>
  returned a byte. It stops at a newline and when \<open>room\<close> bytes are stored.
\<close>

fun read_line :: "nat \<Rightarrow> string \<Rightarrow> string \<times> string \<times> bool" where
  "read_line room [] = ([], [], False)"
| "read_line room (c # d) =
     (if c = NL \<or> room \<le> 1 then ([c], d, True)
      else case read_line (room - 1) d of (s, rest, got) \<Rightarrow> (c # s, rest, got))"

lemma read_line_shorter: "read_line room d = (s, rest, True) \<Longrightarrow> length rest < length d"
  by (induction room d arbitrary: s rule: read_line.induct) (fastforce split: if_splits prod.splits)+

lemma read_line_fits: "read_line room d = (s, rest, got) \<Longrightarrow> 0 < room \<Longrightarrow> length s \<le> room \<and> (\<not> got \<longrightarrow> length s < room)"
  by (induction room d arbitrary: s rule: read_line.induct) (auto split: if_splits prod.splits)

function conf_loop :: "benv \<Rightarrow> nat option \<Rightarrow> string \<Rightarrow> bstate \<Rightarrow> (int \<times> bstate) outcome" where
  "conf_loop e err d st =
     (case read_line CMD_BUFF_SIZE d of (s, rest, got) \<Rightarrow>
        let st = st\<lparr>cs_cmd := None, cmd_buf := cstr s\<rparr> in
        if \<not> got then
          (case err of
             Some n \<Rightarrow> obind (strerror n) (\<lambda>m. obind (printf (''%s: %s'' @ [NL]) [PStr (cs_path st), PStr m] st) (\<lambda>st. Ret (- 1, st)))
           | None \<Rightarrow> if s \<noteq> [] then docmd e st else Ret (0, st))
        else if last s \<noteq> NL then
          obind (printf (''%s: line too long'' @ [NL]) [PStr (cs_path st)] (st\<lparr>cmd_buf := cstr (butlast s)\<rparr>)) (\<lambda>st. Ret (- 1, st))
        else obind (docmd e (st\<lparr>cmd_buf := cstr (butlast s)\<rparr>)) (\<lambda>(rc, st).
          if rc = 0 then conf_loop e err rest st else Ret (rc, st)))"
  by pat_completeness auto
termination
  by (relation "measure (\<lambda>(e, err, d, st). length d)") (auto dest: read_line_shorter [OF sym])

declare conf_loop.simps [simp del]

definition read_conf :: "benv \<Rightarrow> bstate \<Rightarrow> (int \<times> bstate) outcome" where
  "read_conf e st =
     (if skip_conf e then
        obind (printf (''boot.conf processing skipped at operator request'' @ [NL]) [] st) (\<lambda>st.
          Ret (- 1, st\<lparr>cs_timeout := 0\<rparr>))
      else obind (qualify (cs_conf st) st) (\<lambda>st.
        case fs_open e (cs_path st) of
          Inl err \<Rightarrow>
            if err \<noteq> 2 \<and> err \<noteq> 6 then
              obind (strerror err) (\<lambda>m. say (''open(%s): %s'' @ [NL]) [PStr (cs_path st), PStr m] st)
            else Ret (- 1, st)
        | Inr f \<Rightarrow>
            (case f_stat f of
               None \<Rightarrow> Undef
             | Some sb \<Rightarrow>
                 if st_uid sb \<noteq> 0 \<or> st_mode sb AND 2 \<noteq> 0 then
                   obind (printf (''non-secure %s, will not proceed'' @ [NL]) [PStr (cs_path st)] st) (\<lambda>st. Ret (- 1, st))
                 else conf_loop e (f_err f) (f_data f) st)))"


section \<open>Steps of readline\<close>

lemma puts_all_Nil [simp]: "puts_all [] st = st"
  by (simp add: puts_all_def)

lemma puts_all_puts_all: "puts_all s (puts_all t st) = puts_all (t @ s) st"
  by (simp add: puts_all_def)

text \<open>One round of the editing loop: it ends with the line, or goes on with another one after some echo.\<close>

lemma edit_loop_step:
  assumes "edit_loop n p st = Ret (s, st')"
  obtains ch st1 where "getchar st = Ret (ch, st1)" "s = p" "st' = st1"
    | ch st1 p' o1 where "getchar st = Ret (ch, st1)" "edit_loop n p' (puts_all o1 st1) = Ret (s, st')"
        "length p < n \<longrightarrow> length p' < n"
proof -
  obtain ch st1 where g: "getchar st = Ret (ch, st1)"
    using assms by (auto simp: edit_loop.simps [of n p st] obind_eq_Ret)
  note a = assms [unfolded edit_loop.simps [of n p st] g obind.simps split_conv putchar_puts_all puts_all_puts_all]
  consider (clear) "ch = CHR 0x15" | (stop) "ch \<noteq> CHR 0x15" "ch = NL \<or> ch = CHR 0x0D"
    | (erase) "ch \<noteq> CHR 0x15" "\<not> (ch = NL \<or> ch = CHR 0x0D)" "ch = CHR 0x08 \<or> ch = CHR 0x7F"
    | (other) "ch \<noteq> CHR 0x15" "\<not> (ch = NL \<or> ch = CHR 0x0D)" "\<not> (ch = CHR 0x08 \<or> ch = CHR 0x7F)"
    by blast
  then show thesis
  proof cases
    case clear
    with a have "edit_loop n [] (puts_all (replicate (length p) (CHR 0x7F)) st1) = Ret (s, st')" by simp
    then show thesis by (intro that(2) [OF g]) auto
  next
    case stop
    with a that(1) [OF g] show thesis by simp
  next
    case erase
    have b: "length p < n \<longrightarrow> length (butlast p) < n" by auto
    from erase show thesis
      using a that(2) [OF g _ b, of "[CHR 0x7F]"] that(2) [OF g, of p "[]"] by (auto split: if_splits)
  next
    case other
    have b: "length p < n \<longrightarrow> length (p @ [ch]) < n" if "length p < n - 1"
      using that by (simp add: less_diff_conv)
    from other show thesis
      using a that(2) [OF g _ b, of "[]"] that(2) [OF g, of p "[CHR 0x07, CHR 0x7F]"] that(2) [OF g, of p "[]"]
      by (auto split: if_splits)
  qed
qed

text \<open>The two ways \<open>readline\<close> returns: by time, or with an edited line after some waiting.\<close>

lemma readline_cases:
  assumes "readline n to st = Ret (s, st')"
  obtains t st1 st2 st3 where "to > 0" "getsecs_now st = Ret (t, st1)" "wait_key 0 (t + to) st1 = Ret st2"
      "cnischar st2 = (False, st3)" "s = ''boot''" "st' = puts_all [NL] st3"
    | t st1 st2 st3 where "to > 0" "getsecs_now st = Ret (t, st1)" "wait_key 0 (t + to) st1 = Ret st2"
      "cnischar st2 = (True, st3)" "edit_loop n [] (st3\<lparr>cs_timeout := 0\<rparr>) = Ret (s, st')"
    | st1 where "to \<le> 0" "wait_forever st = Ret st1" "edit_loop n [] (st1\<lparr>cs_timeout := 0\<rparr>) = Ret (s, st')"
proof (cases "to > 0")
  case True
  then obtain t st1 st2 b st3 where "getsecs_now st = Ret (t, st1)" "wait_key 0 (t + to) st1 = Ret st2"
      "cnischar st2 = (b, st3)"
    using assms by (auto simp: readline_def Let_def obind_eq_Ret) fastforce
  then show thesis
    using assms True that(1,2) by (cases b) (auto simp: readline_def Let_def strlcpy_take putchar_puts_all)
next
  case False
  then show thesis
    using assms that(3) by (auto simp: readline_def Let_def obind_eq_Ret)
qed

end
