(* ===== verification/Boot_Frame.thy ===== *)
theory Boot_Frame
  imports Boot_Cmd
begin

text \<open>
  What every command does to the state. The locale \<open>state_frame\<close> is the contract of a relation between
  the states before and after a command: reflexive, transitive, and closed under each kind of assignment
  the handlers make, with the bound the code gives the assigned value. Its lemmas show once that every
  handler, \<open>docmd\<close> and the reading of \<open>boot.conf\<close> stay inside such a relation. It is interpreted twice: for
  the input that is left, which makes the main loop terminate, and for the sizes of the buffers.
\<close>

section \<open>The contract\<close>

locale state_frame =
  fixes R :: "bstate \<Rightarrow> bstate \<Rightarrow> bool"
  assumes R_refl: "R st st"
    and R_trans: "R st st1 \<Longrightarrow> R st1 st2 \<Longrightarrow> R st st2"
    and R_out: "R st (puts_all s st)"
    and R_howto: "R st (st\<lparr>cs_boothowto := h\<rparr>)"
    and R_path: "length p < MAXPATHLEN \<Longrightarrow> R st (st\<lparr>cs_path := p\<rparr>)"
    and R_bootdev: "length p < BOOTDEVLEN \<Longrightarrow> R st (st\<lparr>cs_bootdev := p\<rparr>)"
    and R_image: "length p < MAXPATHLEN - 16 \<Longrightarrow> R st (st\<lparr>cs_image := p\<rparr>)"
    and R_addr: "R st (st\<lparr>cs_addr := a\<rparr>)"
    and R_timeout: "R st (st\<lparr>cs_timeout := sint (w :: u32)\<rparr>)"
    and R_environ: "(\<And>old. environ st = Some old \<Longrightarrow> length old < ENV_SIZE \<Longrightarrow> length en < ENV_SIZE)
        \<Longrightarrow> (environ st = None \<Longrightarrow> length en < ENV_SIZE) \<Longrightarrow> R st (st\<lparr>environ := Some en\<rparr>)"
    and R_doboot: "R st (st\<lparr>doboot := flag\<rparr>)"
    and R_db_console: "R st (st\<lparr>db_console := dbc\<rparr>)"
    and R_cn_dev: "R st (st\<lparr>cn_dev := dev\<rparr>)"
    and R_com_addr: "R st (st\<lparr>com_addr := ca\<rparr>)"
    and R_memmap: "R st (st\<lparr>memmap := mm\<rparr>)"
    and R_mode: "R st (st\<lparr>conout_mode := md\<rparr>)"
    and R_clock: "readings st = t # ts \<Longrightarrow> R st (st\<lparr>readings := ts\<rparr>)"
    and R_keys: "length ks \<le> length (keys st) \<Longrightarrow> R st (st\<lparr>keys := ks\<rparr>)"
    and R_argv: "length av < MAX_ARGV \<Longrightarrow> R st (st\<lparr>cs_argv := av\<rparr>)"
    and R_cmd: "R st (st\<lparr>cs_cmd := c\<rparr>)"
    and R_buf: "length line < CMD_BUFF_SIZE \<Longrightarrow> R st (st\<lparr>cmd_buf := line\<rparr>)"
begin

text \<open>The laws as rules that add one assignment at the end.\<close>

lemmas frame_laws = R_out R_howto R_path R_bootdev R_image R_addr R_timeout R_doboot R_db_console R_cn_dev
  R_com_addr R_memmap R_mode R_argv R_cmd R_buf

lemmas then_laws = frame_laws [THEN R_trans [rotated]]

lemma putchar_frame: "R st (putchar c st)"
  unfolding putchar_puts_all by (rule R_out)

lemma printf_frame: "printf f a st = Ret st' \<Longrightarrow> R st st'"
  by (auto simp: outcome_simps R_out)

lemma say_frame: "say f a st = Ret (r, st') \<Longrightarrow> R st st'"
  by (auto simp: outcome_simps R_out)

lemmas print_frames = printf_frame say_frame

lemma parse_loop_frame: "parse_loop h as st = Ret (r, st') \<Longrightarrow> R st st'"
  by (induction h as st arbitrary: st' rule: parse_loop.induct)
    (auto simp: outcome_simps frame_laws split: if_splits sum.splits)

lemma bootparse_frame: "bootparse i st = Ret (r, st') \<Longrightarrow> R st st'"
  by (simp add: bootparse_def parse_loop_frame)

lemma qualify_frame: "qualify n st = Ret st' \<Longrightarrow> R st st'"
  by (auto simp: qualify_def outcome_simps MAXPATHLEN_def R_path snprintf_length strlcpy_length split: if_splits)

lemma Xboot_frame: "Xboot st = Ret (r, st') \<Longrightarrow> R st st'"
  unfolding Xboot_def
  by (auto simp: outcome_simps MAXPATHLEN_def split: if_splits
      dest!: qualify_frame bootparse_frame snprintf_length intro: R_trans then_laws)

lemma Xnop_frame: "Xnop st = Ret (r, st') \<Longrightarrow> R st st'"
  by (auto simp: Xnop_def R_refl split: if_splits dest!: print_frames Xboot_frame intro: R_trans [OF R_doboot])

section \<open>Variables\<close>

lemma Xhowto_frame: "Xhowto st = Ret (r, st') \<Longrightarrow> R st st'"
  by (auto simp: Xhowto_def obind_eq_Ret R_out dest: bootparse_frame split: if_splits)

lemma Xtty_frame: "Xtty st = Ret (r, st') \<Longrightarrow> R st st'"
  by (auto simp: Xtty_def Let_def cnset_def obind_eq_Ret split: if_splits option.splits
      dest!: print_frames intro: R_trans [OF R_trans [OF _ R_cn_dev]] R_trans)

lemma exec_var_frame:
  assumes "exec_var f st = Ret (r, st')"
  shows "R st st'"
proof (cases f)
  case F_tty
  then show ?thesis using assms by (simp add: exec_var_def Xtty_frame)
next
  case F_howto
  then show ?thesis using assms by (simp add: exec_var_def Xhowto_frame)
qed (use assms in \<open>auto simp: exec_var_def Xaddr_def Xdevice_def Ximage_def Xtimeout_def Xdb_console_def Let_def
      obind_eq_Ret BOOTDEVLEN_def MAXPATHLEN_def strlcpy_length frame_laws R_refl split: if_splits dest!: say_frame\<close>)

lemma set_loop_frame: "set_loop cts st = Ret (r, st') \<Longrightarrow> R st st'"
proof (induction cts arbitrary: st)
  case Nil
  then show ?case by (simp add: R_refl)
next
  case (Cons ct cts)
  then show ?case
    by (auto simp: obind_eq_Ret dest!: print_frames exec_var_frame intro: R_trans)
qed

lemma Xset_frame: "Xset st = Ret (r, st') \<Longrightarrow> R st st'"
  by (auto simp: Xset_def obind_eq_Ret dest!: print_frames set_loop_frame intro: R_trans)

lemma env_loop_pre: "env_loop var pre p = Ret (pre', p') \<Longrightarrow> pre' = pre @ p"
proof (induction var pre p rule: env_loop.induct)
  case (1 var pre p)
  then show ?case by (simp add: env_loop.simps [of var pre p] Let_def split: if_splits)
qed

lemma Xenv_frame: "Xenv st = Ret (r, st') \<Longrightarrow> R st st'"
proof (cases "argc st = 1")
  case True
  then show "Xenv st = Ret (r, st') \<Longrightarrow> R st st'"
    by (auto simp: Xenv_def split: option.splits dest!: say_frame)
next
  case False
  assume "Xenv st = Ret (r, st')"
  with False obtain pre p s n where
    pre: "(case environ st of None \<Rightarrow> Ret ([], []) | Some e \<Rightarrow> env_loop (cs_argv st ! 1) [] e) = Ret (pre, p)"
    and s: "length pre < ENV_SIZE \<Longrightarrow> length s < ENV_SIZE - length pre"
    and st': "st' = st\<lparr>environ := Some (pre @ s)\<rparr>"
    by (simp add: Xenv_def obind_eq_Ret split_beta) (metis prod.collapse snprintf_length zero_less_diff)
  show "R st st'"
    unfolding st'
  proof (rule R_environ)
    show "length (pre @ s) < ENV_SIZE" if "environ st = Some old" "length old < ENV_SIZE" for old
      using pre that s by (auto dest!: print_frames env_loop_pre)
    show "length (pre @ s) < ENV_SIZE" if "environ st = None"
      using pre that s by (auto simp: ENV_SIZE_def)
  qed
qed

section \<open>Machine commands\<close>

lemma dump_loop_frame: "dump_loop i t ps st = Ret (u, st') \<Longrightarrow> R st st'"
  by (induction i t ps st rule: dump_loop.induct)
    (auto simp: obind_eq_Ret R_refl split: if_splits dest: printf_frame intro: R_trans)

lemma mem_spec_frame: "mem_spec a st = Ret (m, st') \<Longrightarrow> R st st'"
  by (auto simp: mem_spec_def long_op_def obind_eq_Ret R_refl R_memmap split: if_splits list.splits)

lemma memory_loop_frame: "memory_loop as st = Ret (r, st') \<Longrightarrow> R st st'"
proof (induction as arbitrary: st)
  case Nil
  then show ?case
    by (auto simp: dump_biosmem_def obind_eq_Ret dest!: print_frames dump_loop_frame intro: R_trans)
next
  case (Cons a as)
  then show ?case
    by (auto simp: obind_eq_Ret split: option.splits dest!: print_frames mem_spec_frame intro: R_trans)
qed

lemma video_loop_frame: "video_loop vs i st = Ret (j, st') \<Longrightarrow> R st st'"
  by (induction vs i st rule: video_loop.induct)
    (auto simp: obind_eq_Ret R_refl split: if_splits dest: printf_frame intro: R_trans)

lemma Xvideo_frame: "Xvideo_efi st = Ret (r, st') \<Longrightarrow> R st st'"
  by (auto simp: Xvideo_efi_def obind_eq_Ret split: if_splits dest!: print_frames video_loop_frame
      intro: R_trans then_laws(13))

lemma exec_machine_frame:
  assumes "exec_machine e f st = Ret (r, st')"
  shows "R st st'"
proof (cases f)
  case F_memory
  then show ?thesis using assms by (simp add: exec_machine_def Xmemory_def memory_loop_frame)
next
  case F_video
  then show ?thesis using assms by (simp add: exec_machine_def Xvideo_frame)
qed (use assms in \<open>auto simp: exec_machine_def Xmboot_def Xcomaddr_def Xdiskinfo_def Xexit_efi_def Xpoweroff_efi_def
      obind_eq_Ret frame_laws R_refl split: if_splits dest!: say_frame\<close>)

section \<open>Commands\<close>

lemma print_help_frame: "print_help cts st = Ret st' \<Longrightarrow> R st st'"
proof (induction cts arbitrary: st)
  case Nil
  then show ?case using putchar_frame by auto
next
  case (Cons ct cts)
  then show ?case by (auto simp: obind_eq_Ret dest!: printf_frame intro: R_trans)
qed

lemma echo_loop_frame: "echo_loop as st = Ret st' \<Longrightarrow> R st st'"
proof (induction as arbitrary: st)
  case Nil
  then show ?case using putchar_frame by auto
next
  case (Cons a as)
  then show ?case by (auto simp: obind_eq_Ret dest!: printf_frame intro: R_trans)
qed

lemma Xmachine_frame: "Xmachine st = Ret (r, st') \<Longrightarrow> R st st'"
  by (auto simp: Xmachine_def obind_eq_Ret dest!: print_frames print_help_frame intro: R_trans)

lemma Xhelp_frame: "Xhelp st = Ret (r, st') \<Longrightarrow> R st st'"
  by (auto simp: Xhelp_def obind_eq_Ret dest!: print_frames print_help_frame Xmachine_frame intro: R_trans)

lemma Xstty_frame: "Xstty st = Ret (r, st') \<Longrightarrow> R st st'"
  by (auto simp: Xstty_def Let_def obind_eq_Ret R_refl split: if_splits option.splits dest!: say_frame)

lemma Xtime_frame: "Xtime st = Ret (r, st') \<Longrightarrow> R st st'"
  by (auto simp: Xtime_def getsecs_now_def obind_eq_Ret split: if_splits list.splits
      dest!: say_frame intro: R_clock R_trans [OF R_clock])

lemma ls_line_frame: "ls_line n sb st = Ret st' \<Longrightarrow> R st st'"
  by (auto simp: ls_line_def Let_def dest!: printf_frame intro: R_trans [OF R_out])

lemma ls_loop_frame: "ls_loop e base ns st = Ret st' \<Longrightarrow> R st st'"
proof (induction ns arbitrary: st)
  case Nil
  then show ?case by (simp add: R_refl)
next
  case (Cons n ns)
  have p: "R st (st\<lparr>cs_path := base @ n\<rparr>)"
    using Cons.prems by (intro R_path) (simp split: if_splits)
  show ?case
    using Cons.prems
    by (auto simp: Let_def obind_eq_Ret split: if_splits sum.splits dest!: print_frames ls_line_frame Cons.IH
        intro: R_trans [OF p] R_trans)
qed

lemma Xls_frame:
  assumes "Xls e st = Ret (r, st')"
  shows "R st st'"
proof -
  obtain st1 where q: "qualify (if argc st > 1 then cs_argv st ! 1 else ''/.'') st = Ret st1"
    using assms by (auto simp: Xls_def obind_eq_Ret)
  have "R st1 st'"
  proof (cases "fs_stat e (cs_path st1)")
    case (Inl err)
    with assms q show ?thesis by (auto simp: Xls_def obind_eq_Ret dest!: say_frame)
  next
    case (Inr sb)
    show ?thesis
    proof (cases "st_mode sb AND 0xF000 = 0x4000")
      case False
      with assms q Inr show ?thesis by (auto simp: Xls_def obind_eq_Ret dest!: ls_line_frame)
    next
      case True
      have "R st1 (st1\<lparr>cs_path := cs_path st1 @ ''/''\<rparr>)" if "length (cs_path st1) + 1 < MAXPATHLEN"
        using that by (intro R_path) simp
      with assms q Inr True show ?thesis
        by (cases "fs_opendir e (cs_path st1)")
          (auto simp: Xls_def obind_eq_Ret dest!: say_frame ls_loop_frame split: if_splits intro: R_trans)
    qed
  qed
  with qualify_frame [OF q] show ?thesis by (rule R_trans)
qed

lemma exec_cmd_frame:
  assumes "exec_cmd e f st = Ret (r, st')"
  shows "R st st'"
proof (cases f)
  case F_echo
  with assms show ?thesis by (auto simp: exec_cmd_def Xecho_def obind_eq_Ret dest!: echo_loop_frame)
next
  case F_reboot
  with assms show ?thesis by (simp add: exec_cmd_def Xreboot_def obind_eq_Ret)
qed (use assms in \<open>simp_all add: exec_cmd_def Xnop_frame Xboot_frame Xenv_frame Xhelp_frame Xls_frame Xmachine_frame
      Xset_frame Xstty_frame Xtime_frame exec_var_frame exec_machine_frame\<close>)

section \<open>Command lines\<close>

lemma run_cmd_frame:
  assumes "run_cmd e ct pre p st = Ret (r, st')"
  shows "R st st'"
proof -
  let ?av = "cmd_name ct # pre @ arg_loop (1 + length pre) p"
  have "\<not> MAX_ARGV \<le> length ?av" and x: "exec_cmd e (cmd_exec ct) (st\<lparr>cs_argv := ?av, cs_cmd := Some ct\<rparr>) = Ret (r, st')"
    using assms by (simp_all add: run_cmd_def Let_def split: if_splits)
  then have "R st (st\<lparr>cs_argv := ?av, cs_cmd := Some ct\<rparr>)"
    by (intro then_laws R_argv) simp
  then show ?thesis using exec_cmd_frame [OF x] by (rule R_trans)
qed

lemma argv_cut_frame: "R st (st\<lparr>cs_argv := take (Suc 0) (cs_argv st)\<rparr>)"
  by (rule R_argv) (simp add: MAX_ARGV_def)

lemma docmd_frame: "docmd e st = Ret (r, st') \<Longrightarrow> R st st'"
  unfolding docmd_def Let_def
  by (auto split: option.splits if_splits prod.splits cmd_type.splits
      dest!: run_cmd_frame say_frame intro: argv_cut_frame R_trans [OF argv_cut_frame])

lemma cnischar_frame: "cnischar st = (b, st') \<Longrightarrow> R st st'"
  by (auto simp: cnischar_def R_refl R_keys split: list.splits if_splits)

lemma getchar_frame: "getchar st = Ret (c, st') \<Longrightarrow> R st st'"
  by (auto simp: getchar_def Let_def putchar_puts_all R_keys R_trans [OF R_keys R_out] split: list.splits if_splits)

lemma getsecs_now_frame: "getsecs_now st = Ret (t, st') \<Longrightarrow> R st st'"
  by (auto simp: getsecs_now_def R_clock split: list.splits)

lemma wait_key_frame: "wait_key i tt st = Ret st' \<Longrightarrow> R st st'"
proof (induction i tt st rule: wait_key.induct)
  case (1 i tt st)
  obtain b st1 where c: "cnischar st = (b, st1)" by fastforce
  have "R st1 st'"
  proof (cases "b \<or> unat i mod 1000 \<noteq> 0")
    case True
    then show ?thesis
      using 1 c by (auto simp: wait_key.simps [of i tt st] R_refl split: if_splits)
  next
    case False
    then obtain t st2 where g: "getsecs_now st1 = Ret (t, st2)" "(if t \<ge> tt then Ret st2 else wait_key (i + 1) tt st2) = Ret st'"
      using 1(3) c by (auto simp: wait_key.simps [of i tt st] obind_eq_Ret)
    have "R st2 st'"
      using 1(1) [OF c [symmetric] _ _ g(1) refl] g(2) False by (cases "t \<ge> tt") (auto simp: R_refl)
    with getsecs_now_frame [OF g(1)] show ?thesis by (rule R_trans)
  qed
  with cnischar_frame [OF c] show ?case by (rule R_trans)
qed

lemma wait_forever_frame: "wait_forever st = Ret st' \<Longrightarrow> R st st'"
proof (induction st rule: wait_forever.induct)
  case (1 st)
  obtain b st1 where c: "cnischar st = (b, st1)" by fastforce
  with 1 have "R st1 st'"
    by (cases b) (auto simp: wait_forever.simps [of st] R_refl split: if_splits)
  with cnischar_frame [OF c] show ?case by (rule R_trans)
qed

lemma edit_loop_frame: "edit_loop n p st = Ret (s, st') \<Longrightarrow> R st st'"
proof (induction "length (keys st)" arbitrary: p st rule: less_induct)
  case less
  from less.prems show ?case
  proof (cases rule: edit_loop_step)
    case (1 ch st1)
    then show ?thesis using getchar_frame by simp
  next
    case (2 ch st1 p' o1)
    have "R (puts_all o1 st1) st'"
      using 2 keys_getchar [OF 2(1)] by (intro less.hyps) auto
    then show ?thesis
      using getchar_frame [OF 2(1)] by (blast intro: R_trans R_out)
  qed
qed

lemma edit_loop_fits: "edit_loop n p st = Ret (s, st') \<Longrightarrow> length p < n \<Longrightarrow> length s < n"
proof (induction "length (keys st)" arbitrary: p st rule: less_induct)
  case less
  from less.prems(1) show ?case
  proof (cases rule: edit_loop_step)
    case (1 ch st1)
    then show ?thesis using less.prems by simp
  next
    case (2 ch st1 p' o1)
    then show ?thesis
      using less.prems(2) keys_getchar [OF 2(1)] by (intro less.hyps [of "puts_all o1 st1" p']) auto
  qed
qed

lemma timeout_off_frame: "R st (st\<lparr>cs_timeout := 0\<rparr>)"
  using R_timeout [of st 0] by simp

lemma readline_frame:
  assumes "readline n to st = Ret (s, st')"
  shows "R st st'"
  using assms
proof (cases rule: readline_cases)
  case (1 t st1 st2 st3)
  then show ?thesis
    by (metis R_trans R_out getsecs_now_frame wait_key_frame cnischar_frame)
next
  case (2 t st1 st2 st3)
  then show ?thesis
    by (metis R_trans timeout_off_frame getsecs_now_frame wait_key_frame cnischar_frame edit_loop_frame)
next
  case (3 st1)
  then show ?thesis
    by (metis R_trans timeout_off_frame wait_forever_frame edit_loop_frame)
qed

lemma readline_fits:
  assumes "readline CMD_BUFF_SIZE to st = Ret (s, st')"
  shows "length s < CMD_BUFF_SIZE"
  using assms
proof (cases rule: readline_cases)
qed (auto simp: CMD_BUFF_SIZE_def dest!: edit_loop_fits)

lemma getcmd_frame:
  assumes "getcmd e st = Ret (r, st')"
  shows "R st st'"
proof -
  obtain line st1 where l: "readline CMD_BUFF_SIZE (cs_timeout st) (st\<lparr>cs_cmd := None\<rparr>) = Ret (line, st1)"
    and d: "docmd e (st1\<lparr>cmd_buf := line, cs_cmd := if line = [] then Some (hd cmd_table) else None\<rparr>) = Ret (r, st')"
    using assms by (auto simp: getcmd_def obind_eq_Ret)
  have "R st1 (st1\<lparr>cmd_buf := line, cs_cmd := if line = [] then Some (hd cmd_table) else None\<rparr>)"
    using readline_fits [OF l] by (intro then_laws R_buf) auto
  then show ?thesis
    using R_cmd readline_frame [OF l] docmd_frame [OF d] by (blast intro: R_trans)
qed

lemma conf_loop_frame: "conf_loop e err d st = Ret (r, st') \<Longrightarrow> R st st'"
proof (induction e err d st rule: conf_loop.induct)
  case (1 e err d st)
  obtain s rest got where l: "read_line CMD_BUFF_SIZE d = (s, rest, got)" by (cases "read_line CMD_BUFF_SIZE d") auto
  let ?line = "if got then cstr (butlast s) else cstr s"
  let ?st = "st\<lparr>cs_cmd := None, cmd_buf := ?line\<rparr>"
  have "length s \<le> CMD_BUFF_SIZE \<and> (\<not> got \<longrightarrow> length s < CMD_BUFF_SIZE)"
    using read_line_fits [OF l] by (simp add: CMD_BUFF_SIZE_def)
  then have "length ?line < CMD_BUFF_SIZE"
    using length_cstr_le [of s] length_cstr_le [of "butlast s"] by (auto simp: CMD_BUFF_SIZE_def)
  then have st: "R st ?st"
    by (intro then_laws R_cmd)
  have "R ?st st'"
  proof (cases got)
    case False
    with 1(2) l show ?thesis
      by (auto simp: conf_loop.simps [of e err d st] Let_def obind_eq_Ret R_refl split: option.splits if_splits
          dest!: printf_frame docmd_frame)
  next
    case True
    show ?thesis
    proof (cases "last s = NL")
      case False
      with True 1(2) l show ?thesis
        by (auto simp: conf_loop.simps [of e err d st] Let_def obind_eq_Ret dest!: printf_frame)
    next
      case nl: True
      then obtain rc st1 where d: "docmd e ?st = Ret (rc, st1)" "(if rc = 0 then conf_loop e err rest st1 else Ret (rc, st1)) = Ret (r, st')"
        using True 1(2) l by (auto simp: conf_loop.simps [of e err d st] Let_def obind_eq_Ret)
      have "R st1 st'"
        using 1(1) [OF l [symmetric] refl refl] True nl d by (cases "rc = 0") (auto simp: R_refl)
      with docmd_frame [OF d(1)] show ?thesis by (rule R_trans)
    qed
  qed
  with st show ?case by (rule R_trans)
qed

lemma read_conf_frame:
  assumes "read_conf e st = Ret (r, st')"
  shows "R st st'"
proof (cases "skip_conf e")
  case True
  with assms show ?thesis
    by (auto simp: read_conf_def obind_eq_Ret dest!: printf_frame intro: R_trans timeout_off_frame)
next
  case False
  then obtain st1 where q: "qualify (cs_conf st) st = Ret st1"
    using assms by (auto simp: read_conf_def obind_eq_Ret)
  have "R st1 st'"
  proof (cases "fs_open e (cs_path st1)")
    case (Inl err)
    with assms False q show ?thesis
      by (auto simp: read_conf_def obind_eq_Ret R_refl split: if_splits dest!: say_frame)
  next
    case (Inr f)
    with assms False q show ?thesis
      by (cases "f_stat f")
        (auto simp: read_conf_def obind_eq_Ret split: if_splits dest!: printf_frame conf_loop_frame)
  qed
  with qualify_frame [OF q] show ?thesis by (rule R_trans)
qed

end

section \<open>Sizes\<close>

text \<open>Every string fits its buffer with the terminator, and \<open>argv\<close> its array with the null pointer.\<close>

definition boot_ok :: "bstate \<Rightarrow> bool" where
  "boot_ok st \<longleftrightarrow> length (cs_bootdev st) < BOOTDEVLEN \<and> length (cs_image st) < MAXPATHLEN - 16
     \<and> length (cs_path st) < MAXPATHLEN \<and> length (cs_argv st) < MAX_ARGV \<and> length (cmd_buf st) < CMD_BUFF_SIZE
     \<and> (case environ st of None \<Rightarrow> True | Some en \<Rightarrow> length en < ENV_SIZE)
     \<and> - (2 ^ 31) \<le> cs_timeout st \<and> cs_timeout st < 2 ^ 31"

lemma boot_ok_puts_all [simp]: "boot_ok (puts_all s st) = boot_ok st"
  by (simp add: boot_ok_def)

interpretation sizes: state_frame "\<lambda>st st'. boot_ok st \<longrightarrow> boot_ok st'"
proof
  fix st :: bstate and w :: u32
  show "boot_ok st \<longrightarrow> boot_ok (st\<lparr>cs_timeout := sint w\<rparr>)"
    using sint_greater_eq [of w] sint_less [of w] by (simp add: boot_ok_def)
qed (auto simp: boot_ok_def split: option.splits)

section \<open>Input\<close>

interpretation input: state_frame "\<lambda>st st'. inputs st' \<le> inputs st"
  by unfold_locales (auto simp: inputs_def)

lemma edit_loop_uses_key:
  assumes "edit_loop n p st = Ret (s, st')"
  shows "inputs st' < inputs st"
  using assms
proof (cases rule: edit_loop_step)
  case (1 ch st1)
  then show ?thesis using keys_getchar [OF 1(1)] by (simp add: inputs_def)
next
  case (2 ch st1 p' o1)
  then show ?thesis
    using keys_getchar [OF 2(1)] input.edit_loop_frame [OF 2(2)] by (simp add: inputs_def)
qed

lemma readline_uses_input:
  assumes "readline n to st = Ret (s, st')"
  shows "inputs st' < inputs st"
proof -
  have clock: "inputs st1 < inputs st" if "getsecs_now st = Ret (t, st1)" for t st1
    using that by (auto simp: getsecs_now_def inputs_def split: list.splits)
  from assms show ?thesis
  proof (cases rule: readline_cases)
    case (1 t st1 st2 st3)
    then show ?thesis
      using clock [OF 1(2)] input.wait_key_frame [OF 1(3)] input.cnischar_frame [OF 1(4)] by simp
  next
    case (2 t st1 st2 st3)
    then show ?thesis
      using clock [OF 2(2)] input.wait_key_frame [OF 2(3)] input.cnischar_frame [OF 2(4)]
        edit_loop_uses_key [OF 2(5)] by (simp add: inputs_def)
  next
    case (3 st1)
    then show ?thesis
      using input.wait_forever_frame [OF 3(2)] edit_loop_uses_key [OF 3(3)] by (simp add: inputs_def)
  qed
qed

lemma getcmd_uses_input:
  assumes "getcmd e st = Ret (r, st')"
  shows "inputs st' < inputs st"
proof -
  obtain line st1 where l: "readline CMD_BUFF_SIZE (cs_timeout st) (st\<lparr>cs_cmd := None\<rparr>) = Ret (line, st1)"
    and d: "docmd e (st1\<lparr>cmd_buf := line, cs_cmd := if line = [] then Some (hd cmd_table) else None\<rparr>) = Ret (r, st')"
    using assms by (auto simp: getcmd_def obind_eq_Ret)
  show ?thesis
    using readline_uses_input [OF l] input.docmd_frame [OF d] by (simp add: inputs_def)
qed

section \<open>Sessions\<close>

text \<open>The states a user can reach from the prompt, one command after the other.\<close>

inductive session :: "benv \<Rightarrow> bstate \<Rightarrow> bstate \<Rightarrow> bool" for e st where
  session_start: "session e st st"
| session_cmd: "session e st st1 \<Longrightarrow> getcmd e st1 = Ret (r, st2) \<Longrightarrow> session e st st2"


definition typed_state0 :: bstate where
  "typed_state0 = env_state0\<lparr>keys := [(3, CHR 0x0D)], cs_timeout := 0\<rparr>"

definition no_files :: benv where
  "no_files = \<lparr>fs_open = (\<lambda>_. Inl 2), fs_stat = (\<lambda>_. Inl 2), fs_opendir = (\<lambda>_. Inl 2),
     loadfile = (\<lambda>_ _. Inl 2), mdrandom = id, skip_conf = False, diskinfo_text = []\<rparr>"

lemma typed_state0_boots:
  "\<exists>st. getcmd no_files typed_state0 = Ret (1, st) \<and> cs_path st = ''hd0a:/bsd''"
  by (simp add: getcmd_def readline_def typed_state0_def env_state0_def Let_def wait_forever.simps cnischar_def
      edit_loop.simps getchar_def NL_def putchar_puts_all docmd_def cmd_table_def run_cmd_def MAX_ARGV_def
      exec_cmd_def Xnop_def Xboot_def argc_def bootparse_def snprintf_def take_str_def emit_def sputchar_def
      MAXPATHLEN_def cstr_def NUL_def)


end
