(* ===== verification/Boot_Main.thy ===== *)
theory Boot_Main
  imports Boot_Frame
begin

unbundle bit_operations_syntax

text \<open>
  The main loop of the boot program: \<open>sys/stand/boot/boot.c\<close>, with \<open>machdep\<close> of \<open>machdep.c\<close> and
  \<open>devboot\<close> of \<open>dev_i386.c\<close>. \<open>boot\<close> returns the marks of the kernel that was loaded; what follows is
  \<open>run_loadfile\<close>. The loop is total: every round after the first asks for a command and so uses up a key
  or a clock reading.
\<close>

section \<open>machdep and devboot\<close>

fun run_probes :: "(bstate \<Rightarrow> bstate outcome) list \<Rightarrow> bstate \<Rightarrow> bstate outcome" where
  "run_probes [] st = Ret st"
| "run_probes (p # ps) st = obind (p st) (run_probes ps)"

text \<open>The list of named groups of probe routines of \<open>conf.c\<close>.\<close>

fun machdep :: "(string \<times> (bstate \<Rightarrow> bstate outcome) list) list \<Rightarrow> bstate \<Rightarrow> bstate outcome" where
  "machdep [] st = Ret st"
| "machdep ((name, ps) # prs) st =
     obind (printf ''%s:'' [PStr name] st) (\<lambda>st.
     obind (run_probes ps st) (\<lambda>st. obind (printf [NL] [] st) (machdep prs)))"

text \<open>
  What \<open>devboot\<close> reads: of each disk its number, whether it has a label, and the type of its \<open>a\<close>
  partition; of each softraid volume its unit, whether it is bootable, and the disks of its chunks.
\<close>

record dev_disk =
  dd_number :: u32
  dd_badlabel :: bool
  dd_fstype :: nat

record dev_volume =
  dv_unit :: nat
  dv_bootable :: bool
  dv_disks :: "u32 list"

definition FS_BSDFFS :: nat where "FS_BSDFFS = 7"

fun part_type :: "u32 \<Rightarrow> dev_disk list \<Rightarrow> nat \<Rightarrow> nat" where
  "part_type dev [] t = t"
| "part_type dev (d # ds) t = part_type dev ds (if dd_number d = dev \<and> \<not> dd_badlabel d then dd_fstype d else t)"

fun sr_boot_vol :: "u32 \<Rightarrow> dev_volume list \<Rightarrow> nat option" where
  "sr_boot_vol dev [] = None"
| "sr_boot_vol dev (v # vs) = (if dv_bootable v \<and> dev \<in> set (dv_disks v) then Some (dv_unit v) else sr_boot_vol dev vs)"

definition digit_char :: "nat \<Rightarrow> char" where "digit_char n = char_of (48 + n)"

definition devboot :: "dev_disk list \<Rightarrow> dev_volume list \<Rightarrow> u32 \<Rightarrow> string" where
  "devboot disks vols bootdev =
     (case sr_boot_vol bootdev vols of
        Some v \<Rightarrow> if part_type bootdev disks 0 \<noteq> FS_BSDFFS then [CHR ''s'', CHR ''r'', digit_char v, CHR ''a'']
                 else if bootdev AND 0x100 \<noteq> 0 then ''cd0a''
                 else [if bootdev AND 0x80 \<noteq> 0 then CHR ''h'' else CHR ''f'', CHR ''d'', digit_char (unat (bootdev AND 0x7f)), CHR ''a'']
      | None \<Rightarrow> if bootdev AND 0x100 \<noteq> 0 then ''cd0a''
                else [if bootdev AND 0x80 \<noteq> 0 then CHR ''h'' else CHR ''f'', CHR ''d'', digit_char (unat (bootdev AND 0x7f)), CHR ''a''])"

section \<open>The random seed\<close>

definition BOOTRANDOM :: string where "BOOTRANDOM = ''/etc/random.seed''"
definition BOOTRANDOM_MAX :: nat where "BOOTRANDOM_MAX = 512"

text \<open>The name of the seed file on the device the kernel is loaded from.\<close>

definition seed_path :: "bstate \<Rightarrow> string outcome" where
  "seed_path st =
     (if CHR '':'' \<in> set (cs_path st) then
        (let i = length (takeWhile (\<lambda>c. c \<noteq> CHR '':'') (cs_path st)) in
         obind (snprintf (MAXPATHLEN - i) '':%s'' [PStr BOOTRANDOM]) (\<lambda>(s, n).
           Ret (fst (strlcpy [] (cs_path st) (i + 1)) @ s)))
      else obind (snprintf MAXPATHLEN ''%s:%s'' [PStr (cs_bootdev st), PStr BOOTRANDOM]) (\<lambda>(s, n). Ret s))"

definition loadrandom :: "benv \<Rightarrow> bstate \<Rightarrow> bstate outcome" where
  "loadrandom e st = obind (seed_path st) (\<lambda>path.
     case fs_open e path of
       Inl err \<Rightarrow>
         if err \<noteq> 1 then obind (strerror err) (\<lambda>m. printf (''cannot open %s: %s'' @ [NL]) [PStr path, PStr m] st)
         else Ret st
     | Inr f \<Rightarrow>
         (case f_stat f of
            None \<Rightarrow> Ret st
          | Some sb \<Rightarrow>
              if st_uid sb \<noteq> 0 \<or> st_mode sb AND 6 \<noteq> 0 then Ret st
              else Ret (st\<lparr>rnddata := overlay (rnddata st) 0 (take BOOTRANDOM_MAX (f_data f))\<rparr>)))"

section \<open>The loops\<close>

function prompt_loop :: "benv \<Rightarrow> bstate \<Rightarrow> bstate outcome" where
  "prompt_loop e st =
     obind (printf ''boot> '' [] st) (\<lambda>st1.
     obind (getcmd e st1) (\<lambda>(r, st2). if r = 0 then prompt_loop e st2 else Ret st2))"
  by pat_completeness auto
termination
  by (relation "measure (\<lambda>(e, st). inputs st)") (auto dest!: printf_puts getcmd_uses_input)

declare prompt_loop.simps [simp del]

text \<open>The name of the kernel that is tried after a failure.\<close>

definition KERNEL :: string where "KERNEL = ''/bsd''"

text \<open>A round up to the attempt to load: what is loaded, or the error.\<close>

definition attempt :: "benv \<Rightarrow> bstate \<Rightarrow> ((nat + u64 list) \<times> bstate) outcome" where
  "attempt e st =
     obind (loadrandom e st) (\<lambda>st.
     let st = st\<lparr>rnddata := mdrandom e (rnddata st), bootprompt := True\<rparr> in
     obind (printf ''booting %s: '' [PStr (cs_path st)] st) (\<lambda>st.
       Ret (loadfile e (cs_path st) (cs_addr st), st)))"

text \<open>What follows a failure: the next kernel, and the time limit.\<close>

definition after_failure :: "nat \<Rightarrow> nat \<Rightarrow> bstate \<Rightarrow> bstate outcome" where
  "after_failure err try1 st =
     (let st = st\<lparr>kernelfile := KERNEL, cs_image := fst (strlcpy (cs_image st) KERNEL (MAXPATHLEN - 16))\<rparr> in
      obind (printf ('' failed(%d). will try %s'' @ [NL]) [PInt (of_nat err), PStr KERNEL] st) (\<lambda>st.
        if try1 < 2 then Ret (if cs_timeout st > 0 then st\<lparr>cs_timeout := cs_timeout st + 1\<rparr> else st)
        else if cs_timeout st \<noteq> 0
        then obind (printf (''Turning timeout off.'' @ [NL]) [] st) (\<lambda>st. Ret (st\<lparr>cs_timeout := 0\<rparr>))
        else Ret (st\<lparr>cs_timeout := 0\<rparr>)))"

lemma loadrandom_inputs:
  assumes "loadrandom e st = Ret st'"
  shows "inputs st' = inputs st"
proof -
  obtain path where p: "seed_path st = Ret path"
    using assms by (auto simp: loadrandom_def obind_eq_Ret)
  show ?thesis
  proof (cases "fs_open e path")
    case (Inl err)
    with assms p show ?thesis
      by (auto simp: loadrandom_def obind_eq_Ret split: if_splits dest!: printf_puts)
  next
    case (Inr f)
    with assms p show ?thesis
      by (auto simp: loadrandom_def inputs_def split: option.splits if_splits)
  qed
qed

lemma attempt_inputs:
  assumes "attempt e st = Ret (x, st')"
  shows "inputs st' = inputs st \<and> bootprompt st'"
proof -
  obtain st1 where "loadrandom e st = Ret st1"
      "printf ''booting %s: '' [PStr (cs_path st1)] (st1\<lparr>rnddata := mdrandom e (rnddata st1), bootprompt := True\<rparr>) = Ret st'"
    using assms by (auto simp: attempt_def Let_def obind_eq_Ret)
  then show ?thesis
    by (auto simp: inputs_def dest!: loadrandom_inputs printf_puts)
qed

lemma after_failure_inputs: "after_failure err n st = Ret st' \<Longrightarrow> inputs st' = inputs st \<and> bootprompt st' = bootprompt st"
  by (auto simp: after_failure_def Let_def obind_eq_Ret inputs_def split: if_splits dest!: printf_puts)

lemma prompt_loop_uses_input:
  "prompt_loop e st = Ret st' \<Longrightarrow> inputs st' < inputs st"
proof (induction e st rule: prompt_loop.induct)
  case (1 e st)
  obtain st1 r st2 where s: "printf ''boot> '' [] st = Ret st1" "getcmd e st1 = Ret (r, st2)"
      "(if r = 0 then prompt_loop e st2 else Ret st2) = Ret st'"
    using 1(2) unfolding prompt_loop.simps [of e st] by (auto simp: obind_eq_Ret)
  have "inputs st' \<le> inputs st2"
    using 1(1) [OF s(1,2) refl] s(3) by (cases "r = 0") auto
  also have "\<dots> < inputs st1" by (rule getcmd_uses_input [OF s(2)])
  also have "\<dots> = inputs st" using printf_puts [OF s(1)] by auto
  finally show ?case .
qed

text \<open>
  \<open>st\<close> is the result of \<open>read_conf\<close> in the first round and 0 later; \<open>try\<close> counts the failures.
\<close>

function boot_loop :: "benv \<Rightarrow> int \<Rightarrow> nat \<Rightarrow> bstate \<Rightarrow> (u64 list \<times> bstate) outcome" where
  "boot_loop e rc try st =
     obind (if bootprompt st \<and> rc \<le> 0 then prompt_loop e st else Ret st) (\<lambda>st1.
     obind (attempt e st1) (\<lambda>(res, st2).
       case res of
         Inr marks \<Rightarrow> Ret (marks, st2)
       | Inl err \<Rightarrow> obind (after_failure err (try + 1) st2) (\<lambda>st3. boot_loop e 0 (try + 1) st3)))"
  by pat_completeness auto
termination
  by (relation "measures [\<lambda>(e, rc, try, st). inputs st, \<lambda>(e, rc, try, st). if bootprompt st \<and> rc \<le> 0 then 0 else 1]")
    (auto split: if_splits dest!: prompt_loop_uses_input attempt_inputs after_failure_inputs)

declare boot_loop.simps [simp del]

text \<open>The part of \<open>boot\<close> before the loop, after the probes.\<close>

definition boot_init :: "string \<Rightarrow> string \<Rightarrow> string \<Rightarrow> int \<Rightarrow> bstate \<Rightarrow> bstate outcome" where
  "boot_init progname version dev boottimeout st =
     obind (snprintf 40 ''>> OpenBSD/amd64 %s %s'' [PStr progname, PStr version]) (\<lambda>(s, n).
     obind (printf (''%s'' @ [NL]) [PStr s] (st\<lparr>prog_ident := s\<rparr>)) (\<lambda>st.
       Ret (st\<lparr>cs_bootdev := dev, cs_image := fst (strlcpy (cs_image st) (kernelfile st) (MAXPATHLEN - 16)),
               cs_boothowto := 0, cs_conf := ''/etc/boot.conf'', cs_addr := 0, cs_timeout := boottimeout\<rparr>)))"

definition boot :: "benv \<Rightarrow> (string \<times> (bstate \<Rightarrow> bstate outcome) list) list \<Rightarrow> string \<Rightarrow> string \<Rightarrow> string \<Rightarrow> int
    \<Rightarrow> bstate \<Rightarrow> (u64 list \<times> bstate) outcome" where
  "boot e probes progname version dev boottimeout st =
     obind (machdep probes st) (\<lambda>st.
     obind (boot_init progname version dev boottimeout st) (\<lambda>st.
     obind (read_conf e st) (\<lambda>(rc, st).
     obind (if bootprompt st then Ret st
            else obind (snprintf MAXPATHLEN ''%s:%s'' [PStr (cs_bootdev st), PStr (cs_image st)]) (\<lambda>(s, n).
              Ret (st\<lparr>cs_path := s\<rparr>))) (boot_loop e rc 0))))"


section \<open>Unattended\<close>

lemma kdoprnt_pair: "kdoprnt ''%s:%s'' [PStr a, PStr b] = Ret (a @ '':'' @ b)"
  by (simp add: take_str_def emit_def)

lemma snprintf_pair:
  "NUL \<notin> set a \<Longrightarrow> NUL \<notin> set b \<Longrightarrow> length a + length b + 1 < n \<Longrightarrow>
   snprintf n ''%s:%s'' [PStr a, PStr b] = Ret (a @ '':'' @ b, length a + length b + 1)"
  using snprintf_take [OF kdoprnt_pair, of n a b] cstr_no_NUL [of "a @ '':'' @ b"] by (simp add: NUL_def)

lemma sint_scast_32: "sint (scast (w :: u32) :: u64) = sint w"
  using sint_greater_eq [of w] sint_less [of w]
  by (simp add: signed_scast_eq signed_take_bit_int_eq_self)

lemma wait_key_timeout:
  assumes "keys st = []" "readings st = ts @ t1 # rest" "\<forall>t \<in> set ts. t < tt" "tt \<le> t1"
  shows "wait_key i tt st = Ret (st\<lparr>readings := rest\<rparr>)"
  using assms
proof (induction i tt st arbitrary: ts rule: wait_key.induct)
  case (1 i tt st)
  have c: "cnischar st = (False, st)" using 1(3) by (simp add: cnischar_def)
  show ?case
  proof (cases "unat i mod 1000 = 0")
    case False
    then show ?thesis
      using 1(2) [OF c [symmetric]] 1(3-6) c by (simp add: wait_key.simps [of i tt st])
  next
    case True
    show ?thesis
    proof (cases ts)
      case Nil
      then show ?thesis
        using 1(3-6) c True by (simp add: wait_key.simps [of i tt st] getsecs_now_def)
    next
      case (Cons t ts')
      have g: "getsecs_now st = Ret (t, st\<lparr>readings := ts' @ t1 # rest\<rparr>)"
        using 1(4) Cons by (simp add: getsecs_now_def)
      have "wait_key (i + 1) tt (st\<lparr>readings := ts' @ t1 # rest\<rparr>) = Ret (st\<lparr>readings := rest\<rparr>)"
        using 1(1) [OF c [symmetric] _ True g refl, of ts'] 1(3-6) Cons by auto
      then show ?thesis
        using 1(5) c True g Cons by (simp add: wait_key.simps [of i tt st])
    qed
  qed
qed


text \<open>Printing an \<open>int\<close> always succeeds.\<close>

lemma kconv_int_Ret:
  assumes "\<exists>s. kdoprnt f ap = Ret s"
  shows "\<exists>s. kconv 0 (CHR ''d'' # f) (PInt w # ap) = Ret s"
proof -
  have "sint (scast w :: u64) \<noteq> LONG_MIN"
    unfolding sint_scast_32 using sint_greater_eq [of w] by (simp add: LONG_MIN_def)
  then show ?thesis
    using assms kprintn_value [of 10 "scast w"] kprintn_value [of 10 "- scast w"]
    by (auto simp: take_signed_def take_int_def emit_def obind_eq_Ret)
qed

lemma strerror_Ret: "\<exists>s. strerror n = Ret s"
proof -
  obtain s where "kdoprnt ''Unknown error: code %d'' [PInt (of_nat n)] = Ret s"
    using kconv_int_Ret [of "[]" "[]" "of_nat n"] by (auto simp: emit_def simp del: kconv.simps)
  from snprintf_take [OF this, of 64] show ?thesis
    by (auto simp: strerror_def simp del: kdoprnt.simps)
qed

lemma printf_two: "\<exists>s. kdoprnt (''cannot open %s: %s'' @ [NL]) [PStr a, PStr b] = Ret s"
  by (simp add: take_str_def emit_def NL_def)

text \<open>Whatever the seed file is, loading goes on.\<close>

lemma attempt_Ret:
  "\<exists>st'. attempt e st = Ret (loadfile e (cs_path st) (cs_addr st), st')
     \<and> cs_path st' = cs_path st \<and> cs_boothowto st' = cs_boothowto st"
proof -
  have pair: "kdoprnt '':%s'' [PStr BOOTRANDOM] = Ret ('':'' @ BOOTRANDOM)"
    by (simp add: take_str_def emit_def)
  obtain path where p: "seed_path st = Ret path"
    using snprintf_take [OF pair] snprintf_take [OF kdoprnt_pair]
    by (cases "CHR '':'' \<in> set (cs_path st)") (auto simp: seed_path_def Let_def simp del: kdoprnt.simps)
  have "\<exists>st'. loadrandom e st = Ret st' \<and> cs_path st' = cs_path st \<and> cs_addr st' = cs_addr st
      \<and> cs_boothowto st' = cs_boothowto st"
  proof (cases "fs_open e path")
    case (Inl err)
    obtain m where m: "strerror err = Ret m" using strerror_Ret by blast
    obtain s where s: "kdoprnt (''cannot open %s: %s'' @ [NL]) [PStr path, PStr m] = Ret s" using printf_two by blast
    show ?thesis
      by (cases "err = 1") (use p Inl m s in \<open>simp_all add: loadrandom_def printf_def del: kdoprnt.simps\<close>)
  next
    case (Inr f)
    with p show ?thesis by (cases "f_stat f") (auto simp: loadrandom_def)
  qed
  then obtain st1 where st1: "loadrandom e st = Ret st1" "cs_path st1 = cs_path st" "cs_addr st1 = cs_addr st"
      "cs_boothowto st1 = cs_boothowto st" by blast
  have "kdoprnt ''booting %s: '' [PStr (cs_path st)] = Ret (''booting '' @ cs_path st @ '': '')"
    by (simp add: take_str_def emit_def)
  with st1 show ?thesis
    by (simp add: attempt_def Let_def printf_def del: kdoprnt.simps)
qed

lemma nextword_boot: "nextword ''boot'' = (''boot'', None)"
  by (simp add: nextword_def is_blank_def)

lemma docmd_boot:
  assumes "cs_cmd st = None" "cmd_buf st = ''boot''" "NUL \<notin> set (cs_bootdev st)" "NUL \<notin> set (cs_image st)"
    and "length (cs_bootdev st) + length (cs_image st) + 1 < MAXPATHLEN"
  shows "\<exists>st'. docmd e st = Ret (1, st') \<and> cs_path st' = cs_bootdev st @ '':'' @ cs_image st
           \<and> cs_boothowto st' = cs_boothowto st \<and> cs_addr st' = cs_addr st"
  using assms nextword_boot
  by (simp add: docmd_def Let_def is_blank_def cmd_table_def strn_eq_def run_cmd_def MAX_ARGV_def exec_cmd_def Xboot_def
      argc_def bootparse_def snprintf_pair)


text \<open>Without a key before the time is up, the prompt answers itself.\<close>

lemma getcmd_timeout:
  assumes "keys st = []" "readings st = t0 # ts @ t1 # rest" "0 < cs_timeout st"
    and "\<forall>t \<in> set ts. t < t0 + cs_timeout st" "t0 + cs_timeout st \<le> t1"
    and "NUL \<notin> set (cs_bootdev st)" "NUL \<notin> set (cs_image st)"
    and "length (cs_bootdev st) + length (cs_image st) + 1 < MAXPATHLEN"
  shows "\<exists>st'. getcmd e st = Ret (1, st') \<and> cs_path st' = cs_bootdev st @ '':'' @ cs_image st
           \<and> cs_boothowto st' = cs_boothowto st \<and> cs_addr st' = cs_addr st"
proof -
  let ?st1 = "st\<lparr>cs_cmd := None, readings := ts @ t1 # rest\<rparr>"
  have g: "getsecs_now (st\<lparr>cs_cmd := None\<rparr>) = Ret (t0, ?st1)"
    using assms(2) by (simp add: getsecs_now_def)
  have w: "wait_key 0 (t0 + cs_timeout st) ?st1 = Ret (?st1\<lparr>readings := rest\<rparr>)"
    using assms(1,4,5) by (intro wait_key_timeout) auto
  have "readline CMD_BUFF_SIZE (cs_timeout st) (st\<lparr>cs_cmd := None\<rparr>) = Ret (''boot'', puts_all [NL] (?st1\<lparr>readings := rest\<rparr>))"
    using assms(1,3) g w by (simp add: readline_def Let_def cnischar_def strlcpy_take putchar_puts_all)
  then show ?thesis
    using docmd_boot [of "(puts_all [NL] (?st1\<lparr>readings := rest\<rparr>))\<lparr>cmd_buf := ''boot'', cs_cmd := None\<rparr>" e] assms(6-8)
    by (simp add: getcmd_def)
qed

lemma kdoprnt_line: "kdoprnt [CHR ''%'', CHR ''s'', NL] [PStr a] = Ret (a @ [NL])"
  by (simp add: take_str_def emit_def NL_def)

lemma boot_init_Ret:
  assumes "length (kernelfile st) < MAXPATHLEN - 16"
  shows "\<exists>st'. boot_init progname version dev to st = Ret st' \<and> cs_bootdev st' = dev \<and> cs_image st' = kernelfile st
     \<and> cs_boothowto st' = 0 \<and> cs_conf st' = ''/etc/boot.conf'' \<and> cs_addr st' = 0 \<and> cs_timeout st' = to
     \<and> keys st' = keys st \<and> readings st' = readings st \<and> bootprompt st' = bootprompt st"
proof -
  have "kdoprnt ''>> OpenBSD/amd64 %s %s'' [PStr progname, PStr version] = Ret (''>> OpenBSD/amd64 '' @ progname @ '' '' @ version)"
    by (simp add: take_str_def emit_def)
  from snprintf_take [OF this, of 40] obtain s n
    where "snprintf 40 ''>> OpenBSD/amd64 %s %s'' [PStr progname, PStr version] = Ret (s, n)" by blast
  then show ?thesis
    using assms by (simp add: boot_init_def printf_def kdoprnt_line strlcpy_take MAXPATHLEN_def del: kdoprnt.simps)
qed

text \<open>
  Left alone, \<open>boot\<close> loads the default kernel from the boot device when there is no boot.conf, whatever the random
  seed file is, without boot flags.
\<close>

lemma boot_unattended:
  assumes "machdep probes st0 = Ret st" "bootprompt st" "keys st = []" "readings st = t0 # ts @ t1 # rest"
    and "0 < to" "\<forall>t \<in> set ts. t < t0 + to" "t0 + to \<le> t1"
    and "NUL \<notin> set dev" "NUL \<notin> set (kernelfile st)" "length dev + 16 < MAXPATHLEN"
    and "length dev + length (kernelfile st) + 1 < MAXPATHLEN" "length (kernelfile st) < MAXPATHLEN - 16"
    and "\<not> skip_conf e" "fs_open e (dev @ '':/etc/boot.conf'') = Inl 2"
    and "loadfile e (dev @ '':'' @ kernelfile st) 0 = Inr marks"
  shows "\<exists>st'. boot e probes progname version dev to st0 = Ret (marks, st')
           \<and> cs_path st' = dev @ '':'' @ kernelfile st \<and> cs_boothowto st' = 0"
proof -
  obtain st1 where i: "boot_init progname version dev to st = Ret st1" "cs_bootdev st1 = dev" "cs_image st1 = kernelfile st"
      "cs_boothowto st1 = 0" "cs_conf st1 = ''/etc/boot.conf''" "cs_addr st1 = 0" "cs_timeout st1 = to"
      "keys st1 = []" "readings st1 = t0 # ts @ t1 # rest" "bootprompt st1"
    using boot_init_Ret [OF assms(12), of progname version dev to] assms(2-4) by auto
  have "snprintf MAXPATHLEN ''%s:%s'' [PStr dev, PStr ''/etc/boot.conf''] = Ret (dev @ '':/etc/boot.conf'', length dev + 15)"
    using snprintf_pair [of dev "''/etc/boot.conf''" MAXPATHLEN] assms(8,10) by (simp add: NUL_def)
  then have q: "qualify (cs_conf st1) st1 = Ret (st1\<lparr>cs_path := dev @ '':/etc/boot.conf''\<rparr>)"
    by (simp add: qualify_def i(2,5))
  define st2 where "st2 = st1\<lparr>cs_path := dev @ '':/etc/boot.conf''\<rparr>"
  have r: "read_conf e st1 = Ret (- 1, st2)"
    using assms(13,14) q by (simp add: read_conf_def st2_def)
  obtain st4 where g: "getcmd e (puts_all ''boot> '' st2) = Ret (1, st4)"
      "cs_path st4 = dev @ '':'' @ kernelfile st" "cs_boothowto st4 = 0" "cs_addr st4 = 0"
    using getcmd_timeout [of "puts_all ''boot> '' st2" t0 ts t1 rest e] i assms(5-11) by (auto simp: st2_def)
  have "kdoprnt ''boot> '' [] = Ret ''boot> ''" by (simp add: emit_def)
  then have p: "prompt_loop e st2 = Ret st4"
    using g(1) by (simp add: prompt_loop.simps [of e st2] printf_def del: kdoprnt.simps)
  obtain st5 where a: "attempt e st4 = Ret (Inr marks, st5)" "cs_path st5 = dev @ '':'' @ kernelfile st" "cs_boothowto st5 = 0"
    using attempt_Ret [of e st4] g assms(15) by auto
  have "boot_loop e (- 1) 0 st2 = Ret (marks, st5)"
    using p a i(10) by (simp add: boot_loop.simps [of e "- 1"] st2_def)
  then show ?thesis
    using assms(1) i(1,10) r a(2,3) by (simp add: boot_def st2_def)
qed

definition idle0 :: bstate where
  "idle0 = env_state0\<lparr>readings := [100, 101, 103, 104, 105, 106]\<rparr>"

end
