(* ===== verification/Boot_Lines.thy ===== *)
theory Boot_Lines
  imports Boot_Main
begin

text \<open>
  What the command line of the boot program does with text, against reference definitions: \<open>docmd\<close> is the
  interpretation of the list of the words of the line, \<open>readline\<close> returns the line that a line editor makes
  of the keys, and the lines of \<open>boot.conf\<close> are run in order until one of them says to boot.
\<close>

section \<open>Words\<close>

function words :: "string \<Rightarrow> string list" where
  "words s =
     (let t = dropWhile is_blank s in
      if t = [] then [] else takeWhile (\<lambda>c. \<not> is_blank c) t # words (dropWhile (\<lambda>c. \<not> is_blank c) t))"
  by pat_completeness auto
termination
proof (relation "measure length")
  fix s t :: string
  assume "t = dropWhile is_blank s" "t \<noteq> []"
  then obtain c r where t: "t = c # r" "\<not> is_blank c"
    by (metis hd_dropWhile list.collapse)
  then have "length (dropWhile (\<lambda>c. \<not> is_blank c) t) \<le> length r"
    by (simp add: length_dropWhile_le)
  also have "\<dots> < length t" by (simp add: t)
  also have "\<dots> \<le> length s" using \<open>t = dropWhile is_blank s\<close> by (simp add: length_dropWhile_le)
  finally show "(dropWhile (\<lambda>c. \<not> is_blank c) t, s) \<in> measure length" by simp
qed simp

declare words.simps [simp del]

lemma words_skip: "words (dropWhile is_blank s) = words s"
  by (subst (1 2) words.simps) (simp add: Let_def)

lemma words_drop_blank: "s \<noteq> [] \<Longrightarrow> is_blank (hd s) \<Longrightarrow> words (drop 1 s) = words s"
  using words_skip [of s] words_skip [of "tl s"] by (cases s) auto

lemma words_nextword:
  assumes "p \<noteq> []" "\<not> is_blank (hd p)" "nextword p = (w, q)"
  shows "words p = w # (case q of None \<Rightarrow> [] | Some r \<Rightarrow> words r)"
    and "q = Some r \<Longrightarrow> r \<noteq> [] \<and> \<not> is_blank (hd r)"
proof -
  define d where "d = dropWhile (\<lambda>c. \<not> is_blank c) p"
  define t where "t = dropWhile is_blank (drop 1 d)"
  have w: "w = takeWhile (\<lambda>c. \<not> is_blank c) p" and q: "q = (if t = [] then None else Some t)"
    using assms(3) unfolding nextword_def Let_def t_def d_def by (simp_all only: prod.inject)
  have "d = [] \<or> is_blank (hd d)" unfolding d_def by (metis hd_dropWhile)
  then have "words d = words t"
    unfolding t_def words_skip using words_drop_blank [of d] by (cases "d = []") auto
  moreover have "dropWhile is_blank p = p" using assms(1,2) by (cases p) auto
  then have "words p = w # words d"
    using assms(1) w by (simp add: words.simps [of p] Let_def d_def)
  moreover have "words [] = []" by (simp add: words.simps)
  ultimately show "words p = w # (case q of None \<Rightarrow> [] | Some r \<Rightarrow> words r)"
    by (simp add: q)
  show "r \<noteq> [] \<and> \<not> is_blank (hd r)" if "q = Some r"
    using that q hd_dropWhile [of is_blank "drop 1 d"] by (auto simp: t_def split: if_splits)
qed

text \<open>The words from a pointer on, or none.\<close>

definition words_at :: "string option \<Rightarrow> string list" where
  "words_at q = (case q of None \<Rightarrow> [] | Some r \<Rightarrow> words r)"

definition at_word :: "string option \<Rightarrow> bool" where
  "at_word q \<longleftrightarrow> (case q of None \<Rightarrow> True | Some r \<Rightarrow> r \<noteq> [] \<and> \<not> is_blank (hd r))"

lemma arg_loop_words:
  "at_word q \<Longrightarrow> arg_loop n q = take (MAX_ARGV - 1 - n) (words_at q)"
proof (induction n q rule: arg_loop.induct)
  case (2 n p)
  obtain w q where nw: "nextword p = (w, q)" by fastforce
  have p: "p \<noteq> []" "\<not> is_blank (hd p)" using 2(2) by (auto simp: at_word_def)
  have "at_word q" using words_nextword(2) [OF p nw] by (auto simp: at_word_def split: option.splits)
  then show ?case
    using 2(1) [OF _ nw [symmetric]] words_nextword(1) [OF p nw] nw
    by (cases "n + 1 < MAX_ARGV") (auto simp: words_at_def take_Cons' split: option.splits)
qed (simp add: words_at_def)

section \<open>docmd on words\<close>

datatype parsed = Skip | Syntax cmd_entry | Run cmd_entry "string list"

definition sub_table :: "cmd_entry \<Rightarrow> cmd_entry list option" where
  "sub_table ct = (if cmd_kind ct = CMDT_SET then Some cmd_set else if cmd_kind ct = CMDT_MDC then Some cmd_machine else None)"

definition parse_words :: "string list \<Rightarrow> parsed" where
  "parse_words ws =
     (case ws of [] \<Rightarrow> Skip
      | w # as \<Rightarrow>
          if hd w = CHR ''#'' then Skip
          else (case whatcmd cmd_table w of
              None \<Rightarrow> Run (hd cmd_table) ws
            | Some ct \<Rightarrow>
                (case (sub_table ct, as) of
                   (Some sub, a # as') \<Rightarrow> (case whatcmd sub a of None \<Rightarrow> Syntax ct | Some cs \<Rightarrow> Run cs as')
                 | _ \<Rightarrow> Run ct as)))"

lemma run_cmd_words:
  assumes "at_word q" "length pre \<le> 1"
  shows "run_cmd e ct pre q st =
    exec_cmd e (cmd_exec ct) (st\<lparr>cs_argv := cmd_name ct # take 6 (pre @ words_at q), cs_cmd := Some ct\<rparr>)"
  using assms by (cases pre) (auto simp: run_cmd_def Let_def arg_loop_words MAX_ARGV_def)

lemma words_at_nextword:
  assumes "p \<noteq> []" "\<not> is_blank (hd p)" "nextword p = (w, q)"
  shows "words p = w # words_at q" "at_word q" "w \<noteq> []" "hd w = hd p"
proof -
  show "words p = w # words_at q" "at_word q"
    using words_nextword [OF assms] by (auto simp: words_at_def at_word_def split: option.splits)
  have "w = takeWhile (\<lambda>c. \<not> is_blank c) p"
    using assms(3) by (simp add: nextword_def Let_def)
  with assms(1,2) show "w \<noteq> []" "hd w = hd p" by (cases p; simp)+
qed

lemma sub_words:
  assumes "r \<noteq> []" "\<not> is_blank (hd r)"
  shows "(case nextword r of (w, q) \<Rightarrow> case whatcmd sub w of None \<Rightarrow> x | Some cs \<Rightarrow> run_cmd e cs [] q st) =
    (case whatcmd sub (hd (words r)) of None \<Rightarrow> x
     | Some cs \<Rightarrow> exec_cmd e (cmd_exec cs) (st\<lparr>cs_argv := cmd_name cs # take 6 (tl (words r)), cs_cmd := Some cs\<rparr>))"
proof -
  obtain w q where nw: "nextword r = (w, q)" by fastforce
  note W = words_at_nextword [OF assms nw]
  show ?thesis
    by (cases "whatcmd sub w") (simp_all add: nw W(1) run_cmd_words [OF W(2)])
qed

definition run_parsed :: "benv \<Rightarrow> bstate \<Rightarrow> parsed \<Rightarrow> (int \<times> bstate) outcome" where
  "run_parsed e st pd =
    (case pd of
       Skip \<Rightarrow> Ret (0, st\<lparr>cs_argv := take 1 (cs_argv st)\<rparr>)
     | Syntax ct \<Rightarrow> say (''%s: syntax error'' @ [NL]) [PStr (cmd_name ct)] (st\<lparr>cs_argv := take 1 (cs_argv st)\<rparr>)
     | Run ct as \<Rightarrow> exec_cmd e (cmd_exec ct) (st\<lparr>cs_argv := cmd_name ct # take 6 as, cs_cmd := Some ct\<rparr>))"

lemma docmd_first_word:
  assumes "cs_cmd st = None" and p: "p = dropWhile is_blank (cmd_buf st)" "p \<noteq> []" "hd p \<noteq> CHR ''#''"
  shows "docmd e st = run_parsed e st (parse_words (words p))"
proof -
  have hp: "\<not> is_blank (hd p)" using p(1,2) hd_dropWhile by blast
  obtain w q where nw: "nextword p = (w, q)" by fastforce
  note W = words_at_nextword [OF p(2) hp nw]
  have pw: "parse_words (words p) = (case whatcmd cmd_table w of None \<Rightarrow> Run (hd cmd_table) (w # words_at q)
      | Some ct \<Rightarrow> (case (sub_table ct, words_at q) of
          (Some sub, a # as') \<Rightarrow> (case whatcmd sub a of None \<Rightarrow> Syntax ct | Some cs \<Rightarrow> Run cs as') | _ \<Rightarrow> Run ct (words_at q)))"
    using W p(3) by (simp add: parse_words_def)
  note dc = docmd_def assms(1) option.case p(1) [symmetric] Let_def nw prod.case run_parsed_def
  show ?thesis
  proof (cases "whatcmd cmd_table w")
    case None
    then show ?thesis
      unfolding pw dc using p(2,3) W(2) by (simp add: run_cmd_words)
  next
    case (Some ct)
    show ?thesis
    proof (cases q)
      case None
      then show ?thesis
        unfolding pw dc using Some p(2,3) W(2)
        by (cases "cmd_kind ct") (simp_all add: words_at_def run_cmd_words sub_table_def)
    next
      case q: (Some r)
      have r: "r \<noteq> []" "\<not> is_blank (hd r)" using W(2) q by (simp_all add: at_word_def)
      obtain a as where ws: "words r = a # as"
        using r words_at_nextword(1) [OF r] by (metis surj_pair)
      show ?thesis
        unfolding pw dc using Some p(2,3) W(2)
        by (cases "cmd_kind ct")
          (simp_all add: q words_at_def run_cmd_words sub_table_def sub_words [OF r] ws split: option.splits)
    qed
  qed
qed

text \<open>
  C11: docmd interprets the words of the line. The pointer manipulation on the command buffer (cutting
  words by storing zeros, looking words up in place) amounts to splitting the line at blanks and tabs,
  finding the first command the first word is a prefix of, or boot with the word as an argument when there
  is none, and for set and machine the variable or subcommand named by the second word; the handler gets
  the name and at most six words as its arguments, and no store leaves the array of arguments.
\<close>

theorem docmd_interprets_words:
  assumes "cs_cmd st = None"
  shows "docmd e st = run_parsed e st (parse_words (words (cmd_buf st)))"
proof -
  define p where "p = dropWhile is_blank (cmd_buf st)"
  have wp: "words (cmd_buf st) = words p" by (simp add: p_def words_skip)
  show ?thesis
  proof (cases "p = [] \<or> hd p = CHR ''#''")
    case True
    have "parse_words (words p) = Skip"
    proof (cases "p = []")
      case False
      then have "\<not> is_blank (hd p)" unfolding p_def by (rule hd_dropWhile)
      with False True show ?thesis
        using words_at_nextword [of p "fst (nextword p)" "snd (nextword p)"] by (simp add: parse_words_def)
    qed (simp add: words.simps parse_words_def)
    then show ?thesis
      using True by (simp add: wp docmd_def assms p_def [symmetric] run_parsed_def)
  next
    case False
    then show ?thesis
      using docmd_first_word [OF assms p_def] wp by simp
  qed
qed

theorem docmd_interprets_words_witness:
  "docmd no_files (env_state0\<lparr>cmd_buf := '' set tim  9 x''\<rparr>) =
     exec_cmd no_files F_timeout (env_state0\<lparr>cmd_buf := '' set tim  9 x'', cs_argv := [''timeout'', ''9'', ''x''],
       cs_cmd := Some (cmd_row ''timeout'' CMDT_VAR F_timeout)\<rparr>)"
  using docmd_interprets_words [of "env_state0\<lparr>cmd_buf := '' set tim  9 x''\<rparr>" no_files]
  by (simp add: env_state0_def words.simps is_blank_def parse_words_def cmd_table_def strn_eq_def sub_table_def
      cmd_set_def run_parsed_def)

section \<open>The line editor\<close>

text \<open>What one key does to the line: erase it, take a character back, add one while there is room.\<close>

definition edit_key :: "nat \<Rightarrow> char \<Rightarrow> string \<Rightarrow> string" where
  "edit_key n c line =
     (if c = CHR 0x15 then []
      else if c = CHR 0x08 \<or> c = CHR 0x7F then butlast line
      else if 32 \<le> (of_char c :: nat) \<and> of_char c < (127 :: nat) \<and> length line < n - 1 then line @ [c]
      else line)"

definition ends_line :: "char \<Rightarrow> bool" where "ends_line c \<longleftrightarrow> c = NL \<or> c = CHR 0x0D"

lemma getchar_keys:
  assumes "keys st = (d, c) # ks"
  shows "\<exists>o1. getchar st = Ret (if c = CHR 0x0D then NL else c, puts_all o1 (st\<lparr>keys := ks\<rparr>))"
proof -
  have "\<exists>o1. st\<lparr>keys := ks\<rparr> = puts_all o1 (st\<lparr>keys := ks\<rparr>)" by (rule exI [of _ "[]"]) simp
  then show ?thesis
    using assms by (auto simp: getchar_def Let_def putchar_puts_all)
qed

lemma edit_loop_keys:
  assumes "keys st = ks @ (d, c) # rest" "ends_line c" "\<forall>k \<in> set ks. \<not> ends_line (snd k)"
  shows "\<exists>o1. edit_loop n p st = Ret (fold (edit_key n) (map snd ks) p, puts_all o1 (st\<lparr>keys := rest\<rparr>))"
  using assms
proof (induction ks arbitrary: p st)
  case Nil
  then obtain o1 where "getchar st = Ret (NL, puts_all o1 (st\<lparr>keys := rest\<rparr>))"
    using getchar_keys [of st d c rest] by (auto simp: ends_line_def split: if_splits)
  then show ?case
    by (auto simp: edit_loop.simps [of n p st] NL_def)
next
  case (Cons k ks)
  obtain d' c' where k: "k = (d', c')" by fastforce
  have ne: "c' \<noteq> NL" "c' \<noteq> CHR 0x0D" using Cons.prems(3) by (auto simp: k ends_line_def)
  obtain o1 where g: "getchar st = Ret (c', puts_all o1 (st\<lparr>keys := ks @ (d, c) # rest\<rparr>))"
    using getchar_keys [of st d' c' "ks @ (d, c) # rest"] Cons.prems(1) ne by (auto simp: k)
  define o2 where "o2 = o1 @ (if c' = CHR 0x15 then replicate (length p) (CHR 0x7F)
      else if c' = CHR 0x08 \<or> c' = CHR 0x7F then (if p = [] then [] else [CHR 0x7F])
      else if 32 \<le> (of_char c' :: nat) \<and> of_char c' < (127 :: nat) \<and> \<not> length p < n - 1 then [CHR 0x07, CHR 0x7F] else [])"
  have e: "edit_loop n p st = edit_loop n (edit_key n c' p) (puts_all o2 (st\<lparr>keys := ks @ (d, c) # rest\<rparr>))"
    unfolding edit_loop.simps [of n p st] g obind.simps split_conv putchar_puts_all puts_all_puts_all edit_key_def o2_def
    by (simp add: ne)
  obtain o3 where "edit_loop n (edit_key n c' p) (puts_all o2 (st\<lparr>keys := ks @ (d, c) # rest\<rparr>)) =
      Ret (fold (edit_key n) (map snd ks) (edit_key n c' p), puts_all o3 ((puts_all o2 (st\<lparr>keys := ks @ (d, c) # rest\<rparr>))\<lparr>keys := rest\<rparr>))"
    using Cons.IH [of "puts_all o2 (st\<lparr>keys := ks @ (d, c) # rest\<rparr>)" "edit_key n c' p"] Cons.prems by auto
  moreover have "(puts_all o2 (st\<lparr>keys := ks @ (d, c) # rest\<rparr>))\<lparr>keys := rest\<rparr> = puts_all o2 (st\<lparr>keys := rest\<rparr>)"
    by (simp add: puts_all_keys)
  ultimately show ?case
    unfolding e by (auto simp: k puts_all_puts_all)
qed


lemma wait_forever_keys: "keys st = (d, c) # ks \<Longrightarrow> wait_forever st = Ret (st\<lparr>keys := (0, c) # ks\<rparr>)"
proof (induction d arbitrary: st)
  case 0
  then show ?case by (simp add: wait_forever.simps [of st] cnischar_def)
next
  case (Suc d)
  then show ?case by (simp add: wait_forever.simps [of st] cnischar_def)
qed

text \<open>
  C31: readline is a line editor. At a prompt without a time limit, when the keys typed contain a return,
  it returns, and the line is what the keys before the return make of an empty line: control-U erases it,
  backspace and delete take the last character back, printable characters are added while the line is shorter
  than the buffer, everything else is ignored. The keys after the return are left for later, and only the
  echo and the time limit, which is off from now on, change in the rest of the state.
\<close>

theorem readline_edits_line:
  assumes "keys st = ks @ (d, c) # rest" "ends_line c" "\<forall>k \<in> set ks. \<not> ends_line (snd k)" "to \<le> 0"
  shows "\<exists>echo. readline n to st = Ret (fold (edit_key n) (map snd ks) [], puts_all echo (st\<lparr>cs_timeout := 0, keys := rest\<rparr>))"
proof -
  obtain d0 c0 ks0 where k0: "keys st = (d0, c0) # ks0" using assms(1) by (cases ks) auto
  define ks' where "ks' = (if ks = [] then [] else (0, c0) # tl ks)"
  have ks': "(0, c0) # ks0 = ks' @ (if ks = [] then 0 else d, c) # rest" "map snd ks' = map snd ks"
      "\<forall>k \<in> set ks'. \<not> ends_line (snd k)"
    using k0 assms(1,3) by (cases ks; simp add: ks'_def)+
  obtain o1 where "edit_loop n [] (st\<lparr>keys := (0, c0) # ks0, cs_timeout := 0\<rparr>)
      = Ret (fold (edit_key n) (map snd ks') [], puts_all o1 (st\<lparr>cs_timeout := 0, keys := rest\<rparr>))"
    using edit_loop_keys [of "st\<lparr>keys := (0, c0) # ks0, cs_timeout := 0\<rparr>" ks' _ c rest n "[]"] ks' assms(2) by auto
  then show ?thesis
    using wait_forever_keys [OF k0] assms(4) ks'(2) by (auto simp: readline_def Let_def)
qed

theorem readline_edits_line_witness:
  "\<exists>echo. readline CMD_BUFF_SIZE 0 (env_state0\<lparr>keys := [(2, CHR ''x''), (0, CHR 0x15), (1, CHR ''l''), (0, CHR ''q''), (0, CHR 0x08), (0, CHR ''s''), (0, CHR 0x0D), (9, CHR ''b'')]\<rparr>)
     = Ret (''ls'', puts_all echo (env_state0\<lparr>cs_timeout := 0, keys := [(9, CHR ''b'')]\<rparr>))"
  using readline_edits_line [of "env_state0\<lparr>keys := [(2, CHR ''x''), (0, CHR 0x15), (1, CHR ''l''), (0, CHR ''q''), (0, CHR 0x08), (0, CHR ''s''), (0, CHR 0x0D), (9, CHR ''b'')]\<rparr>"
      "[(2, CHR ''x''), (0, CHR 0x15), (1, CHR ''l''), (0, CHR ''q''), (0, CHR 0x08), (0, CHR ''s'')]" 0 "CHR 0x0D" "[(9, CHR ''b'')]" 0 CMD_BUFF_SIZE]
  by (simp add: ends_line_def NL_def edit_key_def CMD_BUFF_SIZE_def)

section \<open>The configuration file\<close>

text \<open>
  a line of boot.conf that does not fit the buffer is not run. When the next line has 133 bytes or
  more, reading ends with the value -1, and apart from the message and the command buffer the state is the
  one before that line, whatever the line says.
\<close>

theorem long_line_not_run:
  assumes "CMD_BUFF_SIZE \<le> length (takeWhile (\<lambda>c. c \<noteq> NL) d)"
  shows "\<exists>msg. conf_loop e err d st =
    Ret (- 1, puts_all msg (st\<lparr>cs_cmd := None, cmd_buf := cstr (take (CMD_BUFF_SIZE - 1) d)\<rparr>))"
proof -
  have rl: "room \<le> length (takeWhile (\<lambda>c. c \<noteq> NL) d) \<Longrightarrow> 0 < room \<Longrightarrow> read_line room d = (take room d, drop room d, True)" for room
  proof (induction room d rule: read_line.induct)
    case (2 room c d)
    then show ?case by (cases "room \<le> 1") (auto simp: take_Cons' drop_Cons' split: if_splits)
  qed simp
  have l: "132 < length (takeWhile (\<lambda>c. c \<noteq> NL) d)" using assms by (simp add: CMD_BUFF_SIZE_def)
  then have "132 < length d" by (meson length_takeWhile_le less_le_trans)
  then have "take 133 d = take 132 d @ [d ! 132]"
    using take_Suc_conv_app_nth [of 132 d] by simp
  moreover have "d ! 132 \<noteq> NL"
    using nth_mem [OF l] set_takeWhileD [of _ "\<lambda>c. c \<noteq> NL" d] unfolding takeWhile_nth [OF l] by blast
  ultimately have s: "last (take 133 d) \<noteq> NL" "butlast (take 133 d) = take 132 d" by simp_all
  have r: "read_line CMD_BUFF_SIZE d = (take 133 d, drop 133 d, True)"
    using rl [of CMD_BUFF_SIZE] assms by (simp add: CMD_BUFF_SIZE_def)
  define st1 where "st1 = st\<lparr>cs_cmd := None, cmd_buf := cstr (take 132 d)\<rparr>"
  have "kdoprnt (''%s: line too long'' @ [NL]) [PStr (cs_path st)] = Ret (cs_path st @ '': line too long'' @ [NL])"
    by (simp add: take_str_def emit_def NL_def)
  then have "conf_loop e err d st = Ret (- 1, puts_all (cs_path st @ '': line too long'' @ [NL]) st1)"
    unfolding conf_loop.simps [of e err d st] r by (simp add: Let_def s printf_def st1_def del: kdoprnt.simps)
  then show ?thesis
    unfolding st1_def by (auto simp: CMD_BUFF_SIZE_def)
qed

theorem long_line_not_run_witness:
  "\<exists>msg. conf_loop no_files None (replicate 140 (CHR ''x'')) env_state0 =
    Ret (- 1, puts_all msg (env_state0\<lparr>cs_cmd := None, cmd_buf := cstr (take (CMD_BUFF_SIZE - 1) (replicate 140 (CHR ''x'')))\<rparr>))"
  by (rule long_line_not_run) (simp add: CMD_BUFF_SIZE_def NL_def takeWhile_replicate)

end
