(* ===== verification/Efi_Cons.thy ===== *)
theory Efi_Cons
  imports Boot_Cmd
begin

unbundle bit_operations_syntax

text \<open>
  The console of the EFI boot program (\<open>efiboot.c\<close>): \<open>efi_cons_getc\<close> with the character it keeps when
  it is only asked whether there is one, \<open>efi_cons_putc\<close>, \<open>efi_cons_probe\<close>, and the choice of the text
  mode in \<open>efi_video_init\<close>. The locale \<open>console\<close> is what the rest of the boot program relies on: polling and
  reading as operations on a list of pending keys. It is interpreted by the console of \<open>Boot_State\<close> and by
  the EFI console, so both give the same answers to every sequence of polls and reads.
\<close>

section \<open>Reading keys\<close>

text \<open>
  What the firmware has for \<open>ReadKeyStroke\<close>: how often it answers \<open>EFI_NOT_READY\<close>, then the \<open>UnicodeChar\<close>
  of the key, or \<open>None\<close> for another error, which leaves the key unset. \<open>WaitForEvent\<close> only waits; with
  no key to come it never returns.
\<close>

record efi_con =
  strokes :: "(nat \<times> nat option) list"
  lastchar :: nat

function key_loop :: "bool \<Rightarrow> (nat \<times> nat option) list \<Rightarrow> (nat option \<times> (nat \<times> nat option) list) outcome" where
  "key_loop peek [] = (if peek then Ret (None, []) else Hang)"
| "key_loop peek ((0, k) # ks) = (case k of None \<Rightarrow> Undef | Some c \<Rightarrow> Ret (Some c, ks))"
| "key_loop peek ((Suc n, k) # ks) = (if peek then Ret (None, (n, k) # ks) else key_loop peek ((n, k) # ks))"
  by pat_completeness auto
termination
  by (relation "measure (\<lambda>(_, ks). case ks of [] \<Rightarrow> 0 | (n, _) # _ \<Rightarrow> n)") auto

definition peeks :: "nat \<Rightarrow> bool" where "peeks dev \<longleftrightarrow> dev AND 0x80 \<noteq> 0"

definition efi_cons_getc :: "nat \<Rightarrow> efi_con \<Rightarrow> (nat \<times> efi_con) outcome" where
  "efi_cons_getc dev ec =
     (if lastchar ec \<noteq> 0 then Ret (lastchar ec, if peeks dev then ec else ec\<lparr>lastchar := 0\<rparr>)
      else obind (key_loop (peeks dev) (strokes ec)) (\<lambda>(r, ks).
        case r of None \<Rightarrow> Ret (0, ec\<lparr>strokes := ks\<rparr>)
        | Some c \<Rightarrow> Ret (c, ec\<lparr>strokes := ks, lastchar := (if peeks dev then c else lastchar ec)\<rparr>)))"

text \<open>\<open>cnischar\<close> and \<open>cngetc\<close> on this console, and what \<open>getchar\<close> makes of the character.\<close>

definition efi_ischar :: "nat \<Rightarrow> efi_con \<Rightarrow> (bool \<times> efi_con) outcome" where
  "efi_ischar dev ec = obind (efi_cons_getc (dev OR 0x80) ec) (\<lambda>(r, ec). Ret (r \<noteq> 0, ec))"

definition efi_getchar :: "nat \<Rightarrow> efi_con \<Rightarrow> (char \<times> efi_con) outcome" where
  "efi_getchar dev ec = obind (efi_cons_getc dev ec) (\<lambda>(c, ec).
     Ret (if char_of c = CHR 0x0D then NL else char_of c, ec))"

section \<open>Writing\<close>

text \<open>What one call sends to the screen, and the screen after the calls of \<open>cnputc\<close> recorded in \<open>con_out\<close>.\<close>

definition efi_cons_putc :: "char \<Rightarrow> string" where
  "efi_cons_putc c = (if c = NL then [CHR 0x0D] else []) @ (if c = NUL then [] else [c])"

definition efi_screen :: "'a outc_scheme \<Rightarrow> string" where
  "efi_screen st = concat (map efi_cons_putc (con_out st))"

lemma efi_screen_cnputc:
  "efi_screen (cnputc c st) = efi_screen st @ (if c = NUL then [] else if c = NL then [CHR 0x0D, NL, CHR 0x0D] else [c])"
  by (simp add: efi_screen_def cnputc_def efi_cons_putc_def NL_def NUL_def)

text \<open>\<open>CN_MIDPRI\<close> and the device number; the text that is printed.\<close>

definition efi_cons_probe :: "bstate \<Rightarrow> (nat \<times> bstate) outcome" where
  "efi_cons_probe st =
     (let st = st\<lparr>cn_dev := makedev 12 0\<rparr> in
      obind (printf '' pc%d'' [PInt (of_nat (minor (cn_dev st)))] st) (\<lambda>st. Ret (2, st)))"

section \<open>The text mode\<close>

text \<open>
  The loop over the modes; the list holds the answers of \<open>QueryMode\<close> before its first error. The first
  mode with 80 columns and 25 rows, the first with 100 and 31, and the table of the first 32.
\<close>

fun mode_loop :: "int \<Rightarrow> (int \<times> int) list \<Rightarrow> int \<Rightarrow> int \<Rightarrow> (int \<times> int) list \<Rightarrow> int \<times> int \<times> (int \<times> int) list" where
  "mode_loop i [] m80 m100 tab = (m80, m100, tab)"
| "mode_loop i ((cols, rows) # ms) m80 m100 tab =
     mode_loop (i + 1) ms
       (if m80 < 0 \<and> cols = 80 \<and> rows = 25 then i else m80)
       (if m100 < 0 \<and> cols = 100 \<and> rows = 31 then i else m100)
       (if i < int EFI_VIDEO_MAX then tab[nat i := (cols, rows)] else tab)"

text \<open>The mode that is set, if any, and the state.\<close>

definition efi_video_init :: "(int \<times> int) list \<Rightarrow> bstate \<Rightarrow> bstate" where
  "efi_video_init modes st =
     (case mode_loop 0 modes (- 1) (- 1) (efi_video st) of (m80, m100, tab) \<Rightarrow>
        st\<lparr>efi_video := tab,
           conout_mode := (if m100 \<ge> 0 then m100 else if m80 \<ge> 0 then m80 else conout_mode st)\<rparr>)"

section \<open>Consoles as lists of pending keys\<close>

datatype con_op = Poll | Get
datatype con_res = Polled bool | Got char

fun con_run :: "('s \<Rightarrow> (bool \<times> 's) outcome) \<Rightarrow> ('s \<Rightarrow> (char \<times> 's) outcome) \<Rightarrow> con_op list \<Rightarrow> 's
    \<Rightarrow> (con_res list \<times> 's) outcome" where
  "con_run isc gc [] s = Ret ([], s)"
| "con_run isc gc (Poll # ops) s =
     obind (isc s) (\<lambda>(b, s). obind (con_run isc gc ops s) (\<lambda>(rs, s). Ret (Polled b # rs, s)))"
| "con_run isc gc (Get # ops) s =
     obind (gc s) (\<lambda>(c, s). obind (con_run isc gc ops s) (\<lambda>(rs, s). Ret (Got c # rs, s)))"

text \<open>The specification: polling counts down, reading takes the first key; with none it waits for ever.\<close>

definition poll_keys :: "(nat \<times> char) list \<Rightarrow> (bool \<times> (nat \<times> char) list) outcome" where
  "poll_keys ks = (case ks of [] \<Rightarrow> Ret (False, [])
     | (n, c) # ks' \<Rightarrow> Ret (if n = 0 then (True, ks) else (False, (n - 1, c) # ks')))"

definition get_key :: "(nat \<times> char) list \<Rightarrow> (char \<times> (nat \<times> char) list) outcome" where
  "get_key ks = (case ks of [] \<Rightarrow> Hang | (n, c) # ks' \<Rightarrow> Ret (if c = CHR 0x0D then NL else c, ks'))"

locale console =
  fixes isc :: "'s \<Rightarrow> (bool \<times> 's) outcome"
    and gc :: "'s \<Rightarrow> (char \<times> 's) outcome"
    and pending :: "'s \<Rightarrow> (nat \<times> char) list"
    and ok :: "'s \<Rightarrow> bool"
  assumes poll_law: "ok s \<Longrightarrow> \<exists>b s'. isc s = Ret (b, s') \<and> poll_keys (pending s) = Ret (b, pending s') \<and> ok s'"
    and get_none: "ok s \<Longrightarrow> pending s = [] \<Longrightarrow> gc s = Hang"
    and get_law: "ok s \<Longrightarrow> pending s \<noteq> [] \<Longrightarrow> \<exists>c s'. gc s = Ret (c, s') \<and> get_key (pending s) = Ret (c, pending s') \<and> ok s'"
begin

lemma run_keys:
  "ok s \<Longrightarrow> (case con_run poll_keys get_key ops (pending s) of
       Ret (rs, ks) \<Rightarrow> \<exists>s'. con_run isc gc ops s = Ret (rs, s') \<and> pending s' = ks \<and> ok s'
     | r \<Rightarrow> r = Hang \<and> con_run isc gc ops s = Hang)"
proof (induction ops arbitrary: s)
  case (Cons op ops)
  show ?case
  proof (cases op)
    case Poll
    obtain b s' where 1: "isc s = Ret (b, s')" "poll_keys (pending s) = Ret (b, pending s')" "ok s'"
      using poll_law [OF Cons.prems] by blast
    show ?thesis
      using Cons.IH [OF 1(3)] 1 Poll by (auto split: outcome.splits)
  next
    case Get
    show ?thesis
    proof (cases "pending s = []")
      case True
      then show ?thesis using get_none [OF Cons.prems] Get by (simp add: get_key_def)
    next
      case False
      obtain c s' where 1: "gc s = Ret (c, s')" "get_key (pending s) = Ret (c, pending s')" "ok s'"
        using get_law [OF Cons.prems False] by blast
      show ?thesis
        using Cons.IH [OF 1(3)] 1 Get by (auto split: outcome.splits)
    qed
  qed
qed simp

end

section \<open>The two consoles\<close>

interpretation boot_con: console "\<lambda>st. Ret (cnischar st)" getchar keys "\<lambda>_. True"
proof
  fix st :: bstate
  show "\<exists>b s'. Ret (cnischar st) = Ret (b, s') \<and> poll_keys (keys st) = Ret (b, keys s') \<and> True"
    by (auto simp: cnischar_def poll_keys_def split: list.splits)
  show "keys st = [] \<Longrightarrow> getchar st = Hang"
    by (simp add: getchar_def)
  show "keys st \<noteq> [] \<Longrightarrow> \<exists>c s'. getchar st = Ret (c, s') \<and> get_key (keys st) = Ret (c, keys s') \<and> True"
    by (auto simp: getchar_def get_key_def putchar_puts_all Let_def split: list.splits)
qed

text \<open>The keys have characters: one byte, not 0, which is what keys without a character have.\<close>

definition strokes_ok :: "efi_con \<Rightarrow> bool" where
  "strokes_ok ec \<longleftrightarrow> lastchar ec < 256
     \<and> list_all (\<lambda>(_, k). case k of None \<Rightarrow> False | Some c \<Rightarrow> 0 < c \<and> c < 256) (strokes ec)"

definition keys_of :: "efi_con \<Rightarrow> (nat \<times> char) list" where
  "keys_of ec = (if lastchar ec = 0 then [] else [(0, char_of (lastchar ec))])
     @ map (\<lambda>(n, k). (n, char_of (the k))) (strokes ec)"

lemma key_loop_peek: "key_loop True ((n, Some c) # ks) = Ret (if n = 0 then (Some c, ks) else (None, (n - 1, Some c) # ks))"
  by (cases n) auto

lemma key_loop_wait: "key_loop False ((n, Some c) # ks) = Ret (Some c, ks)"
  by (induction n) auto

lemma peeks_OR [simp]: "peeks (dev OR 0x80)"
proof -
  have "bit ((dev OR 0x80) AND 0x80 :: nat) 7"
    by (simp add: bit_simps)
  then show ?thesis
    by (metis bit_0_eq bot_apply bot_bool_def peeks_def)
qed

lemma efi_console: "\<not> peeks dev \<Longrightarrow> console (efi_ischar dev) (efi_getchar dev) keys_of strokes_ok"
proof
  fix ec
  assume np: "\<not> peeks dev" and ok: "strokes_ok ec"
  show "\<exists>b s'. efi_ischar dev ec = Ret (b, s') \<and> poll_keys (keys_of ec) = Ret (b, keys_of s') \<and> strokes_ok s'"
  proof (cases "lastchar ec = 0")
    case False
    with ok show ?thesis
      by (auto simp: efi_ischar_def efi_cons_getc_def keys_of_def poll_keys_def)
  next
    case True
    show ?thesis
    proof (cases "strokes ec = []")
      case True
      with \<open>lastchar ec = 0\<close> have "efi_ischar dev ec = Ret (False, ec\<lparr>strokes := []\<rparr>)"
        by (simp add: efi_ischar_def efi_cons_getc_def)
      with True \<open>lastchar ec = 0\<close> show ?thesis
        by (auto simp: keys_of_def poll_keys_def strokes_ok_def)
    next
      case False
      then obtain n c ks where k: "strokes ec = (n, Some c) # ks" "0 < c" "c < 256"
        using ok by (cases "strokes ec") (auto simp: strokes_ok_def split: option.splits)
      with \<open>lastchar ec = 0\<close> ok show ?thesis
        by (auto simp: efi_ischar_def efi_cons_getc_def keys_of_def poll_keys_def key_loop_peek strokes_ok_def)
    qed
  qed
  show "efi_getchar dev ec = Hang" if "keys_of ec = []"
    using that np by (auto simp: efi_getchar_def efi_cons_getc_def keys_of_def split: if_splits)
  show "\<exists>c s'. efi_getchar dev ec = Ret (c, s') \<and> get_key (keys_of ec) = Ret (c, keys_of s') \<and> strokes_ok s'"
    if "keys_of ec \<noteq> []"
  proof (cases "lastchar ec = 0")
    case False
    with ok np show ?thesis
      by (auto simp: efi_getchar_def efi_cons_getc_def keys_of_def get_key_def strokes_ok_def)
  next
    case True
    with that obtain n c ks where k: "strokes ec = (n, Some c) # ks" "0 < c" "c < 256"
      using ok by (cases "strokes ec") (auto simp: strokes_ok_def keys_of_def split: option.splits)
    with True ok np show ?thesis
      by (auto simp: efi_getchar_def efi_cons_getc_def keys_of_def get_key_def key_loop_wait strokes_ok_def)
  qed
qed

lemma pc0_reads: "\<not> peeks (makedev 12 0)"
  by (simp add: peeks_def makedev_def)

interpretation efi_con: console "efi_ischar (makedev 12 0)" "efi_getchar (makedev 12 0)" keys_of strokes_ok
  by (rule efi_console [OF pc0_reads])


definition con0 :: efi_con where
  "con0 = \<lparr>strokes = [(1, Some 98), (0, Some 13)], lastchar = 0\<rparr>"


section \<open>The mode that is chosen\<close>

text \<open>The first index of a mode.\<close>

fun first_mode :: "int \<Rightarrow> (int \<times> int) \<Rightarrow> (int \<times> int) list \<Rightarrow> int" where
  "first_mode i m [] = - 1"
| "first_mode i m (x # xs) = (if x = m then i else first_mode (i + 1) m xs)"

lemma mode_loop_found:
  "0 \<le> m80 \<Longrightarrow> fst (mode_loop i ms m80 m100 tab) = m80"
  "0 \<le> m100 \<Longrightarrow> fst (snd (mode_loop i ms m80 m100 tab)) = m100"
  by (induction i ms m80 m100 tab rule: mode_loop.induct) simp_all

lemma mode_loop_first:
  "0 \<le> i \<Longrightarrow> fst (mode_loop i ms (- 1) m100 tab) = first_mode i (80, 25) ms"
  "0 \<le> i \<Longrightarrow> fst (snd (mode_loop i ms m80 (- 1) tab)) = first_mode i (100, 31) ms"
proof (induction ms arbitrary: i m80 m100 tab)
  case (Cons m ms)
  obtain c r where m: "m = (c, r)" by fastforce
  {
    case 1
    then show ?case using Cons(1) m by (simp add: mode_loop_found)
  next
    case 2
    then show ?case using Cons(2) m by (simp add: mode_loop_found)
  }
qed simp_all

text \<open>
  The text mode: the first mode of 100 columns and 31 rows, without one the first of 80 and 25, and
  without either the mode stays as it was.
\<close>

theorem efi_video_init_mode:
  "conout_mode (efi_video_init ms st) =
     (if (100, 31) \<in> set ms then first_mode 0 (100, 31) ms
      else if (80, 25) \<in> set ms then first_mode 0 (80, 25) ms else conout_mode st)"
proof -
  have "0 \<le> first_mode i m ms \<longleftrightarrow> m \<in> set ms" if "0 \<le> i" for i m
    using that by (induction i m ms rule: first_mode.induct) auto
  from this [of 0] have "0 \<le> first_mode 0 m ms \<longleftrightarrow> m \<in> set ms" for m by simp
  then show ?thesis
    using mode_loop_first [of 0 ms] by (simp add: efi_video_init_def case_prod_unfold)
qed

end
