(* ===== verification/Efi_Pass.thy ===== *)
theory Efi_Pass
  imports Efi_Disk Boot_Main
begin

unbundle bit_operations_syntax

text \<open>
  Passing control to the kernel: \<open>efi_makebootargs\<close> and \<open>efi_cleanup\<close> of \<open>efiboot.c\<close>, \<open>run_loadfile\<close> of
  \<open>exec_i386.c\<close> and \<open>sr_clear_keys\<close> of \<open>softraid.c\<close>. The graphics protocol, the configuration tables and
  the memory map of the firmware, the addresses the allocator returns and the bytes it leaves unset are
  arguments; what \<open>run_i386\<close> is called with is the result. The theorems: the kernel, reading
  the arguments, ends up with the values of the boot program; and the keys of key disks stay in memory.
\<close>

section \<open>The frame buffer\<close>

record gop_info =
  HorizontalResolution :: u32
  VerticalResolution :: u32
  PixelFormat :: nat
  RedMask :: u32
  GreenMask :: u32
  BlueMask :: u32
  ReservedMask :: u32
  PixelsPerScanLine :: u32

record gop_mode =
  gop_Info :: gop_info
  FrameBufferBase :: u64
  FrameBufferSize :: u64

text \<open>The answers of \<open>QueryMode\<close> before its first error, the mode after \<open>SetMode\<close>, and the mode in force.\<close>

record gop =
  gop_modes :: "(u32 \<times> u32) list"
  gop_SetMode :: "nat \<Rightarrow> gop_mode option"
  gop_Mode :: gop_mode

text \<open>The product of the resolutions has 32 bits.\<close>

fun best_loop :: "nat \<Rightarrow> (u32 \<times> u32) list \<Rightarrow> nat option \<Rightarrow> u64 \<Rightarrow> nat option" where
  "best_loop i [] bestmode bestsiz = bestmode"
| "best_loop i ((h, v) # ms) bestmode bestsiz =
     (let gopsiz = ucast (h * v) in
      if gopsiz > bestsiz then best_loop (i + 1) ms (Some i) gopsiz else best_loop (i + 1) ms bestmode bestsiz)"

record efiinfo =
  ei_systab :: u64
  ei_image :: u64
  ei_config_acpi :: u64
  ei_config_smbios :: u64
  ei_fb_addr :: u64
  ei_fb_size :: u64
  ei_fb_height :: u32
  ei_fb_width :: u32
  ei_fb_pixpsl :: u32
  ei_fb_red_mask :: u32
  ei_fb_green_mask :: u32
  ei_fb_blue_mask :: u32
  ei_fb_reserved_mask :: u32

definition zero_efiinfo :: efiinfo where
  "zero_efiinfo = \<lparr>ei_systab = 0, ei_image = 0, ei_config_acpi = 0, ei_config_smbios = 0, ei_fb_addr = 0, ei_fb_size = 0,
     ei_fb_height = 0, ei_fb_width = 0, ei_fb_pixpsl = 0, ei_fb_red_mask = 0, ei_fb_green_mask = 0,
     ei_fb_blue_mask = 0, ei_fb_reserved_mask = 0\<rparr>"

definition set_masks :: "u32 \<Rightarrow> u32 \<Rightarrow> u32 \<Rightarrow> u32 \<Rightarrow> efiinfo \<Rightarrow> efiinfo" where
  "set_masks r g b v ei = ei\<lparr>ei_fb_red_mask := r, ei_fb_green_mask := g, ei_fb_blue_mask := b, ei_fb_reserved_mask := v\<rparr>"

definition pixel_masks :: "gop_info \<Rightarrow> efiinfo \<Rightarrow> efiinfo" where
  "pixel_masks gopi ei =
     (if PixelFormat gopi = 1 then set_masks 0x00ff0000 0x0000ff00 0x000000ff 0xff000000 ei
      else if PixelFormat gopi = 0 then set_masks 0x000000ff 0x0000ff00 0x00ff0000 0xff000000 ei
      else if PixelFormat gopi = 2 then set_masks (RedMask gopi) (GreenMask gopi) (BlueMask gopi) (ReservedMask gopi) ei
      else ei)"

definition frame_buffer :: "gop \<Rightarrow> efiinfo \<Rightarrow> efiinfo outcome" where
  "frame_buffer g ei =
     obind (case best_loop 0 (gop_modes g) None 0 of
              None \<Rightarrow> Ret (gop_Mode g)
            | Some m \<Rightarrow> (case gop_SetMode g m of None \<Rightarrow> Exit 1 | Some md \<Rightarrow> Ret md)) (\<lambda>md.
     let gopi = gop_Info md in
     Ret ((pixel_masks gopi ei)\<lparr>ei_fb_addr := FrameBufferBase md, ei_fb_size := FrameBufferSize md,
       ei_fb_height := VerticalResolution gopi, ei_fb_width := HorizontalResolution gopi,
       ei_fb_pixpsl := PixelsPerScanLine gopi\<rparr>))"

section \<open>efi_makebootargs\<close>

definition acpi_guid :: "u8 list" where
  "acpi_guid = [0x71, 0xe8, 0x68, 0x88, 0xf1, 0xe4, 0xd3, 0x11, 0xbc, 0x22, 0x0, 0x80, 0xc7, 0x3c, 0x88, 0x81]"

definition smbios_guid :: "u8 list" where
  "smbios_guid = [0x31, 0x2d, 0x9d, 0xeb, 0x88, 0x2d, 0xd3, 0x11, 0x9a, 0x16, 0x0, 0x90, 0x27, 0x3f, 0xc1, 0x4d]"

fun config_loop :: "(u8 list \<times> u64) list \<Rightarrow> efiinfo \<Rightarrow> efiinfo" where
  "config_loop [] ei = ei"
| "config_loop ((guid, tab) # ts) ei =
     config_loop ts (if guid = acpi_guid then ei\<lparr>ei_config_acpi := tab\<rparr>
       else if guid = smbios_guid then ei\<lparr>ei_config_smbios := tab\<rparr> else ei)"

text \<open>The firmware as \<open>run_loadfile\<close> meets it.\<close>

record efi_fw =
  fw_systab :: u64
  fw_image :: u64
  fw_config :: "(u8 list \<times> u64) list"
  fw_gop :: "gop option"
  fw_map :: "efi_md list option"
  fw_exits :: bool

definition efi_info_args :: "efi_fw \<Rightarrow> efiinfo outcome" where
  "efi_info_args fw =
     (let ei = config_loop (fw_config fw) (zero_efiinfo\<lparr>ei_systab := fw_systab fw, ei_image := fw_image fw\<rparr>) in
      case fw_gop fw of None \<Rightarrow> Ret ei | Some g \<Rightarrow> frame_buffer g ei)"

definition enc_efiinfo :: "efiinfo \<Rightarrow> u8 list" where
  "enc_efiinfo ei = concat (map (\<lambda>f. le_enc 8 (unat (f ei)))
       [ei_systab, ei_image, ei_config_acpi, ei_config_smbios, ei_fb_addr, ei_fb_size])
     @ concat (map (\<lambda>f. le_enc 4 (unat (f ei)))
       [ei_fb_height, ei_fb_width, ei_fb_pixpsl, ei_fb_red_mask, ei_fb_green_mask, ei_fb_blue_mask, ei_fb_reserved_mask])"

text \<open>\<open>addbootarg\<close> with what the allocator returned.\<close>

definition add_arg :: "u64 \<times> u8 list \<times> u8 list \<Rightarrow> u32 \<Rightarrow> u8 list \<Rightarrow> bootarg list \<Rightarrow> bootarg list" where
  "add_arg al t p args = addbootarg t p (fst al) (fst (snd al)) (snd (snd al)) args"

definition efi_makebootargs :: "efi_fw \<Rightarrow> u64 \<times> u8 list \<times> u8 list \<Rightarrow> bootarg list \<Rightarrow> bootarg list outcome" where
  "efi_makebootargs fw al args =
     obind (efi_info_args fw) (\<lambda>ei. Ret (add_arg al BOOTARG_EFIINFO (enc_efiinfo ei) args))"

definition efi_cleanup :: "efi_fw \<Rightarrow> bstate \<Rightarrow> bstate outcome" where
  "efi_cleanup fw st = obind (efi_memprobe_internal (fw_map fw) st) (\<lambda>st. if fw_exits fw then Ret st else Exit 1)"

section \<open>Wiping the softraid keys\<close>

record keydisk =
  kd_uuid :: "u8 list"
  kd_key :: "u8 list"

definition clear_volume :: "sr_volume \<Rightarrow> sr_volume" where
  "clear_volume bv = (if sbv_level bv \<noteq> level_C then bv else bv\<lparr>sbv_keys := False, sbv_maskkey := None\<rparr>)"

text \<open>
  The bytes of the key disk records after the loop: each round clears a record with the link to the next one in
  it, which is read after that, so the second round finds the end of the list. \<open>free\<close> stores its own link,
  \<open>lnk\<close>, at the start of the freed record.
\<close>

fun clear_keydisks :: "u8 list \<Rightarrow> keydisk list \<Rightarrow> keydisk list" where
  "clear_keydisks lnk [] = []"
| "clear_keydisks lnk (kd # kds) =
     \<lparr>kd_uuid = overlay (replicate (length (kd_uuid kd)) 0) 0 lnk, kd_key = replicate (length (kd_key kd)) 0\<rparr> # kds"

definition sr_clear_keys :: "u8 list \<Rightarrow> efi_world \<Rightarrow> keydisk list \<Rightarrow> efi_world \<times> keydisk list" where
  "sr_clear_keys lnk w kds = (w\<lparr>sr_volumes := map clear_volume (sr_volumes w)\<rparr>, clear_keydisks lnk kds)"

section \<open>run_loadfile\<close>

definition BOOTARG_LEN :: nat where "BOOTARG_LEN = 4096"
definition BOOTARG_APIVER :: u32 where "BOOTARG_APIVER = 2 OR 4 OR 8"
definition MARK_ENTRY :: nat where "MARK_ENTRY = 1"
definition MARK_END :: nat where "MARK_END = 4"
definition com_speed :: int where "com_speed = - 1"

definition enc_int :: "int \<Rightarrow> u8 list" where "enc_int i = le_enc 4 (unat (word_of_int i :: u32))"

definition enc_consdev :: "nat \<Rightarrow> int \<Rightarrow> u8 list" where
  "enc_consdev dev addr = enc_int (int dev) @ enc_int com_speed @ enc_int addr @ enc_int 0"

definition enc_region :: "region \<Rightarrow> u8 list" where
  "enc_region r = le_enc 8 (unat (mm_addr r)) @ le_enc 8 (unat (mm_size r)) @ le_enc 4 (unat (mm_type r))"

definition d_uid :: "label \<Rightarrow> u8 list" where "d_uid lp = bytes_at 64 8 lp"

definition enc_bootsr :: "sr_volume \<Rightarrow> u8 list" where
  "enc_bootsr bv = sbv_uuid bv @ (case sbv_maskkey bv of None \<Rightarrow> replicate 32 0 | Some k \<Rightarrow> take 32 k)"

definition boot_dip :: "efi_world \<Rightarrow> diskinfo outcome" where
  "boot_dip w = (case bootdev_dip w of None \<Rightarrow> Undef
     | Some (Disk i) \<Rightarrow> aget (disklist w) i
     | Some (Volume i) \<Rightarrow> obind (aget (sr_volumes w) i) (\<lambda>bv. case sbv_diskinfo bv of None \<Rightarrow> Undef | Some d \<Rightarrow> Ret d))"

text \<open>The arguments in the order they are added; \<open>bootmac\<close> is set by the network boot program only.\<close>

definition boot_vector :: "efi_fw \<Rightarrow> (nat \<Rightarrow> u64 \<times> u8 list \<times> u8 list) \<Rightarrow> u8 list option \<Rightarrow> efi_world \<Rightarrow> diskinfo \<Rightarrow> bstate
    \<Rightarrow> bootarg list \<Rightarrow> bootarg list outcome" where
  "boot_vector fw al bootmac w dip st args =
     obind (efi_makebootargs fw (al 0) args) (\<lambda>args.
     let args = add_arg (al 1) BOOTARG_CONSDEV (enc_consdev (cn_dev st) (com_addr st)) args;
         args = (case bootmac of None \<Rightarrow> args | Some mac \<Rightarrow> add_arg (al 2) BOOTARG_BOOTMAC mac args);
         args = (if db_console st \<noteq> - 1 then add_arg (al 3) BOOTARG_DDB (enc_int (db_console st)) args else args);
         args = add_arg (al 4) BOOTARG_BOOTDUID (d_uid (disklabel_of dip)) args
     in obind (case sr_vol dip of None \<Rightarrow> Ret args
               | Some i \<Rightarrow> obind (aget (sr_volumes w) i) (\<lambda>bv. Ret (add_arg (al 5) BOOTARG_BOOTSR (enc_bootsr bv) args))) (\<lambda>args.
        obind (mem_pass (memmap st)) (\<lambda>rs.
          Ret (add_arg (al 6) BOOTARG_MEMMAP (concat (map enc_region rs)) args))))"

text \<open>What the kernel is started with; all but the first are passed as \<open>int\<close>.\<close>

record handover =
  ho_entry :: u64
  ho_howto :: u32
  ho_bootdev :: u32
  ho_apiver :: u32
  ho_end :: u32
  ho_extmem :: u32
  ho_cnvmem :: u32
  ho_ac :: nat
  ho_av :: "u8 list"

definition run_loadfile :: "efi_fw \<Rightarrow> (nat \<Rightarrow> u64 \<times> u8 list \<times> u8 list) \<Rightarrow> u8 list \<Rightarrow> (u64 \<Rightarrow> u32) \<Rightarrow> u8 list option
    \<Rightarrow> efi_world \<Rightarrow> u8 list \<Rightarrow> keydisk list \<Rightarrow> bootarg list \<Rightarrow> u64 list \<Rightarrow> bstate
    \<Rightarrow> (handover \<times> efi_world \<times> keydisk list \<times> bstate) outcome" where
  "run_loadfile fw al av mem bootmac w lnk kds args marks st =
     obind (boot_dip w) (\<lambda>dip.
     obind (boot_vector fw al bootmac w dip st args) (\<lambda>args.
     let (w, kds) = sr_clear_keys lnk w kds in
     obind (makebootargs32 av BOOTARG_LEN args) (\<lambda>(av, ac).
     obind (aget marks MARK_ENTRY) (\<lambda>m.
     obind (aget marks MARK_END) (\<lambda>e.
     let entry = m AND 0x0fffffff in
     obind (printf (''entry point at 0x%lx [%x, %x, %x, %x]'' @ [NL])
       [PLong entry, PInt (mem entry), PInt (mem (entry + 4)), PInt (mem (entry + 8)), PInt (mem (entry + 12))] st) (\<lambda>st.
     obind (efi_cleanup fw st) (\<lambda>st.
       Ret (\<lparr>ho_entry = entry, ho_howto = cs_boothowto st, ho_bootdev = bootdev dip, ho_apiver = BOOTARG_APIVER,
              ho_end = ucast e, ho_extmem = extmem st, ho_cnvmem = cnvmem st, ho_ac = ac, ho_av = av\<rparr>, w, kds, st))))))))"

section \<open>What the kernel makes of the vector\<close>

lemma args_effect_append:
  "args_effect q (xs @ ys) k = args_effect (q + bytes32 xs) ys (args_effect q xs k)"
  by (induction xs arbitrary: q k) (simp_all add: add.assoc)

lemma args_at_append: "args_at v q (xs @ ys) \<longleftrightarrow> args_at v q xs \<and> args_at v (q + bytes32 xs) ys"
  by (induction xs arbitrary: q) (simp_all add: add.assoc)

text \<open>An argument changes only the variables of its type.\<close>

lemma set_consdev_keeps:
  "k_memmap (set_consdev b k) = k_memmap k" "k_bootduid (set_consdev b k) = k_bootduid k"
  "k_db_console (set_consdev b k) = k_db_console k" "k_bootsr (set_consdev b k) = k_bootsr k"
  "k_efiinfo (set_consdev b k) = k_efiinfo k"
  by (simp_all add: set_consdev_def Let_def)

lemma set_consdev_com: "k_com k = k_com k' \<Longrightarrow> k_com (set_consdev b k) = k_com (set_consdev b k')"
  by (simp add: set_consdev_def Let_def)

lemma arg_effect_keeps:
  "ba_type a \<noteq> BOOTARG_MEMMAP \<Longrightarrow> k_memmap (arg_effect q a k) = k_memmap k"
  "ba_type a \<noteq> BOOTARG_BOOTDUID \<Longrightarrow> k_bootduid (arg_effect q a k) = k_bootduid k"
  "ba_type a \<noteq> BOOTARG_DDB \<Longrightarrow> k_db_console (arg_effect q a k) = k_db_console k"
  "ba_type a \<noteq> BOOTARG_BOOTSR \<Longrightarrow> k_bootsr (arg_effect q a k) = k_bootsr k"
  "ba_type a \<noteq> BOOTARG_EFIINFO \<Longrightarrow> k_efiinfo (arg_effect q a k) = k_efiinfo k"
  "ba_type a \<noteq> BOOTARG_CONSDEV \<Longrightarrow> k_com (arg_effect q a k) = k_com k"
  by (simp_all add: arg_effect_def Let_def set_consdev_keeps bootarg_types)

lemma args_effect_keeps:
  "list_all (\<lambda>a. ba_type a \<noteq> BOOTARG_MEMMAP) as \<Longrightarrow> k_memmap (args_effect q as k) = k_memmap k"
  "list_all (\<lambda>a. ba_type a \<noteq> BOOTARG_BOOTDUID) as \<Longrightarrow> k_bootduid (args_effect q as k) = k_bootduid k"
  "list_all (\<lambda>a. ba_type a \<noteq> BOOTARG_DDB) as \<Longrightarrow> k_db_console (args_effect q as k) = k_db_console k"
  "list_all (\<lambda>a. ba_type a \<noteq> BOOTARG_BOOTSR) as \<Longrightarrow> k_bootsr (args_effect q as k) = k_bootsr k"
  "list_all (\<lambda>a. ba_type a \<noteq> BOOTARG_EFIINFO) as \<Longrightarrow> k_efiinfo (args_effect q as k) = k_efiinfo k"
  "list_all (\<lambda>a. ba_type a \<noteq> BOOTARG_CONSDEV) as \<Longrightarrow> k_com (args_effect q as k) = k_com k"
  by (induction as arbitrary: q k) (simp_all add: arg_effect_keeps)

text \<open>What counts of an argument is its type and its contents.\<close>

definition arg_of :: "u32 \<Rightarrow> u8 list \<Rightarrow> bootarg" where
  "arg_of t p = \<lparr>ba_addr = 0, ba_type = t, ba_hole = [], ba_next = 0, ba_arg = p, ba_tail = []\<rparr>"

definition bare :: "bootarg \<Rightarrow> bootarg" where "bare a = arg_of (ba_type a) (ba_arg a)"

lemma arg_of_simps [simp]: "ba_type (arg_of t p) = t" "ba_arg (arg_of t p) = p" "size32 (arg_of t p) = 12 + length p"
  by (simp_all add: arg_of_def size32_eq)

lemma bare_simps [simp]: "ba_type (bare a) = ba_type a" "ba_arg (bare a) = ba_arg a" "size32 (bare a) = size32 a"
  by (simp_all add: bare_def size32_eq)

lemma bare_same:
  "arg_effect q (bare a) = arg_effect q a" "arg_at v q (bare a) = arg_at v q a" "arg_wf (bare a) = arg_wf a"
  by (simp_all add: arg_effect_def arg_at_def arg_wf_def fun_eq_iff)

lemma args_bare: "args_effect q (map bare as) k = args_effect q as k" "bytes32 (map bare as) = bytes32 as"
  by (induction as arbitrary: q k) (simp_all add: bare_same)

lemma wiped_bare: "wiped (bare a) = bare (wiped a)"
  by (simp add: wiped_def bare_def arg_of_def)

lemma args_at_bare: "args_at v q (map wiped (map bare as)) = args_at v q (map wiped as)"
  by (induction as arbitrary: q) (simp_all add: wiped_bare bare_same)

text \<open>The vector as it lies in the area: the newest argument first.\<close>

definition passed :: "region list \<Rightarrow> efiinfo \<Rightarrow> u8 list option \<Rightarrow> efi_world \<Rightarrow> diskinfo \<Rightarrow> bstate \<Rightarrow> bootarg list \<Rightarrow> bootarg list" where
  "passed rs ei bootmac w dip st args =
     arg_of BOOTARG_MEMMAP (concat (map enc_region rs))
     # (case sr_vol dip of None \<Rightarrow> [] | Some i \<Rightarrow> [arg_of BOOTARG_BOOTSR (enc_bootsr (sr_volumes w ! i))])
     @ arg_of BOOTARG_BOOTDUID (d_uid (disklabel_of dip))
     # (if db_console st = - 1 then [] else [arg_of BOOTARG_DDB (enc_int (db_console st))])
     @ (case bootmac of None \<Rightarrow> [] | Some mac \<Rightarrow> [arg_of BOOTARG_BOOTMAC mac])
     @ arg_of BOOTARG_CONSDEV (enc_consdev (cn_dev st) (com_addr st))
     # arg_of BOOTARG_EFIINFO (enc_efiinfo ei) # map bare args"

lemma boot_vector_passed:
  assumes "boot_vector fw al bootmac w dip st args = Ret as"
  shows "\<exists>rs ei. mem_pass (memmap st) = Ret rs \<and> efi_info_args fw = Ret ei \<and> map bare as = passed rs ei bootmac w dip st args"
  using assms
  by (auto simp: boot_vector_def efi_makebootargs_def add_arg_def addbootarg_def Let_def obind_eq_Ret aget_def
      bare_def passed_def split: option.splits if_splits)

lemma length_encodings [simp]:
  "length (enc_int i) = 4" "length (enc_consdev dev addr) = 16" "length (enc_efiinfo ei) = 76" "length (enc_region r) = 20"
  by (simp_all add: enc_int_def enc_consdev_def enc_efiinfo_def enc_region_def)

lemma length_regions [simp]: "length (concat (map enc_region rs)) = 20 * length rs"
  by (induction rs) simp_all

lemma mem_pass_length: "mem_pass mm = Ret rs \<Longrightarrow> length rs \<le> length mm"
  by (induction mm arbitrary: rs) (auto simp: obind_eq_Ret split: if_splits)

text \<open>The vector is well formed when the label, the volume and the earlier arguments are.\<close>

definition volume_ok :: "efi_world \<Rightarrow> diskinfo \<Rightarrow> bool" where
  "volume_ok w dip \<longleftrightarrow> length (disklabel_of dip) = sizeof_disklabel
     \<and> (case sr_vol dip of None \<Rightarrow> True | Some i \<Rightarrow> length (enc_bootsr (sr_volumes w ! i)) = 48)"

definition earlier_ok :: "bootarg list \<Rightarrow> bool" where
  "earlier_ok args \<longleftrightarrow> list_all arg_wf args \<and> list_all (\<lambda>a. ba_type a \<in> {BOOTARG_DISKINFO, BOOTARG_CKSUMLEN}) args"

lemma arg_wf_arg_of:
  "arg_wf (arg_of t p) \<longleftrightarrow> t \<noteq> BOOTARG_END \<and> length p < 2 ^ 31 - 12
     \<and> (t \<in> {BOOTARG_CKSUMLEN, BOOTARG_DDB} \<longrightarrow> length p = 4) \<and> (t = BOOTARG_CONSDEV \<longrightarrow> length p = 16)
     \<and> (t = BOOTARG_BOOTDUID \<longrightarrow> length p = 8) \<and> (t = BOOTARG_BOOTSR \<longrightarrow> length p = 48)
     \<and> (t = BOOTARG_EFIINFO \<longrightarrow> length p = 76)"
  by (simp add: arg_wf_def)

lemma bytes32_wiped: "list_all arg_wf as \<Longrightarrow> bytes32 (map wiped as) = bytes32 as"
  by (induction as) (simp_all add: size32_wiped)

lemma passed_wf:
  assumes "volume_ok w dip" "earlier_ok args" "length rs \<le> 1000" "case bootmac of None \<Rightarrow> True | Some mac \<Rightarrow> length mac < 1000"
  shows "list_all arg_wf (passed rs ei bootmac w dip st args)"
  using assms
  by (auto simp: passed_def arg_wf_arg_of bootarg_types BOOTARG_END_def volume_ok_def earlier_ok_def d_uid_def
      sizeof_disklabel_def bytes_at_def bare_same list.pred_map comp_def split: option.splits)

lemma earlier_types:
  "earlier_ok args \<Longrightarrow> t \<notin> {BOOTARG_DISKINFO, BOOTARG_CKSUMLEN} \<Longrightarrow> list_all (\<lambda>a. ba_type a \<noteq> t) (map bare args)"
  by (auto simp: earlier_ok_def list_all_iff)

lemma passed_effect:
  assumes e: "earlier_ok args" and k': "k' = args_effect 0 (passed rs ei bootmac w dip st args) k"
  shows "k_memmap k' = Some 12" "k_bootduid k' = d_uid (disklabel_of dip)"
    "k_db_console k' = (if db_console st = - 1 then k_db_console k else word_of_int (db_console st))"
    "k_com k' = k_com (set_consdev (enc_consdev (cn_dev st) (com_addr st)) k)"
    "k_bootsr k' = (case sr_vol dip of None \<Rightarrow> k_bootsr k
       | Some i \<Rightarrow> (take 16 (enc_bootsr (sr_volumes w ! i)), drop 16 (enc_bootsr (sr_volumes w ! i))))"
proof -
  note t = earlier_types [OF e]
  note sm = passed_def args_effect_append arg_effect_def args_effect_keeps t bootarg_types set_consdev_keeps Let_def
  show "k_memmap k' = Some 12" "k_bootduid k' = d_uid (disklabel_of dip)"
    unfolding k' by (simp_all add: sm split: option.splits)
  show "k_db_console k' = (if db_console st = - 1 then k_db_console k else word_of_int (db_console st))"
    unfolding k' by (simp add: sm enc_int_def le32_type split: option.splits)
  show "k_com k' = k_com (set_consdev (enc_consdev (cn_dev st) (com_addr st)) k)"
    unfolding k' by (auto simp: sm intro!: set_consdev_com split: option.splits)
  show "k_bootsr k' = (case sr_vol dip of None \<Rightarrow> k_bootsr k
       | Some i \<Rightarrow> (take 16 (enc_bootsr (sr_volumes w ! i)), drop 16 (enc_bootsr (sr_volumes w ! i))))"
    unfolding k' by (simp add: sm split: option.splits)
qed

lemma passed_efiinfo:
  assumes e: "earlier_ok args" and wf: "list_all arg_wf (passed rs ei bootmac w dip st args)"
    and at: "args_at v 0 (map wiped (passed rs ei bootmac w dip st args))"
  shows "\<exists>q. k_efiinfo (args_effect 0 (passed rs ei bootmac w dip st args) k) = Some q \<and> bytes_at q 76 v = enc_efiinfo ei"
proof -
  obtain pre where p: "passed rs ei bootmac w dip st args = pre @ arg_of BOOTARG_EFIINFO (enc_efiinfo ei) # map bare args"
    by (auto simp: passed_def)
  have "wiped (arg_of BOOTARG_EFIINFO d) = arg_of BOOTARG_EFIINFO d" for d
    by (simp add: wiped_def bootarg_types)
  with at have "arg_at v (bytes32 (map wiped pre)) (arg_of BOOTARG_EFIINFO (enc_efiinfo ei))"
    by (simp add: p args_at_append)
  moreover have "bytes32 (map wiped pre) = bytes32 pre"
    by (rule bytes32_wiped) (use wf p in simp)
  ultimately show ?thesis
    using earlier_types [OF e, of BOOTARG_EFIINFO]
    by (simp add: p args_effect_append args_effect_keeps arg_effect_def arg_at_def bootarg_types)
qed

lemma run_loadfile_area:
  assumes "run_loadfile fw al av mem bootmac w lnk kds args marks st = Ret (h, w', kds', st')"
  shows "\<exists>dip as. boot_dip w = Ret dip \<and> boot_vector fw al bootmac w dip st args = Ret as
    \<and> makebootargs32 av BOOTARG_LEN as = Ret (ho_av h, ho_ac h) \<and> ho_bootdev h = bootdev dip \<and> ho_apiver h = BOOTARG_APIVER"
  using assms by (auto simp: run_loadfile_def obind_eq_Ret Let_def case_prod_unfold)

lemma passed_bytes: "bytes32 (passed rs ei None w dip st args) \<le> 224 + 20 * length rs + bytes32 args" if "volume_ok w dip"
  using that by (auto simp: passed_def volume_ok_def d_uid_def bytes_at_def args_bare(2) [unfolded map_map] split: option.splits)

lemma passed_count: "length (passed rs ei None w dip st args) \<le> 6 + length args"
  by (simp add: passed_def split: option.splits)

lemma handover_read:
  assumes r: "run_loadfile fw al av mem None w lnk kds args marks st = Ret (h, w', kds', st')"
    and dip: "boot_dip w = Ret dip" "volume_ok w dip" and e: "earlier_ok args"
    and rs: "mem_pass (memmap st) = Ret rs" "20 * length rs + bytes32 args + 240 \<le> BOOTARG_LEN"
    and n: "length args + 6 < n" and av: "BOOTARG_LEN \<le> length av"
  shows "\<exists>v k' b ei q. getbootinfo n (ho_av h) (ho_ac h) k = Ret (v, k', b)
    \<and> ho_ac h \<le> 240 + 20 * length rs + bytes32 args \<and> 12 + 20 * length rs \<le> length v
    \<and> k_memmap k' = Some 12 \<and> bytes_at 12 (20 * length rs) v = concat (map enc_region rs)
    \<and> k_bootduid k' = d_uid (disklabel_of dip)
    \<and> k_db_console k' = (if db_console st = - 1 then k_db_console k else word_of_int (db_console st))
    \<and> k_com k' = k_com (set_consdev (enc_consdev (cn_dev st) (com_addr st)) k)
    \<and> k_bootsr k' = (case sr_vol dip of None \<Rightarrow> k_bootsr k
         | Some i \<Rightarrow> (take 16 (enc_bootsr (sr_volumes w ! i)), drop 16 (enc_bootsr (sr_volumes w ! i))))
    \<and> efi_info_args fw = Ret ei \<and> k_efiinfo k' = Some q \<and> bytes_at q 76 v = enc_efiinfo ei"
proof -
  obtain as where as: "boot_vector fw al None w dip st args = Ret as"
    "makebootargs32 av BOOTARG_LEN as = Ret (ho_av h, ho_ac h)"
    using run_loadfile_area [OF r] dip(1) by auto
  obtain ei where ei: "efi_info_args fw = Ret ei" and p: "map bare as = passed rs ei None w dip st args" (is "_ = ?p")
    using boot_vector_passed [OF as(1)] rs(1) by auto
  have "length rs \<le> 1000" using rs(2) by (simp add: BOOTARG_LEN_def)
  then have wf: "list_all arg_wf ?p" using passed_wf [OF dip(2) e] by simp
  then have "list_all arg_wf as" unfolding p [symmetric] by (simp add: list.pred_map comp_def bare_same)
  moreover have "bytes32 as \<le> BOOTARG_LEN - 16"
    using passed_bytes [OF dip(2), of rs ei st args] rs(2) unfolding p [symmetric] args_bare(2) by simp
  then have fit: "fitting size32 BOOTARG_LEN 16 as = as" by (intro fitting_all) (simp add: BOOTARG_LEN_def)
  moreover note fit
  moreover have "length as < n"
    using passed_count [of rs ei w dip st args] n unfolding p [symmetric] by simp
  ultimately obtain v where v: "getbootinfo n (ho_av h) (ho_ac h) k =
      Ret (v, args_effect 0 as (k\<lparr>k_docninit := 0\<rparr>), 0 < k_docninit (args_effect 0 as (k\<lparr>k_docninit := 0\<rparr>)))"
    "args_at v 0 (map wiped as)" "ho_ac h = 16 + bytes32 as"
    using makebootargs32_read [of BOOTARG_LEN av as as n k] as(2) av by (auto simp: BOOTARG_LEN_def)
  have at: "args_at v 0 (map wiped ?p)" using v(2) unfolding p [symmetric] args_at_bare .
  have k': "args_effect 0 as (k\<lparr>k_docninit := 0\<rparr>) = args_effect 0 ?p (k\<lparr>k_docninit := 0\<rparr>)"
    unfolding p [symmetric] args_bare ..
  have "bytes_at 12 (20 * length rs) v = concat (map enc_region rs)" "12 + 20 * length rs \<le> length v"
    using at by (simp_all add: passed_def wiped_def arg_at_def bootarg_types)
  moreover have "ho_ac h \<le> 240 + 20 * length rs + bytes32 args"
    using v(3) passed_bytes [OF dip(2), of rs ei st args] unfolding p [symmetric] args_bare(2) by simp
  moreover have "k_com (set_consdev b (k\<lparr>k_docninit := 0\<rparr>)) = k_com (set_consdev b k)" for b
    by (rule set_consdev_com) simp
  ultimately show ?thesis
    using v(1) passed_effect [OF e k'] passed_efiinfo [OF e wf at, of "k\<lparr>k_docninit := 0\<rparr>"] ei unfolding k'
    by (auto cong: option.case_cong)
qed

text \<open>
  C4: the kernel gets what the boot program has. When run_loadfile starts a kernel from a disk or a softraid
  volume, with no more arguments than fit one page, getbootinfo of the kernel, run on the area it is
  given, ends with: the memory map of the boot program byte for byte, with its end mark, where bios_memmap
  points to; the unique identifier of the boot disk; the console for the debugger if db_console was set, and its
  own default otherwise; the serial console if that is the console; identifier and key of the softraid volume; and
  the information on the frame buffer where bios_efiinfo points to.
\<close>

theorem kernel_gets_boot_state:
  assumes r: "run_loadfile fw al av mem None w lnk kds args marks st = Ret (h, w', kds', st')"
    and dip: "boot_dip w = Ret dip" "volume_ok w dip" and e: "earlier_ok args"
    and rs: "mem_pass (memmap st) = Ret rs" "20 * length rs + bytes32 args + 240 \<le> BOOTARG_LEN"
    and n: "length args + 6 < n" and av: "BOOTARG_LEN \<le> length av"
  shows "\<exists>v k' b ei q. getbootinfo n (ho_av h) (ho_ac h) k = Ret (v, k', b)
    \<and> k_memmap k' = Some 12 \<and> bytes_at 12 (20 * length rs) v = concat (map enc_region rs)
    \<and> k_bootduid k' = d_uid (disklabel_of dip)
    \<and> k_db_console k' = (if db_console st = - 1 then k_db_console k else word_of_int (db_console st))
    \<and> k_com k' = k_com (set_consdev (enc_consdev (cn_dev st) (com_addr st)) k)
    \<and> k_bootsr k' = (case sr_vol dip of None \<Rightarrow> k_bootsr k
         | Some i \<Rightarrow> (take 16 (enc_bootsr (sr_volumes w ! i)), drop 16 (enc_bootsr (sr_volumes w ! i))))
    \<and> efi_info_args fw = Ret ei \<and> k_efiinfo k' = Some q \<and> bytes_at q 76 v = enc_efiinfo ei"
  using handover_read [OF assms] by blast

text \<open>A first disk without a label, no frame buffer, an empty map, nothing in memory.\<close>

definition fw0 :: efi_fw where
  "fw0 = \<lparr>fw_systab = 0x7000, fw_image = 0x8000, fw_config = [(acpi_guid, 0x9000)], fw_gop = None, fw_map = Some [], fw_exits = True\<rparr>"

definition dip0 :: diskinfo where
  "dip0 = \<lparr>efi_info = None, bios_info = zero_bios, disklabel_of = replicate sizeof_disklabel 7, sr_vol = None, bsddev = 0, bootdev = 5\<rparr>"

definition w0 :: efi_world where
  "w0 = \<lparr>disklist = [dip0], sr_volumes = [], bootdev_dip = Some (Disk 0), bios_bootdev = 0x80\<rparr>"

definition st0 :: bstate where
  "st0 = env_state0\<lparr>memmap := [\<lparr>mm_addr = 0x1000, mm_size = 0x2000, mm_type = BIOS_MAP_FREE\<rparr>, \<lparr>mm_addr = 0, mm_size = 0, mm_type = BIOS_MAP_END\<rparr>],
     db_console := 1\<rparr>"

lemma entry_line:
  "\<exists>s. kdoprnt (''entry point at 0x%lx [%x, %x, %x, %x]'' @ [NL]) [PLong a, PInt b, PInt c, PInt d, PInt e] = Ret s"
proof -
  obtain f where f: "kprintn u 16 = Ret (f u)" for u using kprintn_value [of 16] by metis
  show ?thesis
    by (simp add: take_unsigned_def take_int_def take_long_def emit_def f NL_def)
qed

lemma run_loadfile_returns:
  assumes "boot_dip w = Ret dip" "boot_vector fw al bootmac w dip st args = Ret as" "BOOTARG_LEN \<le> length av"
    and "4 < length marks" "\<And>s. \<exists>st'. efi_cleanup fw (puts_all s st) = Ret st'"
  shows "\<exists>h w' kds' st'. run_loadfile fw al av mem bootmac w lnk kds args marks st = Ret (h, w', kds', st')"
proof -
  obtain b ac where b: "makebootargs32 av BOOTARG_LEN as = Ret (b, ac)"
    using makebootargs32_area [of BOOTARG_LEN av "fitting size32 BOOTARG_LEN 16 as" as] assms(3)
    by (auto simp: BOOTARG_LEN_def)
  let ?m = "(marks ! 1) AND 0x0fffffff"
  obtain s where "kdoprnt (''entry point at 0x%lx [%x, %x, %x, %x]'' @ [NL])
      [PLong ?m, PInt (mem ?m), PInt (mem (?m + 4)), PInt (mem (?m + 8)), PInt (mem (?m + 12))] = Ret s"
    using entry_line by blast
  then have p: "printf (''entry point at 0x%lx [%x, %x, %x, %x]'' @ [NL])
      [PLong ?m, PInt (mem ?m), PInt (mem (?m + 4)), PInt (mem (?m + 8)), PInt (mem (?m + 12))] st = Ret (puts_all s st)"
    by (simp only: printf_def obind.simps)
  obtain st' where "efi_cleanup fw (puts_all s st) = Ret st'" using assms(5) by blast
  then show ?thesis
    using assms(1,2,4) b p
    by (simp del: kdoprnt.simps add: run_loadfile_def Let_def case_prod_unfold aget_def MARK_ENTRY_def MARK_END_def)
qed

lemma boot_vector_returns:
  assumes "efi_info_args fw = Ret ei" "mem_pass (memmap st) = Ret rs" "case sr_vol dip of None \<Rightarrow> True | Some i \<Rightarrow> i < length (sr_volumes w)"
  shows "\<exists>as. boot_vector fw al bootmac w dip st args = Ret as"
  using assms by (simp add: boot_vector_def efi_makebootargs_def Let_def aget_def split: option.splits)

lemma mem_pass_st0: "mem_pass (memmap st0) = Ret (memmap st0)"
  by (simp add: st0_def BIOS_MAP_FREE_def BIOS_MAP_END_def)

lemma fw0_runs:
  assumes "mem_pass (memmap st) = Ret rs"
  shows "\<exists>h w' kds' st'. run_loadfile fw0 (\<lambda>_. (0, [], [])) (replicate 4096 0) (\<lambda>_. 0) None w0 [] [] []
     [0, 0x1000160, 0, 0, 0x1800000] st = Ret (h, w', kds', st')"
proof -
  have "efi_info_args fw0 = Ret (config_loop (fw_config fw0) (zero_efiinfo\<lparr>ei_systab := 0x7000, ei_image := 0x8000\<rparr>))"
    by (simp add: efi_info_args_def fw0_def)
  then obtain as where as: "boot_vector fw0 (\<lambda>_. (0, [], [])) None w0 dip0 st [] = Ret as"
    using boot_vector_returns assms by (force simp: dip0_def)
  obtain r mm where m: "memmap st = r # mm" using assms by (cases "memmap st") auto
  show ?thesis
  proof (rule run_loadfile_returns [OF _ as])
    show "boot_dip w0 = Ret dip0"
      by (simp add: boot_dip_def w0_def aget_def)
    show "\<exists>st'. efi_cleanup fw0 (puts_all s st) = Ret st'" for s
      by (simp add: efi_cleanup_def fw0_def efi_memprobe_internal_def m aget_def BIOS_MAP_END_def)
  qed (simp_all add: BOOTARG_LEN_def)
qed

lemma w0_ok: "boot_dip w0 = Ret dip0" "volume_ok w0 dip0" "earlier_ok []"
  by (simp_all add: boot_dip_def w0_def aget_def volume_ok_def dip0_def earlier_ok_def)

theorem kernel_gets_boot_state_witness:
  "\<exists>h w' kds' st' v k' b. run_loadfile fw0 (\<lambda>_. (0, [], [])) (replicate 4096 0) (\<lambda>_. 0) None w0 [] [] []
       [0, 0x1000160, 0, 0, 0x1800000] st0 = Ret (h, w', kds', st')
     \<and> getbootinfo 7 (ho_av h) (ho_ac h) k0 = Ret (v, k', b)
     \<and> bytes_at 12 40 v = concat (map enc_region (memmap st0)) \<and> k_db_console k' = 1 \<and> k_bootduid k' = replicate 8 7"
proof -
  obtain h w' kds' st' where r: "run_loadfile fw0 (\<lambda>_. (0, [], [])) (replicate 4096 0) (\<lambda>_. 0) None w0 [] [] []
       [0, 0x1000160, 0, 0, 0x1800000] st0 = Ret (h, w', kds', st')"
    using fw0_runs [OF mem_pass_st0] by blast
  have l: "length (memmap st0) = 2" "db_console st0 = 1" "d_uid (disklabel_of dip0) = replicate 8 7"
    by (simp_all add: st0_def dip0_def d_uid_def bytes_at_def sizeof_disklabel_def)
  show ?thesis
    using kernel_gets_boot_state [OF r w0_ok mem_pass_st0, of 7 k0] r l by (auto simp: BOOTARG_LEN_def)
qed

text \<open>
  keys of key disks stay in memory. sr_clear_keys, called before the kernel starts, removes the keys of
  every crypto volume, but of the key disks it clears the first one only: the records of all others keep their
  keys.
\<close>

theorem sr_clear_keys_leaves_keydisks:
  assumes "sr_clear_keys lnk w (kd # kds) = (w', kds')"
  shows "(\<forall>bv \<in> set (sr_volumes w'). sbv_level bv = level_C \<longrightarrow> \<not> sbv_keys bv \<and> sbv_maskkey bv = None)
    \<and> length (sr_volumes w') = length (sr_volumes w)
    \<and> kd_key (hd kds') = replicate (length (kd_key kd)) 0 \<and> tl kds' = kds"
  using assms by (auto simp: sr_clear_keys_def clear_volume_def)

theorem sr_clear_keys_leaves_keydisks_witness:
  "map kd_key (snd (sr_clear_keys [] w0 [\<lparr>kd_uuid = [1], kd_key = [2]\<rparr>, \<lparr>kd_uuid = [3], kd_key = [4]\<rparr>])) = [[0], [4]]"
proof -
  obtain w' kds' where s: "sr_clear_keys [] w0 [\<lparr>kd_uuid = [1], kd_key = [2]\<rparr>, \<lparr>kd_uuid = [3], kd_key = [4]\<rparr>] = (w', kds')"
    by fastforce
  then have "kds' \<noteq> []" by (auto simp: sr_clear_keys_def)
  then show ?thesis using s sr_clear_keys_leaves_keydisks [OF s] by (cases kds') auto
qed

end
