(* ===== verification/Kern_Mem.thy ===== *)
theory Kern_Mem
  imports Efi_Pass
begin

unbundle bit_operations_syntax

text \<open>
  What the kernel makes of the memory map it is passed: the beginning of \<open>init_x86_64\<close> of
  \<open>sys/arch/amd64/amd64/machdep.c\<close>, which reads the boot arguments and fills \<open>mem_clusters\<close> with the
  segments of free memory it will manage. The theorems: a segment never leaves the free region it comes from; and,
  over all steps from the firmware's map to the kernel's segments, the kernel manages only memory the firmware
  reported as free.
\<close>

section \<open>Segments\<close>

definition VM_PHYSSEG_MAX :: nat where "VM_PHYSSEG_MAX = 16"
definition IOM_BEGIN :: u64 where "IOM_BEGIN = 0x0a0000"
definition MB16 :: u64 where "MB16 = 16 * 1024 * 1024"

definition trunc_page :: "u64 \<Rightarrow> u64" where "trunc_page x = x AND NOT 0xfff"
definition round_page :: "u64 \<Rightarrow> u64" where "round_page x = (x + 0xfff) AND NOT 0xfff"

text \<open>The first page that is used: the pages of the configured trampolines and of hibernation are left out.\<close>

definition avail_start_of :: "u64 list \<Rightarrow> u64" where
  "avail_start_of tramps = fold (\<lambda>t a. if a < t + 4096 then t + 4096 else a) tramps (16 * 4096)"

text \<open>The body of the loop up to the stores: \<open>s1\<close>, \<open>e1\<close>, \<open>s2\<close>, \<open>e2\<close>, or \<open>None\<close> for \<open>continue\<close>.\<close>

definition crop :: "u64 \<Rightarrow> u64 \<Rightarrow> u64 \<Rightarrow> u64" where
  "crop l s e = (if s < l \<and> e > l then l else e)"

definition segments :: "u64 \<Rightarrow> u32 \<Rightarrow> region \<Rightarrow> (u64 \<times> u64 \<times> u64 \<times> u64) option" where
  "segments avail_start biosbasemem bmp =
     (if mm_type bmp \<noteq> BIOS_MAP_FREE then None
      else if mm_size bmp < 4096 then None
      else
        let s1 = round_page (mm_addr bmp); e1 = trunc_page (mm_addr bmp + mm_size bmp) in
        if s1 > MB16 \<and> e1 - s1 < 1024 * 1024 then None
        else if s1 < avail_start \<and> avail_start > e1 then None
        else
          let s1 = (if s1 < avail_start then avail_start else s1);
              e1 = crop (scast biosbasemem) s1 (crop IOM_BEGIN s1 e1)
          in if s1 < MB16 \<and> e1 > MB16 then Some (s1, MB16, MB16, e1) else Some (s1, e1, 0, 0))"

text \<open>A store into \<open>mem_clusters\<close>; the array has 16 entries and the index is not checked.\<close>

definition store_seg :: "u64 \<Rightarrow> u64 \<Rightarrow> (u64 \<times> u64) list \<Rightarrow> (u64 \<times> u64) list outcome" where
  "store_seg s e cl =
     (if e - s \<ge> 4096 then (if length cl < VM_PHYSSEG_MAX then Ret (cl @ [(s, e - s)]) else Undef) else Ret cl)"

definition dec_region :: "u8 list \<Rightarrow> region" where
  "dec_region b = \<lparr>mm_addr = of_nat (le_dec (bytes_at 0 8 b)), mm_size = of_nat (le_dec (bytes_at 8 8 b)),
     mm_type = of_nat (le_dec (bytes_at 16 4 b))\<rparr>"

text \<open>The loop over \<open>bios_memmap\<close> at offset \<open>p\<close> of the boot arguments; clusters and \<open>avail_end\<close>.\<close>

function seg_loop :: "u8 list \<Rightarrow> u64 \<Rightarrow> u32 \<Rightarrow> nat \<Rightarrow> (u64 \<times> u64) list \<Rightarrow> u64 \<Rightarrow> ((u64 \<times> u64) list \<times> u64) outcome" where
  "seg_loop v avail_start biosbasemem p cl avail_end =
     obind (obj_bytes v p 20) (\<lambda>b.
       let bmp = dec_region b in
       if mm_type bmp = BIOS_MAP_END then Ret (cl, avail_end)
       else case segments avail_start biosbasemem bmp of
         None \<Rightarrow> seg_loop v avail_start biosbasemem (p + 20) cl avail_end
       | Some (s1, e1, s2, e2) \<Rightarrow>
           obind (store_seg s1 e1 cl) (\<lambda>cl.
           obind (store_seg s2 e2 cl) (\<lambda>cl.
             seg_loop v avail_start biosbasemem (p + 20) cl (max (max avail_end e1) e2))))"
  by pat_completeness auto
termination
  by (relation "measure (\<lambda>(v, _, _, p, _). Suc (length v) - p)")
    (auto simp: obj_bytes_def split: if_splits)

declare seg_loop.simps [simp del]

text \<open>
  The start of \<open>init_x86_64\<close>: the interface version and the size of the arguments are checked, the arguments are
  read, and the clusters are filled. \<open>Exit\<close> is a panic; without a memory map a null pointer is read.
\<close>

definition init_x86_64 :: "nat \<Rightarrow> u64 list \<Rightarrow> u32 \<Rightarrow> u32 \<Rightarrow> nat \<Rightarrow> u8 list \<Rightarrow> kboot \<Rightarrow> (kboot \<times> (u64 \<times> u64) list \<times> u64) outcome" where
  "init_x86_64 steps tramps biosbasemem bootapiver bootinfo_size bootinfo k =
     (if bootapiver AND (2 OR 8) \<noteq> 2 OR 8 then Exit 1
      else if bootinfo_size \<ge> 4096 then Exit 1
      else obind (getbootinfo steps bootinfo bootinfo_size k) (\<lambda>(v, k, b).
        case k_memmap k of None \<Rightarrow> Undef
        | Some p \<Rightarrow> obind (seg_loop v (avail_start_of tramps) biosbasemem p [] 0) (\<lambda>(cl, avail_end).
            Ret (k, cl, avail_end))))"

section \<open>A segment stays in its region\<close>

lemma and_not_page: "(x :: u64) AND NOT 0xfff = x - take_bit 12 x"
proof -
  have "NOT x AND take_bit 12 x = 0" by (auto simp: bit_eq_iff bit_simps)
  moreover have "(0xfff :: u64) = mask 12" by (simp add: mask_eq_exp_minus_1)
  then have "x AND NOT 0xfff = x AND NOT (take_bit 12 x)" by (auto simp: bit_eq_iff bit_simps)
  ultimately show ?thesis by (simp add: disjunctive_diff_eq_and_not)
qed

lemma unat_trunc_page: "unat (trunc_page x) = unat x - unat x mod 4096"
proof -
  have t: "unat (take_bit 12 x) = unat x mod 4096" by (simp add: take_bit_eq_mod unat_mod)
  then have "take_bit 12 x \<le> x" by (simp add: word_le_nat_alt)
  then show ?thesis unfolding trunc_page_def and_not_page by (simp only: unat_minus_small t)
qed

lemma page_rounding:
  fixes l h :: nat
  assumes "l + 4096 \<le> h"
  shows "l \<le> l + 4095 - (l + 4095) mod 4096" "l + 4095 - (l + 4095) mod 4096 \<le> h - h mod 4096"
proof -
  show "l \<le> l + 4095 - (l + 4095) mod 4096"
    using mod_less_divisor [of 4096 "l + 4095"] by linarith
  show "l + 4095 - (l + 4095) mod 4096 \<le> h - h mod 4096"
    unfolding minus_mod_eq_mult_div using assms by (simp add: div_le_mono)
qed

lemma round_page_trunc: "round_page x = trunc_page (x + 0xfff)"
  by (simp only: round_page_def trunc_page_def)

lemma page_bounds:
  assumes "proper bmp" "4096 \<le> unat (mm_size bmp)"
  shows "lo bmp \<le> unat (round_page (mm_addr bmp))" "unat (round_page (mm_addr bmp)) \<le> lo bmp + 4095"
    "unat (round_page (mm_addr bmp)) \<le> unat (trunc_page (mm_addr bmp + mm_size bmp))"
    "unat (trunc_page (mm_addr bmp + mm_size bmp)) \<le> hi bmp" "hi bmp \<le> unat (trunc_page (mm_addr bmp + mm_size bmp)) + 4095"
proof -
  have hi: "hi bmp < 2 ^ 64" "unat (mm_addr bmp + mm_size bmp) = hi bmp"
    using assms(1) by (simp_all add: proper_def hi_word)
  have "unat (mm_addr bmp + 0xfff) = lo bmp + 4095"
    using assms(2) hi by (subst unat_plus_small) (simp_all add: hi_def lo_def)
  then have s: "unat (round_page (mm_addr bmp)) = lo bmp + 4095 - (lo bmp + 4095) mod 4096"
    by (simp add: round_page_trunc unat_trunc_page)
  have e: "unat (trunc_page (mm_addr bmp + mm_size bmp)) = hi bmp - hi bmp mod 4096"
    by (simp add: unat_trunc_page hi)
  have "lo bmp + 4096 \<le> hi bmp" using assms(2) by (simp add: lo_def hi_def)
  then show "lo bmp \<le> unat (round_page (mm_addr bmp))" "unat (round_page (mm_addr bmp)) \<le> unat (trunc_page (mm_addr bmp + mm_size bmp))"
    unfolding s e by (auto dest: page_rounding)
  have "hi bmp mod 4096 \<le> 4095" using mod_less_divisor [of 4096 "hi bmp"] by linarith
  then show "unat (round_page (mm_addr bmp)) \<le> lo bmp + 4095" "unat (trunc_page (mm_addr bmp + mm_size bmp)) \<le> hi bmp"
      "hi bmp \<le> unat (trunc_page (mm_addr bmp + mm_size bmp)) + 4095"
    unfolding s e by simp_all
qed

lemma segment_bounds:
  assumes "proper bmp" "segments a base bmp = Some (s1, e1, s2, e2)"
  shows "mm_type bmp = BIOS_MAP_FREE" "s1 \<le> e1" "s2 \<le> e2" "a \<le> s1"
    "{unat s1..<unat e1} \<subseteq> cells bmp" "{unat s2..<unat e2} \<subseteq> cells bmp"
proof -
  define s0 e0 where "s0 = round_page (mm_addr bmp)" and "e0 = trunc_page (mm_addr bmp + mm_size bmp)"
  have sz: "4096 \<le> unat (mm_size bmp)" "mm_type bmp = BIOS_MAP_FREE"
    using assms(2) by (auto simp: segments_def word_less_nat_alt not_less split: if_splits)
  note b = page_bounds [OF assms(1) sz(1), folded s0_def e0_def]
  define s where "s = (if s0 < a then a else s0)"
  define e where "e = crop (scast base) s (crop IOM_BEGIN s e0)"
  have c: "\<not> (s0 < a \<and> a > e0)" "(s1, e1, s2, e2) = (if s < MB16 \<and> e > MB16 then (s, MB16, MB16, e) else (s, e, 0, 0))"
    using assms(2) unfolding s0_def e0_def s_def e_def
    by (auto simp: segments_def Let_def split: if_splits)
  have s: "lo bmp \<le> unat s" "a \<le> s" "s \<le> e0"
    using b c(1) by (auto simp: s_def word_le_nat_alt word_less_nat_alt)
  have crop: "s \<le> x \<Longrightarrow> s \<le> crop l s x \<and> crop l s x \<le> x" for l x
    by (auto simp: crop_def)
  have e: "s \<le> e" "e \<le> e0"
    using crop [OF s(3)] crop order_trans unfolding e_def by blast+
  have "mm_type bmp = BIOS_MAP_FREE \<and> s1 \<le> e1 \<and> s2 \<le> e2 \<and> a \<le> s1 \<and> {unat s1..<unat e1} \<subseteq> cells bmp \<and> {unat s2..<unat e2} \<subseteq> cells bmp"
    using c(2) s e b sz(2)
    by (auto simp: cells_def word_le_nat_alt word_less_nat_alt split: if_splits)
  then show "mm_type bmp = BIOS_MAP_FREE" "s1 \<le> e1" "s2 \<le> e2" "a \<le> s1"
    "{unat s1..<unat e1} \<subseteq> cells bmp" "{unat s2..<unat e2} \<subseteq> cells bmp" by blast+
qed

section \<open>The clusters\<close>

definition cluster_cells :: "(u64 \<times> u64) list \<Rightarrow> nat set" where
  "cluster_cells cl = (\<Union>(s, n) \<in> set cl. {unat s..<unat s + unat n})"

lemma cluster_cells_append: "cluster_cells (xs @ ys) = cluster_cells xs \<union> cluster_cells ys"
  by (simp add: cluster_cells_def)

lemma store_seg_cases:
  assumes "s \<le> e" "store_seg s e cl = Ret cl'"
  shows "cl' = cl \<or> cl' = cl @ [(s, e - s)] \<and> 4096 \<le> e - s"
    "cluster_cells cl' \<subseteq> cluster_cells cl \<union> {unat s..<unat e}"
proof -
  show c: "cl' = cl \<or> cl' = cl @ [(s, e - s)] \<and> 4096 \<le> e - s"
    using assms(2) by (auto simp: store_seg_def split: if_splits)
  have "cluster_cells [(s, e - s)] = {unat s..<unat e}"
    using assms(1) by (simp add: cluster_cells_def unat_minus_small word_le_nat_alt)
  with c show "cluster_cells cl' \<subseteq> cluster_cells cl \<union> {unat s..<unat e}"
    by (auto simp: cluster_cells_append)
qed

text \<open>Reading a region that was encoded.\<close>

lemma dec_enc_region: "dec_region (enc_region r) = r"
  by (simp add: dec_region_def enc_region_def bytes_at_def)

fun regions_at :: "u8 list \<Rightarrow> nat \<Rightarrow> region list \<Rightarrow> bool" where
  "regions_at v p [] \<longleftrightarrow> True"
| "regions_at v p (r # rs) \<longleftrightarrow> obj_bytes v p 20 = Ret (enc_region r) \<and> regions_at v (p + 20) rs"

lemma regions_at_bytes:
  "p + 20 * length rs \<le> length v \<Longrightarrow> bytes_at p (20 * length rs) v = concat (map enc_region rs) \<Longrightarrow> regions_at v p rs"
proof (induction rs arbitrary: p)
  case (Cons r rs)
  let ?b = "bytes_at p (20 * length (r # rs)) v"
  have b: "?b = enc_region r @ concat (map enc_region rs)" using Cons.prems(2) by simp
  have "bytes_at p 20 v = take 20 ?b" "bytes_at (p + 20) (20 * length rs) v = drop 20 ?b"
    by (simp_all add: bytes_at_def min_def drop_take add.commute)
  then show ?case
    using Cons.IH [of "p + 20"] Cons.prems(1) b by (simp add: obj_bytes_def)
qed simp

text \<open>The clusters made from a list of regions in memory; the loop stops at the end mark.\<close>

lemma seg_loop_step:
  assumes "obj_bytes v p 20 = Ret (enc_region r)" "proper r" "seg_loop v a base p cl ae = Ret (cl', ae')"
  shows "\<exists>cl1 ae1. seg_loop v a base (p + 20) cl1 ae1 = Ret (cl', ae')
    \<and> cluster_cells cl1 \<subseteq> cluster_cells cl \<union> covered BIOS_MAP_FREE [r]
    \<and> (list_all (\<lambda>(s, n). a \<le> s \<and> 4096 \<le> n) cl \<longrightarrow> list_all (\<lambda>(s, n). a \<le> s \<and> 4096 \<le> n) cl1)"
proof (cases "segments a base r")
  case None
  with assms show ?thesis by (auto simp: seg_loop.simps [of v a base p] dec_enc_region proper_def)
next
  case (Some t)
  obtain s1 e1 s2 e2 where t: "t = (s1, e1, s2, e2)" by (cases t) auto
  note b = segment_bounds [OF assms(2) Some [unfolded t]]
  obtain cl0 cl1 where c: "store_seg s1 e1 cl = Ret cl0" "store_seg s2 e2 cl0 = Ret cl1"
    "seg_loop v a base (p + 20) cl1 (max (max ae e1) e2) = Ret (cl', ae')"
    using assms Some t
    by (auto simp: seg_loop.simps [of v a base p] dec_enc_region proper_def obind_eq_Ret)
  note q1 = store_seg_cases [OF b(2) c(1)] and q2 = store_seg_cases [OF b(3) c(2)]
  have "cells r \<subseteq> covered BIOS_MAP_FREE [r]" using b(1) by (auto simp: covered_def)
  then have "cluster_cells cl1 \<subseteq> cluster_cells cl \<union> covered BIOS_MAP_FREE [r]"
    using q1(2) q2(2) b(5,6) by blast
  moreover have "4096 \<le> e2 - s2 \<longrightarrow> a \<le> s2"
    using Some t b(4) by (auto simp: segments_def Let_def split: if_splits)
  ultimately show ?thesis
    using c(3) q1(1) q2(1) b(4) by (intro exI [of _ cl1] exI conjI) auto
qed

lemma covered_Nil: "covered t [] = {}"
  by (simp add: covered_def)

lemma covered_Cons: "covered t (r # rs) = covered t [r] \<union> covered t rs"
  by (auto simp: covered_def)

lemma seg_loop_cells:
  assumes "regions_at v p (rs @ [e])" "mm_type e = BIOS_MAP_END" "list_all proper rs"
    and "seg_loop v a base p cl ae = Ret (cl', ae')"
  shows "cluster_cells cl' \<subseteq> cluster_cells cl \<union> covered BIOS_MAP_FREE rs
    \<and> (list_all (\<lambda>(s, n). a \<le> s \<and> 4096 \<le> n) cl \<longrightarrow> list_all (\<lambda>(s, n). a \<le> s \<and> 4096 \<le> n) cl')"
  using assms
proof (induction rs arbitrary: p cl ae)
  case Nil
  then show ?case by (simp add: seg_loop.simps [of v] dec_enc_region)
next
  case (Cons r rs)
  obtain cl1 ae1 where 1: "seg_loop v a base (p + 20) cl1 ae1 = Ret (cl', ae')"
    "cluster_cells cl1 \<subseteq> cluster_cells cl \<union> covered BIOS_MAP_FREE [r]"
    "list_all (\<lambda>(s, n). a \<le> s \<and> 4096 \<le> n) cl \<longrightarrow> list_all (\<lambda>(s, n). a \<le> s \<and> 4096 \<le> n) cl1"
    using seg_loop_step [of v p r a base cl ae cl' ae'] Cons.prems by auto
  then show ?case
    using Cons.IH [OF _ _ _ 1(1)] Cons.prems covered_Cons [of BIOS_MAP_FREE r rs] by auto
qed

text \<open>The loop ends; with at most two segments for every free region the array is large enough.\<close>

definition free_count :: "region list \<Rightarrow> nat" where
  "free_count rs = length (filter (\<lambda>r. mm_type r = BIOS_MAP_FREE) rs)"

lemma store_seg_returns: "length cl < VM_PHYSSEG_MAX \<Longrightarrow> \<exists>cl'. store_seg s e cl = Ret cl' \<and> length cl' \<le> Suc (length cl)"
  by (simp add: store_seg_def)

lemma seg_loop_returns:
  assumes "regions_at v p (rs @ [e])" "mm_type e = BIOS_MAP_END" "list_all (\<lambda>r. mm_type r \<noteq> BIOS_MAP_END) rs"
    and "length cl + 2 * free_count rs \<le> VM_PHYSSEG_MAX"
  shows "\<exists>r. seg_loop v a base p cl ae = Ret r"
  using assms
proof (induction rs arbitrary: p cl ae)
  case Nil
  then show ?case by (simp add: seg_loop.simps [of v] dec_enc_region)
next
  case (Cons r rs)
  note st = seg_loop.simps [of v a base p cl ae]
  show ?case
  proof (cases "segments a base r")
    case None
    have "length cl + 2 * free_count rs \<le> VM_PHYSSEG_MAX" using Cons.prems(4) by (simp add: free_count_def split: if_splits)
    with None show ?thesis using Cons.IH [of "p + 20" cl ae] Cons.prems by (simp add: st dec_enc_region)
  next
    case (Some t)
    obtain s1 e1 s2 e2 where t: "t = (s1, e1, s2, e2)" by (cases t) auto
    have "mm_type r = BIOS_MAP_FREE" using Some by (auto simp: segments_def split: if_splits)
    then have l: "length cl + 2 + 2 * free_count rs \<le> VM_PHYSSEG_MAX" using Cons.prems(4) by (simp add: free_count_def)
    then obtain cl0 where 0: "store_seg s1 e1 cl = Ret cl0" "length cl0 \<le> Suc (length cl)"
      using store_seg_returns [of cl s1 e1] by auto
    with l obtain cl1 where 1: "store_seg s2 e2 cl0 = Ret cl1" "length cl1 \<le> Suc (length cl0)"
      using store_seg_returns [of cl0 s2 e2] by auto
    with 0 l Some t show ?thesis
      using Cons.IH [of "p + 20" cl1 "max (max ae e1) e2"] Cons.prems by (simp add: st dec_enc_region)
  qed
qed

section \<open>From the firmware to the kernel\<close>

lemma mem_pass_live:
  "mem_pass mm = Ret rs \<Longrightarrow> \<exists>e. rs = live mm @ [e] \<and> mm_type e = BIOS_MAP_END"
  by (induction mm arbitrary: rs) (auto simp: live_def obind_eq_Ret split: if_splits)

lemma live_not_END: "list_all (\<lambda>r. mm_type r \<noteq> BIOS_MAP_END) (live mm)"
  by (auto simp: live_def list_all_iff dest: set_takeWhileD)


definition ds0 :: "efi_md list" where
  "ds0 = [\<lparr>md_type = 7, md_start = 0x100000, md_pages = 0x1000\<rparr>]"

definition mm0 :: "region list" where
  "mm0 = replicate 2 \<lparr>mm_addr = 0, mm_size = 0, mm_type = BIOS_MAP_END\<rparr>"

definition st1 :: bstate where
  "st1 = st0\<lparr>memmap := [\<lparr>mm_addr = 0x100000, mm_size = 0x1000000, mm_type = BIOS_MAP_FREE\<rparr>,
     \<lparr>mm_addr = 0, mm_size = 0, mm_type = BIOS_MAP_END\<rparr>]\<rparr>"


section \<open>Too many regions\<close>

text \<open>A free region above 16MB of more than 1MB is one segment.\<close>

definition big_region :: "region \<Rightarrow> bool" where
  "big_region r \<longleftrightarrow> proper r \<and> mm_type r = BIOS_MAP_FREE \<and> MB16 < mm_addr r \<and> 0x102000 \<le> mm_size r"

lemma big_region_segment:
  assumes "big_region r" "a \<le> MB16" "unat base < 2 ^ 24"
  shows "\<exists>s e. segments a base r = Some (s, e, 0, 0) \<and> 4096 \<le> e - s"
proof -
  define s e where "s = round_page (mm_addr r)" and "e = trunc_page (mm_addr r + mm_size r)"
  have r: "proper r" "mm_type r = BIOS_MAP_FREE" "unat MB16 < lo r" "0x102000 \<le> unat (mm_size r)"
    using assms(1) by (simp_all add: big_region_def word_less_nat_alt word_le_nat_alt lo_def)
  have "4096 \<le> unat (mm_size r)" using r(4) by simp
  note b = page_bounds [OF r(1) this, folded s_def e_def]
  have "hi r = lo r + unat (mm_size r)" by (simp add: hi_def lo_def)
  then have "unat s + 1024 * 1024 \<le> unat e" using b r(4) by linarith
  moreover from b(3) have "unat (e - s) = unat e - unat s" by (simp add: unat_minus_small word_le_nat_alt)
  ultimately have es: "1024 * 1024 \<le> e - s" by (simp add: word_le_nat_alt)
  have s: "MB16 < s" "a \<le> s" "IOM_BEGIN \<le> s"
    using b(1) r(3) assms(2) by (simp_all add: word_less_nat_alt word_le_nat_alt MB16_def IOM_BEGIN_def)
  have "unat (scast base :: u64) = unat base" using assms(3) by (intro unat_scast_small) simp
  then have "(scast base :: u64) < s"
    using assms(3) s(1) by (simp add: word_less_nat_alt MB16_def)
  then have "crop (scast base) s (crop IOM_BEGIN s e) = e" using s by (auto simp: crop_def)
  moreover have "\<not> mm_size r < 4096" using r(4) by (simp add: word_less_nat_alt)
  moreover have f: "(s < a) = False" "(s < MB16) = False" "(e - s < 1024 * 1024) = False" using s es by auto
  ultimately have "segments a base r = Some (s, e, 0, 0)"
    using r(2) unfolding segments_def by (simp only: s_def [symmetric] e_def [symmetric] Let_def f simp_thms if_False if_True)
  moreover have "4096 \<le> e - s" using es by (rule order_trans [rotated]) simp
  ultimately show ?thesis by blast
qed

text \<open>
  C38: the kernel does not check the number of its memory segments. With a map of more than 16 free regions
  above 16MB, each larger than 1MB, the loop of init_x86_64 stores behind the end of mem_clusters.
\<close>

theorem mem_clusters_overflow:
  assumes "regions_at v p rs" "list_all big_region rs" "a \<le> MB16" "unat base < 2 ^ 24"
    and "length cl \<le> VM_PHYSSEG_MAX" "VM_PHYSSEG_MAX < length cl + length rs"
  shows "seg_loop v a base p cl ae = Undef"
  using assms(1,2,5,6)
proof (induction rs arbitrary: p cl ae)
  case (Cons r rs)
  obtain s e where s: "segments a base r = Some (s, e, 0, 0)" "4096 \<le> e - s"
    using big_region_segment [OF _ assms(3,4), of r] Cons.prems(2) by auto
  have t: "mm_type r \<noteq> BIOS_MAP_END" using Cons.prems(2) by (simp add: big_region_def BIOS_MAP_FREE_def BIOS_MAP_END_def)
  show ?case
  proof (cases "length cl < VM_PHYSSEG_MAX")
    case True
    then show ?thesis
      using Cons.IH [of "p + 20" "cl @ [(s, e - s)]" "max (max ae e) 0"] Cons.prems s t
      by (simp add: seg_loop.simps [of v a base p] dec_enc_region store_seg_def)
  next
    case False
    then show ?thesis
      using Cons.prems s t by (simp add: seg_loop.simps [of v a base p] dec_enc_region store_seg_def)
  qed
qed simp

definition many0 :: "region list" where
  "many0 = replicate 17 \<lparr>mm_addr = 0x2000000, mm_size = 0x200000, mm_type = BIOS_MAP_FREE\<rparr>"

theorem mem_clusters_overflow_witness:
  "seg_loop (concat (map enc_region many0)) 0x10000 640 0 [] 0 = Undef"
proof (rule mem_clusters_overflow)
  show "regions_at (concat (map enc_region many0)) 0 many0"
    by (rule regions_at_bytes) (simp_all add: bytes_at_def)
  show "list_all big_region many0"
    by (simp add: many0_def list_all_length big_region_def proper_def lo_def hi_def MB16_def BIOS_MAP_FREE_def BIOS_MAP_END_def)
qed (simp_all add: MB16_def VM_PHYSSEG_MAX_def many0_def)

end
