(* ===== verification/Libsa_Alloc.thy ===== *)
theory Libsa_Alloc
  imports BSD_Prelude
begin

text \<open>
  The allocator of the boot program, \<open>sys/lib/libsa/alloc.c\<close> with best fit, and the heap of the EFI program
  (\<open>heap.h\<close>, \<open>efi_heap_init\<close>). Addresses are numbers; the header word of a block is \<open>h_size\<close> at the address
  of the block, and the list through the freed blocks is \<open>h_free\<close>. The locale \<open>allocator\<close> is the contract its
  users rely on: what is allocated is large enough and apart from everything in use. Theorems: the contract
  holds in every state that is reached by allocating and freeing; the best fit is taken; and without a limit,
  as in the EFI program, the allocator hands out memory behind the pages it was given.
\<close>

section \<open>Operations\<close>

definition ALIGN :: "nat \<Rightarrow> nat" where "ALIGN p = (p + 7) div 8 * 8"

text \<open>\<open>h_top\<close> is \<open>None\<close> until the first call (\<open>top == NULL\<close>).\<close>

record heap =
  h_top :: "nat option"
  h_size :: "nat \<Rightarrow> nat"
  h_free :: "nat list"

definition heap_init :: "nat \<Rightarrow> heap \<Rightarrow> nat" where
  "heap_init start h = (case h_top h of None \<Rightarrow> start | Some t \<Rightarrow> t)"

text \<open>The scan of the free list: the index of a block of the exact size, or the best one and its size.\<close>

datatype fit = Exact nat | Best "nat option" nat

fun scan_loop :: "(nat \<Rightarrow> nat) \<Rightarrow> nat \<Rightarrow> nat \<Rightarrow> nat list \<Rightarrow> nat option \<Rightarrow> nat \<Rightarrow> fit" where
  "scan_loop sz n i [] bestf bestsize = Best bestf bestsize"
| "scan_loop sz n i (f # fs) bestf bestsize =
     (if sz f \<ge> n then
        (if sz f = n then Exact i
         else if sz f < bestsize then scan_loop sz n (i + 1) fs (Some i) (sz f)
         else scan_loop sz n (i + 1) fs bestf bestsize)
      else scan_loop sz n (i + 1) fs bestf bestsize)"

text \<open>Block \<open>i\<close> of the list is removed from it; the pointer behind its header is returned.\<close>

definition take_block :: "nat \<Rightarrow> heap \<Rightarrow> (nat \<times> heap) outcome" where
  "take_block i h = obind (aget (h_free h) i) (\<lambda>f.
     Ret (f + ALIGN 4, h\<lparr>h_free := take i (h_free h) @ drop (Suc i) (h_free h)\<rparr>))"

definition alloc :: "nat option \<Rightarrow> nat \<Rightarrow> u32 \<Rightarrow> heap \<Rightarrow> (nat \<times> heap) outcome" where
  "alloc limit start n h =
     (let t = heap_init start h; h = h\<lparr>h_top := Some t\<rparr> in
      case scan_loop (h_size h) (unat n) 0 (h_free h) None 0xffffffff of
        Exact i \<Rightarrow> take_block i h
      | Best bestf bestsize \<Rightarrow>
          if bestsize = 0xffffffff then
            (let m = (if unat n < ALIGN 8 then ALIGN 8 else unat n); t' = t + (ALIGN 4 + ALIGN m) in
             if (case limit of None \<Rightarrow> False | Some l \<Rightarrow> t' > l) then Exit 1
             else Ret (t + ALIGN 4, h\<lparr>h_top := Some t', h_size := (h_size h)(t := ALIGN m mod 2 ^ 32)\<rparr>))
          else (case bestf of None \<Rightarrow> Undef | Some i \<Rightarrow> take_block i h))"

definition free :: "nat \<Rightarrow> heap \<Rightarrow> heap" where
  "free ptr h = h\<lparr>h_free := (ptr - ALIGN 4) # h_free h\<rparr>"

section \<open>The contract\<close>

text \<open>Blocks in use are given by address and number of bytes.\<close>

fun al_list :: "(u32 \<Rightarrow> 's \<Rightarrow> (nat \<times> 's) outcome) \<Rightarrow> u32 list \<Rightarrow> 's \<Rightarrow> (nat list \<times> 's) outcome" where
  "al_list al [] s = Ret ([], s)"
| "al_list al (n # ns) s = obind (al n s) (\<lambda>(p, s). obind (al_list al ns s) (\<lambda>(ps, s). Ret (p # ps, s)))"

locale allocator =
  fixes al :: "u32 \<Rightarrow> 's \<Rightarrow> (nat \<times> 's) outcome"
    and fr :: "nat \<Rightarrow> 's \<Rightarrow> 's"
    and ok :: "'s \<Rightarrow> (nat \<times> nat) set \<Rightarrow> bool"
    and maxreq :: nat
  assumes al_law: "ok s B \<Longrightarrow> unat n \<le> maxreq \<Longrightarrow> al n s = Ret (p, s') \<Longrightarrow>
      \<exists>c \<ge> unat n. ok s' (insert (p, c) B) \<and> (\<forall>(q, m) \<in> B. p + c \<le> q \<or> q + m \<le> p)"
    and fr_law: "ok s B \<Longrightarrow> (p, c) \<in> B \<Longrightarrow> ok (fr p s) (B - {(p, c)})"
begin

text \<open>Several allocations: all apart from what was in use and from one another.\<close>

lemma al_list_apart:
  "ok s B \<Longrightarrow> list_all (\<lambda>n. unat n \<le> maxreq) ns \<Longrightarrow> al_list al ns s = Ret (ps, s') \<Longrightarrow>
     \<exists>cs. length cs = length ns \<and> list_all2 (\<lambda>n c. unat n \<le> c) ns cs \<and> ok s' (B \<union> set (zip ps cs))
       \<and> length ps = length ns
       \<and> sorted_wrt (\<lambda>(p, c) (q, m). p + c \<le> q \<or> q + m \<le> p) (zip ps cs)
       \<and> (\<forall>(p, c) \<in> set (zip ps cs). \<forall>(q, m) \<in> B. p + c \<le> q \<or> q + m \<le> p)"
proof (induction ns arbitrary: s B ps)
  case (Cons n ns)
  then obtain p s1 ps1 where 1: "al n s = Ret (p, s1)" "al_list al ns s1 = Ret (ps1, s')" "ps = p # ps1"
    by (auto simp: outcome_simps)
  obtain c where c: "unat n \<le> c" "ok s1 (insert (p, c) B)" "\<forall>(q, m) \<in> B. p + c \<le> q \<or> q + m \<le> p"
    using al_law [OF Cons.prems(1) _ 1(1)] Cons.prems(2) by auto
  obtain cs where cs: "length cs = length ns" "list_all2 (\<lambda>n c. unat n \<le> c) ns cs"
    "ok s' (insert (p, c) B \<union> set (zip ps1 cs))" "length ps1 = length ns"
    "sorted_wrt (\<lambda>(p, c) (q, m). p + c \<le> q \<or> q + m \<le> p) (zip ps1 cs)"
    "\<forall>(p', c') \<in> set (zip ps1 cs). \<forall>(q, m) \<in> insert (p, c) B. p' + c' \<le> q \<or> q + m \<le> p'"
    using Cons.IH [OF c(2) _ 1(2)] Cons.prems(2) by auto
  show ?case
    by (rule exI [of _ "c # cs"]) (use 1 c cs in \<open>auto simp: insert_commute\<close>)
qed simp

end

section \<open>The heap keeps the contract\<close>

definition capacity :: "heap \<Rightarrow> nat \<Rightarrow> nat" where "capacity h f = f + 8 + h_size h f"

text \<open>
  All blocks, in use or free, lie between start and top and apart from one another; a block in use is given
  by the address behind its header and its size.
\<close>

definition heap_ok :: "nat \<Rightarrow> heap \<Rightarrow> (nat \<times> nat) set \<Rightarrow> bool" where
  "heap_ok start h B \<longleftrightarrow> start \<le> heap_init start h \<and>
     (\<exists>U. B = (\<lambda>f. (f + 8, h_size h f)) ` U \<and> U \<inter> set (h_free h) = {} \<and> distinct (h_free h)
       \<and> (\<forall>f \<in> U \<union> set (h_free h). start \<le> f \<and> capacity h f \<le> heap_init start h \<and> h_size h f < 2 ^ 32 - 1)
       \<and> (\<forall>f \<in> U \<union> set (h_free h). \<forall>g \<in> U \<union> set (h_free h). f \<noteq> g \<longrightarrow> capacity h f \<le> g \<or> capacity h g \<le> f))"

lemma ALIGN_4 [simp]: "ALIGN 4 = 8" by (simp add: ALIGN_def)
lemma ALIGN_8 [simp]: "ALIGN 8 = 8" by (simp add: ALIGN_def)

lemma ALIGN_ge: "n \<le> ALIGN n"
  unfolding ALIGN_def by linarith

lemma scan_Exact: "scan_loop sz n i fs bf bs = Exact j \<Longrightarrow> i \<le> j \<and> j - i < length fs \<and> sz (fs ! (j - i)) = n"
  by (induction sz n i fs bf bs rule: scan_loop.induct) (auto simp: nth_Cons' split: if_splits)

text \<open>The best fit: large enough, and no larger than any other that is.\<close>

lemma scan_Best:
  "scan_loop sz n i fs bf b = Best bf' b' \<Longrightarrow>
     bf' = bf \<and> b' = b \<and> (\<forall>f \<in> set fs. n \<le> sz f \<longrightarrow> b \<le> sz f)
   \<or> (\<exists>j. bf' = Some j \<and> i \<le> j \<and> j - i < length fs \<and> sz (fs ! (j - i)) = b' \<and> n < b' \<and> b' < b
       \<and> (\<forall>f \<in> set fs. n \<le> sz f \<longrightarrow> b' \<le> sz f))"
proof (induction sz n i fs bf b rule: scan_loop.induct)
  case (2 sz n i f fs bf b)
  have sh: "i \<le> j" "j - i < length (f # fs)" "(f # fs) ! (j - i) = fs ! (j - (i + 1))"
    if "i + 1 \<le> j" "j - (i + 1) < length fs" for j
    using that by (auto simp: nth_Cons')
  consider "sz f < n" | "n < sz f" "sz f < b" | "n < sz f" "b \<le> sz f"
    using 2(4) by (cases "sz f < n"; cases "sz f = n"; cases "sz f < b") auto
  then show ?case
  proof cases
    case 1
    then show ?thesis using "2.IH"(3) "2.prems" sh by auto
  next
    case 2
    then show ?thesis using "2.IH"(1) "2.prems" sh by auto
  next
    case 3
    then show ?thesis using "2.IH"(2) "2.prems" sh by auto
  qed
qed simp

lemma take_block_ok:
  assumes ok: "heap_ok start h B" and i: "i < length (h_free h)" and t: "take_block i h = Ret (p, h')"
  shows "\<exists>c. c = h_size h (h_free h ! i) \<and> heap_ok start h' (insert (p, c) B) \<and> (\<forall>(q, m) \<in> B. p + c \<le> q \<or> q + m \<le> p)"
proof -
  let ?f = "h_free h ! i"
  obtain U where U: "B = (\<lambda>f. (f + 8, h_size h f)) ` U" "U \<inter> set (h_free h) = {}" "distinct (h_free h)"
    and b: "\<forall>f \<in> U \<union> set (h_free h). start \<le> f \<and> capacity h f \<le> heap_init start h \<and> h_size h f < 2 ^ 32 - 1"
    and d: "\<forall>f \<in> U \<union> set (h_free h). \<forall>g \<in> U \<union> set (h_free h). f \<noteq> g \<longrightarrow> capacity h f \<le> g \<or> capacity h g \<le> f"
    using ok unfolding heap_ok_def by blast
  have st: "start \<le> heap_init start h" using ok unfolding heap_ok_def by blast
  have p: "p = ?f + 8" "h' = h\<lparr>h_free := take i (h_free h) @ drop (Suc i) (h_free h)\<rparr>"
    using t i by (auto simp: take_block_def aget_def)
  obtain xs ys where fr: "h_free h = xs @ ?f # ys" "h_free h' = xs @ ys"
    using id_take_nth_drop [OF i] by (simp add: p(2))
  have m: "?f \<in> set (h_free h)" using i by simp
  have s: "distinct (h_free h')" "set (h_free h) = insert ?f (set (h_free h'))" "?f \<notin> set (h_free h')"
    using U(3) arg_cong [OF fr(1), of set] arg_cong [OF fr(1), of distinct] by (auto simp: fr(2))
  have same: "h_size h' = h_size h" "heap_init start h' = heap_init start h" "capacity h' = capacity h"
    by (simp_all add: p(2) heap_init_def capacity_def fun_eq_iff)
  have "heap_ok start h' (insert (p, h_size h ?f) B)"
    unfolding heap_ok_def same
  proof (intro exI conjI)
    show "insert (p, h_size h ?f) B = (\<lambda>f. (f + 8, h_size h f)) ` insert ?f U" by (simp add: U(1) p(1))
    show "insert ?f U \<inter> set (h_free h') = {}" using U(2) s by auto
    have A: "insert ?f U \<union> set (h_free h') = U \<union> set (h_free h)" using s(2) by auto
    show "\<forall>f \<in> insert ?f U \<union> set (h_free h'). start \<le> f \<and> capacity h f \<le> heap_init start h \<and> h_size h f < 2 ^ 32 - 1"
      unfolding A by (fact b)
    show "\<forall>f \<in> insert ?f U \<union> set (h_free h'). \<forall>g \<in> insert ?f U \<union> set (h_free h'). f \<noteq> g \<longrightarrow> capacity h f \<le> g \<or> capacity h g \<le> f"
      unfolding A by (fact d)
  qed (fact s(1) st)+
  moreover have "p + h_size h ?f \<le> g + 8 \<or> g + 8 + h_size h g \<le> p" if "g \<in> U" for g
  proof -
    have "?f \<noteq> g" using m U(2) that by auto
    then have "capacity h ?f \<le> g \<or> capacity h g \<le> ?f" using d m that by blast
    then show ?thesis by (auto simp: capacity_def p(1))
  qed
  then have "\<forall>(q, c) \<in> B. p + h_size h ?f \<le> q \<or> q + c \<le> p" by (auto simp: U(1))
  ultimately show ?thesis by blast
qed

lemma new_block_ok:
  assumes ok: "heap_ok start h B" and t: "t = heap_init start h" and m: "m < 2 ^ 32 - 1"
    and h': "h' = h\<lparr>h_top := Some (t + (8 + m)), h_size := (h_size h)(t := m)\<rparr>"
  shows "heap_ok start h' (insert (t + 8, m) B) \<and> (\<forall>(q, c) \<in> B. t + 8 + m \<le> q \<or> q + c \<le> t + 8)"
proof -
  obtain U where U: "B = (\<lambda>f. (f + 8, h_size h f)) ` U" "U \<inter> set (h_free h) = {}" "distinct (h_free h)"
    and b: "\<forall>f \<in> U \<union> set (h_free h). start \<le> f \<and> capacity h f \<le> heap_init start h \<and> h_size h f < 2 ^ 32 - 1"
    and d: "\<forall>f \<in> U \<union> set (h_free h). \<forall>g \<in> U \<union> set (h_free h). f \<noteq> g \<longrightarrow> capacity h f \<le> g \<or> capacity h g \<le> f"
    using ok unfolding heap_ok_def by blast
  let ?A = "U \<union> set (h_free h)"
  have below: "f + 8 + h_size h f \<le> t" if "f \<in> ?A" for f
    using b that by (auto simp: capacity_def t)
  then have "f < t" if "f \<in> ?A" for f using that by fastforce
  then have new: "t \<notin> ?A" by blast
  then have sz: "h_size h' f = h_size h f" "capacity h' f = capacity h f" if "f \<in> ?A" for f
    using that by (auto simp: h' capacity_def)
  have t': "h_size h' t = m" "capacity h' t = t + 8 + m" "heap_init start h' = t + 8 + m" "h_free h' = h_free h"
    by (simp_all add: h' capacity_def heap_init_def)
  have st: "start \<le> t" using ok unfolding heap_ok_def t by blast
  have b': "\<forall>f \<in> ?A. start \<le> f \<and> capacity h f \<le> t + 8 + m \<and> h_size h f < 2 ^ 32 - 1"
    using b unfolding t by (meson trans_le_add1)
  have "heap_ok start h' (insert (t + 8, m) B)"
    unfolding heap_ok_def t'
  proof (intro exI conjI)
    show "insert (t + 8, m) B = (\<lambda>f. (f + 8, h_size h' f)) ` insert t U" using sz(1) by (auto simp: U(1) t' image_iff)
    show "insert t U \<inter> set (h_free h) = {}" using U(2) new by auto
    show "\<forall>f \<in> insert t U \<union> set (h_free h). start \<le> f \<and> capacity h' f \<le> t + 8 + m \<and> h_size h' f < 2 ^ 32 - 1"
      using b' sz t' m st by auto
    show "\<forall>f \<in> insert t U \<union> set (h_free h). \<forall>g \<in> insert t U \<union> set (h_free h). f \<noteq> g \<longrightarrow> capacity h' f \<le> g \<or> capacity h' g \<le> f"
      using d below sz t' by (auto simp: capacity_def)
  qed (use U(3) st in auto)
  moreover have "\<forall>(q, c) \<in> B. t + 8 + m \<le> q \<or> q + c \<le> t + 8"
    using below by (fastforce simp: U(1))
  ultimately show ?thesis by blast
qed

text \<open>Freeing what is in use.\<close>

lemma free_ok:
  assumes ok: "heap_ok start h B" and p: "(p, c) \<in> B"
  shows "heap_ok start (free p h) (B - {(p, c)})"
proof -
  obtain U where U: "B = (\<lambda>f. (f + 8, h_size h f)) ` U" "U \<inter> set (h_free h) = {}" "distinct (h_free h)"
    and b: "\<forall>f \<in> U \<union> set (h_free h). start \<le> f \<and> capacity h f \<le> heap_init start h \<and> h_size h f < 2 ^ 32 - 1"
    and d: "\<forall>f \<in> U \<union> set (h_free h). \<forall>g \<in> U \<union> set (h_free h). f \<noteq> g \<longrightarrow> capacity h f \<le> g \<or> capacity h g \<le> f"
    using ok unfolding heap_ok_def by blast
  obtain f where f: "f \<in> U" "p = f + 8" "c = h_size h f" using p U(1) by auto
  have h': "h_free (free p h) = f # h_free h" "h_size (free p h) = h_size h" "heap_init start (free p h) = heap_init start h"
      "capacity (free p h) = capacity h"
    by (simp_all add: free_def f heap_init_def capacity_def fun_eq_iff)
  have A: "(U - {f}) \<union> set (f # h_free h) = U \<union> set (h_free h)" using f(1) by auto
  show ?thesis
    unfolding heap_ok_def h'
  proof (intro exI conjI)
    show "start \<le> heap_init start h" using ok unfolding heap_ok_def by blast
    show "B - {(p, c)} = (\<lambda>f. (f + 8, h_size h f)) ` (U - {f})" using f by (auto simp: U(1))
    show "(U - {f}) \<inter> set (f # h_free h) = {}" "distinct (f # h_free h)" using U(2,3) f(1) by auto
    show "\<forall>f' \<in> (U - {f}) \<union> set (f # h_free h). start \<le> f' \<and> capacity h f' \<le> heap_init start h \<and> h_size h f' < 2 ^ 32 - 1"
      unfolding A by (fact b)
    show "\<forall>f' \<in> (U - {f}) \<union> set (f # h_free h). \<forall>g \<in> (U - {f}) \<union> set (f # h_free h). f' \<noteq> g \<longrightarrow> capacity h f' \<le> g \<or> capacity h g \<le> f'"
      unfolding A by (fact d)
  qed
qed

text \<open>The cases of an allocation.\<close>

lemma heap_ok_top: "heap_ok start (h\<lparr>h_top := Some (heap_init start h)\<rparr>) B = heap_ok start h B"
  by (simp add: heap_ok_def heap_init_def capacity_def cong: option.case_cong)

lemma alloc_cases:
  assumes ok: "heap_ok start h B" and al: "alloc limit start n h = Ret (p, h')"
  obtains (reuse) i where "i < length (h_free h)" "unat n \<le> h_size h (h_free h ! i)"
      "take_block i (h\<lparr>h_top := Some (heap_init start h)\<rparr>) = Ret (p, h')"
      "\<forall>f \<in> set (h_free h). unat n \<le> h_size h f \<longrightarrow> h_size h (h_free h ! i) \<le> h_size h f"
  | (fresh) m where "m = ALIGN (max 8 (unat n))" "p = heap_init start h + 8"
      "h' = h\<lparr>h_top := Some (heap_init start h + (8 + m)), h_size := (h_size h)(heap_init start h := m mod 2 ^ 32)\<rparr>"
      "\<forall>f \<in> set (h_free h). h_size h f < unat n" "\<And>l. limit = Some l \<Longrightarrow> heap_init start h + (8 + m) \<le> l"
proof -
  let ?h = "h\<lparr>h_top := Some (heap_init start h)\<rparr>"
  have small: "\<forall>f \<in> set (h_free h). h_size h f < 0xffffffff" using ok unfolding heap_ok_def by auto
  show thesis
  proof (cases "scan_loop (h_size h) (unat n) 0 (h_free h) None 0xffffffff")
    case (Exact i)
    then show thesis
      using scan_Exact [OF Exact] al by (intro reuse [of i]) (auto simp: alloc_def Let_def)
  next
    case (Best bf b)
    show thesis
    proof (cases "b = 0xffffffff")
      case True
      then have "\<forall>f \<in> set (h_free h). h_size h f < unat n"
        using scan_Best [OF Best] small by (force simp: not_le)
      then show thesis
        using al Best True by (intro fresh) (auto simp: alloc_def Let_def max_def split: if_splits option.splits)
    next
      case False
      then obtain j where "bf = Some j" "j < length (h_free h)" "h_size h (h_free h ! j) = b" "unat n < b"
          "\<forall>f \<in> set (h_free h). unat n \<le> h_size h f \<longrightarrow> b \<le> h_size h f"
        using scan_Best [OF Best] by auto
      then show thesis
        using al Best False by (intro reuse [of j]) (auto simp: alloc_def Let_def)
    qed
  qed
qed

lemma ALIGN_lt: "n \<le> 2 ^ 32 - 16 \<Longrightarrow> ALIGN n < 2 ^ 32 - 1"
  using div_times_less_eq_dividend [of "n + 7" 8] by (simp add: ALIGN_def)

lemma heap_ok_start: "heap_ok start h B \<Longrightarrow> (p, c) \<in> B \<Longrightarrow> start + 8 \<le> p"
  unfolding heap_ok_def by (elim conjE exE) (auto simp del: One_nat_def)

lemma alloc_ok:
  assumes ok: "heap_ok start h B" and n: "unat n \<le> 2 ^ 32 - 16" and al: "alloc limit start n h = Ret (p, h')"
  shows "unat n \<le> h_size h' (p - 8)" "heap_ok start h' (insert (p, h_size h' (p - 8)) B)"
    "\<forall>(q, m) \<in> B. p + h_size h' (p - 8) \<le> q \<or> q + m \<le> p"
proof -
  have "unat n \<le> h_size h' (p - 8) \<and> heap_ok start h' (insert (p, h_size h' (p - 8)) B)
    \<and> (\<forall>(q, m) \<in> B. p + h_size h' (p - 8) \<le> q \<or> q + m \<le> p)"
  proof (cases rule: alloc_cases [OF ok al])
    case (1 i)
    let ?h = "h\<lparr>h_top := Some (heap_init start h)\<rparr>"
    have t: "p - 8 = h_free h ! i" "h_size h' = h_size h" using 1(1,3) by (auto simp: take_block_def aget_def)
    from ok have "heap_ok start ?h B" by (simp only: heap_ok_top)
    from take_block_ok [OF this _ 1(3)] 1(1,2) t show ?thesis by auto
  next
    case (2 m)
    have "max 8 (unat n) \<le> 2 ^ 32 - 16" using n by simp
    then have m: "m < 2 ^ 32 - 1" unfolding 2(1) by (rule ALIGN_lt)
    then have mm: "m mod 2 ^ 32 = m" by (intro mod_less) simp
    have "unat n \<le> m" using ALIGN_ge [of "max 8 (unat n)"] 2(1) by simp
    moreover have "p - 8 = heap_init start h" "h_size h' (p - 8) = m" using 2(2,3) mm by simp_all
    ultimately show ?thesis
      using new_block_ok [OF ok refl m, of h'] 2(2,3) mm by simp
  qed
  then show "unat n \<le> h_size h' (p - 8)" "heap_ok start h' (insert (p, h_size h' (p - 8)) B)"
    "\<forall>(q, m) \<in> B. p + h_size h' (p - 8) \<le> q \<or> q + m \<le> p" by blast+
qed

interpretation libsa: allocator "alloc limit start" free "heap_ok start" "2 ^ 32 - 16" for limit start
proof
  show "\<exists>c \<ge> unat n. heap_ok start s' (insert (p, c) B) \<and> (\<forall>(q, m) \<in> B. p + c \<le> q \<or> q + m \<le> p)"
    if "heap_ok start s B" "unat n \<le> 2 ^ 32 - 16" "alloc limit start n s = Ret (p, s')" for s B n p s'
    using alloc_ok [OF that] by blast
qed (rule free_ok)

section \<open>Every state that is reached\<close>

text \<open>Histories of allocations and of frees of blocks in use.\<close>

inductive reached :: "nat option \<Rightarrow> nat \<Rightarrow> heap \<Rightarrow> (nat \<times> nat) set \<Rightarrow> bool" for limit start where
  initial: "h_top h = None \<Longrightarrow> h_free h = [] \<Longrightarrow> reached limit start h {}"
| allocated: "reached limit start h B \<Longrightarrow> unat n \<le> 2 ^ 32 - 16 \<Longrightarrow> alloc limit start n h = Ret (p, h')
    \<Longrightarrow> reached limit start h' (insert (p, h_size h' (p - 8)) B)"
| freed: "reached limit start h B \<Longrightarrow> (p, c) \<in> B \<Longrightarrow> reached limit start (free p h) (B - {(p, c)})"

lemma reached_ok: "reached limit start h B \<Longrightarrow> heap_ok start h B"
proof (induction rule: reached.induct)
  case (initial h)
  then show ?case by (simp add: heap_ok_def heap_init_def)
next
  case (allocated h B n p h')
  then show ?case using alloc_ok(2) by blast
next
  case (freed h B p c)
  then show ?case by (intro libsa.fr_law)
qed

text \<open>
  C23: memory that is handed out is not in use. Whatever was allocated and freed before, the blocks that any number
  of further allocations return lie behind the header of the first block of the heap, have room for what was asked
  for, and are apart from all blocks in use and from one another.
\<close>

theorem alloc_blocks_apart:
  assumes "reached limit start h B" and "list_all (\<lambda>n. unat n \<le> 2 ^ 32 - 16) ns" and "al_list (alloc limit start) ns h = Ret (ps, h')"
  shows "\<exists>cs. length cs = length ns \<and> length ps = length ns \<and> list_all2 (\<lambda>n c. unat n \<le> c) ns cs
    \<and> sorted_wrt (\<lambda>(p, c) (q, m). p + c \<le> q \<or> q + m \<le> p) (zip ps cs)
    \<and> (\<forall>(p, c) \<in> set (zip ps cs). start + 8 \<le> p \<and> (\<forall>(q, m) \<in> B. p + c \<le> q \<or> q + m \<le> p))"
proof -
  obtain cs where cs: "length cs = length ns" "list_all2 (\<lambda>n c. unat n \<le> c) ns cs" "heap_ok start h' (B \<union> set (zip ps cs))"
      "length ps = length ns" "sorted_wrt (\<lambda>(p, c) (q, m). p + c \<le> q \<or> q + m \<le> p) (zip ps cs)"
      "\<forall>(p, c) \<in> set (zip ps cs). \<forall>(q, m) \<in> B. p + c \<le> q \<or> q + m \<le> p"
    using libsa.al_list_apart [OF reached_ok [OF assms(1)] assms(2,3)] by blast
  have "start + 8 \<le> p" if "(p, c) \<in> set (zip ps cs)" for p c
    using heap_ok_start [OF cs(3)] that by blast
  then show ?thesis using cs by (intro exI [of _ cs]) auto
qed

definition heap0 :: heap where
  "heap0 = \<lparr>h_top = None, h_size = (\<lambda>_. 0), h_free = []\<rparr>"

lemma alloc_heap0: "alloc (Some 0x90000) 0x40000 20 heap0 =
    Ret (0x40008, \<lparr>h_top = Some 0x40020, h_size = (\<lambda>_. 0)(0x40000 := 24), h_free = []\<rparr>)"
  by (simp add: alloc_def heap0_def heap_init_def Let_def ALIGN_def)

theorem alloc_blocks_apart_witness:
  "\<exists>h h1. reached (Some 0x90000) 0x40000 h {(0x40008, 24)}
     \<and> al_list (alloc (Some 0x90000) 0x40000) [3, 5] h = Ret ([0x40028, 0x40038], h1)
     \<and> (\<exists>cs :: nat list. length cs = 2 \<and> (\<forall>(p, c) \<in> set (zip [0x40028 :: nat, 0x40038] cs). 0x40008 \<le> p))"
proof -
  let ?h = "\<lparr>h_top = Some 0x40020, h_size = (\<lambda>_. 0)(0x40000 := 24), h_free = []\<rparr>"
  have "reached (Some 0x90000) 0x40000 heap0 {}" by (rule reached.initial) (simp_all add: heap0_def)
  from reached.allocated [OF this _ alloc_heap0] have r: "reached (Some 0x90000) 0x40000 ?h {(0x40008, 24)}" by simp
  obtain h1 where h1: "al_list (alloc (Some 0x90000) 0x40000) [3, 5] ?h = Ret ([0x40028, 0x40038], h1)"
    by (simp add: alloc_def heap_init_def Let_def ALIGN_def)
  have "list_all (\<lambda>n :: u32. unat n \<le> 2 ^ 32 - 16) [3, 5]" by simp
  from alloc_blocks_apart [OF r this h1] obtain cs :: "nat list" where cs: "length cs = length [3 :: u32, 5]"
      "\<forall>(p, c) \<in> set (zip [0x40028 :: nat, 0x40038] cs). 0x40000 + 8 \<le> p \<and> (\<forall>(q, m) \<in> {(0x40008, 24)}. p + c \<le> q \<or> q + m \<le> p)"
    by blast
  have "length cs = 2" using cs(1) by simp
  moreover have "\<forall>(p, c) \<in> set (zip [0x40028 :: nat, 0x40038] cs). 0x40008 \<le> p" using cs(2) by auto
  ultimately have "\<exists>cs :: nat list. length cs = 2 \<and> (\<forall>(p, c) \<in> set (zip [0x40028 :: nat, 0x40038] cs). 0x40008 \<le> p)" by blast
  with r h1 show ?thesis by blast
qed

text \<open>The smallest block that is large enough is reused.\<close>

theorem alloc_best_fit:
  assumes "reached limit start h B" and "alloc limit start n h = Ret (p, h')" and "p - 8 \<in> set (h_free h)" "f \<in> set (h_free h)" "unat n \<le> h_size h f"
  shows "h_size h (p - 8) \<le> h_size h f"
proof (cases rule: alloc_cases [OF reached_ok [OF assms(1)] assms(2)])
  case (1 i)
  then show ?thesis using assms(4,5) by (auto simp: take_block_def aget_def)
next
  case (2 m)
  then show ?thesis using assms(4,5) by (auto simp: not_le dest: bspec)
qed

section \<open>The heap of the EFI program\<close>

text \<open>
  \<open>efi_heap_init\<close>: the firmware gives \<open>heapsiz\<close> bytes at an address below 16MB, or the program panics.
\<close>

definition heapsiz :: nat where "heapsiz = 3 * 1024 * 1024"

definition efi_heap_init :: "(nat \<Rightarrow> nat \<Rightarrow> nat option) \<Rightarrow> nat outcome" where
  "efi_heap_init AllocatePages =
     (case AllocatePages 0x1000000 ((heapsiz + 4095) div 4096) of None \<Rightarrow> Exit 1 | Some heap \<Rightarrow> Ret heap)"

text \<open>
  The EFI program defines no limit: when no freed block is large enough, the allocator returns memory behind its
  last block even where that is behind the pages the firmware gave.
\<close>

theorem efi_heap_overrun:
  assumes "reached None start h B" "\<forall>f \<in> set (h_free h). h_size h f < unat n" "start + heapsiz < heap_init start h + 8 + unat n"
  shows "\<exists>p h'. alloc None start n h = Ret (p, h') \<and> start + heapsiz < p + unat n"
proof -
  have "scan_loop (h_size h) (unat n) i fs bf b = Best bf b" if "\<forall>f \<in> set fs. h_size h f < unat n" for i fs bf b
    using that by (induction fs arbitrary: i) auto
  from this [OF assms(2)] show ?thesis
    using assms(3) by (simp add: alloc_def Let_def)
qed

theorem efi_heap_overrun_witness:
  "\<exists>p h'. alloc None 0x400000 0x300000 heap0 = Ret (p, h') \<and> 0x400000 + heapsiz < p + 0x300000"
proof -
  have "reached None 0x400000 heap0 {}" by (rule reached.initial) (simp_all add: heap0_def)
  from efi_heap_overrun [where n = "0x300000", OF this] show ?thesis by (simp add: heap0_def heap_init_def heapsiz_def)
qed

end
