(* ===== verification/Libsa_Ufs.thy ===== *)
theory Libsa_Ufs
  imports Libsa_Errno "HOL-Library.Signed_Division"
begin

unbundle bit_operations_syntax

text \<open>
  The file system of the boot program: \<open>sys/lib/libsa/ufs.c\<close> with the macros of \<open>sys/ufs/ffs/fs.h\<close>, for FFS1.
  The device's strategy routine is the argument \<open>strat\<close> with a state of its own; \<open>mem n\<close> is what freshly
  allocated memory of \<open>n\<close> bytes contains. An open file keeps the last indirect block of each level and the
  last data block. \<open>int\<close> variables are kept as integers; where the code computes with them, results are
  reduced to 32 bits as the machine does. Loops that cannot make progress are \<open>Hang\<close>.
\<close>

section \<open>Superblock and inodes\<close>

type_synonym 's strategy = "u32 \<Rightarrow> u64 \<Rightarrow> u8 list \<Rightarrow> 's \<Rightarrow> (int \<times> u8 list \<times> u64 \<times> 's) outcome"

definition i32 :: "int \<Rightarrow> int" where "i32 x = signed_take_bit 31 x"
definition i64 :: "int \<Rightarrow> int" where "i64 x = signed_take_bit 63 x"

definition field32 :: "nat \<Rightarrow> u8 list \<Rightarrow> u32" where "field32 off b = of_nat (le_dec (bytes_at off 4 b))"
definition field64 :: "nat \<Rightarrow> u8 list \<Rightarrow> u64" where "field64 off b = of_nat (le_dec (bytes_at off 8 b))"

record fs =
  fs_iblkno :: u32
  fs_cgoffset :: u32
  fs_cgmask :: u32
  fs_bsize :: u32
  fs_fmask :: u32
  fs_bshift :: u32
  fs_fragshift :: u32
  fs_fsbtodb :: u32
  fs_nindir :: u32
  fs_inopb :: u32
  fs_ipg :: u32
  fs_fpg :: u32
  fs_maxsymlinklen :: u32
  fs_qbmask :: u64
  fs_qfmask :: u64
  fs_magic :: u32

definition dec_fs :: "u8 list \<Rightarrow> fs" where
  "dec_fs b = \<lparr>fs_iblkno = field32 16 b, fs_cgoffset = field32 24 b, fs_cgmask = field32 28 b, fs_bsize = field32 48 b,
     fs_fmask = field32 76 b, fs_bshift = field32 80 b, fs_fragshift = field32 96 b, fs_fsbtodb = field32 100 b,
     fs_nindir = field32 116 b, fs_inopb = field32 120 b, fs_ipg = field32 184 b, fs_fpg = field32 188 b,
     fs_maxsymlinklen = field32 1320 b, fs_qbmask = field64 1336 b, fs_qfmask = field64 1344 b, fs_magic = field32 1372 b\<rparr>"

definition SBLOCK :: u32 where "SBLOCK = 16"
definition SBSIZE :: nat where "SBSIZE = 8192"
definition FS_MAGIC :: u32 where "FS_MAGIC = 0x011954"
definition MAXBSIZE :: int where "MAXBSIZE = 65536"
definition sizeof_fs :: u64 where "sizeof_fs = 1384"
definition NDADDR :: nat where "NDADDR = 12"
definition NIADDR :: nat where "NIADDR = 3"
definition ROOTINO :: u32 where "ROOTINO = 2"
definition IFMT :: u16 where "IFMT = 0xF000"
definition IFDIR :: u16 where "IFDIR = 0x4000"
definition IFLNK :: u16 where "IFLNK = 0xA000"
definition MAXNAMLEN :: nat where "MAXNAMLEN = 255"
definition MAXSYMLINKS :: nat where "MAXSYMLINKS = 32"
definition UFS_PATHLEN :: nat where "UFS_PATHLEN = 1024"

record dinode =
  di_mode :: u16
  di_size :: u64
  di_db :: "u32 list"
  di_ib :: "u32 list"
  di_uid :: u32
  di_gid :: u32

definition dec_dinode :: "u8 list \<Rightarrow> dinode" where
  "dec_dinode b = \<lparr>di_mode = of_nat (le_dec (bytes_at 0 2 b)), di_size = field64 8 b,
     di_db = map (\<lambda>i. field32 (40 + 4 * i) b) [0..<NDADDR], di_ib = map (\<lambda>i. field32 (88 + 4 * i) b) [0..<NIADDR],
     di_uid = field32 112 b, di_gid = field32 116 b\<rparr>"

text \<open>A short symbolic link is stored in the place of the block numbers.\<close>

definition di_shortlink :: "dinode \<Rightarrow> u8 list" where
  "di_shortlink di = concat (map (\<lambda>w. le_enc 4 (unat w)) (di_db di @ di_ib di))"

record ufs_file =
  f_seekp :: int
  f_fs :: fs
  f_di :: dinode
  f_nindir :: "int list"
  f_blk :: "u8 list option list"
  f_blkno :: "u32 list"
  f_buf :: "u8 list option"
  f_buf_blkno :: int

definition fsbtodb :: "fs \<Rightarrow> u32 \<Rightarrow> u32 outcome" where
  "fsbtodb fs b = (if unat (fs_fsbtodb fs) < 32 then Ret (push_bit (unat (fs_fsbtodb fs)) b) else Undef)"

definition cgstart :: "fs \<Rightarrow> u32 \<Rightarrow> u32" where
  "cgstart fs c = fs_fpg fs * c + fs_cgoffset fs * (c AND NOT (fs_cgmask fs))"

definition ino_to_fsba :: "fs \<Rightarrow> u32 \<Rightarrow> u32 outcome" where
  "ino_to_fsba fs x =
     (if fs_ipg fs = 0 \<or> fs_inopb fs = 0 \<or> 32 \<le> unat (fs_fragshift fs) then Undef
      else Ret (cgstart fs (x div fs_ipg fs) + fs_iblkno fs
        + push_bit (unat (fs_fragshift fs)) ((x mod fs_ipg fs) div fs_inopb fs)))"

definition ino_to_fsbo :: "fs \<Rightarrow> u32 \<Rightarrow> u32" where "ino_to_fsbo fs x = x mod fs_inopb fs"

definition blkoff :: "fs \<Rightarrow> int \<Rightarrow> int" where "blkoff fs loc = loc AND sint (fs_qbmask fs)"

definition lblkno :: "fs \<Rightarrow> int \<Rightarrow> int outcome" where
  "lblkno fs loc = (if unat (fs_bshift fs) < 64 then Ret (i32 (drop_bit (unat (fs_bshift fs)) loc)) else Undef)"

definition fragroundup :: "fs \<Rightarrow> u64 \<Rightarrow> u64" where
  "fragroundup fs sz = (sz + fs_qfmask fs) AND scast (fs_fmask fs)"

definition dblksize :: "fs \<Rightarrow> dinode \<Rightarrow> int \<Rightarrow> u64 outcome" where
  "dblksize fs di lbn =
     (if lbn \<ge> int NDADDR then Ret (scast (fs_bsize fs))
      else if 32 \<le> unat (fs_bshift fs) then Undef
      else if di_size di \<ge> word_of_int (i32 (push_bit (unat (fs_bshift fs)) (lbn + 1))) then Ret (scast (fs_bsize fs))
      else Ret (fragroundup fs (di_size di AND fs_qbmask fs)))"

definition read_inode :: "'s strategy \<Rightarrow> (nat \<Rightarrow> u8 list) \<Rightarrow> u32 \<Rightarrow> ufs_file \<Rightarrow> 's \<Rightarrow> (int \<times> ufs_file \<times> 's) outcome" where
  "read_inode strat mem inumber fp s =
     (let fs = f_fs fp in
      obind (ino_to_fsba fs inumber) (\<lambda>a. obind (fsbtodb fs a) (\<lambda>db.
      obind (strat db (scast (fs_bsize fs)) (mem (unat (fs_bsize fs))) s) (\<lambda>(rc, buf, rsize, s).
        if rc \<noteq> 0 then Ret (rc, fp, s)
        else if rsize \<noteq> scast (fs_bsize fs) then Ret (EIO, fp, s)
        else obind (obj_bytes buf (128 * unat (ino_to_fsbo fs inumber)) 128) (\<lambda>d.
          Ret (0, fp\<lparr>f_di := dec_dinode d, f_blkno := replicate NIADDR (- 1), f_buf_blkno := - 1, f_seekp := 0\<rparr>, s))))))"

section \<open>Blocks of a file\<close>

text \<open>The level of indirection at which a block is found, and its number there.\<close>

fun find_level :: "int list \<Rightarrow> int \<Rightarrow> nat \<Rightarrow> (nat \<times> int) option" where
  "find_level [] b level = None"
| "find_level (n # ns) b level = (if b < n then Some (level, b) else find_level ns (i32 (b - n)) (level + 1))"

definition load_ind :: "'s strategy \<Rightarrow> (nat \<Rightarrow> u8 list) \<Rightarrow> nat \<Rightarrow> u32 \<Rightarrow> ufs_file \<Rightarrow> 's \<Rightarrow> (int \<times> ufs_file \<times> 's) outcome" where
  "load_ind strat mem level b fp s =
     (if f_blkno fp ! level = b then Ret (0, fp, s)
      else
        let bsize = fs_bsize (f_fs fp); buf = (case f_blk fp ! level of None \<Rightarrow> mem (unat bsize) | Some d \<Rightarrow> d) in
        obind (fsbtodb (f_fs fp) b) (\<lambda>db. obind (strat db (scast bsize) buf s) (\<lambda>(rc, buf, rsize, s).
          let fp = fp\<lparr>f_blk := (f_blk fp)[level := Some buf]\<rparr> in
          if rc \<noteq> 0 then Ret (rc, fp, s)
          else if rsize \<noteq> scast bsize then Ret (EIO, fp, s)
          else Ret (0, fp\<lparr>f_blkno := (f_blkno fp)[level := b]\<rparr>, s))))"

definition ind_entry :: "ufs_file \<Rightarrow> nat \<Rightarrow> int \<Rightarrow> u32 outcome" where
  "ind_entry fp level idx =
     (case f_blk fp ! level of
        None \<Rightarrow> Undef
      | Some buf \<Rightarrow> if idx < 0 then Undef else obind (obj_bytes buf (4 * nat idx) 4) (\<lambda>d. Ret (of_nat (le_dec d))))"

text \<open>The descent through the indirect blocks; the first argument is one more than \<open>level\<close>.\<close>

fun ind_walk :: "'s strategy \<Rightarrow> (nat \<Rightarrow> u8 list) \<Rightarrow> nat \<Rightarrow> u32 \<Rightarrow> int \<Rightarrow> ufs_file \<Rightarrow> 's \<Rightarrow>
    (int \<times> u32 \<times> ufs_file \<times> 's) outcome" where
  "ind_walk strat mem 0 b k fp s = Ret (0, b, fp, s)"
| "ind_walk strat mem (Suc level) b k fp s =
     (if b = 0 then Ret (0, 0, fp, s)
      else obind (load_ind strat mem level b fp s) (\<lambda>(rc, fp, s).
        if rc \<noteq> 0 then Ret (rc, 0, fp, s)
        else if level > 0 then
          (let n = f_nindir fp ! (level - 1) in
           if n = 0 then Undef
           else obind (ind_entry fp level (k sdiv n)) (\<lambda>b. ind_walk strat mem level b (k smod n) fp s))
        else obind (ind_entry fp level k) (\<lambda>b. ind_walk strat mem level b k fp s)))"

definition block_map :: "'s strategy \<Rightarrow> (nat \<Rightarrow> u8 list) \<Rightarrow> int \<Rightarrow> ufs_file \<Rightarrow> 's \<Rightarrow> (int \<times> u32 \<times> ufs_file \<times> 's) outcome" where
  "block_map strat mem file_block fp s =
     (if file_block < int NDADDR then
        (if file_block < 0 then Undef else obind (aget (di_db (f_di fp)) (nat file_block)) (\<lambda>b. Ret (0, b, fp, s)))
      else
        (case find_level (f_nindir fp) (file_block - int NDADDR) 0 of
           None \<Rightarrow> Ret (EFBIG, 0, fp, s)
         | Some (level, k) \<Rightarrow> obind (aget (di_ib (f_di fp)) level) (\<lambda>b. ind_walk strat mem (Suc level) b k fp s)))"

definition fill_buf :: "'s strategy \<Rightarrow> (nat \<Rightarrow> u8 list) \<Rightarrow> int \<Rightarrow> u64 \<Rightarrow> ufs_file \<Rightarrow> 's \<Rightarrow> (int \<times> ufs_file \<times> 's) outcome" where
  "fill_buf strat mem file_block block_size fp s =
     obind (block_map strat mem file_block fp s) (\<lambda>(rc, disk_block, fp, s).
       if rc \<noteq> 0 then Ret (rc, fp, s)
       else
         let buf = (case f_buf fp of None \<Rightarrow> mem (unat (fs_bsize (f_fs fp))) | Some d \<Rightarrow> d) in
         if disk_block = 0 then
           obind (put_bytes buf 0 (replicate (unat block_size) 0)) (\<lambda>buf.
             Ret (0, fp\<lparr>f_buf := Some buf, f_buf_blkno := file_block\<rparr>, s))
         else
           obind (fsbtodb (f_fs fp) disk_block) (\<lambda>db. obind (strat db block_size buf s) (\<lambda>(rc, buf, rsize, s).
             let fp = fp\<lparr>f_buf := Some buf\<rparr> in
             if rc \<noteq> 0 then Ret (rc, fp, s) else Ret (0, fp\<lparr>f_buf_blkno := file_block\<rparr>, s))))"

text \<open>\<open>buf_read_file\<close>: the offset of the next byte in the buffer, and how many bytes there are.\<close>

definition buf_read_file :: "'s strategy \<Rightarrow> (nat \<Rightarrow> u8 list) \<Rightarrow> ufs_file \<Rightarrow> 's \<Rightarrow> (int \<times> int \<times> u64 \<times> ufs_file \<times> 's) outcome" where
  "buf_read_file strat mem fp s =
     (let fs = f_fs fp; di = f_di fp; off = blkoff fs (f_seekp fp) in
      obind (lblkno fs (f_seekp fp)) (\<lambda>file_block. obind (dblksize fs di file_block) (\<lambda>block_size.
      obind (if file_block \<noteq> f_buf_blkno fp then fill_buf strat mem file_block block_size fp s else Ret (0, fp, s)) (\<lambda>(rc, fp, s).
        if rc \<noteq> 0 then Ret (rc, 0, 0, fp, s)
        else
          let n = block_size - word_of_int off; left = di_size di - word_of_int (f_seekp fp) in
          Ret (0, off, if n > left then left else n, fp, s)))))"

definition buf_bytes :: "ufs_file \<Rightarrow> int \<Rightarrow> nat \<Rightarrow> u8 list outcome" where
  "buf_bytes fp off n = (case f_buf fp of None \<Rightarrow> Undef | Some buf \<Rightarrow> if off < 0 then Undef else obj_bytes buf (nat off) n)"

definition at_eof :: "ufs_file \<Rightarrow> bool" where "at_eof fp \<longleftrightarrow> di_size (f_di fp) \<le> word_of_int (f_seekp fp)"

definition advance :: "nat \<Rightarrow> ufs_file \<Rightarrow> ufs_file" where "advance n fp = fp\<lparr>f_seekp := i64 (f_seekp fp + int n)\<rparr>"

text \<open>
  The result is the error, the bytes copied, the number of bytes that were not read (\<open>resid\<close>) and the file.
  When no byte is copied the next round is the same, as the block is in the buffer.
\<close>

function ufs_read :: "'s strategy \<Rightarrow> (nat \<Rightarrow> u8 list) \<Rightarrow> nat \<Rightarrow> ufs_file \<Rightarrow> 's \<Rightarrow> (int \<times> u8 list \<times> nat \<times> ufs_file \<times> 's) outcome" where
  "ufs_read strat mem n fp s =
     (if n = 0 \<or> at_eof fp then Ret (0, [], n, fp, s)
      else obind (buf_read_file strat mem fp s) (\<lambda>(rc, off, buf_size, fp, s).
        if rc \<noteq> 0 then Ret (rc, [], n, fp, s)
        else
          let csize = min n (unat buf_size) in
          if csize = 0 then Hang
          else obind (buf_bytes fp off csize) (\<lambda>d.
            obind (ufs_read strat mem (n - csize) (advance csize fp) s) (\<lambda>(rc, ds, r, fp, s). Ret (rc, d @ ds, r, fp, s)))))"
  by pat_completeness auto
termination by (relation "measure (\<lambda>(_, _, n, _). n)") auto


declare ufs_read.simps [simp del]

definition ufs_write :: "ufs_file \<Rightarrow> int" where "ufs_write fp = EROFS"

datatype whence = SEEK_SET | SEEK_CUR | SEEK_END

text \<open>\<open>ufs_seek\<close>; an overflow of \<open>off_t\<close> in a relative seek is undefined.\<close>

definition ufs_seek :: "int \<Rightarrow> whence \<Rightarrow> ufs_file \<Rightarrow> (int \<times> ufs_file) outcome" where
  "ufs_seek offset where fp =
     obind (case where of
        SEEK_SET \<Rightarrow> Ret offset
      | SEEK_CUR \<Rightarrow> (if i64 (f_seekp fp + offset) = f_seekp fp + offset then Ret (f_seekp fp + offset) else Undef)
      | SEEK_END \<Rightarrow> Ret (sint (di_size (f_di fp) - word_of_int offset))) (\<lambda>p. Ret (p, fp\<lparr>f_seekp := p\<rparr>))"

text \<open>\<open>ufs_stat\<close>: mode, owner, group and size.\<close>

definition ufs_stat :: "ufs_file \<Rightarrow> u32 \<times> u32 \<times> u32 \<times> u64" where
  "ufs_stat fp = (ucast (di_mode (f_di fp)), di_uid (f_di fp), di_gid (f_di fp), di_size (f_di fp))"

section \<open>Reading keeps the inode\<close>

definition same_file :: "ufs_file \<Rightarrow> ufs_file \<Rightarrow> bool" where
  "same_file fp fp' \<longleftrightarrow> f_fs fp' = f_fs fp \<and> f_di fp' = f_di fp \<and> f_nindir fp' = f_nindir fp \<and> f_seekp fp' = f_seekp fp
     \<and> length (f_blk fp') = length (f_blk fp) \<and> length (f_blkno fp') = length (f_blkno fp)"

lemma same_file_refl: "same_file fp fp" by (simp add: same_file_def)

lemma same_file_trans: "same_file a b \<Longrightarrow> same_file b c \<Longrightarrow> same_file a c" by (simp add: same_file_def)

lemma load_ind_same: "load_ind strat mem level b fp s = Ret (rc, fp', s') \<Longrightarrow> same_file fp fp'"
  by (auto simp: load_ind_def Let_def outcome_simps same_file_def split: if_splits)

lemma ind_walk_same: "ind_walk strat mem l b k fp s = Ret (rc, d, fp', s') \<Longrightarrow> same_file fp fp'"
proof (induction l arbitrary: b k fp s)
  case 0
  then show ?case by (simp add: same_file_refl)
next
  case (Suc level)
  show ?case
  proof (cases "b = 0")
    case False
    then obtain rc1 fp1 s1 where 1: "load_ind strat mem level b fp s = Ret (rc1, fp1, s1)"
      using Suc.prems by (auto simp: outcome_simps)
    have "same_file fp1 fp'"
      using Suc.prems False 1 by (auto simp: outcome_simps Let_def same_file_refl split: if_splits intro: Suc.IH)
    then show ?thesis using load_ind_same [OF 1] same_file_trans by blast
  qed (use Suc.prems in \<open>simp add: same_file_refl\<close>)
qed

lemma block_map_same: "block_map strat mem n fp s = Ret (rc, d, fp', s') \<Longrightarrow> same_file fp fp'"
  by (auto simp: block_map_def outcome_simps same_file_refl simp del: ind_walk.simps split: if_splits option.splits dest: ind_walk_same)

lemma fill_buf_same:
  assumes "fill_buf strat mem n z fp s = Ret (rc, fp', s')"
  shows "same_file fp fp'"
proof -
  obtain rc1 d fp1 s1 where 1: "block_map strat mem n fp s = Ret (rc1, d, fp1, s1)"
    using assms by (auto simp: fill_buf_def outcome_simps)
  then have "same_file fp1 fp'" using assms
    by (auto simp: fill_buf_def outcome_simps same_file_def Let_def split: if_splits)
  then show ?thesis using block_map_same [OF 1] same_file_trans by blast
qed

lemma buf_read_file_same:
  assumes "buf_read_file strat mem fp s = Ret (rc, off, n, fp', s')"
  shows "same_file fp fp'" "n \<le> di_size (f_di fp) - word_of_int (f_seekp fp)"
proof -
  show sm: "same_file fp fp'"
    using assms by (auto simp: buf_read_file_def outcome_simps Let_def same_file_refl split: if_splits dest: fill_buf_same)
  have "n \<le> di_size (f_di fp) - word_of_int (f_seekp fp')"
    using assms by (fastforce simp: buf_read_file_def outcome_simps Let_def split: if_splits)
  then show "n \<le> di_size (f_di fp) - word_of_int (f_seekp fp)"
    using sm by (simp add: same_file_def)
qed

text \<open>What is left of the file becomes less as long as bytes are found.\<close>

definition left :: "ufs_file \<Rightarrow> nat" where "left fp = unat (di_size (f_di fp) - word_of_int (f_seekp fp))"

lemma i64_word: "(word_of_int (i64 x) :: u64) = word_of_int x"
  by (simp add: i64_def word_of_int_eq_iff take_bit_signed_take_bit)

lemma left_advance:
  assumes "buf_read_file strat mem fp s = Ret (rc, off, n, fp', s')" "n \<noteq> 0"
  shows "left (advance (unat n) fp') < left fp"
proof -
  have sm: "same_file fp fp'" and le: "n \<le> di_size (f_di fp) - word_of_int (f_seekp fp)"
    using buf_read_file_same [OF assms(1)] by blast+
  let ?d = "di_size (f_di fp) - word_of_int (f_seekp fp) :: u64"
  have "di_size (f_di (advance (unat n) fp')) - word_of_int (f_seekp (advance (unat n) fp')) = ?d - n"
    using sm by (simp add: advance_def same_file_def i64_word)
  moreover have "unat (?d - n) < unat ?d"
    using le assms(2) unat_gt_0 [of n] by (simp add: unat_sub word_le_nat_alt)
  ultimately show ?thesis by (simp add: left_def)
qed

section \<open>Directories\<close>

text \<open>\<open>strcmp(name, dp->d_name)\<close>.\<close>

fun name_at :: "u8 list \<Rightarrow> nat \<Rightarrow> string \<Rightarrow> bool outcome" where
  "name_at buf p [] = obind (aget buf p) (\<lambda>b. Ret (b = 0))"
| "name_at buf p (c # cs) = obind (aget buf p) (\<lambda>b. if b = of_char c then name_at buf (p + 1) cs else Ret False)"

text \<open>The fields of an entry; file systems in the old format have the length where the type is now.\<close>

record direct =
  d_ino :: u32
  d_reclen :: nat
  d_namlen :: nat

definition dec_direct :: "fs \<Rightarrow> u8 list \<Rightarrow> direct" where
  "dec_direct fs h = \<lparr>d_ino = field32 0 h, d_reclen = le_dec (bytes_at 4 2 h),
     d_namlen = (if sint (fs_maxsymlinklen fs) \<le> 0 then unat (h ! 6) else unat (h ! 7))\<rparr>"

function scan_block :: "fs \<Rightarrow> u8 list \<Rightarrow> string \<Rightarrow> nat \<Rightarrow> nat \<Rightarrow> u32 option outcome" where
  "scan_block fs buf name dp edp =
     (if dp < edp then
        obind (obj_bytes buf dp 8) (\<lambda>h.
          let d = dec_direct fs h in
          obind (if d_ino d \<noteq> 0 \<and> d_namlen d = length name then name_at buf (dp + 8) name else Ret False) (\<lambda>found.
            if found then Ret (Some (d_ino d))
            else if d_reclen d = 0 then Hang
            else scan_block fs buf name (dp + d_reclen d) edp))
      else Ret None)"
  by pat_completeness auto
termination by (relation "measure (\<lambda>(_, _, _, dp, edp). edp - dp)") auto

declare scan_block.simps [simp del]

function search_loop :: "'s strategy \<Rightarrow> (nat \<Rightarrow> u8 list) \<Rightarrow> string \<Rightarrow> ufs_file \<Rightarrow> 's \<Rightarrow> (int \<times> u32 \<times> ufs_file \<times> 's) outcome" where
  "search_loop strat mem name fp s =
     (if at_eof fp then Ret (ENOENT, 0, fp, s)
      else obind (buf_read_file strat mem fp s) (\<lambda>(rc, off, buf_size, fp, s).
        if rc \<noteq> 0 then Ret (rc, 0, fp, s)
        else case f_buf fp of
          None \<Rightarrow> Undef
        | Some buf \<Rightarrow>
            if off < 0 then Undef
            else obind (scan_block (f_fs fp) buf name (nat off) (nat off + unat buf_size)) (\<lambda>r.
              case r of
                Some ino \<Rightarrow> Ret (0, ino, fp, s)
              | None \<Rightarrow> if buf_size = 0 then Hang else search_loop strat mem name (advance (unat buf_size) fp) s)))"
  by pat_completeness auto
termination
  by (relation "measure (\<lambda>(_, _, _, fp, _). left fp)") (auto intro: left_advance)

declare search_loop.simps [simp del]

definition search_directory :: "'s strategy \<Rightarrow> (nat \<Rightarrow> u8 list) \<Rightarrow> string \<Rightarrow> ufs_file \<Rightarrow> 's \<Rightarrow> (int \<times> u32 \<times> ufs_file \<times> 's) outcome" where
  "search_directory strat mem name fp s = search_loop strat mem name (fp\<lparr>f_seekp := 0\<rparr>) s"

text \<open>
  \<open>ufs_readdir\<close>: to the next entry in use. The result of the loop is the position of the entry in the buffer; a
  seek pointer that leaves \<open>off_t\<close> is undefined. With an empty buffer the next round is the same.
\<close>

function skip_free :: "fs \<Rightarrow> u8 list \<Rightarrow> nat \<Rightarrow> nat \<Rightarrow> nat outcome" where
  "skip_free fs buf dp edp =
     (if dp < edp then
        obind (obj_bytes buf dp 8) (\<lambda>h.
          let d = dec_direct fs h in
          if d_ino d \<noteq> 0 then Ret dp else if d_reclen d = 0 then Hang else skip_free fs buf (dp + d_reclen d) edp)
      else Ret dp)"
  by pat_completeness auto
termination by (relation "measure (\<lambda>(_, _, dp, edp). edp - dp)") auto

declare skip_free.simps [simp del]

lemma skip_free_le: "skip_free fs buf dp edp = Ret q \<Longrightarrow> dp \<le> q"
proof (induction fs buf dp edp rule: skip_free.induct)
  case (1 fs buf dp edp)
  then show ?case
    by (subst (asm) skip_free.simps) (fastforce simp: outcome_simps Let_def split: if_splits)
qed

function readdir_loop :: "'s strategy \<Rightarrow> (nat \<Rightarrow> u8 list) \<Rightarrow> ufs_file \<Rightarrow> 's \<Rightarrow> (int \<times> nat \<times> ufs_file \<times> 's) outcome" where
  "readdir_loop strat mem fp s =
     obind (buf_read_file strat mem fp s) (\<lambda>(rc, off, buf_size, fp, s).
       if rc \<noteq> 0 then Ret (rc, 0, fp, s)
       else case f_buf fp of
         None \<Rightarrow> Undef
       | Some buf \<Rightarrow>
           if off < 0 then Undef
           else
             let edp = nat off + unat buf_size in
             obind (skip_free (f_fs fp) buf (nat off) edp) (\<lambda>dp.
               let p = f_seekp fp + int (dp - nat off) in
               if 2 ^ 63 \<le> p then Undef
               else if dp < edp then Ret (0, dp, fp\<lparr>f_seekp := p\<rparr>, s)
               else if dp = nat off then Hang
               else readdir_loop strat mem (fp\<lparr>f_seekp := p\<rparr>) s))"
  by pat_completeness auto
termination
proof (relation "measure (\<lambda>(_, _, fp, _). nat (2 ^ 63 - f_seekp fp))", goal_cases)
  case 2
  then show ?case by (auto simp: same_file_def dest!: buf_read_file_same(1) skip_free_le)
qed simp

declare readdir_loop.simps [simp del]

fun strncpy_at :: "u8 list \<Rightarrow> nat \<Rightarrow> nat \<Rightarrow> u8 list outcome" where
  "strncpy_at buf p 0 = Ret []"
| "strncpy_at buf p (Suc n) = obind (aget buf p) (\<lambda>b. if b = 0 then Ret [] else obind (strncpy_at buf (p + 1) n) (\<lambda>bs. Ret (b # bs)))"

definition ufs_rewinddir :: "ufs_file \<Rightarrow> ufs_file" where "ufs_rewinddir fp = fp\<lparr>f_seekp := 0\<rparr>"

definition ufs_readdir :: "'s strategy \<Rightarrow> (nat \<Rightarrow> u8 list) \<Rightarrow> ufs_file \<Rightarrow> 's \<Rightarrow> (int \<times> string \<times> ufs_file \<times> 's) outcome" where
  "ufs_readdir strat mem fp s =
     (if at_eof fp then Ret (- 1, [], fp, s)
      else obind (readdir_loop strat mem fp s) (\<lambda>(rc, dp, fp, s).
        if rc \<noteq> 0 then Ret (rc, [], fp, s)
        else case f_buf fp of
          None \<Rightarrow> Undef
        | Some buf \<Rightarrow>
            obind (obj_bytes buf dp 8) (\<lambda>h.
              let d = dec_direct (f_fs fp) h in
              obind (strncpy_at buf (dp + 8) (d_namlen d + 1)) (\<lambda>name.
                Ret (0, map (char_of \<circ> unat) name, fp\<lparr>f_seekp := f_seekp fp + int (d_reclen d)\<rparr>, s)))))"

section \<open>Opening a file\<close>

definition nindirs :: "fs \<Rightarrow> int list" where
  "nindirs fs = (let n = sint (fs_nindir fs); m = i32 (n * n) in [n, m, i32 (m * n)])"

text \<open>The text of a symbolic link. The buffer for long links is kept for the next one.\<close>

definition read_link :: "'s strategy \<Rightarrow> (nat \<Rightarrow> u8 list) \<Rightarrow> u8 list option \<Rightarrow> ufs_file \<Rightarrow> 's \<Rightarrow>
    (int \<times> u8 list \<times> u8 list option \<times> ufs_file \<times> 's) outcome" where
  "read_link strat mem lb fp s =
     (let fs = f_fs fp; len = di_size (f_di fp) in
      if len < scast (fs_maxsymlinklen fs) then obind (obj_bytes (di_shortlink (f_di fp)) 0 (unat len)) (\<lambda>t. Ret (0, t, lb, fp, s))
      else
        let buf = (case lb of None \<Rightarrow> mem (unat (fs_bsize fs)) | Some d \<Rightarrow> d) in
        obind (block_map strat mem 0 fp s) (\<lambda>(rc, disk_block, fp, s).
          if rc \<noteq> 0 then Ret (rc, [], Some buf, fp, s)
          else obind (fsbtodb fs disk_block) (\<lambda>db. obind (strat db (scast (fs_bsize fs)) buf s) (\<lambda>(rc, buf, rsize, s).
            if rc \<noteq> 0 then Ret (rc, [], Some buf, fp, s)
            else obind (obj_bytes buf 0 (unat len)) (\<lambda>t. Ret (0, t, Some buf, fp, s))))))"

definition is_slash :: "char \<Rightarrow> bool" where "is_slash c \<longleftrightarrow> c = CHR ''/''"

lemma rest_shorter:
  assumes "dropWhile is_slash path \<noteq> []"
  shows "length (dropWhile (Not \<circ> is_slash) (dropWhile is_slash path)) < length path"
proof -
  obtain c cs where c: "dropWhile is_slash path = c # cs" "\<not> is_slash c"
    using assms hd_dropWhile [OF assms] by (metis list.collapse)
  have "length (dropWhile (Not \<circ> is_slash) cs) < length (c # cs)"
    by (simp add: le_imp_less_Suc length_dropWhile_le)
  also have "\<dots> \<le> length path" using length_dropWhile_le [of is_slash path] c(1) by simp
  finally show ?thesis using c by simp
qed

text \<open>
  The walk along the path. The sum of the lengths of a link and of the rest of the path is compared with the size
  of the buffer as an unsigned number; when it wraps, the copy leaves the buffer.
\<close>

function open_loop :: "'s strategy \<Rightarrow> (nat \<Rightarrow> u8 list) \<Rightarrow> string \<Rightarrow> u32 \<Rightarrow> nat \<Rightarrow> u8 list option \<Rightarrow> ufs_file \<Rightarrow> 's \<Rightarrow>
    (int \<times> ufs_file \<times> 's) outcome" where
  "open_loop strat mem path inumber nlinks lb fp s =
     (let cp = dropWhile is_slash path; name = takeWhile (Not \<circ> is_slash) cp; cp' = dropWhile (Not \<circ> is_slash) cp in
      if cp = [] then Ret (0, fp, s)
      else if di_mode (f_di fp) AND IFMT \<noteq> IFDIR then Ret (ENOTDIR, fp, s)
      else if length name > MAXNAMLEN then Ret (ENOENT, fp, s)
      else obind (search_directory strat mem name fp s) (\<lambda>(rc, ino, fp, s).
        if rc \<noteq> 0 then Ret (rc, fp, s)
        else obind (read_inode strat mem ino fp s) (\<lambda>(rc, fp, s).
          if rc \<noteq> 0 then Ret (rc, fp, s)
          else if di_mode (f_di fp) AND IFMT = IFLNK then
            (if di_size (f_di fp) + of_nat (length cp') > of_nat UFS_PATHLEN \<or> nlinks + 1 > MAXSYMLINKS then Ret (ENOENT, fp, s)
             else if unat (di_size (f_di fp)) + length cp' > UFS_PATHLEN then Undef
             else obind (read_link strat mem lb fp s) (\<lambda>(rc, t, lb, fp, s).
               if rc \<noteq> 0 then Ret (rc, fp, s)
               else
                 let path = takeWhile (\<lambda>c. c \<noteq> CHR 0x00) (map (char_of \<circ> unat) t @ cp');
                     inumber = (case path of c # _ \<Rightarrow> if is_slash c then ROOTINO else inumber | [] \<Rightarrow> inumber) in
                 obind (read_inode strat mem inumber fp s) (\<lambda>(rc, fp, s).
                   if rc \<noteq> 0 then Ret (rc, fp, s)
                   else open_loop strat mem path inumber (nlinks + 1) lb fp s)))
          else open_loop strat mem cp' ino nlinks lb fp s)))"
  by pat_completeness auto
termination
  by (relation "measures [\<lambda>(_, _, _, _, nlinks, _). MAXSYMLINKS - nlinks, \<lambda>(_, _, path, _). length path]")
    (auto intro: rest_shorter)

declare open_loop.simps [simp del]

text \<open>\<open>ufs_open\<close>: the superblock, the sizes of the levels of indirection, the root inode and the path.\<close>

definition ufs_open :: "'s strategy \<Rightarrow> (nat \<Rightarrow> u8 list) \<Rightarrow> string \<Rightarrow> 's \<Rightarrow> ((int + ufs_file) \<times> 's) outcome" where
  "ufs_open strat mem path s =
     obind (strat SBLOCK (of_nat SBSIZE) (mem SBSIZE) s) (\<lambda>(rc, sb, n, s).
       let fs = dec_fs sb in
       if rc \<noteq> 0 then Ret (Inl rc, s)
       else if n \<noteq> of_nat SBSIZE \<or> fs_magic fs \<noteq> FS_MAGIC \<or> sint (fs_bsize fs) > MAXBSIZE \<or> scast (fs_bsize fs) < sizeof_fs
       then Ret (Inl EINVAL, s)
       else
         let fp = \<lparr>f_seekp = 0, f_fs = fs, f_di = dec_dinode (replicate 128 0), f_nindir = nindirs fs,
                   f_blk = replicate NIADDR None, f_blkno = replicate NIADDR 0, f_buf = None, f_buf_blkno = 0\<rparr> in
         obind (read_inode strat mem ROOTINO fp s) (\<lambda>(rc, fp, s).
           if rc \<noteq> 0 then Ret (Inl rc, s)
           else obind (open_loop strat mem path ROOTINO 0 None fp s) (\<lambda>(rc, fp, s).
             if rc \<noteq> 0 then Ret (Inl rc, s) else Ret (Inr fp, s))))"

definition ufs_close :: "ufs_file option \<Rightarrow> int \<times> ufs_file option" where "ufs_close fsdata = (0, None)"

end
