(* ===== verification/Libsa_File.thy ===== *)
theory Libsa_File
  imports Efi_Disk Libsa_Ufs
begin

unbundle bit_operations_syntax

text \<open>
  File descriptors of the boot program: \<open>open.c\<close>, \<open>close.c\<close>, \<open>read.c\<close>, \<open>lseek.c\<close>, \<open>fstat.c\<close>, \<open>stat.c\<close> and
  \<open>readdir.c\<close> of \<open>sys/lib/libsa\<close> with \<open>devopen\<close> of \<open>dev_i386.c\<close>, for the tables of the EFI program: one device
  switch, the firmware's disks, and one file system, \<open>ufs.c\<close>. The names are those under which the functions are
  compiled beside \<open>cread.c\<close>. A pointer that is only compared with NULL is a truth value; the spinner of
  \<open>twiddle\<close> is left out.
\<close>

section \<open>The table of files\<close>

definition SOPEN_MAX :: nat where "SOPEN_MAX = 4"
definition FF_READ :: u32 where "FF_READ = 1"
definition FF_WRITE :: u32 where "FF_WRITE = 2"
definition FF_RAW :: u32 where "FF_RAW = 4"
definition FF_NODEV :: u32 where "FF_NODEV = 8"

record sa_file =
  f_flags :: u32
  f_dev :: bool
  f_data :: "devref option"
  f_ops :: bool
  f_fsdata :: "ufs_file option"
  f_offset :: int

record sa_world =
  files :: "sa_file list"
  errno :: int
  efi_of :: efi_world
  iblk_of :: iblk

definition closed_file :: sa_file where
  "closed_file = \<lparr>f_flags = 0, f_dev = False, f_data = None, f_ops = False, f_fsdata = None, f_offset = 0\<rparr>"

definition has_flag :: "u32 \<Rightarrow> sa_file \<Rightarrow> bool" where "has_flag b f \<longleftrightarrow> f_flags f AND b \<noteq> 0"

definition set_file :: "nat \<Rightarrow> sa_file \<Rightarrow> 'a sa_world_scheme \<Rightarrow> 'a sa_world_scheme" where
  "set_file fd f w = w\<lparr>files := (files w)[fd := f]\<rparr>"

text \<open>\<open>(unsigned)fd >= SOPEN_MAX\<close> and a condition on the entry.\<close>

definition the_file :: "int \<Rightarrow> (sa_file \<Rightarrow> bool) \<Rightarrow> 'a sa_world_scheme \<Rightarrow> sa_file option" where
  "the_file fd P w = (if 0 \<le> fd \<and> nat fd < SOPEN_MAX \<and> P (files w ! nat fd) then Some (files w ! nat fd) else None)"

definition fail :: "int \<Rightarrow> 'a sa_world_scheme \<Rightarrow> (int \<times> 'a sa_world_scheme) outcome" where
  "fail e w = Ret (- 1, w\<lparr>errno := e\<rparr>)"

text \<open>The disk behind \<open>f_devdata\<close>, and its strategy routine.\<close>

definition dip_of :: "devref option \<Rightarrow> efi_world \<Rightarrow> diskinfo option" where
  "dip_of d w = (case d of
       None \<Rightarrow> None
     | Some (Disk i) \<Rightarrow> if i < length (disklist w) then Some (disklist w ! i) else None
     | Some (Volume i) \<Rightarrow> if i < length (sr_volumes w) then sbv_diskinfo (sr_volumes w ! i) else None)"

definition dv_strategy :: "sr_ops \<Rightarrow> rw \<Rightarrow> devref option \<Rightarrow> efi_world \<Rightarrow> iblk strategy" where
  "dv_strategy ops rw d w blk sz buf ib = (case dip_of d w of None \<Rightarrow> Undef | Some dip \<Rightarrow> efistrategy ops dip rw blk sz buf ib)"

section \<open>Opening and closing\<close>

text \<open>
  \<open>devopen\<close> with the only device: the error, the name that is left, the file and the state. Also after an error
  \<open>f_dev\<close> is not NULL, it points behind the table.
\<close>

definition devopen :: "sr_ops \<Rightarrow> sa_file \<Rightarrow> string \<Rightarrow> efi_world \<Rightarrow> (int \<times> string \<times> sa_file \<times> efi_world) outcome" where
  "devopen ops f fname w =
     obind (efiopen ops fname \<lparr>f_devdata = f_data f, f_raw = has_flag FF_RAW f\<rparr> w) (\<lambda>(rc, file, d, w).
       let f = f\<lparr>f_data := f_devdata d, f_flags := (if f_raw d then f_flags f OR FF_RAW else f_flags f)\<rparr> in
       if rc = 0 then Ret (0, file, f\<lparr>f_dev := True\<rparr>, w)
       else Ret (rc, file, if has_flag FF_NODEV f then f else f\<lparr>f_dev := True\<rparr>, w))"

definition oopen :: "sr_ops \<Rightarrow> (nat \<Rightarrow> u8 list) \<Rightarrow> string \<Rightarrow> int \<Rightarrow> 'a sa_world_scheme \<Rightarrow> (int \<times> 'a sa_world_scheme) outcome" where
  "oopen ops mem fname mode w =
     (case find_index (\<lambda>f. f_flags f = 0) (files w) of
        None \<Rightarrow> fail EMFILE w
      | Some fd \<Rightarrow>
          obind (devopen ops ((files w ! fd)\<lparr>f_flags := word_of_int (mode + 1), f_dev := False, f_ops := False\<rparr>) fname (efi_of w)) (\<lambda>(e, file, f, ew).
            let w = w\<lparr>efi_of := ew\<rparr> in
            if e \<noteq> 0 \<or> \<not> has_flag FF_NODEV f \<and> \<not> f_dev f then fail e (set_file fd (f\<lparr>f_flags := 0\<rparr>) w)
            else if file = [] then Ret (int fd, set_file fd (f\<lparr>f_flags := f_flags f OR FF_RAW\<rparr>) w)
            else obind (ufs_open (dv_strategy ops F_READ (f_data f) ew) mem file (iblk_of w)) (\<lambda>(r, ib).
              let w = w\<lparr>iblk_of := ib\<rparr> in
              case r of
                Inr fp \<Rightarrow> Ret (int fd, set_file fd (f\<lparr>f_fsdata := Some fp, f_ops := True\<rparr>) w)
              | Inl e \<Rightarrow> fail e (set_file fd (f\<lparr>f_fsdata := None, f_data := None, f_flags := 0\<rparr>) w))))"

text \<open>Closing the file and the device cannot fail, \<open>ufs_close\<close> and \<open>eficlose\<close> return 0.\<close>

definition oclose :: "int \<Rightarrow> 'a sa_world_scheme \<Rightarrow> int \<times> 'a sa_world_scheme" where
  "oclose fd w =
     (case the_file fd (\<lambda>f. f_flags f \<noteq> 0) w of
        None \<Rightarrow> (- 1, w\<lparr>errno := EBADF\<rparr>)
      | Some f \<Rightarrow>
          let (err1, fsd) = (if \<not> has_flag FF_RAW f \<and> f_ops f then ufs_close (f_fsdata f) else (0, f_fsdata f));
              (err2, dd) = (if \<not> has_flag FF_NODEV f \<and> f_dev f then (0, None) else (0 :: int, f_data f));
              w = set_file (nat fd) (f\<lparr>f_fsdata := fsd, f_data := dd, f_flags := 0\<rparr>) w in
          if err1 \<noteq> 0 then (- 1, w\<lparr>errno := err1\<rparr>) else if err2 \<noteq> 0 then (- 1, w\<lparr>errno := err2\<rparr>) else (0, w))"

section \<open>Reading and seeking\<close>

text \<open>
  The memory at \<open>dest\<close> is given and returned as a list of \<open>bcount\<close> bytes. The result of the strategy routine goes
  to the same variable \<open>resid\<close>, which is then the number of bytes read.
\<close>

definition oread :: "sr_ops \<Rightarrow> (nat \<Rightarrow> u8 list) \<Rightarrow> int \<Rightarrow> u8 list \<Rightarrow> 'a sa_world_scheme \<Rightarrow> (int \<times> u8 list \<times> 'a sa_world_scheme) outcome" where
  "oread ops mem fd dest w =
     (case the_file fd (has_flag FF_READ) w of
        None \<Rightarrow> Ret (- 1, dest, w\<lparr>errno := EBADF\<rparr>)
      | Some f \<Rightarrow>
          if has_flag FF_RAW f then
            obind (dv_strategy ops F_READ (f_data f) (efi_of w) (word_of_int (drop_bit 9 (f_offset f))) (of_nat (length dest)) dest (iblk_of w)) (\<lambda>(e, dest, rs, ib).
              let w = w\<lparr>errno := e, iblk_of := ib\<rparr> in
              if e \<noteq> 0 then Ret (- 1, dest, w)
              else Ret (sint rs, dest, set_file (nat fd) (f\<lparr>f_offset := i64 (f_offset f + sint rs)\<rparr>) w))
          else case f_fsdata f of
            None \<Rightarrow> Undef
          | Some fp \<Rightarrow>
              if \<not> f_ops f then Undef
              else obind (ufs_read (dv_strategy ops F_READ (f_data f) (efi_of w)) mem (length dest) fp (iblk_of w)) (\<lambda>(rc, ds, resid, fp, ib).
                let w = set_file (nat fd) (f\<lparr>f_fsdata := Some fp\<rparr>) (w\<lparr>errno := rc, iblk_of := ib\<rparr>) in
                Ret (if rc \<noteq> 0 then - 1 else int (length dest) - int resid, overlay dest 0 ds, w)))"

definition olseek :: "int \<Rightarrow> int \<Rightarrow> whence \<Rightarrow> 'a sa_world_scheme \<Rightarrow> (int \<times> 'a sa_world_scheme) outcome" where
  "olseek fd offset wh w =
     (case the_file fd (\<lambda>f. f_flags f \<noteq> 0) w of
        None \<Rightarrow> fail EBADF w
      | Some f \<Rightarrow>
          if has_flag FF_RAW f then
            (case wh of
               SEEK_SET \<Rightarrow> Ret (offset, set_file (nat fd) (f\<lparr>f_offset := offset\<rparr>) w)
             | SEEK_CUR \<Rightarrow> let p = f_offset f + offset in
                 if i64 p = p then Ret (p, set_file (nat fd) (f\<lparr>f_offset := p\<rparr>) w) else Undef
             | SEEK_END \<Rightarrow> fail EOFFSET w)
          else case f_fsdata f of
            None \<Rightarrow> Undef
          | Some fp \<Rightarrow>
              if \<not> f_ops f then Undef
              else obind (ufs_seek offset wh fp) (\<lambda>(p, fp). Ret (p, set_file (nat fd) (f\<lparr>f_fsdata := Some fp\<rparr>) w)))"

section \<open>Attributes and directories\<close>

text \<open>The attributes are filled in only when the file system was asked; the result is 0 whatever it returned.\<close>

type_synonym stat_buf = "u32 \<times> u32 \<times> u32 \<times> u64"

definition fstat :: "int \<Rightarrow> 'a sa_world_scheme \<Rightarrow> (int \<times> stat_buf option \<times> 'a sa_world_scheme) outcome" where
  "fstat fd w =
     (case the_file fd (\<lambda>f. f_flags f \<noteq> 0) w of
        None \<Rightarrow> Ret (- 1, None, w\<lparr>errno := EBADF\<rparr>)
      | Some f \<Rightarrow>
          if has_flag FF_RAW f then Ret (- 1, None, w\<lparr>errno := EOPNOTSUPP\<rparr>)
          else case f_fsdata f of
            None \<Rightarrow> Undef
          | Some fp \<Rightarrow> if \<not> f_ops f then Undef else Ret (0, Some (ufs_stat fp), w\<lparr>errno := 0\<rparr>))"

definition stat :: "sr_ops \<Rightarrow> (nat \<Rightarrow> u8 list) \<Rightarrow> string \<Rightarrow> 'a sa_world_scheme \<Rightarrow> (int \<times> stat_buf option \<times> 'a sa_world_scheme) outcome" where
  "stat ops mem str w =
     obind (oopen ops mem str 0 w) (\<lambda>(fd, w).
       if fd < 0 then Ret (- 1, None, w)
       else obind (fstat fd w) (\<lambda>(rv, sb, w). Ret (rv, sb, snd (oclose fd w))))"

text \<open>\<open>S_ISDIR\<close>; a \<open>stat\<close> that returns 0 has filled in the attributes.\<close>

definition opendir :: "sr_ops \<Rightarrow> (nat \<Rightarrow> u8 list) \<Rightarrow> string \<Rightarrow> 'a sa_world_scheme \<Rightarrow> (int \<times> 'a sa_world_scheme) outcome" where
  "opendir ops mem name w =
     obind (stat ops mem name w) (\<lambda>(rv, sb, w).
       if rv < 0 then Ret (- 1, w)
       else case sb of
         None \<Rightarrow> Undef
       | Some (mode, _, _, _) \<Rightarrow>
           if mode AND 0xF000 \<noteq> 0x4000 then fail ENOTDIR w
           else obind (oopen ops mem name 0 w) (\<lambda>(fd, w).
             if fd \<ge> 0 then obind (olseek fd 0 SEEK_SET w) (\<lambda>(_, w). Ret (fd, w)) else Ret (fd, w)))"

definition readdir :: "sr_ops \<Rightarrow> (nat \<Rightarrow> u8 list) \<Rightarrow> int \<Rightarrow> 'a sa_world_scheme \<Rightarrow> (int \<times> string \<times> 'a sa_world_scheme) outcome" where
  "readdir ops mem fd w =
     (case the_file fd (has_flag FF_READ) w of
        None \<Rightarrow> Ret (- 1, [], w\<lparr>errno := EBADF\<rparr>)
      | Some f \<Rightarrow>
          if has_flag FF_RAW f then Ret (- 1, [], w\<lparr>errno := EOPNOTSUPP\<rparr>)
          else case f_fsdata f of
            None \<Rightarrow> Undef
          | Some fp \<Rightarrow>
              if \<not> f_ops f then Undef
              else obind (ufs_readdir (dv_strategy ops F_READ (f_data f) (efi_of w)) mem fp (iblk_of w)) (\<lambda>(rc, name, fp, ib).
                let w = set_file (nat fd) (f\<lparr>f_fsdata := Some fp\<rparr>) (w\<lparr>errno := rc, iblk_of := ib\<rparr>) in
                Ret (if rc \<noteq> 0 then - 1 else 0, name, w)))"

definition closedir :: "int \<Rightarrow> 'a sa_world_scheme \<Rightarrow> 'a sa_world_scheme" where "closedir fd w = snd (oclose fd w)"

end
