(* ===== verification/Libsa_Cread.thy ===== *)
theory Libsa_Cread
  imports Libsa_File
begin

unbundle bit_operations_syntax

text \<open>
  Reading compressed files: \<open>sys/lib/libsa/cread.c\<close>, which puts \<open>open\<close>, \<open>close\<close>, \<open>read\<close> and \<open>lseek\<close> over the
  functions of \<open>Libsa_File\<close>, and \<open>closeall.c\<close>. The decompressor of zlib is a parameter; its input is the part of
  the buffer that is left, its output are the bytes it puts behind \<open>next_out\<close>. \<open>alloc\<close> does not return without
  memory, so the branches for that are left out. Loops that end with the input or with the decompressor are bounded by
  \<open>fuel\<close>, and running out of it is \<open>Hang\<close>; files that are not compressed do not use any.
\<close>

section \<open>Streams\<close>

definition Z_OK :: int where "Z_OK = 0"
definition Z_STREAM_END :: int where "Z_STREAM_END = 1"
definition Z_ERRNO :: int where "Z_ERRNO = - 1"
definition Z_DATA_ERROR :: int where "Z_DATA_ERROR = - 3"
definition Z_DEFLATED :: int where "Z_DEFLATED = 8"
definition Z_BUFSIZE :: nat where "Z_BUFSIZE = 4096"
definition Z_EOF :: int where "Z_EOF = - 1"
definition gz_magic :: "int list" where "gz_magic = [0x1f, 0x8b]"
definition HEAD_CRC :: int where "HEAD_CRC = 2"
definition EXTRA_FIELD :: int where "EXTRA_FIELD = 4"
definition ORIG_NAME :: int where "ORIG_NAME = 8"
definition COMMENT :: int where "COMMENT = 16"
definition RESERVED :: int where "RESERVED = 0xE0"
definition DUMMYBUFSIZE :: nat where "DUMMYBUFSIZE = 256"

text \<open>
  \<open>inflateInit2\<close> gives a code and a state; \<open>inflate\<close> on the input and the size of the output gives a code, the
  number of bytes used, the output and the state; \<open>inflateReset\<close> goes back to the start.
\<close>

record 'z zlib =
  inflateInit2 :: "int \<times> 'z"
  inflate :: "'z \<Rightarrow> u8 list \<Rightarrow> nat \<Rightarrow> int \<times> nat \<times> u8 list \<times> 'z"
  inflateReset :: "'z \<Rightarrow> 'z"
  crc32 :: "u64 \<Rightarrow> u8 list \<Rightarrow> u64"

text \<open>\<open>struct sd\<close>: \<open>next_in\<close> is a position in \<open>inbuf\<close>.\<close>

record 'z sd =
  z_state :: 'z
  next_in :: nat
  avail_in :: u32
  total_in :: int
  total_out :: int
  z_err :: int
  z_eof :: bool
  sd_fd :: int
  inbuf :: "u8 list"
  crc :: u64
  transparent :: bool

record 'z c_world = sa_world +
  ss :: "'z sd option list"

definition set_ss :: "int \<Rightarrow> 'z sd \<Rightarrow> 'z c_world \<Rightarrow> 'z c_world" where
  "set_ss fd s w = w\<lparr>ss := (ss w)[nat fd := Some s]\<rparr>"

section \<open>The header\<close>

text \<open>
  \<open>avail_in\<close> is unsigned: an error, -1, is not taken for the end of the input but for as many bytes as fit in 32
  bits.
\<close>

definition get_byte :: "sr_ops \<Rightarrow> (nat \<Rightarrow> u8 list) \<Rightarrow> 'z sd \<Rightarrow> 'a sa_world_scheme \<Rightarrow> (int \<times> 'z sd \<times> 'a sa_world_scheme) outcome" where
  "get_byte ops mem s w =
     (if z_eof s then Ret (Z_EOF, s, w)
      else obind (if avail_in s = 0 then
             obind (oread ops mem (sd_fd s) (inbuf s) (w\<lparr>errno := 0\<rparr>)) (\<lambda>(n, b, w).
               let s = s\<lparr>inbuf := b, avail_in := word_of_int n\<rparr> in
               if avail_in s = 0 then Ret (True, s\<lparr>z_eof := True, z_err := (if errno w \<noteq> 0 then Z_ERRNO else z_err s)\<rparr>, w)
               else Ret (False, s\<lparr>next_in := 0\<rparr>, w))
           else Ret (False, s, w)) (\<lambda>(eof, s, w).
        if eof then Ret (Z_EOF, s, w)
        else obind (aget (inbuf s) (next_in s)) (\<lambda>b.
          Ret (uint b, s\<lparr>avail_in := avail_in s - 1, next_in := next_in s + 1\<rparr>, w))))"

fun skip_bytes :: "sr_ops \<Rightarrow> (nat \<Rightarrow> u8 list) \<Rightarrow> nat \<Rightarrow> 'z sd \<Rightarrow> 'a sa_world_scheme \<Rightarrow> ('z sd \<times> 'a sa_world_scheme) outcome" where
  "skip_bytes ops mem 0 s w = Ret (s, w)"
| "skip_bytes ops mem (Suc n) s w = obind (get_byte ops mem s w) (\<lambda>(c, s, w). skip_bytes ops mem n s w)"

fun skip_extra :: "sr_ops \<Rightarrow> (nat \<Rightarrow> u8 list) \<Rightarrow> nat \<Rightarrow> 'z sd \<Rightarrow> 'a sa_world_scheme \<Rightarrow> ('z sd \<times> 'a sa_world_scheme) outcome" where
  "skip_extra ops mem 0 s w = Ret (s, w)"
| "skip_extra ops mem (Suc n) s w = obind (get_byte ops mem s w) (\<lambda>(c, s, w). if c = Z_EOF then Ret (s, w) else skip_extra ops mem n s w)"

fun skip_text :: "sr_ops \<Rightarrow> (nat \<Rightarrow> u8 list) \<Rightarrow> nat \<Rightarrow> 'z sd \<Rightarrow> 'a sa_world_scheme \<Rightarrow> ('z sd \<times> 'a sa_world_scheme) outcome" where
  "skip_text ops mem 0 s w = Hang"
| "skip_text ops mem (Suc fuel) s w =
     obind (get_byte ops mem s w) (\<lambda>(c, s, w). if c = 0 \<or> c = Z_EOF then Ret (s, w) else skip_text ops mem fuel s w)"

text \<open>\<open>getLong\<close>: an end of the input adds -1 at its place.\<close>

definition getLong :: "sr_ops \<Rightarrow> (nat \<Rightarrow> u8 list) \<Rightarrow> 'z sd \<Rightarrow> 'a sa_world_scheme \<Rightarrow> (u64 \<times> 'z sd \<times> 'a sa_world_scheme) outcome" where
  "getLong ops mem s w =
     obind (get_byte ops mem s w) (\<lambda>(c0, s, w). obind (get_byte ops mem s w) (\<lambda>(c1, s, w).
     obind (get_byte ops mem s w) (\<lambda>(c2, s, w). obind (get_byte ops mem s w) (\<lambda>(c3, s, w).
       Ret (word_of_int c0 + push_bit 8 (word_of_int c1) + push_bit 16 (word_of_int c2) + push_bit 24 (word_of_int c3),
         if c3 = Z_EOF then s\<lparr>z_err := Z_DATA_ERROR\<rparr> else s, w)))))"

text \<open>Giving back a byte; before the start of the buffer there is none.\<close>

definition unget :: "'z sd \<Rightarrow> 'z sd outcome" where
  "unget s = (if next_in s = 0 then Undef else Ret (s\<lparr>avail_in := avail_in s + 1, next_in := next_in s - 1\<rparr>))"

text \<open>The two magic bytes; the result says whether both were found.\<close>

fun check_magic :: "sr_ops \<Rightarrow> (nat \<Rightarrow> u8 list) \<Rightarrow> int list \<Rightarrow> bool \<Rightarrow> 'z sd \<Rightarrow> 'a sa_world_scheme \<Rightarrow>
    (bool \<times> 'z sd \<times> 'a sa_world_scheme) outcome" where
  "check_magic ops mem [] later s w = Ret (True, s, w)"
| "check_magic ops mem (m # ms) later s w =
     obind (get_byte ops mem s w) (\<lambda>(c, s, w).
       if c \<noteq> m then
         obind (if later then unget s else Ret s) (\<lambda>s.
         obind (if c \<noteq> Z_EOF then obind (unget s) (\<lambda>s. Ret (s\<lparr>transparent := True\<rparr>)) else Ret s) (\<lambda>s.
           Ret (False, s\<lparr>z_err := (if avail_in s \<noteq> 0 then Z_OK else Z_STREAM_END)\<rparr>, w)))
       else check_magic ops mem ms True s w)"

definition check_header :: "sr_ops \<Rightarrow> (nat \<Rightarrow> u8 list) \<Rightarrow> nat \<Rightarrow> 'z sd \<Rightarrow> 'a sa_world_scheme \<Rightarrow> ('z sd \<times> 'a sa_world_scheme) outcome" where
  "check_header ops mem fuel s w =
     obind (check_magic ops mem gz_magic False s w) (\<lambda>(found, s, w).
       if \<not> found then Ret (s, w)
       else obind (get_byte ops mem s w) (\<lambda>(meth, s, w). obind (get_byte ops mem s w) (\<lambda>(flgs, s, w).
         if meth \<noteq> Z_DEFLATED \<or> flgs AND RESERVED \<noteq> 0 then Ret (s\<lparr>z_err := Z_DATA_ERROR\<rparr>, w)
         else obind (skip_bytes ops mem 6 s w) (\<lambda>(s, w).
           obind (if flgs AND EXTRA_FIELD \<noteq> 0 then
                    obind (get_byte ops mem s w) (\<lambda>(c0, s, w). obind (get_byte ops mem s w) (\<lambda>(c1, s, w).
                      skip_extra ops mem (unat (word_of_int c0 + push_bit 8 (word_of_int c1) :: u32)) s w))
                  else Ret (s, w)) (\<lambda>(s, w).
           obind (if flgs AND ORIG_NAME \<noteq> 0 then skip_text ops mem fuel s w else Ret (s, w)) (\<lambda>(s, w).
           obind (if flgs AND COMMENT \<noteq> 0 then skip_text ops mem fuel s w else Ret (s, w)) (\<lambda>(s, w).
           obind (if flgs AND HEAD_CRC \<noteq> 0 then skip_bytes ops mem 2 s w else Ret (s, w)) (\<lambda>(s, w).
             Ret (s\<lparr>z_err := (if z_eof s then Z_DATA_ERROR else Z_OK)\<rparr>, w)))))))))"

section \<open>The functions programs call\<close>

definition new_sd :: "'z zlib \<Rightarrow> u8 list \<Rightarrow> int \<Rightarrow> 'z sd" where
  "new_sd z b fd = \<lparr>z_state = snd (inflateInit2 z), next_in = 0, avail_in = 0, total_in = 0, total_out = 0, z_err = Z_OK,
     z_eof = False, sd_fd = fd, inbuf = b, crc = 0, transparent = False\<rparr>"

definition sa_open :: "'z zlib \<Rightarrow> sr_ops \<Rightarrow> (nat \<Rightarrow> u8 list) \<Rightarrow> nat \<Rightarrow> string \<Rightarrow> int \<Rightarrow> 'z c_world \<Rightarrow> (int \<times> 'z c_world) outcome" where
  "sa_open z ops mem fuel fname mode w =
     obind (oopen ops mem fname mode w) (\<lambda>(fd, w).
       if fd = - 1 \<or> mode \<noteq> 0 then Ret (fd, w)
       else
         let s = new_sd z (mem Z_BUFSIZE) fd in
         if fst (inflateInit2 z) \<noteq> Z_OK then Ret (- 1, snd (oclose fd (set_ss fd s w)))
         else obind (check_header ops mem fuel s w) (\<lambda>(s, w). Ret (fd, set_ss fd s w)))"

text \<open>The stream is freed when there is one; the entry of \<open>ss\<close> keeps its pointer.\<close>

definition sa_close :: "int \<Rightarrow> 'z c_world \<Rightarrow> int \<times> 'z c_world" where
  "sa_close fd w =
     (if fd < 0 \<or> SOPEN_MAX \<le> nat fd then (- 1, w\<lparr>errno := EBADF\<rparr>) else oclose fd w)"

fun close_from :: "nat \<Rightarrow> 'z c_world \<Rightarrow> 'z c_world" where
  "close_from 0 w = w"
| "close_from (Suc n) w =
     (let i = SOPEN_MAX - Suc n; w = (if f_flags (files w ! i) \<noteq> 0 then snd (sa_close (int i) w) else w) in close_from n w)"

definition closeall :: "'z c_world \<Rightarrow> 'z c_world" where "closeall w = close_from SOPEN_MAX w"

text \<open>
  The end of \<open>read\<close>: \<open>buf\<close> is the memory at the destination, \<open>filled\<close> the number of bytes in it, of which the first
  \<open>start\<close> are part of the checksum already, \<open>room\<close> is \<open>avail_out\<close>.
\<close>

definition read_end :: "'z zlib \<Rightarrow> u8 list \<Rightarrow> nat \<Rightarrow> nat \<Rightarrow> u32 \<Rightarrow> 'z sd \<Rightarrow> 'z c_world \<Rightarrow> (int \<times> u8 list \<times> 'z sd \<times> 'z c_world) outcome" where
  "read_end z buf filled start room s w =
     Ret (i32 (int (length buf) - uint room), buf, s\<lparr>crc := crc32 z (crc s) (drop start (take filled buf))\<rparr>, w)"

text \<open>A file that is not compressed: first the bytes in the stream's buffer, then the rest directly.\<close>

definition read_plain :: "'z zlib \<Rightarrow> sr_ops \<Rightarrow> (nat \<Rightarrow> u8 list) \<Rightarrow> int \<Rightarrow> u8 list \<Rightarrow> nat \<Rightarrow> nat \<Rightarrow> u32 \<Rightarrow> 'z sd \<Rightarrow> 'z c_world \<Rightarrow>
    (int \<times> u8 list \<times> 'z sd \<times> 'z c_world) outcome" where
  "read_plain z ops mem fd buf filled start room s w =
     (let n = min (unat (avail_in s)) (unat room) in
      obind (obj_bytes (inbuf s) (next_in s) n) (\<lambda>look. obind (put_bytes buf filled look) (\<lambda>buf.
        let s = s\<lparr>next_in := next_in s + n, avail_in := avail_in s - of_nat n\<rparr>; filled = filled + n; room = room - of_nat n in
        obind (if room > 0 then
               obind (oread ops mem fd (bytes_at filled (unat room) buf) w) (\<lambda>(r, d, w).
                 let n = i32 r; s = (if n \<le> 0 then s\<lparr>z_eof := True\<rparr> else s) in
                 if n \<le> 0 \<and> errno w \<noteq> 0 then Ret (True, overlay buf filled d, room, s\<lparr>z_err := Z_ERRNO\<rparr>, w)
                 else Ret (False, overlay buf filled d, room - word_of_int n, s, w))
             else Ret (False, buf, room, s, w)) (\<lambda>(brk, buf, room, s, w).
          if brk then read_end z buf filled start room s w
          else
            let len = int (length buf) - uint room in
            Ret (i32 len, buf, s\<lparr>total_in := i64 (total_in s + len), total_out := i64 (total_out s + len), z_eof := (len = 0 \<or> z_eof s)\<rparr>, w)))))"

text \<open>The end of a compressed part: its checksum, its length, and perhaps another part behind it.\<close>

definition next_member :: "'z zlib \<Rightarrow> sr_ops \<Rightarrow> (nat \<Rightarrow> u8 list) \<Rightarrow> nat \<Rightarrow> u8 list \<Rightarrow> 'z sd \<Rightarrow> 'z c_world \<Rightarrow> ('z sd \<times> 'z c_world) outcome" where
  "next_member z ops mem fuel d s w =
     obind (getLong ops mem (s\<lparr>crc := crc32 z (crc s) d\<rparr>) w) (\<lambda>(x, s, w).
       if x \<noteq> crc s then Ret (s\<lparr>z_err := Z_DATA_ERROR\<rparr>, w)
       else obind (getLong ops mem s w) (\<lambda>(x, s, w). obind (check_header ops mem fuel s w) (\<lambda>(s, w).
         Ret (if z_err s = Z_OK then s\<lparr>z_state := inflateReset z (z_state s), crc := crc32 z 0 []\<rparr> else s, w))))"

definition refill :: "sr_ops \<Rightarrow> (nat \<Rightarrow> u8 list) \<Rightarrow> int \<Rightarrow> 'z sd \<Rightarrow> 'z c_world \<Rightarrow> (bool \<times> 'z sd \<times> 'z c_world) outcome" where
  "refill ops mem fd s w =
     (if avail_in s = 0 \<and> \<not> z_eof s then
        obind (oread ops mem fd (inbuf s) (w\<lparr>errno := 0\<rparr>)) (\<lambda>(n, b, w).
          let s = s\<lparr>inbuf := b, avail_in := word_of_int n\<rparr> in
          if avail_in s = 0 \<and> errno w \<noteq> 0 then Ret (True, s\<lparr>z_eof := True, z_err := Z_ERRNO\<rparr>, w)
          else Ret (False, s\<lparr>z_eof := (avail_in s = 0), next_in := 0\<rparr>, w))
      else Ret (False, s, w))"

function read_loop :: "'z zlib \<Rightarrow> sr_ops \<Rightarrow> (nat \<Rightarrow> u8 list) \<Rightarrow> nat \<Rightarrow> int \<Rightarrow> u8 list \<Rightarrow> nat \<Rightarrow> nat \<Rightarrow> u32 \<Rightarrow> 'z sd \<Rightarrow> 'z c_world \<Rightarrow>
    (int \<times> u8 list \<times> 'z sd \<times> 'z c_world) outcome" where
  "read_loop z ops mem fuel fd buf filled start room s w =
     (if room = 0 then read_end z buf filled start room s w
      else if transparent s then read_plain z ops mem fd buf filled start room s w
      else case fuel of 0 \<Rightarrow> Hang | Suc fuel' \<Rightarrow>
        obind (refill ops mem fd s w) (\<lambda>(brk, s, w).
          if brk then read_end z buf filled start room s w
          else obind (obj_bytes (inbuf s) (next_in s) (unat (avail_in s))) (\<lambda>input.
            let (code, used, d, zs) = inflate z (z_state s) input (unat room) in
            obind (put_bytes buf filled d) (\<lambda>buf.
              let s = s\<lparr>z_state := zs, next_in := next_in s + used, avail_in := avail_in s - of_nat used,
                        total_in := total_in s + int used, total_out := total_out s + int (length d), z_err := code\<rparr>;
                  filled = filled + length d; room = room - of_nat (length d) in
              obind (if code = Z_STREAM_END
                     then obind (next_member z ops mem fuel' (drop start (take filled buf)) s w) (\<lambda>(s, w). Ret (filled, s, w))
                     else Ret (start, s, w)) (\<lambda>(start, s, w).
                if z_err s \<noteq> Z_OK \<or> z_eof s then read_end z buf filled start room s w
                else read_loop z ops mem fuel' fd buf filled start room s w)))))"
  by pat_completeness auto
termination by (relation "measure (\<lambda>(_, _, _, fuel, _). fuel)") auto

declare read_loop.simps [simp del]

text \<open>The descriptor is not checked; a NULL in \<open>ss\<close> is followed.\<close>

definition sa_read :: "'z zlib \<Rightarrow> sr_ops \<Rightarrow> (nat \<Rightarrow> u8 list) \<Rightarrow> nat \<Rightarrow> int \<Rightarrow> u8 list \<Rightarrow> 'z c_world \<Rightarrow> (int \<times> u8 list \<times> 'z c_world) outcome" where
  "sa_read z ops mem fuel fd buf w =
     (if fd < 0 then Undef
      else obind (aget (ss w) (nat fd)) (\<lambda>so. case so of
          None \<Rightarrow> Undef
        | Some s \<Rightarrow>
            if z_err s = Z_DATA_ERROR \<or> z_err s = Z_ERRNO then Ret (- 1, buf, w)
            else if z_err s = Z_STREAM_END then Ret (0, buf, w)
            else obind (read_loop z ops mem fuel fd buf 0 0 (of_nat (length buf)) s w) (\<lambda>(n, buf, s, w). Ret (n, buf, set_ss fd s w))))"

text \<open>Forward in a compressed file: what is read goes to \<open>dummybuf\<close>, whose contents are \<open>mem 256\<close>.\<close>

function skip_forward :: "'z zlib \<Rightarrow> sr_ops \<Rightarrow> (nat \<Rightarrow> u8 list) \<Rightarrow> nat \<Rightarrow> int \<Rightarrow> nat \<Rightarrow> 'z c_world \<Rightarrow> (bool \<times> 'z c_world) outcome" where
  "skip_forward z ops mem fuel fd toskip w =
     (if toskip = 0 then Ret (True, w)
      else
        let len = min toskip DUMMYBUFSIZE in
        obind (sa_read z ops mem fuel fd (take len (mem DUMMYBUFSIZE)) w) (\<lambda>(n, b, w).
          if n \<noteq> int len then Ret (False, w\<lparr>errno := EOFFSET\<rparr>) else skip_forward z ops mem fuel fd (toskip - len) w))"
  by pat_completeness auto
termination by (relation "measure (\<lambda>(_, _, _, _, _, n, _). n)") (auto simp: DUMMYBUFSIZE_def)

declare skip_forward.simps [simp del]

text \<open>Seeking back in a compressed file starts again from its beginning.\<close>

definition seek_packed :: "'z zlib \<Rightarrow> sr_ops \<Rightarrow> (nat \<Rightarrow> u8 list) \<Rightarrow> nat \<Rightarrow> int \<Rightarrow> int \<Rightarrow> 'z sd \<Rightarrow> 'z c_world \<Rightarrow> (int \<times> 'z c_world) outcome" where
  "seek_packed z ops mem fuel fd offset s w =
     obind (if offset < total_out s then
            obind (olseek fd 0 SEEK_SET w) (\<lambda>(res, w).
              if res = - 1 then Ret (Some res, s, w)
              else obind (check_header ops mem fuel (new_sd z (inbuf s) fd) w) (\<lambda>(s, w). Ret (None, s, set_ss fd s w)))
          else Ret (None, s, w)) (\<lambda>(r, s, w). case r of
        Some res \<Rightarrow> Ret (res, w)
      | None \<Rightarrow>
          obind (skip_forward z ops mem fuel fd (nat (offset - total_out s)) w) (\<lambda>(ok, w). Ret (if ok then offset else - 1, w)))"

definition sa_lseek :: "'z zlib \<Rightarrow> sr_ops \<Rightarrow> (nat \<Rightarrow> u8 list) \<Rightarrow> nat \<Rightarrow> int \<Rightarrow> int \<Rightarrow> whence \<Rightarrow> 'z c_world \<Rightarrow> (int \<times> 'z c_world) outcome" where
  "sa_lseek z ops mem fuel fd offset wh w =
     (if fd < 0 \<or> SOPEN_MAX \<le> nat fd then fail EBADF w
      else if \<not> has_flag FF_READ (files w ! nat fd) then olseek fd offset wh w
      else obind (aget (ss w) (nat fd)) (\<lambda>so. case so of
          None \<Rightarrow> Undef
        | Some s \<Rightarrow>
            if transparent s then
              obind (olseek fd offset wh w) (\<lambda>(res, w).
                Ret (res, if res \<noteq> - 1 then set_ss fd (s\<lparr>avail_in := 0\<rparr>) w else w))
            else case wh of
              SEEK_CUR \<Rightarrow> let p = offset + total_out s in if i64 p = p then seek_packed z ops mem fuel fd p s w else Undef
            | SEEK_SET \<Rightarrow> seek_packed z ops mem fuel fd offset s w
            | SEEK_END \<Rightarrow> fail EOFFSET w))"

section \<open>Errors\<close>

text \<open>
  C35: An error while the stream's buffer is filled is taken for data. When \<open>oread\<close> fails, \<open>get_byte\<close> returns the first byte
  that happens to be in the buffer, and the stream believes to have 4294967294 more.
\<close>

theorem get_byte_takes_error_for_data:
  assumes "\<not> z_eof s" "avail_in s = 0" and r: "oread ops mem (sd_fd s) (inbuf s) (w\<lparr>errno := 0\<rparr>) = Ret (- 1, b, w')" "b \<noteq> []"
  shows "get_byte ops mem s w = Ret (uint (hd b), s\<lparr>inbuf := b, next_in := 1, avail_in := 4294967294\<rparr>, w')"
  using assms by (simp add: get_byte_def aget_def hd_conv_nth Let_def)

definition lost0 :: sa_world where
  "lost0 = \<lparr>files = replicate SOPEN_MAX closed_file, errno = 0,
     efi_of = \<lparr>disklist = [], sr_volumes = [], bootdev_dip = None, bios_bootdev = 0\<rparr>, iblk_of = No_iblk\<rparr>"

definition sd0 :: "unit sd" where
  "sd0 = \<lparr>z_state = (), next_in = 0, avail_in = 0, total_in = 0, total_out = 0, z_err = Z_OK, z_eof = False, sd_fd = 1, inbuf = [42, 43],
     crc = 0, transparent = False\<rparr>"

definition sr0 :: sr_ops where
  "sr0 = \<lparr>sr_crypto_decrypt_keys = (\<lambda>bv. (1, bv)), sr_getdisklabel = (\<lambda>bv l. (None, l)), sr_strategy = (\<lambda>i rw blk sz buf. Undef)\<rparr>"

theorem get_byte_takes_error_for_data_witness:
  "\<exists>s w. get_byte sr0 (\<lambda>n. replicate n 0) sd0 lost0 = Ret (42, s, w) \<and> avail_in s = 4294967294 \<and> errno w = EBADF"
proof -
  have "oread sr0 (\<lambda>n. replicate n 0) (sd_fd sd0) (inbuf sd0) (lost0\<lparr>errno := 0\<rparr>) = Ret (- 1, [42, 43], lost0\<lparr>errno := EBADF\<rparr>)"
    by (simp add: oread_def the_file_def sd0_def lost0_def SOPEN_MAX_def closed_file_def has_flag_def)
  from get_byte_takes_error_for_data [OF _ _ this] show ?thesis by (simp add: sd0_def)
qed

end
