(* ===== verification/Libsa_Load.thy ===== *)
theory Libsa_Load
  imports Libsa_Cread
begin

unbundle bit_operations_syntax

text \<open>
  Loading a kernel: \<open>loadfile.c\<close> and \<open>loadfile_elf.c\<close> of \<open>sys/lib/libsa\<close>, the latter compiled for both classes
  of ELF files, with the macros of \<open>loadfile_machdep.h\<close> for amd64. The headers of both classes are decoded to the
  same records of 64-bit numbers; what differs is in \<open>elf_class\<close>. Memory is a function from physical addresses to
  bytes, and is apart from the variables and buffers of the boot program. \<open>read\<close> and \<open>lseek\<close> on the open file are
  arguments of \<open>elf_exec\<close>; \<open>loadfile\<close> gives it those of \<open>cread.c\<close>. The text printed on the way is left out.
\<close>

section \<open>Headers\<close>

text \<open>Sizes of an address and of the three headers, and the positions of their fields.\<close>

record elf_class =
  c_addr :: nat
  c_ehdr :: nat
  c_phdr :: nat
  c_shdr :: nat
  c_e_phoff :: nat
  c_e_shoff :: nat
  c_e_phentsize :: nat
  c_p_offset :: nat
  c_p_paddr :: nat
  c_p_filesz :: nat
  c_p_memsz :: nat
  c_p_flags :: nat
  c_sh_offset :: nat
  c_sh_size :: nat

definition elf32 :: elf_class where
  "elf32 = \<lparr>c_addr = 4, c_ehdr = 52, c_phdr = 32, c_shdr = 40, c_e_phoff = 28, c_e_shoff = 32, c_e_phentsize = 42, c_p_offset = 4,
     c_p_paddr = 12, c_p_filesz = 16, c_p_memsz = 20, c_p_flags = 24, c_sh_offset = 16, c_sh_size = 20\<rparr>"

definition elf64 :: elf_class where
  "elf64 = \<lparr>c_addr = 8, c_ehdr = 64, c_phdr = 56, c_shdr = 64, c_e_phoff = 32, c_e_shoff = 40, c_e_phentsize = 54, c_p_offset = 8,
     c_p_paddr = 24, c_p_filesz = 32, c_p_memsz = 40, c_p_flags = 4, c_sh_offset = 24, c_sh_size = 32\<rparr>"

definition getn :: "nat \<Rightarrow> nat \<Rightarrow> u8 list \<Rightarrow> u64" where "getn n off b = of_nat (le_dec (bytes_at off n b))"

record Elf_Ehdr =
  e_entry :: u64
  e_phoff :: u64
  e_shoff :: u64
  e_phnum :: nat
  e_shnum :: nat
  e_shstrndx :: nat

definition dec_ehdr :: "elf_class \<Rightarrow> u8 list \<Rightarrow> Elf_Ehdr" where
  "dec_ehdr c b =
     (let q = c_e_phentsize c; num = (\<lambda>off. le_dec (bytes_at off 2 b)) in
      \<lparr>e_entry = getn (c_addr c) 24 b, e_phoff = getn (c_addr c) (c_e_phoff c) b, e_shoff = getn (c_addr c) (c_e_shoff c) b,
       e_phnum = num (q + 2), e_shnum = num (q + 6), e_shstrndx = num (q + 8)\<rparr>)"

record Elf_Phdr =
  ph_type :: u64
  ph_flags :: u64
  ph_offset :: u64
  ph_paddr :: u64
  ph_filesz :: u64
  ph_memsz :: u64

definition dec_phdr :: "elf_class \<Rightarrow> u8 list \<Rightarrow> Elf_Phdr" where
  "dec_phdr c b = \<lparr>ph_type = getn 4 0 b, ph_flags = getn 4 (c_p_flags c) b, ph_offset = getn (c_addr c) (c_p_offset c) b,
     ph_paddr = getn (c_addr c) (c_p_paddr c) b, ph_filesz = getn (c_addr c) (c_p_filesz c) b, ph_memsz = getn (c_addr c) (c_p_memsz c) b\<rparr>"

record Elf_Shdr =
  sh_name :: u64
  sh_type :: u64
  sh_flags :: u64
  sh_offset :: u64
  sh_size :: u64

definition dec_shdr :: "elf_class \<Rightarrow> u8 list \<Rightarrow> Elf_Shdr" where
  "dec_shdr c b = \<lparr>sh_name = getn 4 0 b, sh_type = getn 4 4 b, sh_flags = getn (c_addr c) 8 b,
     sh_offset = getn (c_addr c) (c_sh_offset c) b, sh_size = getn (c_addr c) (c_sh_size c) b\<rparr>"

text \<open>The tables as arrays.\<close>

definition phdr_at :: "elf_class \<Rightarrow> u8 list \<Rightarrow> nat \<Rightarrow> Elf_Phdr" where
  "phdr_at c b i = dec_phdr c (bytes_at (i * c_phdr c) (c_phdr c) b)"

definition shdr_at :: "elf_class \<Rightarrow> u8 list \<Rightarrow> nat \<Rightarrow> Elf_Shdr" where
  "shdr_at c b i = dec_shdr c (bytes_at (i * c_shdr c) (c_shdr c) b)"

text \<open>A number of the width of an address, and \<open>roundup\<close>.\<close>

definition addr_wide :: "elf_class \<Rightarrow> u64 \<Rightarrow> u64" where "addr_wide c x = take_bit (8 * c_addr c) x"

definition roundup :: "u64 \<Rightarrow> u64 \<Rightarrow> u64" where "roundup x y = (x + (y - 1)) div y * y"

definition PT_LOAD :: u64 where "PT_LOAD = 1"
definition PT_OPENBSD_RANDOMIZE :: u64 where "PT_OPENBSD_RANDOMIZE = 0x65a3dbe6"
definition PF_X :: u64 where "PF_X = 1"
definition PF_W :: u64 where "PF_W = 2"
definition PF_R :: u64 where "PF_R = 4"
definition SHT_SYMTAB :: u64 where "SHT_SYMTAB = 2"
definition SHT_STRTAB :: u64 where "SHT_STRTAB = 3"
definition SHF_ALLOC :: u64 where "SHF_ALLOC = 2"

definition MARK_START :: nat where "MARK_START = 0"
definition MARK_ENTRY :: nat where "MARK_ENTRY = 1"
definition MARK_NSYM :: nat where "MARK_NSYM = 2"
definition MARK_SYM :: nat where "MARK_SYM = 3"
definition MARK_END :: nat where "MARK_END = 4"
definition MARK_RANDOM :: nat where "MARK_RANDOM = 5"
definition MARK_ERANDOM :: nat where "MARK_ERANDOM = 6"

definition LOAD_TEXT :: u32 where "LOAD_TEXT = 0x0001"
definition LOAD_DATA :: u32 where "LOAD_DATA = 0x0004"
definition LOAD_BSS :: u32 where "LOAD_BSS = 0x0008"
definition LOAD_SYM :: u32 where "LOAD_SYM = 0x0010"
definition LOAD_HDR :: u32 where "LOAD_HDR = 0x0020"
definition LOAD_RANDOM :: u32 where "LOAD_RANDOM = 0x0040"
definition LOAD_ALL :: u32 where "LOAD_ALL = 0x007d"
definition COUNT_TEXT :: u32 where "COUNT_TEXT = 0x0100"
definition COUNT_BSS :: u32 where "COUNT_BSS = 0x0800"
definition COUNT_SYM :: u32 where "COUNT_SYM = 0x1000"
definition COUNT_HDR :: u32 where "COUNT_HDR = 0x2000"
definition COUNT_RANDOM :: u32 where "COUNT_RANDOM = 0x4000"

definition asked :: "u32 \<Rightarrow> u32 \<Rightarrow> bool" where "asked flgs b \<longleftrightarrow> flgs AND b \<noteq> 0"

section \<open>Memory\<close>

type_synonym memory = "nat \<Rightarrow> u8"

definition LOADADDR :: "u64 \<Rightarrow> u64 \<Rightarrow> nat" where "LOADADDR offset a = unat ((a + offset) AND 0xfffffff)"

definition mem_get :: "memory \<Rightarrow> nat \<Rightarrow> nat \<Rightarrow> u8 list" where "mem_get m a n = map m [a..<a + n]"

definition mem_put :: "nat \<Rightarrow> u8 list \<Rightarrow> memory \<Rightarrow> memory" where
  "mem_put a bs m = (\<lambda>x. if a \<le> x \<and> x < a + length bs then bs ! (x - a) else m x)"

section \<open>Program headers\<close>

type_synonym 's reader = "u8 list \<Rightarrow> 's \<Rightarrow> (int \<times> u8 list \<times> 's) outcome"
type_synonym 's seeker = "int \<Rightarrow> 's \<Rightarrow> (int \<times> 's) outcome"

text \<open>\<open>lseek\<close>, then \<open>READ\<close> into memory; the result says whether both did what was asked.\<close>

definition load_at :: "'s reader \<Rightarrow> 's seeker \<Rightarrow> u64 \<Rightarrow> nat \<Rightarrow> u64 \<Rightarrow> memory \<Rightarrow> 's \<Rightarrow> (bool \<times> memory \<times> 's) outcome" where
  "load_at rd sk off a n m s =
     obind (sk (sint off) s) (\<lambda>(r, s).
       if r = - 1 then Ret (False, m, s)
       else obind (rd (mem_get m a (unat n)) s) (\<lambda>(k, b, s). Ret (word_of_int k = n, mem_put a b m, s)))"

text \<open>The same into memory of the boot program.\<close>

definition read_at :: "'s reader \<Rightarrow> 's seeker \<Rightarrow> u64 \<Rightarrow> u8 list \<Rightarrow> 's \<Rightarrow> (bool \<times> u8 list \<times> 's) outcome" where
  "read_at rd sk off buf s =
     obind (sk (sint off) s) (\<lambda>(r, s).
       if r = - 1 then Ret (False, buf, s)
       else obind (rd buf s) (\<lambda>(k, b, s). Ret (word_of_int k = (of_nat (length buf) :: u64), b, s)))"

text \<open>Filling a segment from the 512 bytes of \<open>rnddata\<close>, from \<open>pos\<close> on.\<close>

definition RNDSIZE :: nat where "RNDSIZE = 512"

function rnd_fill :: "u8 list \<Rightarrow> u64 \<Rightarrow> Elf_Phdr \<Rightarrow> nat \<Rightarrow> memory \<Rightarrow> memory" where
  "rnd_fill rnddata offset p pos m =
     (if pos < unat (ph_filesz p) then
        let k = min (unat (ph_filesz p) - pos) RNDSIZE in
        rnd_fill rnddata offset p (pos + k) (mem_put (LOADADDR offset (ph_paddr p + of_nat pos)) (take k rnddata) m)
      else m)"
  by pat_completeness auto
termination by (relation "measure (\<lambda>(_, _, p, pos, _). unat (ph_filesz p) - pos)") (auto simp: RNDSIZE_def)

declare rnd_fill.simps [simp del]

text \<open>The variables of the loop.\<close>

record ph_state =
  minp :: u64
  maxp :: u64
  pos_of :: u64
  marks_of :: "u64 list"
  mem_of :: memory

definition random_segment :: "u8 list \<Rightarrow> u32 \<Rightarrow> u64 \<Rightarrow> Elf_Phdr \<Rightarrow> ph_state \<Rightarrow> ph_state" where
  "random_segment rnddata flgs offset p l =
     (let l = (if asked flgs LOAD_RANDOM
               then l\<lparr>mem_of := rnd_fill rnddata offset p 0 (mem_of l), pos_of := ph_filesz p\<rparr> else l);
          a = of_nat (LOADADDR offset (ph_paddr p)) in
      if asked flgs (LOAD_RANDOM OR COUNT_RANDOM)
      then l\<lparr>marks_of := (marks_of l)[MARK_RANDOM := a, MARK_ERANDOM := a + ph_filesz p]\<rparr> else l)"

definition is_text :: "Elf_Phdr \<Rightarrow> bool" where "is_text p \<longleftrightarrow> ph_flags p AND PF_X \<noteq> 0"
definition is_bss :: "Elf_Phdr \<Rightarrow> bool" where "is_bss p \<longleftrightarrow> ph_filesz p < ph_memsz p"

text \<open>
  A loadable segment: reading it, counting it, and its zeroes. Data is counted when \<open>COUNT_TEXT\<close> asks for it, not
  \<open>COUNT_DATA\<close>.
\<close>

definition count_segment :: "u32 \<Rightarrow> Elf_Phdr \<Rightarrow> ph_state \<Rightarrow> ph_state" where
  "count_segment flgs p l =
     (if is_text p \<and> asked flgs (LOAD_TEXT OR COUNT_TEXT) \<or> \<not> is_text p \<and> asked flgs (LOAD_DATA OR COUNT_TEXT) then
        let pos = ph_paddr p; e = pos + ph_filesz p in
        l\<lparr>minp := (if minp l > pos then pos else minp l), maxp := (if maxp l < e then e else maxp l), pos_of := e\<rparr>
      else l)"

definition bss_segment :: "elf_class \<Rightarrow> u32 \<Rightarrow> u64 \<Rightarrow> Elf_Phdr \<Rightarrow> ph_state \<Rightarrow> ph_state" where
  "bss_segment c flgs offset p l =
     (let n = ph_memsz p - ph_filesz p;
          l = (if is_bss p \<and> asked flgs LOAD_BSS
               then l\<lparr>mem_of := mem_put (LOADADDR offset (addr_wide c (ph_paddr p + ph_filesz p))) (replicate (unat n) 0) (mem_of l)\<rparr> else l) in
      if is_bss p \<and> asked flgs (LOAD_BSS OR COUNT_BSS)
      then l\<lparr>pos_of := pos_of l + n, maxp := (if maxp l < pos_of l + n then pos_of l + n else maxp l)\<rparr> else l)"

definition load_segment :: "'s reader \<Rightarrow> 's seeker \<Rightarrow> elf_class \<Rightarrow> u32 \<Rightarrow> u64 \<Rightarrow> Elf_Phdr \<Rightarrow> ph_state \<Rightarrow> 's \<Rightarrow> (bool \<times> ph_state \<times> 's) outcome" where
  "load_segment rd sk c flgs offset p l s =
     obind (if is_text p \<and> asked flgs LOAD_TEXT \<or> \<not> is_text p \<and> asked flgs LOAD_DATA
            then obind (load_at rd sk (ph_offset p) (LOADADDR offset (ph_paddr p)) (ph_filesz p) (mem_of l) s) (\<lambda>(ok, m, s). Ret (ok, l\<lparr>mem_of := m\<rparr>, s))
            else Ret (True, l, s)) (\<lambda>(ok, l, s).
       if \<not> ok then Ret (False, l, s)
       else Ret (True, bss_segment c flgs offset p (count_segment flgs p l), s))"

fun ph_loop :: "'s reader \<Rightarrow> 's seeker \<Rightarrow> u8 list \<Rightarrow> elf_class \<Rightarrow> u32 \<Rightarrow> u64 \<Rightarrow> Elf_Phdr list \<Rightarrow> ph_state \<Rightarrow> 's \<Rightarrow> (bool \<times> ph_state \<times> 's) outcome" where
  "ph_loop rd sk rnddata c flgs offset [] l s = Ret (True, l, s)"
| "ph_loop rd sk rnddata c flgs offset (p # ps) l s =
     (if ph_type p = PT_OPENBSD_RANDOMIZE then ph_loop rd sk rnddata c flgs offset ps (random_segment rnddata flgs offset p l) s
      else if ph_type p \<noteq> PT_LOAD \<or> ph_flags p AND (PF_W OR PF_R OR PF_X) = 0 then ph_loop rd sk rnddata c flgs offset ps l s
      else obind (load_segment rd sk c flgs offset p l s) (\<lambda>(ok, l, s).
        if \<not> ok then Ret (False, l, s) else ph_loop rd sk rnddata c flgs offset ps l s))"

section \<open>Symbols\<close>

definition debug_line :: string where "debug_line = ''.debug_line''"

text \<open>The sections that are loaded; a name outside the table of names is not read when the type decides.\<close>

definition wanted :: "u8 list \<Rightarrow> Elf_Shdr \<Rightarrow> bool outcome" where
  "wanted shstr h =
     (if sh_type h = SHT_SYMTAB \<or> sh_type h = SHT_STRTAB then Ret True else name_at shstr (unat (sh_name h)) debug_line)"

text \<open>The entry of a section in the copy of the table: where it is now, and that it is loaded.\<close>

definition moved :: "elf_class \<Rightarrow> nat \<Rightarrow> u64 \<Rightarrow> u8 list \<Rightarrow> u8 list" where
  "moved c i off shp =
     (let q = i * c_shdr c; h = shdr_at c shp i in
      overlay (overlay shp (q + c_sh_offset c) (le_enc (c_addr c) (unat off))) (q + 8) (le_enc (c_addr c) (unat (sh_flags h OR SHF_ALLOC))))"

text \<open>The loop over the sections from \<open>i\<close> on; \<open>n\<close> are left. Its variables are \<open>shp\<close>, \<open>off\<close>, \<open>maxp\<close> and memory.\<close>

fun sh_loop :: "'s reader \<Rightarrow> 's seeker \<Rightarrow> elf_class \<Rightarrow> u32 \<Rightarrow> u64 \<Rightarrow> u8 list \<Rightarrow> bool \<Rightarrow> nat \<Rightarrow> nat \<Rightarrow> u8 list \<Rightarrow> u64 \<Rightarrow> u64 \<Rightarrow> memory \<Rightarrow> 's \<Rightarrow>
    (bool \<times> u8 list \<times> u64 \<times> memory \<times> 's) outcome" where
  "sh_loop rd sk c flgs offset shstr havesyms 0 i shp off mx m s = Ret (True, shp, mx, m, s)"
| "sh_loop rd sk c flgs offset shstr havesyms (Suc n) i shp off mx m s =
     (let h = shdr_at c shp i; z = roundup (sh_size h) (of_nat (c_addr c)) in
      obind (wanted shstr h) (\<lambda>want.
        if want then
          obind (if havesyms \<and> asked flgs LOAD_SYM then load_at rd sk (sh_offset h) (LOADADDR offset mx) (sh_size h) m s else Ret (True, m, s)) (\<lambda>(ok, m, s).
            if \<not> ok then Ret (False, shp, mx, m, s)
            else sh_loop rd sk c flgs offset shstr havesyms n (i + 1) (moved c i off shp) (addr_wide c (off + z)) (mx + z) m s)
        else sh_loop rd sk c flgs offset shstr havesyms n (i + 1) shp off mx m s))"

text \<open>The tables of sections and of their names, then the sections; \<open>al\<close> is the contents of allocated memory.\<close>

definition load_symbols :: "'s reader \<Rightarrow> 's seeker \<Rightarrow> (nat \<Rightarrow> u8 list) \<Rightarrow> elf_class \<Rightarrow> u32 \<Rightarrow> u64 \<Rightarrow> Elf_Ehdr \<Rightarrow> u64 \<Rightarrow> memory \<Rightarrow> 's \<Rightarrow>
    (bool \<times> u64 \<times> memory \<times> 's) outcome" where
  "load_symbols rd sk al c flgs offset e mx m s =
     (let sz = e_shnum e * c_shdr c in
      obind (read_at rd sk (e_shoff e) (al sz) s) (\<lambda>(ok, shp, s).
        if \<not> ok then Ret (False, mx, m, s)
        else if e_shnum e \<le> e_shstrndx e then Undef
        else
          let h = shdr_at c shp (e_shstrndx e); shpp = mx; mx = mx + roundup (of_nat sz) (of_nat (c_addr c)) in
          obind (read_at rd sk (sh_offset h) (al (unat (sh_size h))) s) (\<lambda>(ok, shstr, s).
            if \<not> ok then Ret (False, mx, m, s)
            else
              let off = addr_wide c (roundup (of_nat (c_ehdr c + sz)) (of_nat (c_addr c)));
                  havesyms = list_ex (\<lambda>i. sh_type (shdr_at c shp i) = SHT_SYMTAB) [0..<e_shnum e] in
              obind (sh_loop rd sk c flgs offset shstr havesyms (e_shnum e) 0 shp off mx m s) (\<lambda>(ok, shp, mx, m, s).
                if \<not> ok then Ret (False, mx, m, s)
                else Ret (True, mx, if asked flgs LOAD_SYM then mem_put (LOADADDR offset shpp) shp m else m, s)))))"

section \<open>The kernel\<close>

text \<open>The copy of the header names no program headers, and the section headers right behind it.\<close>

definition frob :: "elf_class \<Rightarrow> u8 list \<Rightarrow> u8 list" where
  "frob c elf =
     overlay (overlay (overlay elf (c_e_phoff c) (le_enc (c_addr c) 0)) (c_e_shoff c) (le_enc (c_addr c) (c_ehdr c)))
       (c_e_phentsize c) (replicate 4 0)"

definition elf_exec :: "'s reader \<Rightarrow> 's seeker \<Rightarrow> (nat \<Rightarrow> u8 list) \<Rightarrow> u8 list \<Rightarrow> elf_class \<Rightarrow> u8 list \<Rightarrow> u64 list \<Rightarrow> u32 \<Rightarrow> memory \<Rightarrow> 's \<Rightarrow>
    (int \<times> u64 list \<times> memory \<times> 's) outcome" where
  "elf_exec rd sk al rnddata c elf marks flgs m s =
     (let e = dec_ehdr c elf; offset = marks ! MARK_START in
      obind (read_at rd sk (e_phoff e) (al (e_phnum e * c_phdr c)) s) (\<lambda>(ok, ph, s).
        if \<not> ok then Ret (1, marks, m, s)
        else obind (ph_loop rd sk rnddata c flgs offset (map (phdr_at c ph) [0..<e_phnum e])
                     \<lparr>minp = - 1, maxp = 0, pos_of = 0, marks_of = marks, mem_of = m\<rparr> s) (\<lambda>(ok, l, s).
          if \<not> ok then Ret (1, marks_of l, mem_of l, s)
          else
            let elfp = roundup (maxp l) (of_nat (c_addr c));
                mx = (if asked flgs (LOAD_HDR OR COUNT_HDR) then elfp + of_nat (c_ehdr c) else elfp) in
            obind (if asked flgs (LOAD_SYM OR COUNT_SYM) then load_symbols rd sk al c flgs offset e mx (mem_of l) s
                   else Ret (True, mx, mem_of l, s)) (\<lambda>(ok, mx, m, s).
              if \<not> ok then Ret (1, marks_of l, m, s)
              else
                Ret (0, (marks_of l)[MARK_START := of_nat (LOADADDR offset (minp l)), MARK_ENTRY := of_nat (LOADADDR offset (e_entry e)),
                       MARK_NSYM := 1, MARK_SYM := of_nat (LOADADDR offset elfp), MARK_END := of_nat (LOADADDR offset mx)],
                     if asked flgs LOAD_HDR then mem_put (LOADADDR offset elfp) (take (c_ehdr c) (frob c elf)) m else m, s)))))"

definition ELFMAG :: "u8 list" where "ELFMAG = [0x7f, 0x45, 0x4c, 0x46]"
definition ELFCLASS32 :: u8 where "ELFCLASS32 = 1"
definition ELFCLASS64 :: u8 where "ELFCLASS64 = 2"
definition HDRSIZE :: nat where "HDRSIZE = 64"

text \<open>The class of a file by its first bytes.\<close>

definition class_of :: "u8 list \<Rightarrow> elf_class option" where
  "class_of hdr =
     (if take 4 hdr = ELFMAG \<and> hdr ! 4 = ELFCLASS32 then Some elf32
      else if take 4 hdr = ELFMAG \<and> hdr ! 4 = ELFCLASS64 then Some elf64 else None)"

text \<open>The descriptor or -1, the marks, memory and the state.\<close>

definition loadfile :: "'z zlib \<Rightarrow> sr_ops \<Rightarrow> (nat \<Rightarrow> u8 list) \<Rightarrow> nat \<Rightarrow> u8 list \<Rightarrow> string \<Rightarrow> u64 list \<Rightarrow> u32 \<Rightarrow> memory \<Rightarrow> 'z c_world \<Rightarrow>
    (int \<times> u64 list \<times> memory \<times> 'z c_world) outcome" where
  "loadfile z ops al fuel rnddata fname marks flgs m w =
     obind (sa_open z ops al fuel fname 0 w) (\<lambda>(fd, w).
       if fd < 0 then Ret (- 1, marks, m, w)
       else obind (sa_read z ops al fuel fd (al HDRSIZE) w) (\<lambda>(nr, hdr, w).
         if nr \<noteq> int HDRSIZE then Ret (- 1, marks, m, snd (sa_close fd w))
         else obind (case class_of hdr of
               Some c \<Rightarrow> elf_exec (sa_read z ops al fuel fd) (\<lambda>off. sa_lseek z ops al fuel fd off SEEK_SET) al rnddata c hdr marks flgs m w
             | None \<Rightarrow> Ret (1, marks, m, w\<lparr>errno := EFTYPE\<rparr>)) (\<lambda>(rval, marks, m, w).
           if rval = 0 then Ret (fd, marks, m, w) else Ret (- 1, marks, m, snd (sa_close fd w)))))"

end
