(* ===== verification/Elf_Image.thy ===== *)
theory Elf_Image
  imports Libsa_Load
begin

unbundle bit_operations_syntax

text \<open>
  What \<open>elf_exec\<close> puts into memory. The file is an interface, the locale \<open>seekable\<close>: a seek goes to a position and
  a read returns the bytes there. Every byte of memory below the symbols comes from the last program header that
  covers it; the symbols are found through the copies of the headers behind the kernel.
\<close>

section \<open>Addresses\<close>

text \<open>Memory in which the kernel lies: a window of 256 MB of its addresses, which starts at physical address 0.\<close>

definition in_window :: "nat \<Rightarrow> u64 \<Rightarrow> u64 \<Rightarrow> nat \<Rightarrow> bool" where
  "in_window base offset a n \<longleftrightarrow> base \<le> unat a + unat offset \<and> unat a + unat offset + n < base + 2 ^ 28"

definition window_ok :: "nat \<Rightarrow> u64 \<Rightarrow> bool" where
  "window_ok base offset \<longleftrightarrow> base mod 2 ^ 28 = 0 \<and> base + 2 ^ 28 \<le> 2 ^ 64"

definition place :: "nat \<Rightarrow> u64 \<Rightarrow> u64 \<Rightarrow> nat" where "place base offset a = unat a + unat offset - base"

lemma unat_and_mask: "unat ((x :: 'a::len word) AND mask k) = unat x mod 2 ^ k"
  by (metis take_bit_eq_mask take_bit_eq_mod unsigned_take_bit_eq)

lemma LOADADDR_mod: "LOADADDR offset a = (unat a + unat offset) mod 2 ^ 28"
proof -
  have k: "(0xfffffff :: u64) = mask 28" by (simp add: mask_eq_exp_minus_1)
  have "LOADADDR offset a = unat (a + offset) mod 2 ^ 28" unfolding LOADADDR_def k by (rule unat_and_mask)
  also have "\<dots> = (unat a + unat offset) mod 2 ^ 64 mod 2 ^ 28" by (simp add: unat_word_ariths(1))
  also have "\<dots> = (unat a + unat offset) mod 2 ^ 28" by (rule mod_mod_cancel) (simp add: le_imp_power_dvd)
  finally show ?thesis .
qed

lemma LOADADDR_place:
  assumes "window_ok base offset" "in_window base offset a n"
  shows "LOADADDR offset a = place base offset a"
proof -
  obtain k where k: "base = 2 ^ 28 * k" using assms(1) by (auto simp: window_ok_def)
  have "(base + place base offset a) mod 2 ^ 28 = place base offset a mod 2 ^ 28" unfolding k by simp
  moreover have "place base offset a < 2 ^ 28" "base + place base offset a = unat a + unat offset"
    using assms(2) by (auto simp: in_window_def place_def)
  ultimately show ?thesis by (simp add: LOADADDR_mod)
qed

lemma in_window_unat:
  assumes "window_ok base offset" "in_window base offset a n"
  shows "unat a + n < 2 ^ 64"
  using assms by (auto simp: window_ok_def in_window_def)

lemma in_window_plus:
  assumes "window_ok base offset" "in_window base offset a n" "k \<le> n"
  shows "unat (a + of_nat k) = unat a + k" "in_window base offset (a + of_nat k) (n - k)"
    "place base offset (a + of_nat k) = place base offset a + k"
proof -
  have s: "unat a + k < 2 ^ 64" using in_window_unat [OF assms(1,2)] assms(3) by linarith
  then have "unat (of_nat k :: u64) = k" by (intro unat_of_nat_small) simp
  then show u: "unat (a + of_nat k) = unat a + k" using s by (subst unat_plus_small) simp_all
  show "in_window base offset (a + of_nat k) (n - k)" using assms(2,3) u by (auto simp: in_window_def)
  show "place base offset (a + of_nat k) = place base offset a + k" using assms(2) u by (auto simp: in_window_def place_def)
qed

text \<open>Truncation to 32 bits does not reach the bits that count.\<close>

lemma LOADADDR_addr_wide:
  assumes "28 \<le> 8 * c_addr c"
  shows "LOADADDR offset (addr_wide c x) = LOADADDR offset x"
proof -
  have "take_bit 28 (take_bit (8 * c_addr c) (unat x)) = take_bit 28 (unat x)" using assms by (simp add: min_def)
  then have "unat (addr_wide c x) mod 2 ^ 28 = unat x mod 2 ^ 28"
    unfolding addr_wide_def unsigned_take_bit_eq by (simp only: take_bit_eq_mod)
  then show ?thesis unfolding LOADADDR_mod by (rule mod_add_cong) (rule refl)
qed

lemma mem_get_put_same: "n = length bs \<Longrightarrow> mem_get (mem_put a bs m) a n = bs"
  by (rule nth_equalityI) (simp_all add: mem_get_def mem_put_def)

lemma length_mem_get [simp]: "length (mem_get m a n) = n" by (simp add: mem_get_def)

lemma mem_get_cong: "(\<And>x. a \<le> x \<Longrightarrow> x < a + n \<Longrightarrow> m x = m' x) \<Longrightarrow> mem_get m a n = mem_get m' a n"
  by (simp add: mem_get_def)

section \<open>The image of a kernel\<close>

definition is_random :: "Elf_Phdr \<Rightarrow> bool" where "is_random p \<longleftrightarrow> ph_type p = PT_OPENBSD_RANDOMIZE"

definition loadable :: "Elf_Phdr \<Rightarrow> bool" where
  "loadable p \<longleftrightarrow> ph_type p = PT_LOAD \<and> ph_flags p AND (PF_W OR PF_R OR PF_X) \<noteq> 0"

text \<open>The bytes a header fills: random data, or the bytes of the file and then zeroes.\<close>

definition extent :: "Elf_Phdr \<Rightarrow> nat" where
  "extent p = (if is_random p then unat (ph_filesz p) else if loadable p then max (unat (ph_filesz p)) (unat (ph_memsz p)) else 0)"

definition covers :: "nat \<Rightarrow> u64 \<Rightarrow> nat \<Rightarrow> Elf_Phdr \<Rightarrow> bool" where
  "covers base offset x p \<longleftrightarrow> place base offset (ph_paddr p) \<le> x \<and> x < place base offset (ph_paddr p) + extent p"

definition seg_byte :: "u8 list \<Rightarrow> u8 list \<Rightarrow> Elf_Phdr \<Rightarrow> nat \<Rightarrow> u8" where
  "seg_byte dat rnddata p j =
     (if is_random p then rnddata ! (j mod RNDSIZE)
      else if j < unat (ph_filesz p) then dat ! (unat (ph_offset p) + j) else 0)"

definition kernel_image :: "u8 list \<Rightarrow> u8 list \<Rightarrow> nat \<Rightarrow> u64 \<Rightarrow> Elf_Phdr list \<Rightarrow> memory \<Rightarrow> memory" where
  "kernel_image dat rnddata base offset ps m =
     (\<lambda>x. case List.find (covers base offset x) (rev ps) of
        None \<Rightarrow> m x
      | Some p \<Rightarrow> seg_byte dat rnddata p (x - place base offset (ph_paddr p)))"

definition put_seg :: "u8 list \<Rightarrow> u8 list \<Rightarrow> nat \<Rightarrow> u64 \<Rightarrow> Elf_Phdr \<Rightarrow> memory \<Rightarrow> memory" where
  "put_seg dat rnddata base offset p m =
     (\<lambda>x. if covers base offset x p then seg_byte dat rnddata p (x - place base offset (ph_paddr p)) else m x)"

lemma kernel_image_Nil: "kernel_image dat rnddata base offset [] m = m"
  by (simp add: kernel_image_def)

lemma kernel_image_Cons:
  "kernel_image dat rnddata base offset (p # ps) m = kernel_image dat rnddata base offset ps (put_seg dat rnddata base offset p m)"
  by (auto simp: kernel_image_def put_seg_def find_append fun_eq_iff split: option.splits)

lemma put_seg_skip: "\<not> is_random p \<Longrightarrow> \<not> loadable p \<Longrightarrow> put_seg dat rnddata base offset p m = m"
  by (auto simp: put_seg_def covers_def extent_def fun_eq_iff)

text \<open>A header that can be loaded.\<close>

definition phdr_ok :: "u8 list \<Rightarrow> nat \<Rightarrow> u64 \<Rightarrow> Elf_Phdr \<Rightarrow> bool" where
  "phdr_ok dat base offset p \<longleftrightarrow> is_random p \<or> loadable p \<longrightarrow>
     in_window base offset (ph_paddr p) (extent p)
     \<and> (loadable p \<longrightarrow> unat (ph_offset p) + unat (ph_filesz p) \<le> length dat)"

lemma rnd_fill_eq:
  assumes "window_ok base offset" "in_window base offset (ph_paddr p) (unat (ph_filesz p))" "length rnddata = RNDSIZE" "RNDSIZE dvd pos"
  shows "rnd_fill rnddata offset p pos m = (\<lambda>x. if place base offset (ph_paddr p) + pos \<le> x \<and> x < place base offset (ph_paddr p) + unat (ph_filesz p)
     then rnddata ! ((x - place base offset (ph_paddr p)) mod RNDSIZE) else m x)"
  using assms
proof (induction rnddata offset p pos m rule: rnd_fill.induct)
  case (1 rnddata offset p pos m)
  let ?n = "unat (ph_filesz p)" and ?P = "place base offset (ph_paddr p)" let ?k = "min (?n - pos) RNDSIZE"
  show ?case
  proof (cases "pos < ?n")
    case True
    note w = in_window_plus [OF 1(2,3), of pos]
    have a: "LOADADDR offset (ph_paddr p + of_nat pos) = ?P + pos"
      using LOADADDR_place [OF 1(2) w(2)] w(3) True by simp
    let ?m = "mem_put (?P + pos) (take ?k rnddata) m"
    have e: "rnd_fill rnddata offset p pos m = rnd_fill rnddata offset p (pos + ?k) ?m"
      using True a by (subst rnd_fill.simps) (simp add: Let_def)
    have m: "?m x = (if ?P + pos \<le> x \<and> x < ?P + pos + ?k then rnddata ! ((x - ?P) mod RNDSIZE) else m x)" for x
    proof -
      have "(x - ?P) mod RNDSIZE = x - (?P + pos)" if "?P + pos \<le> x" "x < ?P + pos + ?k"
      proof -
        have "x - ?P = pos + (x - (?P + pos))" using that by simp
        moreover have "(pos + (x - (?P + pos))) mod RNDSIZE = (x - (?P + pos)) mod RNDSIZE" using 1(5) by (metis mod_add_left_eq add_0 dvd_eq_mod_eq_0)
        ultimately show ?thesis using that by simp
      qed
      moreover have "take ?k rnddata ! (x - (?P + pos)) = rnddata ! (x - (?P + pos))" if "?P + pos \<le> x" "x < ?P + pos + ?k"
        by (rule nth_take) (use that in linarith)
      ultimately show ?thesis using 1(4) by (simp add: mem_put_def del: nth_take min_less_iff_conj)
    qed
    show ?thesis
    proof (cases "?n - pos \<le> RNDSIZE")
      case True
      then have k: "pos + ?k = ?n" using \<open>pos < ?n\<close> by simp
      have "rnd_fill rnddata offset p ?n ?m = ?m" by (subst rnd_fill.simps) simp
      moreover have "?P + pos + ?k = ?P + ?n" using k by linarith
      ultimately show ?thesis unfolding e k by (intro ext) (simp only: m)
    next
      case False
      then have k: "?k = RNDSIZE" by simp
      have "rnd_fill rnddata offset p (pos + ?k) ?m = (\<lambda>x. if ?P + (pos + ?k) \<le> x \<and> x < ?P + ?n then rnddata ! ((x - ?P) mod RNDSIZE) else ?m x)"
        using 1(1) [OF True refl 1(2,3,4)] 1(5) k unfolding a by simp
      then show ?thesis unfolding e by (simp only:) (rule ext, simp only: m [unfolded k] k, use False in auto)
    qed
  next
    case False
    then show ?thesis by (subst rnd_fill.simps) (auto simp: fun_eq_iff)
  qed
qed

section \<open>Segments\<close>

definition class_ok :: "elf_class \<Rightarrow> bool" where "class_ok c \<longleftrightarrow> c = elf32 \<or> c = elf64"

lemma asked_ALL:
  "asked LOAD_ALL LOAD_TEXT" "asked LOAD_ALL LOAD_DATA" "asked LOAD_ALL LOAD_BSS" "asked LOAD_ALL LOAD_SYM" "asked LOAD_ALL LOAD_HDR"
  "asked LOAD_ALL LOAD_RANDOM" "asked LOAD_ALL (LOAD_RANDOM OR COUNT_RANDOM)" "asked LOAD_ALL (LOAD_TEXT OR COUNT_TEXT)"
  "asked LOAD_ALL (LOAD_DATA OR COUNT_TEXT)" "asked LOAD_ALL (LOAD_BSS OR COUNT_BSS)" "asked LOAD_ALL (LOAD_HDR OR COUNT_HDR)"
  "asked LOAD_ALL (LOAD_SYM OR COUNT_SYM)"
  by (simp_all add: asked_def LOAD_ALL_def LOAD_TEXT_def LOAD_DATA_def LOAD_BSS_def LOAD_SYM_def LOAD_HDR_def LOAD_RANDOM_def
    COUNT_RANDOM_def COUNT_TEXT_def COUNT_BSS_def COUNT_HDR_def COUNT_SYM_def)

lemma mem_put_eqI: "length bs = n \<Longrightarrow> (\<And>j. j < n \<Longrightarrow> bs ! j = f (a + j)) \<Longrightarrow> mem_put a bs m = (\<lambda>x. if a \<le> x \<and> x < a + n then f x else m x)"
  by (auto simp: mem_put_def fun_eq_iff)

text \<open>The bytes of a segment and the zeroes behind them.\<close>

lemma segment_memory:
  fixes m :: memory
  assumes "window_ok base offset" "in_window base offset (ph_paddr p) (extent p)" "loadable p" "\<not> is_random p" "class_ok c"
    and "unat (ph_offset p) + unat (ph_filesz p) \<le> length dat"
  defines "m1 \<equiv> mem_put (LOADADDR offset (ph_paddr p)) (bytes_at (unat (ph_offset p)) (unat (ph_filesz p)) dat) m"
  shows "(if is_bss p then mem_put (LOADADDR offset (addr_wide c (ph_paddr p + ph_filesz p))) (replicate (unat (ph_memsz p - ph_filesz p)) 0) m1 else m1)
     = put_seg dat rnddata base offset p m"
proof -
  let ?P = "place base offset (ph_paddr p)" and ?f = "unat (ph_filesz p)" and ?z = "unat (ph_memsz p)"
  have ext: "extent p = max ?f ?z" using assms(3,4) by (simp add: extent_def)
  have a: "LOADADDR offset (ph_paddr p) = ?P" by (rule LOADADDR_place [OF assms(1,2)])
  have m1: "m1 = (\<lambda>x. if ?P \<le> x \<and> x < ?P + ?f then dat ! (unat (ph_offset p) + (x - ?P)) else m x)"
    unfolding m1_def a using assms(6) by (intro mem_put_eqI) (simp_all add: bytes_at_def)
  have b: "LOADADDR offset (addr_wide c (ph_paddr p + ph_filesz p)) = ?P + ?f"
  proof -
    have "28 \<le> 8 * c_addr c" using assms(5) by (auto simp: class_ok_def elf32_def elf64_def)
    moreover note in_window_plus [OF assms(1,2), of ?f]
    ultimately show ?thesis using LOADADDR_place [OF assms(1), of "ph_paddr p + ph_filesz p"] ext
      by (simp add: LOADADDR_addr_wide)
  qed
  show ?thesis
  proof (cases "is_bss p")
    case True
    then have z: "unat (ph_memsz p - ph_filesz p) = ?z - ?f" "?f < ?z" by (simp_all add: is_bss_def word_less_nat_alt unat_sub word_le_nat_alt)
    have "mem_put (?P + ?f) (replicate (?z - ?f) 0) m1 = (\<lambda>x. if ?P + ?f \<le> x \<and> x < ?P + ?f + (?z - ?f) then 0 else m1 x)"
      by (rule mem_put_eqI) simp_all
    then show ?thesis using True z ext assms(4) by (auto simp: b put_seg_def covers_def seg_byte_def fun_eq_iff m1)
  next
    case False
    then have "?z \<le> ?f" by (simp add: is_bss_def word_less_nat_alt)
    then show ?thesis using False ext assms(4) by (auto simp: put_seg_def covers_def seg_byte_def fun_eq_iff m1)
  qed
qed

text \<open>The least and the largest address of the segments, in the form the loop computes them.\<close>

definition low_addr :: "u64 \<Rightarrow> Elf_Phdr list \<Rightarrow> u64" where
  "low_addr = foldl (\<lambda>a p. if loadable p \<and> ph_paddr p < a then ph_paddr p else a)"

definition high_addr :: "nat \<Rightarrow> Elf_Phdr list \<Rightarrow> nat" where
  "high_addr = foldl (\<lambda>a p. if loadable p then max a (unat (ph_paddr p) + extent p) else a)"

lemma high_addr_ge: "a \<le> high_addr a ps"
proof (induction ps arbitrary: a)
  case (Cons p ps)
  show ?case using Cons [of a] Cons [of "max a (unat (ph_paddr p) + extent p)"] by (auto simp: high_addr_def)
qed (simp add: high_addr_def)

section \<open>Section headers\<close>

lemma class_cases: "class_ok c \<Longrightarrow> (c = elf32 \<Longrightarrow> P) \<Longrightarrow> (c = elf64 \<Longrightarrow> P) \<Longrightarrow> P"
  by (auto simp: class_ok_def)

lemma getn_at: "off + n \<le> k \<Longrightarrow> getn n off (bytes_at q k b) = getn n (q + off) b"
  by (simp add: getn_def bytes_at_bytes_at)

lemma getn_overlay_outside:
  "q + n \<le> off \<or> off + length src \<le> q \<Longrightarrow> off + length src \<le> length b \<Longrightarrow> getn n q (overlay b off src) = getn n q b"
  by (simp add: getn_def bytes_at_overlay_outside)

lemma getn_overlay_same: "off + n \<le> length b \<Longrightarrow> n \<le> 8 \<Longrightarrow> getn n off (overlay b off (le_enc n (unat x))) = take_bit (8 * n) x"
proof -
  assume a: "off + n \<le> length b" "n \<le> 8"
  have "bytes_at off n (overlay b off (le_enc n (unat x))) = le_enc n (unat x)" using a(1) by (intro bytes_at_overlay_same) simp_all
  moreover have "(256 :: nat) ^ n = 2 ^ (8 * n)" by (simp add: power_mult)
  ultimately have "getn n off (overlay b off (le_enc n (unat x))) = of_nat (take_bit (8 * n) (unat x))"
    by (simp add: getn_def le_dec_enc take_bit_eq_mod)
  also have "\<dots> = take_bit (8 * n) x" by (simp add: of_nat_take_bit)
  finally show ?thesis .
qed

lemma moved_other:
  assumes "class_ok c" "(i + 1) * c_shdr c \<le> length shp" "k \<noteq> i"
  shows "shdr_at c (moved c i off shp) k = shdr_at c shp k"
proof -
  have "k * c_shdr c + c_shdr c \<le> i * c_shdr c \<or> i * c_shdr c + c_shdr c \<le> k * c_shdr c"
    using assms(3) by (metis add.commute linorder_neqE_nat mult_Suc mult_le_mono1 Suc_leI)
  then show ?thesis using assms(1,2)
    by (elim class_cases) (auto simp: shdr_at_def moved_def Let_def elf32_def elf64_def bytes_at_overlay_outside length_overlay)
qed

lemma moved_same:
  assumes "class_ok c" "(i + 1) * c_shdr c \<le> length shp"
  shows "shdr_at c (moved c i off shp) i = (shdr_at c shp i)\<lparr>sh_flags := addr_wide c (sh_flags (shdr_at c shp i) OR SHF_ALLOC), sh_offset := addr_wide c off\<rparr>"
  using assms
  by (elim class_cases) (simp_all add: shdr_at_def dec_shdr_def moved_def Let_def elf32_def elf64_def getn_at getn_overlay_outside getn_overlay_same
      length_overlay addr_wide_def)

lemma length_moved: "class_ok c \<Longrightarrow> (i + 1) * c_shdr c \<le> length shp \<Longrightarrow> length (moved c i off shp) = length shp"
  by (elim class_cases) (simp_all add: moved_def Let_def elf32_def elf64_def length_overlay)

definition up :: "nat \<Rightarrow> nat \<Rightarrow> nat" where "up y x = (x + (y - 1)) div y * y"

lemma unat_roundup:
  assumes "y = 4 \<or> y = 8" "unat x + 8 < 2 ^ 64"
  shows "unat (roundup x (of_nat y)) = up y (unat x)"
proof -
  have y: "unat (of_nat y :: u64) = y" "unat (of_nat y - 1 :: u64) = y - 1" using assms(1) by auto
  have s: "unat (x + (of_nat y - 1)) = unat x + (y - 1)" using assms y(2) by (subst unat_plus_small) auto
  have "(unat x + (y - 1)) div y * y \<le> unat x + (y - 1)" by (rule div_times_less_eq_dividend)
  then have "(unat x + (y - 1)) div y * y < 2 ^ 64" using assms by auto
  then show ?thesis unfolding roundup_def up_def by (simp add: unat_word_ariths(2) unat_div_distrib s y(1))
qed

lemma roundup_of_nat:
  assumes "y = 4 \<or> y = 8" "n + 8 < 2 ^ 64"
  shows "roundup (of_nat n) (of_nat y) = of_nat (up y n)"
proof -
  have n: "unat (of_nat n :: u64) = n" using assms(2) by (intro unat_of_nat_small) simp
  have "unat (roundup (of_nat n) (of_nat y)) = up y n" using unat_roundup [OF assms(1), of "of_nat n"] assms(2) by (simp only: n)
  then show ?thesis by (metis of_nat_unat ucast_id)
qed

lemma up_bounds: "0 < y \<Longrightarrow> x \<le> up y x" "0 < y \<Longrightarrow> up y x < x + y" "y dvd up y x"
proof -
  have e: "up y x + (x + (y - 1)) mod y = x + (y - 1)" by (simp add: up_def)
  assume "0 < y"
  moreover then have "(x + (y - 1)) mod y < y" by simp
  ultimately show "x \<le> up y x" "up y x < x + y" using e by linarith+
qed (simp add: up_def)

text \<open>A section that is loaded lies in the file; the others have at least a name.\<close>

definition sec_ok :: "u8 list \<Rightarrow> u8 list \<Rightarrow> Elf_Shdr \<Rightarrow> bool" where
  "sec_ok dat shstr h \<longleftrightarrow> wanted shstr h = Ret False \<or> wanted shstr h = Ret True \<and> unat (sh_offset h) + unat (sh_size h) \<le> length dat"

definition sym_room :: "elf_class \<Rightarrow> u8 list \<Rightarrow> Elf_Shdr list \<Rightarrow> nat" where
  "sym_room c shstr hs = (\<Sum>h\<leftarrow>hs. if wanted shstr h = Ret True then up (c_addr c) (unat (sh_size h)) else 0)"

text \<open>A section and its header after loading: where the header says it is, counted from \<open>start\<close> as position \<open>off\<close>.\<close>

definition sec_moved :: "u8 list \<Rightarrow> u8 list \<Rightarrow> nat \<Rightarrow> nat \<Rightarrow> memory \<Rightarrow> Elf_Shdr \<Rightarrow> Elf_Shdr \<Rightarrow> bool" where
  "sec_moved dat shstr start off m h h' \<longleftrightarrow>
     (if wanted shstr h = Ret True
      then sh_name h' = sh_name h \<and> sh_type h' = sh_type h \<and> sh_size h' = sh_size h \<and> off \<le> unat (sh_offset h')
        \<and> mem_get m (start + (unat (sh_offset h') - off)) (unat (sh_size h)) = bytes_at (unat (sh_offset h)) (unat (sh_size h)) dat
      else h' = h)"

lemma sec_moved_shift: "sec_moved dat shstr (start + u) (off + u) m h h' \<Longrightarrow> sec_moved dat shstr start off m h h'"
  by (auto simp: sec_moved_def)

lemma sec_moved_cong:
  "(\<And>d n. mem_get m (start + d) n = mem_get m' (start + d) n) \<Longrightarrow> sec_moved dat shstr start off m h h' = sec_moved dat shstr start off m' h h'"
  by (simp only: sec_moved_def)

lemma addr_wide_small:
  assumes "class_ok c" "unat x < 2 ^ 28"
  shows "unat (addr_wide c x) = unat x"
proof -
  have "28 \<le> 8 * c_addr c" using assms(1) by (auto simp: class_ok_def elf32_def elf64_def)
  then have "unat x < 2 ^ (8 * c_addr c)" using assms(2) by (meson less_le_trans one_le_numeral power_increasing)
  then show ?thesis by (simp add: addr_wide_def unsigned_take_bit_eq take_bit_nat_eq_self)
qed

lemma class_addr: "class_ok c \<Longrightarrow> c_addr c = 4 \<or> c_addr c = 8" by (auto simp: class_ok_def elf32_def elf64_def)

text \<open>The tables of a kernel file, and what the loader needs of them.\<close>

definition phdrs_of :: "u8 list \<Rightarrow> elf_class \<Rightarrow> Elf_Ehdr \<Rightarrow> Elf_Phdr list" where
  "phdrs_of dat c e = map (phdr_at c (bytes_at (unat (e_phoff e)) (e_phnum e * c_phdr c) dat)) [0..<e_phnum e]"

definition shtab :: "u8 list \<Rightarrow> elf_class \<Rightarrow> Elf_Ehdr \<Rightarrow> u8 list" where
  "shtab dat c e = bytes_at (unat (e_shoff e)) (e_shnum e * c_shdr c) dat"

definition shnames :: "u8 list \<Rightarrow> elf_class \<Rightarrow> Elf_Ehdr \<Rightarrow> u8 list" where
  "shnames dat c e = (let h = shdr_at c (shtab dat c e) (e_shstrndx e) in bytes_at (unat (sh_offset h)) (unat (sh_size h)) dat)"

definition room_of :: "u8 list \<Rightarrow> elf_class \<Rightarrow> Elf_Ehdr \<Rightarrow> nat" where
  "room_of dat c e = up (c_addr c) (e_shnum e * c_shdr c) + sym_room c (shnames dat c e) (map (shdr_at c (shtab dat c e)) [0..<e_shnum e])"

definition symbols_ok :: "u8 list \<Rightarrow> elf_class \<Rightarrow> Elf_Ehdr \<Rightarrow> bool" where
  "symbols_ok dat c e \<longleftrightarrow> unat (e_shoff e) + e_shnum e * c_shdr c \<le> length dat \<and> e_shstrndx e < e_shnum e
     \<and> (let h = shdr_at c (shtab dat c e) (e_shstrndx e) in unat (sh_offset h) + unat (sh_size h) \<le> length dat)
     \<and> list_all (\<lambda>k. sec_ok dat (shnames dat c e) (shdr_at c (shtab dat c e) k)) [0..<e_shnum e]
     \<and> list_ex (\<lambda>k. sh_type (shdr_at c (shtab dat c e) k) = SHT_SYMTAB) [0..<e_shnum e]"

definition kernel_ok :: "u8 list \<Rightarrow> elf_class \<Rightarrow> nat \<Rightarrow> u64 \<Rightarrow> Elf_Ehdr \<Rightarrow> bool" where
  "kernel_ok dat c base offset e \<longleftrightarrow> window_ok base offset \<and> unat (e_phoff e) + e_phnum e * c_phdr c \<le> length dat
     \<and> list_all (phdr_ok dat base offset) (phdrs_of dat c e) \<and> symbols_ok dat c e
     \<and> base \<le> high_addr 0 (phdrs_of dat c e) + unat offset
     \<and> high_addr 0 (phdrs_of dat c e) + 8 + unat offset + c_ehdr c + room_of dat c e < base + 2 ^ 28"

text \<open>
  Memory after loading: below the symbols the image of the kernel, then a copy of the header, of the section headers and
  the sections, at the places the copied headers say; and the marks.
\<close>

definition kernel_loaded :: "u8 list \<Rightarrow> u8 list \<Rightarrow> elf_class \<Rightarrow> nat \<Rightarrow> u64 \<Rightarrow> u8 list \<Rightarrow> memory \<Rightarrow> u64 list \<Rightarrow> memory \<Rightarrow> bool" where
  "kernel_loaded dat rnddata c base offset elf m marks m' \<longleftrightarrow>
     (let e = dec_ehdr c elf; phs = phdrs_of dat c e; sym = up (c_addr c) (high_addr 0 phs) + unat offset - base in
      (\<forall>x < sym. m' x = kernel_image dat rnddata base offset phs m x)
      \<and> mem_get m' sym (c_ehdr c) = take (c_ehdr c) (frob c elf)
      \<and> (\<forall>k<e_shnum e. sec_moved dat (shnames dat c e) sym 0 m' (shdr_at c (shtab dat c e) k)
           (shdr_at c (mem_get m' (sym + c_ehdr c) (e_shnum e * c_shdr c)) k))
      \<and> marks ! MARK_START = of_nat (LOADADDR offset (low_addr (- 1) phs)) \<and> marks ! MARK_ENTRY = of_nat (LOADADDR offset (e_entry e))
      \<and> marks ! MARK_SYM = of_nat sym \<and> marks ! MARK_END = of_nat (sym + c_ehdr c + room_of dat c e))"

lemmas marks_defs = MARK_START_def MARK_ENTRY_def MARK_NSYM_def MARK_SYM_def MARK_END_def MARK_RANDOM_def MARK_ERANDOM_def

lemma length_frob: "class_ok c \<Longrightarrow> length elf = HDRSIZE \<Longrightarrow> length (frob c elf) = HDRSIZE"
  by (elim class_cases) (simp_all add: frob_def elf32_def elf64_def length_overlay HDRSIZE_def)

lemma kernel_loadedI:
  assumes "class_ok c" and e: "e = dec_ehdr c elf" and y: "y = up (c_addr c) (high_addr 0 (phdrs_of dat c e)) + unat offset - base"
    and "length elf = HDRSIZE" "\<forall>x<y. m' x = kernel_image dat rnddata base offset (phdrs_of dat c e) m x"
    and secs: "\<forall>k<e_shnum e. sec_moved dat (shnames dat c e) (y + (c_ehdr c + u)) (0 + (c_ehdr c + u)) m' (shdr_at c (shtab dat c e) k)
      (shdr_at c (mem_get m' (y + c_ehdr c) (e_shnum e * c_shdr c)) k)"
    and "marks ! MARK_START = of_nat (LOADADDR offset (low_addr (- 1) (phdrs_of dat c e)))" "marks ! MARK_ENTRY = of_nat (LOADADDR offset (e_entry e))"
    and "marks ! MARK_SYM = of_nat y" "marks ! MARK_END = of_nat (y + c_ehdr c + room_of dat c e)"
  shows "kernel_loaded dat rnddata c base offset elf m marks (mem_put y (take (c_ehdr c) (frob c elf)) m')"
proof -
  let ?m = "mem_put y (take (c_ehdr c) (frob c elf)) m'"
  have "c_ehdr c \<le> HDRSIZE" using assms(1) by (auto simp: class_ok_def elf32_def elf64_def HDRSIZE_def)
  then have len: "length (take (c_ehdr c) (frob c elf)) = c_ehdr c" using length_frob [OF assms(1,4)] by simp
  have out: "?m x = m' x" if "x < y \<or> y + c_ehdr c \<le> x" for x using that len by (auto simp: mem_put_def)
  have "mem_get ?m y (c_ehdr c) = take (c_ehdr c) (frob c elf)" by (rule mem_get_put_same) (rule len [symmetric])
  moreover have "mem_get ?m (y + c_ehdr c) n = mem_get m' (y + c_ehdr c) n" for n by (rule mem_get_cong) (simp add: out)
  moreover have "sec_moved dat (shnames dat c e) (y + (c_ehdr c + u)) (0 + (c_ehdr c + u)) m' h h'
      \<Longrightarrow> sec_moved dat (shnames dat c e) y 0 ?m h h'" for h h'
    by (rule sec_moved_shift, subst sec_moved_cong [of ?m _ m']) (auto intro!: mem_get_cong simp: out)
  ultimately show ?thesis using assms(5-) out
    by (simp add: kernel_loaded_def Let_def e [symmetric] y [symmetric])
qed

section \<open>Loading from a file\<close>

locale seekable =
  fixes rd :: "'s reader" and sk :: "'s seeker" and dat :: "u8 list" and at_pos :: "nat \<Rightarrow> 's \<Rightarrow> bool"
  assumes short: "length dat < 2 ^ 31"
    and seek: "at_pos q s \<Longrightarrow> p \<le> length dat \<Longrightarrow> \<exists>s'. sk (int p) s = Ret (int p, s') \<and> at_pos p s'"
    and read: "at_pos p s \<Longrightarrow> p + length buf \<le> length dat \<Longrightarrow>
      \<exists>s'. rd buf s = Ret (int (length buf), bytes_at p (length buf) dat, s') \<and> at_pos (p + length buf) s'"
begin

definition opened :: "'s \<Rightarrow> bool" where "opened s \<longleftrightarrow> (\<exists>q. at_pos q s)"

lemma seek_read:
  assumes "opened s" "unat (off :: u64) + length buf \<le> length dat"
  shows "\<exists>r s1 s2. sk (sint off) s = Ret (r, s1) \<and> r \<noteq> - 1 \<and> rd buf s1 = Ret (int (length buf), bytes_at (unat off) (length buf) dat, s2) \<and> opened s2"
proof -
  have o: "sint off = int (unat off)" using assms(2) short by (intro sint_small) simp
  obtain q where "at_pos q s" using assms(1) by (auto simp: opened_def)
  then obtain s1 where "sk (int (unat off)) s = Ret (int (unat off), s1)" "at_pos (unat off) s1"
    using seek [of q s "unat off"] assms(2) by auto
  moreover then obtain s2 where "rd buf s1 = Ret (int (length buf), bytes_at (unat off) (length buf) dat, s2)" "at_pos (unat off + length buf) s2"
    using read [of "unat off" s1 buf] assms(2) by auto
  ultimately show ?thesis unfolding o by (intro exI [of _ "int (unat off)"]) (auto simp: opened_def simp del: of_nat_unat)
qed

lemma load_at_ok:
  assumes "opened s" "unat off + unat n \<le> length dat"
  shows "\<exists>s'. load_at rd sk off a n m s = Ret (True, mem_put a (bytes_at (unat off) (unat n) dat) m, s') \<and> opened s'"
proof -
  obtain r s1 s2 where "sk (sint off) s = Ret (r, s1)" "r \<noteq> - 1" "opened s2"
      "rd (mem_get m a (unat n)) s1 = Ret (int (unat n), bytes_at (unat off) (unat n) dat, s2)"
    using seek_read [OF assms(1), of off "mem_get m a (unat n)"] assms(2) by auto
  then show ?thesis by (simp add: load_at_def)
qed

lemma read_at_ok:
  assumes "opened s" "unat off + length buf \<le> length dat"
  shows "\<exists>s'. read_at rd sk off buf s = Ret (True, bytes_at (unat off) (length buf) dat, s') \<and> opened s'"
proof -
  obtain r s1 s2 where "sk (sint off) s = Ret (r, s1)" "r \<noteq> - 1" "opened s2"
      "rd buf s1 = Ret (int (length buf), bytes_at (unat off) (length buf) dat, s2)"
    using seek_read [OF assms] by auto
  then show ?thesis by (simp add: read_at_def)
qed

lemma load_segment_ok:
  assumes "opened s" "window_ok base offset" "phdr_ok dat base offset p" "loadable p" "class_ok c"
  shows "\<exists>l' s'. load_segment rd sk c LOAD_ALL offset p l s = Ret (True, l', s') \<and> opened s' \<and> marks_of l' = marks_of l
     \<and> mem_of l' = put_seg dat rnddata base offset p (mem_of l) \<and> minp l' = (if ph_paddr p < minp l then ph_paddr p else minp l)
     \<and> unat (maxp l') = max (unat (maxp l)) (unat (ph_paddr p) + extent p)"
proof -
  have r: "\<not> is_random p" using assms(4) by (simp add: is_random_def loadable_def PT_LOAD_def PT_OPENBSD_RANDOMIZE_def)
  have w: "in_window base offset (ph_paddr p) (extent p)" "unat (ph_offset p) + unat (ph_filesz p) \<le> length dat"
    using assms(3,4) by (auto simp: phdr_ok_def)
  have ext: "extent p = max (unat (ph_filesz p)) (unat (ph_memsz p))" using r assms(4) by (simp add: extent_def)
  let ?a = "LOADADDR offset (ph_paddr p)" let ?m = "mem_put ?a (bytes_at (unat (ph_offset p)) (unat (ph_filesz p)) dat) (mem_of l)"
  obtain s' where s': "load_at rd sk (ph_offset p) ?a (ph_filesz p) (mem_of l) s = Ret (True, ?m, s')" "opened s'"
    using load_at_ok [OF assms(1) w(2)] by blast
  let ?l = "bss_segment c LOAD_ALL offset p (count_segment LOAD_ALL p (l\<lparr>mem_of := ?m\<rparr>))"
  have "load_segment rd sk c LOAD_ALL offset p l s = Ret (True, ?l, s')"
    using s'(1) by (simp add: load_segment_def asked_ALL)
  moreover have "mem_of ?l = put_seg dat rnddata base offset p (mem_of l)"
    using segment_memory [OF assms(2) w(1) assms(4) r assms(5) w(2), of "mem_of l" rnddata]
    by (simp add: bss_segment_def count_segment_def asked_ALL Let_def split: if_splits)
  moreover have "marks_of ?l = marks_of l" "minp ?l = (if ph_paddr p < minp l then ph_paddr p else minp l)"
    by (simp_all add: bss_segment_def count_segment_def asked_ALL Let_def)
  moreover have "unat (maxp ?l) = max (unat (maxp l)) (unat (ph_paddr p) + extent p)"
  proof -
    have "unat (ph_paddr p) + extent p < 2 ^ 64" by (rule in_window_unat [OF assms(2) w(1)])
    then have f: "unat (ph_paddr p + ph_filesz p) = unat (ph_paddr p) + unat (ph_filesz p)" "unat (ph_paddr p) + unat (ph_memsz p) < 2 ^ 64"
      using ext by (auto intro!: unat_plus_small)
    have "unat (ph_paddr p + ph_memsz p) = unat (ph_paddr p) + unat (ph_memsz p)" using f(2) by (intro unat_plus_small) simp
    moreover have "ph_paddr p + ph_filesz p + (ph_memsz p - ph_filesz p) = ph_paddr p + ph_memsz p" by simp
    ultimately show ?thesis using f ext
      by (auto simp: bss_segment_def count_segment_def asked_ALL Let_def is_bss_def word_less_nat_alt max_def)
  qed
  ultimately show ?thesis using s'(2) by blast
qed

lemma random_segment_ok:
  assumes "window_ok base offset" "phdr_ok dat base offset p" "is_random p" "length rnddata = RNDSIZE"
  shows "mem_of (random_segment rnddata LOAD_ALL offset p l) = put_seg dat rnddata base offset p (mem_of l)"
    "minp (random_segment rnddata LOAD_ALL offset p l) = minp l" "maxp (random_segment rnddata LOAD_ALL offset p l) = maxp l"
    "length (marks_of (random_segment rnddata LOAD_ALL offset p l)) = length (marks_of l)"
proof -
  have "extent p = unat (ph_filesz p)" "in_window base offset (ph_paddr p) (extent p)"
    using assms(2,3) by (auto simp: extent_def phdr_ok_def)
  then show "mem_of (random_segment rnddata LOAD_ALL offset p l) = put_seg dat rnddata base offset p (mem_of l)"
    using rnd_fill_eq [OF assms(1) _ assms(4), of p 0 "mem_of l"] assms(3)
    by (simp add: random_segment_def asked_ALL Let_def put_seg_def covers_def seg_byte_def cong: if_cong)
qed (simp_all add: random_segment_def asked_ALL Let_def)

lemma ph_loop_ok:
  assumes "opened s" "window_ok base offset" "list_all (phdr_ok dat base offset) ps" "class_ok c" "length rnddata = RNDSIZE"
  shows "\<exists>l' s'. ph_loop rd sk rnddata c LOAD_ALL offset ps l s = Ret (True, l', s') \<and> opened s' \<and> length (marks_of l') = length (marks_of l)
     \<and> mem_of l' = kernel_image dat rnddata base offset ps (mem_of l) \<and> minp l' = low_addr (minp l) ps
     \<and> unat (maxp l') = high_addr (unat (maxp l)) ps"
  using assms(1,3)
proof (induction ps arbitrary: l s)
  case (Cons p ps)
  have p: "phdr_ok dat base offset p" "list_all (phdr_ok dat base offset) ps" using Cons.prems by auto
  consider "is_random p" | "\<not> is_random p" "loadable p" | "\<not> is_random p" "\<not> loadable p" by blast
  then show ?case
  proof cases
    case 1
    then have "\<not> loadable p" by (simp add: is_random_def loadable_def PT_LOAD_def PT_OPENBSD_RANDOMIZE_def)
    then show ?thesis
      using Cons.IH [OF Cons.prems(1) p(2), of "random_segment rnddata LOAD_ALL offset p l"] 1 random_segment_ok [OF assms(2) p(1) 1 assms(5), of l]
      by (simp add: is_random_def kernel_image_Cons low_addr_def high_addr_def)
  next
    case 2
    obtain l1 s1 where l1: "load_segment rd sk c LOAD_ALL offset p l s = Ret (True, l1, s1)" "opened s1" "marks_of l1 = marks_of l"
        "mem_of l1 = put_seg dat rnddata base offset p (mem_of l)" "minp l1 = (if ph_paddr p < minp l then ph_paddr p else minp l)"
        "unat (maxp l1) = max (unat (maxp l)) (unat (ph_paddr p) + extent p)"
      using load_segment_ok [OF Cons.prems(1) assms(2) p(1) 2(2) assms(4), of l rnddata] by blast
    then show ?thesis using Cons.IH [OF l1(2) p(2), of l1] 2
      by (simp add: is_random_def kernel_image_Cons low_addr_def high_addr_def) (simp add: loadable_def)
  next
    case 3
    then show ?thesis using Cons.IH [OF Cons.prems(1) p(2), of l]
      by (simp add: is_random_def kernel_image_Cons put_seg_skip [OF 3] low_addr_def high_addr_def) (auto simp: loadable_def)
  qed
qed (simp add: kernel_image_Nil low_addr_def high_addr_def)

lemma sh_loop_wanted:
  assumes "opened s" "window_ok base offset" "class_ok c" "wanted shstr (shdr_at c shp i) = Ret True" "sec_ok dat shstr (shdr_at c shp i)"
    and u: "u = up (c_addr c) (unat (sh_size (shdr_at c shp i)))" and w: "in_window base offset mx (u + r)" "unat off + u < 2 ^ 28"
  shows "\<exists>off' mx' s'. sh_loop rd sk c LOAD_ALL offset shstr True (Suc n) i shp off mx m s
      = sh_loop rd sk c LOAD_ALL offset shstr True n (i + 1) (moved c i off shp) off' mx'
          (mem_put (place base offset mx) (bytes_at (unat (sh_offset (shdr_at c shp i))) (unat (sh_size (shdr_at c shp i))) dat) m) s'
     \<and> opened s' \<and> unat off' = unat off + u \<and> unat mx' = unat mx + u \<and> in_window base offset mx' r \<and> place base offset mx' = place base offset mx + u"
proof -
  let ?h = "shdr_at c shp i" let ?z = "roundup (sh_size ?h) (of_nat (c_addr c))"
  have f: "unat (sh_offset ?h) + unat (sh_size ?h) \<le> length dat" using assms(4,5) by (simp add: sec_ok_def)
  have z: "unat ?z = u" unfolding u using f short class_addr [OF assms(3)] by (intro unat_roundup) auto
  then have z': "?z = of_nat u" by (metis of_nat_unat ucast_id)
  have a: "LOADADDR offset mx = place base offset mx" by (rule LOADADDR_place [OF assms(2) w(1)])
  have "unat (off + ?z) = unat off + u" using w(2) z by (subst unat_plus_small) simp_all
  then have "unat (addr_wide c (off + ?z)) = unat off + u" using w(2) by (subst addr_wide_small [OF assms(3)]) simp_all
  moreover have "unat (mx + ?z) = unat mx + u" "in_window base offset (mx + ?z) r" "place base offset (mx + ?z) = place base offset mx + u"
    using in_window_plus [OF assms(2) w(1), of u] unfolding z' by simp_all
  moreover obtain s1 where "load_at rd sk (sh_offset ?h) (place base offset mx) (sh_size ?h) m s
      = Ret (True, mem_put (place base offset mx) (bytes_at (unat (sh_offset ?h)) (unat (sh_size ?h)) dat) m, s1)" "opened s1"
    using load_at_ok [OF assms(1) f] by blast
  ultimately show ?thesis using assms(4) a
    by (intro exI [of _ "addr_wide c (off + ?z)"] exI [of _ "mx + ?z"] exI [of _ s1]) (simp add: Let_def asked_ALL)
qed

lemma sh_loop_ok:
  assumes "opened s" "window_ok base offset" "class_ok c" "(i + n) * c_shdr c \<le> length shp"
    and "\<forall>k. i \<le> k \<and> k < i + n \<longrightarrow> sec_ok dat shstr (shdr_at c shp k)"
    and "in_window base offset mx (sym_room c shstr (map (shdr_at c shp) [i..<i + n]))"
    and "unat off + sym_room c shstr (map (shdr_at c shp) [i..<i + n]) < 2 ^ 28"
  shows "\<exists>shp' mx' m' s'. sh_loop rd sk c LOAD_ALL offset shstr True n i shp off mx m s = Ret (True, shp', mx', m', s') \<and> opened s'
     \<and> length shp' = length shp \<and> unat mx' = unat mx + sym_room c shstr (map (shdr_at c shp) [i..<i + n])
     \<and> (\<forall>x. x < place base offset mx \<longrightarrow> m' x = m x) \<and> (\<forall>k. k < i \<or> i + n \<le> k \<longrightarrow> shdr_at c shp' k = shdr_at c shp k)
     \<and> (\<forall>k. i \<le> k \<and> k < i + n \<longrightarrow> sec_moved dat shstr (place base offset mx) (unat off) m' (shdr_at c shp k) (shdr_at c shp' k))"
  using assms(1,4-7)
proof (induction n arbitrary: i shp off mx m s)
  case 0
  then show ?case by (auto simp: sym_room_def)
next
  case (Suc n)
  let ?h = "shdr_at c shp i" and ?room = "\<lambda>j. sym_room c shstr (map (shdr_at c shp) [j..<i + Suc n])" and ?P = "place base offset mx"
  have hs: "[i..<i + Suc n] = i # [i + 1..<i + Suc n]" and j: "i + 1 + n = i + Suc n" by (simp_all add: upt_rec)
  have len: "(i + 1) * c_shdr c \<le> length shp"
    using Suc.prems(2) by (rule order_trans [rotated]) (simp add: mult_le_mono1)
  have sec: "sec_ok dat shstr ?h" using Suc.prems(3) by simp
  show ?case
  proof (cases "wanted shstr ?h = Ret True")
    case False
    then have w: "wanted shstr ?h = Ret False" using sec by (simp add: sec_ok_def)
    have r: "?room i = ?room (i + 1)" unfolding hs using w by (simp add: sym_room_def)
    from Suc.IH [OF Suc.prems(1), of "i + 1" shp mx off m, unfolded j] Suc.prems(2-)
    obtain shp' mx' m' s' where q: "sh_loop rd sk c LOAD_ALL offset shstr True n (i + 1) shp off mx m s = Ret (True, shp', mx', m', s')" "opened s'"
        "length shp' = length shp" "unat mx' = unat mx + ?room (i + 1)" "\<forall>x. x < ?P \<longrightarrow> m' x = m x"
        "\<forall>k. k < i + 1 \<or> i + Suc n \<le> k \<longrightarrow> shdr_at c shp' k = shdr_at c shp k"
        "\<forall>k. i + 1 \<le> k \<and> k < i + Suc n \<longrightarrow> sec_moved dat shstr ?P (unat off) m' (shdr_at c shp k) (shdr_at c shp' k)"
      unfolding r by auto
    have "sec_moved dat shstr ?P (unat off) m' ?h (shdr_at c shp' i)" using q(6) w by (simp add: sec_moved_def)
    then have "sec_moved dat shstr ?P (unat off) m' (shdr_at c shp k) (shdr_at c shp' k)" if "i \<le> k" "k < i + Suc n" for k
      using that q(7) by (cases "k = i") simp_all
    then show ?thesis unfolding r using q w by (intro exI [of _ shp'] exI [of _ mx'] exI [of _ m'] exI [of _ s']) (simp add: Let_def)
  next
    case True
    let ?n = "unat (sh_size ?h)" let ?u = "up (c_addr c) ?n" and ?shp = "moved c i off shp" and ?m = "mem_put ?P (bytes_at (unat (sh_offset ?h)) ?n dat) m"
    have r: "?room i = ?u + ?room (i + 1)" unfolding hs using True by (simp add: sym_room_def)
    have hs': "map (shdr_at c ?shp) [i + 1..<i + Suc n] = map (shdr_at c shp) [i + 1..<i + Suc n]"
      by (rule map_cong [OF refl]) (auto intro: moved_other [OF assms(3) len])
    obtain off1 mx1 s1 where e: "sh_loop rd sk c LOAD_ALL offset shstr True (Suc n) i shp off mx m s
          = sh_loop rd sk c LOAD_ALL offset shstr True n (i + 1) ?shp off1 mx1 ?m s1" "opened s1"
        and u: "unat off1 = unat off + ?u" "unat mx1 = unat mx + ?u" "in_window base offset mx1 (?room (i + 1))" "place base offset mx1 = ?P + ?u"
      using sh_loop_wanted [OF Suc.prems(1) assms(2,3) True sec refl Suc.prems(4) [unfolded r], of off n m] Suc.prems(5) r by auto
    from Suc.IH [OF e(2), of "i + 1" ?shp mx1 off1 ?m, unfolded j hs' length_moved [OF assms(3) len] u(1,2,4)] Suc.prems(2,3,5) moved_other [OF assms(3) len] u(3) r
    obtain shp' mx' m' s' where q: "sh_loop rd sk c LOAD_ALL offset shstr True n (i + 1) ?shp off1 mx1 ?m s1 = Ret (True, shp', mx', m', s')"
        "opened s'" "length shp' = length shp" "unat mx' = unat mx + ?u + ?room (i + 1)" "\<forall>x. x < ?P + ?u \<longrightarrow> m' x = ?m x"
        "\<forall>k. k < i + 1 \<or> i + Suc n \<le> k \<longrightarrow> shdr_at c shp' k = shdr_at c ?shp k"
        "\<forall>k. i + 1 \<le> k \<and> k < i + Suc n \<longrightarrow> sec_moved dat shstr (?P + ?u) (unat off + ?u) m' (shdr_at c shp k) (shdr_at c shp' k)"
      by (auto simp: add.assoc)
    have "?n \<le> ?u" using class_addr [OF assms(3)] by (intro up_bounds) auto
    then have "mem_get m' ?P ?n = mem_get ?m ?P ?n" using q(5) by (intro mem_get_cong) simp
    also have "\<dots> = bytes_at (unat (sh_offset ?h)) ?n dat" using sec True by (intro mem_get_put_same) (simp add: bytes_at_def sec_ok_def)
    finally have "sec_moved dat shstr ?P (unat off) m' ?h (shdr_at c shp' i)"
      using q(6) moved_same [OF assms(3) len] Suc.prems(5) True by (simp add: sec_moved_def addr_wide_small [OF assms(3)])
    then have "sec_moved dat shstr ?P (unat off) m' (shdr_at c shp k) (shdr_at c shp' k)" if "i \<le> k" "k < i + Suc n" for k
      using that q(7) sec_moved_shift [of dat shstr ?P ?u "unat off" m' "shdr_at c shp k"] by (cases "k = i") auto
    moreover have "m' x = m x" if "x < ?P" for x using q(5) that by (simp add: mem_put_def)
    moreover have "shdr_at c shp' k = shdr_at c shp k" if "k < i \<or> i + Suc n \<le> k" for k
      using q(6) that moved_other [OF assms(3) len, of k] by auto
    ultimately show ?thesis unfolding e r using q(1-4) by (intro exI [of _ shp'] exI [of _ mx'] exI [of _ m'] exI [of _ s']) simp
  qed
qed

lemma load_symbols_ok:
  assumes "opened s" "window_ok base offset" "class_ok c" "symbols_ok dat c e" "\<forall>n. length (al n) = n"
    and w: "in_window base offset mx (room_of dat c e)"
    and r: "c_ehdr c + 8 + room_of dat c e < 2 ^ 28"
  defines "P \<equiv> place base offset mx" and "sz \<equiv> e_shnum e * c_shdr c"
  shows "\<exists>mx' m' s'. load_symbols rd sk al c LOAD_ALL offset e mx m s = Ret (True, mx', m', s') \<and> opened s'
     \<and> unat mx' = unat mx + room_of dat c e \<and> (\<forall>x<P. m' x = m x)
     \<and> (\<forall>k<e_shnum e. sec_moved dat (shnames dat c e) (P + up (c_addr c) sz) (up (c_addr c) (c_ehdr c + sz)) m'
          (shdr_at c (shtab dat c e) k) (shdr_at c (mem_get m' P sz) k))"
proof -
  let ?shp = "shtab dat c e" and ?str = "shnames dat c e" let ?h = "shdr_at c ?shp (e_shstrndx e)"
  let ?hs = "map (shdr_at c ?shp) [0..<e_shnum e]" let ?u = "up (c_addr c) sz" and ?o = "up (c_addr c) (c_ehdr c + sz)" and ?r = "sym_room c ?str ?hs"
  have room: "room_of dat c e = ?u + ?r" by (simp add: room_of_def sz_def)
  have c: "c_addr c = 4 \<or> c_addr c = 8" by (rule class_addr [OF assms(3)])
  have r2: "c_ehdr c + sz + 8 + ?r < 2 ^ 28" using r room up_bounds(1) [of "c_addr c" sz] c by auto
  obtain s1 where s1: "read_at rd sk (e_shoff e) (al sz) s = Ret (True, ?shp, s1)" "opened s1"
    using read_at_ok [OF assms(1), of "e_shoff e" "al sz"] assms(4,5) by (auto simp: symbols_ok_def sz_def shtab_def)
  obtain s2 where s2: "read_at rd sk (sh_offset ?h) (al (unat (sh_size ?h))) s1 = Ret (True, ?str, s2)" "opened s2"
    using read_at_ok [OF s1(2), of "sh_offset ?h" "al (unat (sh_size ?h))"] assms(4,5) by (auto simp: symbols_ok_def shnames_def Let_def)
  have u: "roundup (of_nat sz) (of_nat (c_addr c)) = of_nat ?u" "roundup (of_nat (c_ehdr c + sz)) (of_nat (c_addr c)) = of_nat ?o"
    using r2 by (auto intro!: roundup_of_nat [OF c] simp: sz_def [symmetric] simp del: of_nat_add)
  have "?o \<le> c_ehdr c + sz + 8" using up_bounds(2) [of "c_addr c" "c_ehdr c + sz"] c by auto
  then have "?o + ?r < 2 ^ 28" using r2 by linarith
  then have o: "unat (addr_wide c (of_nat ?o)) = ?o" "unat (addr_wide c (of_nat ?o)) + ?r < 2 ^ 28"
    by (subst addr_wide_small [OF assms(3)]; auto simp: unat_of_nat_small)+
  have "unat (e_shoff e) + sz \<le> length dat" using assms(4) by (simp add: symbols_ok_def sz_def)
  then have l: "(0 + e_shnum e) * c_shdr c \<le> length ?shp" "length ?shp = sz" by (simp_all add: shtab_def sz_def length_bytes_at)
  have sec: "\<forall>k. 0 \<le> k \<and> k < 0 + e_shnum e \<longrightarrow> sec_ok dat ?str (shdr_at c ?shp k)"
    using assms(4) by (simp add: symbols_ok_def list_all_iff)
  have p: "unat (mx + of_nat ?u) = unat mx + ?u" "in_window base offset (mx + of_nat ?u) ?r" "place base offset (mx + of_nat ?u) = P + ?u"
    using in_window_plus [OF assms(2) w, of ?u] room by (simp_all add: P_def)
  obtain shp' mx' m' s' where q:
      "sh_loop rd sk c LOAD_ALL offset ?str True (e_shnum e) 0 ?shp (addr_wide c (of_nat ?o)) (mx + of_nat ?u) m s2 = Ret (True, shp', mx', m', s')" "opened s'"
      "length shp' = sz" "unat mx' = unat mx + ?u + ?r" "\<forall>x. x < P + ?u \<longrightarrow> m' x = m x"
      "\<forall>k<e_shnum e. sec_moved dat ?str (P + ?u) ?o m' (shdr_at c ?shp k) (shdr_at c shp' k)"
    using sh_loop_ok [OF s2(2) assms(2,3) l(1) sec, unfolded add_0, OF p(2) o(2), of m] unfolding p(1,3) o(1) l(2) by auto
  let ?m = "mem_put P shp' m'"
  have "load_symbols rd sk al c LOAD_ALL offset e mx m s = Ret (True, mx', ?m, s')"
    using s1(1) s2(1) q(1) assms(4) LOADADDR_place [OF assms(2) w]
    by (simp add: load_symbols_def Let_def sz_def [symmetric] symbols_ok_def u asked_ALL P_def del: of_nat_add of_nat_mult)
  moreover have "mem_get ?m P sz = shp'" using q(3) by (intro mem_get_put_same) simp
  moreover have "sec_moved dat ?str (P + ?u) ?o ?m h h' = sec_moved dat ?str (P + ?u) ?o m' h h'" for h h'
    using q(3) up_bounds(1) [of "c_addr c" sz] c by (intro sec_moved_cong mem_get_cong) (auto simp: mem_put_def)
  moreover have "\<forall>x<P. ?m x = m x" using q(5) by (simp add: mem_put_def)
  ultimately show ?thesis using q(2,4,6) room by simp
qed

lemma elf_exec_ok:
  assumes "opened s" "class_ok c" "kernel_ok dat c base offset e" "\<forall>n. length (al n) = n" "length rnddata = RNDSIZE"
    and e: "e = dec_ehdr c elf" "length elf = HDRSIZE" and mk: "offset = marks ! MARK_START" "length marks = 7"
  shows "\<exists>marks' m' s'. elf_exec rd sk al rnddata c elf marks LOAD_ALL m s = Ret (0, marks', m', s') \<and> opened s'
     \<and> kernel_loaded dat rnddata c base offset elf m marks' m'"
proof -
  let ?phs = "phdrs_of dat c e" and ?a = "c_addr c" and ?sz = "e_shnum e * c_shdr c" and ?r = "room_of dat c e"
  let ?top = "high_addr 0 ?phs" let ?sym = "up ?a ?top + unat offset - base" and ?l = "\<lparr>minp = - 1, maxp = 0, pos_of = 0, marks_of = marks, mem_of = m\<rparr>"
  have k: "window_ok base offset" "unat (e_phoff e) + e_phnum e * c_phdr c \<le> length dat" "list_all (phdr_ok dat base offset) ?phs" "symbols_ok dat c e"
      "base \<le> ?top + unat offset" "?top + 8 + unat offset + c_ehdr c + ?r < base + 2 ^ 28"
    using assms(3) by (auto simp: kernel_ok_def)
  have c: "?a = 4 \<or> ?a = 8" "c_ehdr c \<le> HDRSIZE" "?a dvd c_ehdr c" "c_ehdr c < 65" using assms(2) by (auto simp: class_ok_def elf32_def elf64_def HDRSIZE_def)
  have up: "?top \<le> up ?a ?top" "up ?a ?top \<le> ?top + 8" using up_bounds [of ?a ?top] c(1) by auto
  obtain s1 where s1: "read_at rd sk (e_phoff e) (al (e_phnum e * c_phdr c)) s = Ret (True, bytes_at (unat (e_phoff e)) (e_phnum e * c_phdr c) dat, s1)" "opened s1"
    using read_at_ok [OF assms(1), of "e_phoff e" "al (e_phnum e * c_phdr c)"] k(2) assms(4) by auto
  obtain l s2 where l: "ph_loop rd sk rnddata c LOAD_ALL offset ?phs ?l s1 = Ret (True, l, s2)" "opened s2" "length (marks_of l) = 7"
      "mem_of l = kernel_image dat rnddata base offset ?phs m" "minp l = low_addr (- 1) ?phs" "unat (maxp l) = ?top"
    using ph_loop_ok [OF s1(2) k(1,3) assms(2,5), of ?l] mk by auto
  let ?elfp = "roundup (maxp l) (of_nat ?a)"
  have "?top + 8 < 2 ^ 64" using k(1,6) by (simp add: window_ok_def)
  then have elfp: "unat ?elfp = up ?a ?top" using l(6) by (subst unat_roundup [OF c(1)]) simp_all
  then have w: "in_window base offset ?elfp (c_ehdr c + ?r)" using k(5,6) up by (simp add: in_window_def)
  have P: "place base offset ?elfp = ?sym" by (simp add: place_def elfp)
  let ?mx = "?elfp + of_nat (c_ehdr c)"
  have mx: "unat ?mx = up ?a ?top + c_ehdr c" "in_window base offset ?mx ?r" "place base offset ?mx = ?sym + c_ehdr c"
    using in_window_plus [OF k(1) w, of "c_ehdr c"] by (simp_all add: P elfp)
  have o: "up ?a (c_ehdr c + ?sz) = c_ehdr c + up ?a ?sz" using c(1,3) by (auto simp: up_def add.assoc elim!: dvdE)
  have "c_ehdr c + 8 + ?r < 2 ^ 28" using k(5,6) by linarith
  from load_symbols_ok [OF l(2) k(1) assms(2) k(4) assms(4) mx(2) this, of "mem_of l"]
  obtain mx' m' s' where q: "load_symbols rd sk al c LOAD_ALL offset e ?mx (mem_of l) s2 = Ret (True, mx', m', s')" "opened s'" "unat mx' = up ?a ?top + c_ehdr c + ?r"
      "\<forall>x<?sym + c_ehdr c. m' x = mem_of l x"
      "\<forall>k<e_shnum e. sec_moved dat (shnames dat c e) (?sym + (c_ehdr c + up ?a ?sz)) (0 + (c_ehdr c + up ?a ?sz)) m' (shdr_at c (shtab dat c e) k) (shdr_at c (mem_get m' (?sym + c_ehdr c) ?sz) k)"
    unfolding mx(1,3) o by (auto simp: add.assoc)
  let ?m = "mem_put ?sym (take (c_ehdr c) (frob c elf)) m'"
  let ?marks = "(marks_of l)[MARK_START := of_nat (LOADADDR offset (minp l)), MARK_ENTRY := of_nat (LOADADDR offset (e_entry e)),
                       MARK_NSYM := 1, MARK_SYM := of_nat (LOADADDR offset ?elfp), MARK_END := of_nat (LOADADDR offset mx')]"
  have "elf_exec rd sk al rnddata c elf marks LOAD_ALL m s = Ret (0, ?marks, ?m, s')"
    using s1(1) l(1) q(1) LOADADDR_place [OF k(1) w]
    by (simp add: elf_exec_def Let_def e(1) [symmetric] mk(1) [symmetric] phdrs_of_def asked_ALL P)
  moreover have "kernel_loaded dat rnddata c base offset elf m ?marks ?m"
  proof (rule kernel_loadedI [OF assms(2) e(1) refl e(2) _ q(5)])
    show "\<forall>x<?sym. m' x = kernel_image dat rnddata base offset ?phs m x" using q(4) l(4) by simp
    have "in_window base offset mx' 0" using mx(2) q(3) by (simp add: in_window_def mx(1))
    from LOADADDR_place [OF k(1) this] have "LOADADDR offset mx' = ?sym + c_ehdr c + ?r" using k(5) up q(3) by (simp add: place_def)
    then show "?marks ! MARK_END = of_nat (?sym + c_ehdr c + ?r)" using l(3) by (simp add: marks_defs)
    show "?marks ! MARK_SYM = of_nat ?sym" using LOADADDR_place [OF k(1) w] P l(3) by (simp add: marks_defs)
  qed (use l(3,5) in \<open>simp_all add: marks_defs\<close>)
  ultimately show ?thesis using q(2) by blast
qed

end

end
