(* ===== verification/Ufs_Read.thy ===== *)
theory Ufs_Read
  imports Libsa_Ufs
begin

unbundle bit_operations_syntax

text \<open>
  What \<open>ufs.c\<close> returns, against a description of a file system as it lies on a disk: the contents of a file are
  read off its inode and the indirect blocks with no buffer in between (\<open>bmap\<close>, \<open>data_block\<close>, \<open>file_bytes\<close>). The
  locale \<open>block_device\<close> is the contract of a strategy routine; in \<open>ufs_volume\<close> it carries a file system, and the
  buffers of an open file always agree with the disk. Reading gives the bytes of the file, and the search of
  a directory finds what its entries say.
\<close>

section \<open>The layout of a file system\<close>

definition fs_ok :: "fs \<Rightarrow> bool" where
  "fs_ok fs \<longleftrightarrow> (let sh = unat (fs_bshift fs); fsh = unat (fs_fsbtodb fs) + 9 in
     11 \<le> sh \<and> sh \<le> 16 \<and> fsh + unat (fs_fragshift fs) = sh \<and> fs_bsize fs = 2 ^ sh \<and> fs_qbmask fs = mask sh
     \<and> fs_qfmask fs = mask fsh \<and> fs_fmask fs = NOT (mask fsh) \<and> fs_nindir fs = 2 ^ (sh - 2) \<and> fs_inopb fs = 2 ^ (sh - 7)
     \<and> fs_ipg fs \<noteq> 0)"

definition bsz :: "fs \<Rightarrow> nat" where "bsz fs = 2 ^ unat (fs_bshift fs)"
definition fsz :: "fs \<Rightarrow> nat" where "fsz fs = 2 ^ (unat (fs_fsbtodb fs) + 9)"

lemma fs_okD:
  assumes "fs_ok fs"
  shows "11 \<le> unat (fs_bshift fs)" "unat (fs_bshift fs) \<le> 16" "unat (fs_fsbtodb fs) + 9 + unat (fs_fragshift fs) = unat (fs_bshift fs)"
    "fs_bsize fs = 2 ^ unat (fs_bshift fs)" "fs_qbmask fs = mask (unat (fs_bshift fs))"
    "fs_qfmask fs = mask (unat (fs_fsbtodb fs) + 9)" "fs_fmask fs = NOT (mask (unat (fs_fsbtodb fs) + 9))"
    "fs_nindir fs = 2 ^ (unat (fs_bshift fs) - 2)" "fs_inopb fs = 2 ^ (unat (fs_bshift fs) - 7)" "fs_ipg fs \<noteq> 0"
  using assms by (simp_all add: fs_ok_def Let_def)

lemma bsize_unat: "fs_ok fs \<Longrightarrow> unat (fs_bsize fs) = bsz fs"
  using fs_okD(2,4) [of fs] by (simp add: bsz_def unat_two_power)

lemma bsz_bounds: "fs_ok fs \<Longrightarrow> 2048 \<le> bsz fs \<and> bsz fs \<le> 65536"
  using power_increasing [OF fs_okD(1), of fs "2 :: nat"] power_increasing [OF fs_okD(2), of fs "2 :: nat"]
  by (simp add: bsz_def)

lemma bsize_scast: "fs_ok fs \<Longrightarrow> unat (scast (fs_bsize fs) :: u64) = bsz fs"
  using bsz_bounds [of fs] unat_scast_small [of "fs_bsize fs"] by (simp add: bsize_unat)

lemma bsize_of_nat: "fs_ok fs \<Longrightarrow> (scast (fs_bsize fs) :: u64) = of_nat (bsz fs)"
  using bsize_scast [of fs] by (metis of_nat_unat ucast_id)

lemma bsz_512: "fs_ok fs \<Longrightarrow> 512 dvd bsz fs"
  using le_imp_power_dvd [OF fs_okD(1), of fs "2 :: nat"] by (auto simp: bsz_def dvd_def)

lemma fsz_bsz: "fs_ok fs \<Longrightarrow> bsz fs = fsz fs * 2 ^ unat (fs_fragshift fs)"
  using fs_okD(3) [of fs] by (simp add: bsz_def fsz_def flip: power_add)

lemma fsz_512: "fs_ok fs \<Longrightarrow> fsz fs = 2 ^ unat (fs_fsbtodb fs) * 512"
  by (simp add: fsz_def power_add)

lemma blkoff_mod: "fs_ok fs \<Longrightarrow> blkoff fs (int p) = int (p mod bsz fs)"
proof -
  assume ok: "fs_ok fs"
  let ?s = "unat (fs_bshift fs)"
  have "unat (mask ?s :: u64) = mask ?s" using fs_okD(2) [OF ok] by (simp add: unat_mask_small) (simp add: mask_eq_exp_minus_1)
  moreover have "mask ?s < (2 :: nat) ^ 63" using bsz_bounds [OF ok] by (simp add: mask_eq_exp_minus_1 bsz_def) linarith
  ultimately have "sint (mask ?s :: u64) = int (mask ?s)" by (subst sint_small) simp_all
  then have "sint (fs_qbmask fs) = mask ?s" using fs_okD(5) [OF ok] by (simp add: of_nat_mask_eq)
  then show ?thesis by (simp add: blkoff_def bsz_def zmod_int take_bit_eq_mod flip: take_bit_eq_mask)
qed

lemma i32_small: "n < 2 ^ 31 \<Longrightarrow> i32 (int n) = int n"
  unfolding i32_def by (intro signed_take_bit_int_eq_self) simp_all

lemma lblkno_div: "fs_ok fs \<Longrightarrow> p div bsz fs < 2 ^ 31 \<Longrightarrow> lblkno fs (int p) = Ret (int (p div bsz fs))"
proof -
  assume ok: "fs_ok fs" and p: "p div bsz fs < 2 ^ 31"
  have "drop_bit (unat (fs_bshift fs)) (int p) = int (p div bsz fs)"
    by (simp add: bsz_def drop_bit_eq_div zdiv_int)
  moreover have "i32 (int (p div bsz fs)) = int (p div bsz fs)"
    using p by (rule i32_small)
  ultimately show ?thesis using fs_okD(2) [OF ok] by (simp add: lblkno_def)
qed

definition blksize_of :: "fs \<Rightarrow> dinode \<Rightarrow> nat \<Rightarrow> nat" where
  "blksize_of fs di n =
     (if n \<ge> NDADDR \<or> (n + 1) * bsz fs \<le> unat (di_size di) then bsz fs
      else (unat (di_size di) mod bsz fs + fsz fs - 1) div fsz fs * fsz fs)"

lemma dblksize_eq:
  assumes ok: "fs_ok fs"
  shows "dblksize fs di (int n) = Ret (of_nat (blksize_of fs di n))"
proof (cases "n \<ge> NDADDR")
  case True
  then show ?thesis
    by (simp add: dblksize_def blksize_of_def bsize_of_nat [OF ok])
next
  case False
  let ?s = "unat (fs_bshift fs)" and ?f = "unat (fs_fsbtodb fs) + 9"
  have s: "?s \<le> 16" "?f \<le> ?s" using fs_okD(2,3) [OF ok] by simp_all
  have x: "push_bit ?s (int n + 1) = int ((n + 1) * bsz fs)" by (simp add: push_bit_eq_mult bsz_def algebra_simps)
  have "(n + 1) * bsz fs \<le> 12 * 65536"
    using False bsz_bounds [OF ok] by (intro mult_le_mono) (auto simp: NDADDR_def)
  then have sm: "(n + 1) * bsz fs < 2 ^ 31" by simp
  then have "i32 (int ((n + 1) * bsz fs)) = int ((n + 1) * bsz fs)" by (rule i32_small)
  then have w: "word_of_int (i32 (push_bit ?s (int n + 1))) = (of_nat ((n + 1) * bsz fs) :: u64)" by (simp only: x) simp
  have le: "(of_nat ((n + 1) * bsz fs) \<le> di_size di) = ((n + 1) * bsz fs \<le> unat (di_size di))"
    unfolding word_le_nat_alt by (subst unat_of_nat_small) (use sm in simp_all)
  let ?z = "di_size di AND fs_qbmask fs"
  have z: "unat ?z = unat (di_size di) mod bsz fs"
    using s by (simp add: fs_okD(5) [OF ok] bsz_def flip: take_bit_eq_mask) (simp add: take_bit_eq_mod unat_mod unat_two_power)
  have zl: "unat ?z < 65536" using z bsz_bounds [OF ok] by (metis mod_less_divisor le_trans less_le_trans zero_less_numeral)
  have m: "unat (fs_qfmask fs) = fsz fs - 1" "fsz fs \<le> 65536" "0 < fsz fs"
    using s power_increasing [of ?f 16 "2 :: nat"] by (simp_all add: fs_okD(6) [OF ok] fsz_def unat_mask_small)
  have "unat (?z + fs_qfmask fs) = unat ?z + (fsz fs - 1)" using m zl by (subst unat_plus_small) simp_all
  moreover have "scast (fs_fmask fs) = (NOT (mask ?f) :: u64)"
    using s by (simp add: fs_okD(7) [OF ok]) (auto simp: bit_eq_iff bit_simps)
  ultimately have "unat (fragroundup fs ?z) = (unat ?z + (fsz fs - 1)) div fsz fs * fsz fs"
    by (simp only: fragroundup_def unat_and_not_mask fsz_def)
  moreover have "unat (di_size di) mod bsz fs + fsz fs - 1 = unat ?z + (fsz fs - 1)" using m(3) z by simp
  ultimately have "of_nat (unat (fragroundup fs ?z)) = (of_nat ((unat (di_size di) mod bsz fs + fsz fs - 1) div fsz fs * fsz fs) :: u64)"
    by (simp only:)
  then have "fragroundup fs ?z = of_nat ((unat (di_size di) mod bsz fs + fsz fs - 1) div fsz fs * fsz fs)"
    by (simp only: of_nat_unat ucast_id)
  moreover have "dblksize fs di (int n) =
      (if of_nat ((n + 1) * bsz fs) \<le> di_size di then Ret (scast (fs_bsize fs)) else Ret (fragroundup fs ?z))"
    unfolding dblksize_def w using False s by simp
  ultimately show ?thesis
    unfolding le using False by (simp only: blksize_of_def bsize_of_nat [OF ok]) simp
qed

section \<open>The blocks of a file, without buffers\<close>

definition blk_at :: "(nat \<Rightarrow> u8 list) \<Rightarrow> fs \<Rightarrow> u32 \<Rightarrow> u8 list" where
  "blk_at m fs b = secs m (unat b * 2 ^ unat (fs_fsbtodb fs)) (bsz fs div 512)"

definition ptr_at :: "(nat \<Rightarrow> u8 list) \<Rightarrow> fs \<Rightarrow> u32 \<Rightarrow> nat \<Rightarrow> u32" where
  "ptr_at m fs b k = of_nat (le_dec (bytes_at (4 * k) 4 (blk_at m fs b)))"

definition nind :: "fs \<Rightarrow> nat" where "nind fs = 2 ^ (unat (fs_bshift fs) - 2)"

fun map_ind :: "(nat \<Rightarrow> u8 list) \<Rightarrow> fs \<Rightarrow> nat \<Rightarrow> u32 \<Rightarrow> nat \<Rightarrow> u32" where
  "map_ind m fs 0 b k = b"
| "map_ind m fs (Suc l) b k =
     (if b = 0 then 0 else map_ind m fs l (ptr_at m fs b (k div nind fs ^ l)) (k mod nind fs ^ l))"

text \<open>
  The level of indirection of a block and its number there. With three levels, the number of blocks has to fit
  an \<open>int\<close>, which it does for block sizes up to 4096 only.
\<close>

definition level_of :: "fs \<Rightarrow> nat \<Rightarrow> (nat \<times> nat) option" where
  "level_of fs n =
     (let k = n - NDADDR; N = nind fs in
      if k < N then Some (0, k)
      else if k - N < N ^ 2 then Some (1, k - N)
      else if N ^ 3 < 2 ^ 31 \<and> k - N - N ^ 2 < N ^ 3 then Some (2, k - N - N ^ 2)
      else None)"

definition bmap :: "(nat \<Rightarrow> u8 list) \<Rightarrow> fs \<Rightarrow> dinode \<Rightarrow> nat \<Rightarrow> u32" where
  "bmap m fs di n =
     (if n < NDADDR then di_db di ! n
      else case level_of fs n of None \<Rightarrow> 0 | Some (l, k) \<Rightarrow> map_ind m fs (Suc l) (di_ib di ! l) k)"

definition data_block :: "(nat \<Rightarrow> u8 list) \<Rightarrow> fs \<Rightarrow> dinode \<Rightarrow> nat \<Rightarrow> u8 list" where
  "data_block m fs di n =
     (let b = bmap m fs di n; z = blksize_of fs di n in
      if b = 0 then replicate z 0 else secs m (unat b * 2 ^ unat (fs_fsbtodb fs)) (z div 512))"

definition file_bytes :: "(nat \<Rightarrow> u8 list) \<Rightarrow> fs \<Rightarrow> dinode \<Rightarrow> nat \<Rightarrow> nat \<Rightarrow> u8 list" where
  "file_bytes m fs di off n = map (\<lambda>i. data_block m fs di (i div bsz fs) ! (i mod bsz fs)) [off..<off + n]"

text \<open>The addresses that are used lie in the part of the disk that can be read.\<close>

definition frag_ok :: "(nat \<Rightarrow> nat \<Rightarrow> bool) \<Rightarrow> fs \<Rightarrow> u32 \<Rightarrow> nat \<Rightarrow> bool" where
  "frag_ok rd fs b z \<longleftrightarrow> unat b * 2 ^ unat (fs_fsbtodb fs) < 2 ^ 32 \<and> rd (unat b * 2 ^ unat (fs_fsbtodb fs)) (z div 512)"

fun ind_ok :: "(nat \<Rightarrow> nat \<Rightarrow> bool) \<Rightarrow> (nat \<Rightarrow> u8 list) \<Rightarrow> fs \<Rightarrow> nat \<Rightarrow> u32 \<Rightarrow> nat \<Rightarrow> bool" where
  "ind_ok rd m fs 0 b k = True"
| "ind_ok rd m fs (Suc l) b k = (b = 0 \<or> b \<noteq> - 1 \<and> frag_ok rd fs b (bsz fs)
     \<and> ind_ok rd m fs l (ptr_at m fs b (k div nind fs ^ l)) (k mod nind fs ^ l))"

definition block_ok :: "(nat \<Rightarrow> nat \<Rightarrow> bool) \<Rightarrow> (nat \<Rightarrow> u8 list) \<Rightarrow> fs \<Rightarrow> dinode \<Rightarrow> nat \<Rightarrow> bool" where
  "block_ok rd m fs di n \<longleftrightarrow>
     (n < NDADDR \<or> (case level_of fs n of None \<Rightarrow> False | Some (l, k) \<Rightarrow> ind_ok rd m fs (Suc l) (di_ib di ! l) k))
     \<and> (bmap m fs di n = 0 \<or> frag_ok rd fs (bmap m fs di n) (blksize_of fs di n))"

definition inode_ok :: "(nat \<Rightarrow> nat \<Rightarrow> bool) \<Rightarrow> (nat \<Rightarrow> u8 list) \<Rightarrow> fs \<Rightarrow> dinode \<Rightarrow> bool" where
  "inode_ok rd m fs di \<longleftrightarrow> length (di_db di) = NDADDR \<and> length (di_ib di) = NIADDR
     \<and> (\<forall>n < (unat (di_size di) + bsz fs - 1) div bsz fs. block_ok rd m fs di n)"

lemma shift_cases:
  assumes "fs_ok fs"
  obtains "unat (fs_bshift fs) = 11" | "unat (fs_bshift fs) = 12" | "unat (fs_bshift fs) = 13"
    | "unat (fs_bshift fs) = 14" | "unat (fs_bshift fs) = 15" | "unat (fs_bshift fs) = 16"
proof -
  have "unat (fs_bshift fs) \<in> {11, 12, 13, 14, 15, 16}" using fs_okD(1,2) [OF assms] by auto
  then show thesis using that by blast
qed

lemma nind_bsz: "fs_ok fs \<Longrightarrow> 4 * nind fs = bsz fs"
  by (rule shift_cases [of fs]) (simp_all add: nind_def bsz_def)

lemma find_level_nindirs:
  assumes ok: "fs_ok fs" and n: "NDADDR \<le> n" "n < 2 ^ 31"
  shows "find_level (nindirs fs) (int n - int NDADDR) 0 = map_option (\<lambda>(l, k). (l, int k)) (level_of fs n)"
proof -
  obtain k where k: "n = NDADDR + k" using n(1) le_Suc_ex by blast
  have i: "i32 (int k - int c) = int (k - c)" "i32 (int k - int c - int d) = int (k - c - d)"
    if "c + d \<le> k" for c d
    using that k n(2) i32_small [of "k - c"] i32_small [of "k - c - d"] by (auto simp: of_nat_diff algebra_simps)
  show ?thesis
    by (rule shift_cases [OF ok])
      (use k n i [of "nind fs" 0] i [of "nind fs" "nind fs ^ 2"] in \<open>simp_all add: nindirs_def fs_okD(8) [OF ok] level_of_def nind_def i32_def Let_def\<close>, arith+)
qed

lemma sdiv_nat: "int a sdiv int b = int (a div b)"
  by (cases "a = 0"; cases "b = 0") (simp_all add: signed_divide_int_def zdiv_int)

lemma smod_nat: "int a smod int b = int (a mod b)"
  by (cases "a = 0") (simp_all add: signed_modulo_int_def sdiv_nat zdiv_int zmod_int minus_div_mult_eq_mod)

lemma nindirs_nth:
  assumes "fs_ok fs" "l < 2"
  shows "nindirs fs ! l = int (nind fs ^ Suc l)"
proof -
  have "l = 0 \<or> l = 1" using assms(2) by auto
  then show ?thesis
    by (rule disjE) (rule shift_cases [OF assms(1)]; simp add: nindirs_def fs_okD(8) [OF assms(1)] nind_def i32_def Let_def)+
qed

lemma fsbtodb_eq:
  assumes ok: "fs_ok fs" and b: "unat b * 2 ^ unat (fs_fsbtodb fs) < 2 ^ 32"
  shows "\<exists>x. fsbtodb fs b = Ret x \<and> unat x = unat b * 2 ^ unat (fs_fsbtodb fs)"
proof -
  have "unat (push_bit (unat (fs_fsbtodb fs)) b) = unat b * 2 ^ unat (fs_fsbtodb fs)"
    unfolding unsigned_push_bit_eq using b by (simp add: push_bit_eq_mult take_bit_nat_eq_self)
  moreover have "unat (fs_fsbtodb fs) < 32" using fs_okD(2,3) [OF ok] by linarith
  ultimately show ?thesis by (simp add: fsbtodb_def)
qed

lemma blksize_of_le:
  assumes ok: "fs_ok fs"
  shows "blksize_of fs di n \<le> bsz fs" "512 dvd blksize_of fs di n"
proof -
  let ?F = "fsz fs" and ?r = "unat (di_size di) mod bsz fs"
  obtain q where q: "bsz fs = q * ?F" using fsz_bsz [OF ok] by (metis mult.commute)
  have F: "0 < ?F" by (simp add: fsz_def)
  have "?r < q * ?F" unfolding q [symmetric] using bsz_bounds [OF ok] by (intro mod_less_divisor) linarith
  then have "?r + ?F - 1 < Suc q * ?F" by simp
  then have "(?r + ?F - 1) div ?F < Suc q" by (simp only: less_mult_imp_div_less)
  then have "(?r + ?F - 1) div ?F * ?F \<le> bsz fs" unfolding q by simp
  then show "blksize_of fs di n \<le> bsz fs" by (simp add: blksize_of_def)
  have "512 dvd ?F" unfolding fsz_512 [OF ok] by simp
  then show "512 dvd blksize_of fs di n" using bsz_512 [OF ok] by (simp add: blksize_of_def)
qed

text \<open>A block of the file holds all bytes of the file that lie in it.\<close>

lemma blksize_of_ge:
  assumes ok: "fs_ok fs" and p: "p < unat (di_size di)"
  shows "min (unat (di_size di)) ((p div bsz fs + 1) * bsz fs) \<le> p div bsz fs * bsz fs + blksize_of fs di (p div bsz fs)"
proof (cases "p div bsz fs \<ge> NDADDR \<or> (p div bsz fs + 1) * bsz fs \<le> unat (di_size di)")
  case True
  then show ?thesis by (simp add: blksize_of_def)
next
  case False
  let ?F = "fsz fs" and ?z = "unat (di_size di)" and ?q = "p div bsz fs"
  have "?q * bsz fs \<le> ?z" using p div_times_less_eq_dividend [of p "bsz fs"] by linarith
  then have "?z div bsz fs = ?q" using False by (intro div_nat_eqI) (auto simp: mult.commute)
  then have z: "?z = ?q * bsz fs + ?z mod bsz fs" by (metis div_mult_mod_eq)
  have "0 < ?F" by (simp add: fsz_def)
  then have "?z mod bsz fs \<le> (?z mod bsz fs + ?F - 1) div ?F * ?F"
    using div_mult_mod_eq [of "?z mod bsz fs + ?F - 1" ?F] mod_less_divisor [of ?F "?z mod bsz fs + ?F - 1"] by linarith
  then show ?thesis using False z by (simp add: blksize_of_def)
qed

lemma level_of_bound: "fs_ok fs \<Longrightarrow> level_of fs n = Some lk \<Longrightarrow> n < 2 ^ 31"
  by (rule shift_cases [of fs]) (auto simp: level_of_def nind_def Let_def NDADDR_def split: if_splits)

lemma block_ok_bound: "fs_ok fs \<Longrightarrow> block_ok rd m fs di n \<Longrightarrow> n < 2 ^ 31"
  by (cases "n < NDADDR") (auto simp: block_ok_def NDADDR_def dest: level_of_bound split: option.splits)

lemma inode_blocks:
  assumes "fs_ok fs" "inode_ok rd m fs di" "p < unat (di_size di)"
  shows "block_ok rd m fs di (p div bsz fs)" "p div bsz fs < 2 ^ 31"
proof -
  have "p div bsz fs < (unat (di_size di) + bsz fs - 1) div bsz fs"
    using assms(3) bsz_bounds [OF assms(1)] div_le_mono [of "p + bsz fs" "unat (di_size di) + bsz fs - 1" "bsz fs"]
    by (simp add: div_add_self2) linarith
  then show "block_ok rd m fs di (p div bsz fs)" using assms(2) by (simp add: inode_ok_def)
  then show "p div bsz fs < 2 ^ 31" by (rule block_ok_bound [OF assms(1)])
qed

lemma inode_size:
  assumes ok: "fs_ok fs" "inode_ok rd m fs di"
  shows "unat (di_size di) < 2 ^ 63"
proof (rule ccontr)
  assume "\<not> ?thesis"
  then have p: "2 ^ 63 - 1 < unat (di_size di)" by simp
  have "(2 ^ 63 - 1) div bsz fs < 2 ^ 31" by (rule inode_blocks(2) [OF ok p])
  then have "(2 ^ 63 - 1 :: nat) < 2 ^ 31 * bsz fs" using bsz_bounds [OF ok(1)] by (simp add: div_less_iff_less_mult)
  then show False using bsz_bounds [OF ok(1)] by simp
qed

lemma file_bytes_add: "file_bytes m fs di p (a + b) = file_bytes m fs di p a @ file_bytes m fs di (p + a) b"
  using upt_add_eq_append [of p "p + a" b] by (simp add: file_bytes_def add.assoc)

lemma file_bytes_block:
  assumes ok: "fs_ok fs" and d: "take (blksize_of fs di (p div bsz fs)) d = data_block m fs di (p div bsz fs)"
    and c: "p mod bsz fs + c \<le> blksize_of fs di (p div bsz fs)" "blksize_of fs di (p div bsz fs) \<le> length d"
  shows "file_bytes m fs di p c = bytes_at (p mod bsz fs) c d"
proof (rule nth_equalityI)
  show "length (file_bytes m fs di p c) = length (bytes_at (p mod bsz fs) c d)"
    using c by (simp add: file_bytes_def bytes_at_def)
  fix i assume "i < length (file_bytes m fs di p c)"
  then have i: "i < c" by (simp add: file_bytes_def)
  have le: "p mod bsz fs + i < bsz fs" using i c(1) blksize_of_le(1) [OF ok, of di "p div bsz fs"] by linarith
  have "p + i = p div bsz fs * bsz fs + (p mod bsz fs + i)" by simp
  then have "(p + i) div bsz fs = p div bsz fs" "(p + i) mod bsz fs = p mod bsz fs + i"
    using le by (metis add.commute add_0 div_less div_mult_self1 less_nat_zero_code,
      metis mod_less mod_mult_self3)
  then show "file_bytes m fs di p c ! i = bytes_at (p mod bsz fs) c d ! i"
    using i c by (simp add: file_bytes_def bytes_at_def d [symmetric])
qed

section \<open>A file system on a device\<close>

text \<open>The buffers of an open file agree with the disk: the indirect blocks, and the data block.\<close>

definition buffers_ok :: "(nat \<Rightarrow> u8 list) \<Rightarrow> fs \<Rightarrow> ufs_file \<Rightarrow> bool" where
  "buffers_ok m fs fp \<longleftrightarrow> f_fs fp = fs \<and> f_nindir fp = nindirs fs
     \<and> length (f_blk fp) = NIADDR \<and> length (f_blkno fp) = NIADDR
     \<and> (\<forall>l < NIADDR. (\<forall>d. f_blk fp ! l = Some d \<longrightarrow> length d = bsz fs)
          \<and> (f_blkno fp ! l = - 1 \<or> f_blk fp ! l = Some (blk_at m fs (f_blkno fp ! l))))
     \<and> (\<forall>d. f_buf fp = Some d \<longrightarrow> length d = bsz fs)"

definition data_ok :: "(nat \<Rightarrow> u8 list) \<Rightarrow> fs \<Rightarrow> ufs_file \<Rightarrow> bool" where
  "data_ok m fs fp \<longleftrightarrow> f_buf_blkno fp = - 1
     \<or> (\<exists>n d. f_buf_blkno fp = int n \<and> f_buf fp = Some d \<and> take (blksize_of fs (f_di fp) n) d = data_block m fs (f_di fp) n)"

definition file_ok :: "(nat \<Rightarrow> nat \<Rightarrow> bool) \<Rightarrow> (nat \<Rightarrow> u8 list) \<Rightarrow> fs \<Rightarrow> ufs_file \<Rightarrow> bool" where
  "file_ok rd m fs fp \<longleftrightarrow> buffers_ok m fs fp \<and> data_ok m fs fp \<and> inode_ok rd m fs (f_di fp)"

lemma file_ok_seek [simp]: "file_ok rd m fs (fp\<lparr>f_seekp := p\<rparr>) = file_ok rd m fs fp"
  by (simp add: file_ok_def buffers_ok_def data_ok_def)

locale block_device =
  fixes strat :: "'s strategy"
    and good :: "'s \<Rightarrow> bool"
    and m :: "nat \<Rightarrow> u8 list"
    and rd :: "nat \<Rightarrow> nat \<Rightarrow> bool"
    and mem :: "nat \<Rightarrow> u8 list"
  assumes sector_size: "length (m i) = 512"
    and mem_size: "length (mem n) = n"
    and strat_reads: "good s \<Longrightarrow> rd (unat blk) n \<Longrightarrow> unat sz = 512 * n \<Longrightarrow> 512 * n \<le> length buf \<Longrightarrow>
      \<exists>s'. strat blk sz buf s = Ret (0, secs m (unat blk) n @ drop (512 * n) buf, sz, s') \<and> good s'"
begin

lemma length_blk_at: "fs_ok fs \<Longrightarrow> length (blk_at m fs b) = bsz fs"
  using bsz_512 [of fs] sector_size by (auto simp: blk_at_def length_secs)

lemma read_frags:
  assumes ok: "fs_ok fs" and s: "good s" and b: "frag_ok rd fs b z" and z: "512 dvd z" "unat sz = z" "z \<le> length buf"
  shows "\<exists>x s'. fsbtodb fs b = Ret x \<and> good s'
     \<and> strat x sz buf s = Ret (0, secs m (unat b * 2 ^ unat (fs_fsbtodb fs)) (z div 512) @ drop z buf, sz, s')"
proof -
  obtain x where x: "fsbtodb fs b = Ret x" "unat x = unat b * 2 ^ unat (fs_fsbtodb fs)"
    using fsbtodb_eq [OF ok] b by (auto simp: frag_ok_def)
  have "512 * (z div 512) = z" using z(1) by simp
  moreover have "rd (unat x) (z div 512)" using b x(2) by (simp add: frag_ok_def)
  ultimately show ?thesis using strat_reads [OF s, of x "z div 512" sz buf] x z by auto
qed

lemma load_ind_ok:
  assumes ok: "fs_ok fs" and bo: "buffers_ok m fs fp" and s: "good s" and l: "level < NIADDR"
    and b: "b \<noteq> - 1" "frag_ok rd fs b (bsz fs)"
  shows "\<exists>fp' s'. load_ind strat mem level b fp s = Ret (0, fp', s') \<and> good s' \<and> buffers_ok m fs fp'
     \<and> f_blk fp' ! level = Some (blk_at m fs b) \<and> f_buf fp' = f_buf fp \<and> f_buf_blkno fp' = f_buf_blkno fp"
proof (cases "f_blkno fp ! level = b")
  case True
  then show ?thesis using bo b l s by (auto simp: load_ind_def buffers_ok_def)
next
  case False
  let ?buf = "case f_blk fp ! level of None \<Rightarrow> mem (unat (fs_bsize fs)) | Some d \<Rightarrow> d"
  have fs: "f_fs fp = fs" using bo by (simp add: buffers_ok_def)
  have len: "length ?buf = bsz fs"
    using bo l by (auto simp: buffers_ok_def mem_size bsize_unat [OF ok] split: option.splits)
  then obtain x s' where x: "fsbtodb fs b = Ret x" "good s'"
      "strat x (scast (fs_bsize fs)) ?buf s = Ret (0, blk_at m fs b @ drop (bsz fs) ?buf, scast (fs_bsize fs), s')"
    using read_frags [OF ok s b(2) bsz_512 [OF ok] bsize_scast [OF ok], of ?buf] by (auto simp: blk_at_def)
  have "load_ind strat mem level b fp s =
      Ret (0, fp\<lparr>f_blk := (f_blk fp)[level := Some (blk_at m fs b)], f_blkno := (f_blkno fp)[level := b]\<rparr>, s')"
    using False x len by (simp add: load_ind_def fs Let_def)
  moreover have "buffers_ok m fs (fp\<lparr>f_blk := (f_blk fp)[level := Some (blk_at m fs b)], f_blkno := (f_blkno fp)[level := b]\<rparr>)"
    using bo l by (auto simp: buffers_ok_def nth_list_update length_blk_at [OF ok])
  ultimately show ?thesis using x(2) bo l by (auto simp: buffers_ok_def)
qed

lemma ind_entry_ok:
  assumes ok: "fs_ok fs" and f: "f_blk fp ! level = Some (blk_at m fs b)" and k: "k < nind fs"
  shows "ind_entry fp level (int k) = Ret (ptr_at m fs b k)"
proof -
  have "4 * k + 4 \<le> bsz fs" using k nind_bsz [OF ok] by linarith
  then show ?thesis using f by (simp add: ind_entry_def obj_bytes_def length_blk_at [OF ok] ptr_at_def)
qed

lemma ind_walk_ok:
  assumes ok: "fs_ok fs"
  shows "l \<le> NIADDR \<Longrightarrow> buffers_ok m fs fp \<Longrightarrow> good s \<Longrightarrow> ind_ok rd m fs l b k \<Longrightarrow> k < nind fs ^ l \<Longrightarrow>
    \<exists>fp' s'. ind_walk strat mem l b (int k) fp s = Ret (0, map_ind m fs l b k, fp', s') \<and> good s' \<and> buffers_ok m fs fp'
      \<and> f_buf fp' = f_buf fp \<and> f_buf_blkno fp' = f_buf_blkno fp"
proof (induction l arbitrary: b k fp s)
  case (Suc level)
  show ?case
  proof (cases "b = 0")
    case False
    let ?N = "nind fs" and ?b = "ptr_at m fs b (k div nind fs ^ level)" and ?k = "k mod nind fs ^ level"
    have b: "b \<noteq> - 1" "frag_ok rd fs b (bsz fs)" "ind_ok rd m fs level ?b ?k" using Suc.prems(4) False by auto
    obtain fp1 s1 where 1: "load_ind strat mem level b fp s = Ret (0, fp1, s1)" "good s1" "buffers_ok m fs fp1"
        "f_blk fp1 ! level = Some (blk_at m fs b)" "f_buf fp1 = f_buf fp" "f_buf_blkno fp1 = f_buf_blkno fp"
      using load_ind_ok [OF ok Suc.prems(2,3) _ b(1,2), of level] Suc.prems(1) by auto
    have N: "0 < ?N ^ level" by (simp add: nind_def)
    have "k div ?N ^ level < ?N" using Suc.prems(5) by (intro less_mult_imp_div_less) (simp add: mult.commute)
    then have e: "ind_entry fp1 level (int (k div ?N ^ level)) = Ret ?b" by (rule ind_entry_ok [OF ok 1(4)])
    obtain fp2 s2 where 2: "ind_walk strat mem level ?b (int ?k) fp1 s1 = Ret (0, map_ind m fs level ?b ?k, fp2, s2)"
        "good s2" "buffers_ok m fs fp2" "f_buf fp2 = f_buf fp1" "f_buf_blkno fp2 = f_buf_blkno fp1"
      using Suc.IH [OF _ 1(3,2) b(3)] Suc.prems(1) N by auto
    have "ind_walk strat mem (Suc level) b (int k) fp s = ind_walk strat mem level ?b (int ?k) fp1 s1"
    proof (cases "level = 0")
      case True
      then show ?thesis using False 1(1) e by simp
    next
      case l: False
      have "f_nindir fp1 ! (level - 1) = int (?N ^ level)"
        using 1(3) nindirs_nth [OF ok, of "level - 1"] l Suc.prems(1) by (simp add: buffers_ok_def NIADDR_def)
      then show ?thesis using False l 1(1) e N by (simp add: Let_def sdiv_nat smod_nat del: of_nat_power)
    qed
    then show ?thesis using False 1(5,6) 2 by auto
  qed (use Suc.prems in auto)
qed simp

lemma block_map_ok:
  assumes ok: "fs_ok fs" and bo: "buffers_ok m fs fp" and s: "good s" and n: "n < 2 ^ 31"
    and di: "inode_ok rd m fs (f_di fp)" and b: "block_ok rd m fs (f_di fp) n"
  shows "\<exists>fp' s'. block_map strat mem (int n) fp s = Ret (0, bmap m fs (f_di fp) n, fp', s') \<and> good s' \<and> buffers_ok m fs fp'
      \<and> f_buf fp' = f_buf fp \<and> f_buf_blkno fp' = f_buf_blkno fp"
proof (cases "n < NDADDR")
  case True
  then show ?thesis using bo s di by (auto simp: block_map_def aget_def bmap_def inode_ok_def)
next
  case False
  obtain l k where lk: "level_of fs n = Some (l, k)" "ind_ok rd m fs (Suc l) (di_ib (f_di fp) ! l) k"
    using b False by (auto simp: block_ok_def split: option.splits)
  have l: "l < NIADDR" "k < nind fs ^ Suc l" using lk(1) by (auto simp: level_of_def Let_def NIADDR_def power2_eq_square power3_eq_cube split: if_splits)
  have fl: "find_level (f_nindir fp) (int n - int NDADDR) 0 = Some (l, int k)"
    using find_level_nindirs [OF ok, of n] False n lk(1) bo by (simp add: buffers_ok_def)
  have "block_map strat mem (int n) fp s = ind_walk strat mem (Suc l) (di_ib (f_di fp) ! l) (int k) fp s"
    using False fl l di by (simp add: block_map_def aget_def inode_ok_def del: ind_walk.simps)
  moreover have "bmap m fs (f_di fp) n = map_ind m fs (Suc l) (di_ib (f_di fp) ! l) k"
    using False lk(1) by (simp add: bmap_def del: map_ind.simps)
  ultimately show ?thesis
    using ind_walk_ok [OF ok _ bo s lk(2) l(2)] l(1) by (simp del: ind_walk.simps map_ind.simps)
qed

lemma fill_buf_ok:
  assumes ok: "fs_ok fs" and bo: "buffers_ok m fs fp" and s: "good s" and n: "n < 2 ^ 31"
    and di: "inode_ok rd m fs (f_di fp)" and b: "block_ok rd m fs (f_di fp) n"
  shows "\<exists>fp' s'. fill_buf strat mem (int n) (of_nat (blksize_of fs (f_di fp) n)) fp s = Ret (0, fp', s') \<and> good s'
      \<and> buffers_ok m fs fp' \<and> f_buf_blkno fp' = int n
      \<and> (\<exists>d. f_buf fp' = Some d \<and> take (blksize_of fs (f_di fp) n) d = data_block m fs (f_di fp) n)"
proof -
  let ?z = "blksize_of fs (f_di fp) n" and ?b = "bmap m fs (f_di fp) n"
  obtain fp1 s1 where 1: "block_map strat mem (int n) fp s = Ret (0, ?b, fp1, s1)" "good s1" "buffers_ok m fs fp1"
    using block_map_ok [OF ok bo s n di b] by blast
  let ?buf = "case f_buf fp1 of None \<Rightarrow> mem (unat (fs_bsize fs)) | Some d \<Rightarrow> d"
  have fs: "f_fs fp1 = fs" using 1(3) by (simp add: buffers_ok_def)
  have len: "length ?buf = bsz fs"
    using 1(3) by (auto simp: buffers_ok_def mem_size bsize_unat [OF ok] split: option.splits)
  have z: "?z \<le> bsz fs" "512 dvd ?z" "unat (of_nat ?z :: u64) = ?z"
    using blksize_of_le [OF ok, of "f_di fp" n] bsz_bounds [OF ok] by (auto intro!: unat_of_nat_small)
  have upd: "buffers_ok m fs (fp1\<lparr>f_buf := Some d, f_buf_blkno := int n\<rparr>)" if "length d = bsz fs" for d
    using 1(3) that by (simp add: buffers_ok_def)
  show ?thesis
  proof (cases "?b = 0")
    case True
    let ?d = "overlay ?buf 0 (replicate ?z 0)"
    have "fill_buf strat mem (int n) (of_nat ?z) fp s = Ret (0, fp1\<lparr>f_buf := Some ?d, f_buf_blkno := int n\<rparr>, s1)"
      using 1(1) True len z by (simp add: fill_buf_def fs put_bytes_def Let_def cong: option.case_cong)
    moreover have "take ?z ?d = data_block m fs (f_di fp) n" using True by (simp add: overlay_def data_block_def)
    ultimately show ?thesis using 1(2) upd [of ?d] len z by (auto simp: length_overlay)
  next
    case False
    let ?d = "data_block m fs (f_di fp) n @ drop ?z ?buf"
    have d: "data_block m fs (f_di fp) n = secs m (unat ?b * 2 ^ unat (fs_fsbtodb fs)) (?z div 512)"
      using False by (simp add: data_block_def)
    then have ld: "length (data_block m fs (f_di fp) n) = ?z" using z(2) sector_size by (simp add: length_secs)
    have fr: "frag_ok rd fs ?b ?z" using b False by (simp add: block_ok_def)
    obtain x s2 where x: "fsbtodb fs ?b = Ret x" "good s2" "strat x (of_nat ?z) ?buf s1 = Ret (0, ?d, of_nat ?z, s2)"
      using read_frags [OF ok 1(2) fr z(2,3), of ?buf] len z(1) d by auto
    have "fill_buf strat mem (int n) (of_nat ?z) fp s = Ret (0, fp1\<lparr>f_buf := Some ?d, f_buf_blkno := int n\<rparr>, s2)"
      using 1(1) False x by (simp add: fill_buf_def fs Let_def cong: option.case_cong)
    then show ?thesis using x(2) upd [of ?d] len ld z(1) by auto
  qed
qed

lemma buf_read_ok:
  assumes ok: "fs_ok fs" and fo: "file_ok rd m fs fp" and s: "good s" and p: "f_seekp fp = int p" "p < unat (di_size (f_di fp))"
  defines "n \<equiv> p div bsz fs" and "off \<equiv> p mod bsz fs"
  defines "c \<equiv> min (blksize_of fs (f_di fp) n - off) (unat (di_size (f_di fp)) - p)"
  shows "\<exists>fp' s' d. buf_read_file strat mem fp s = Ret (0, int off, of_nat c, fp', s') \<and> good s' \<and> file_ok rd m fs fp'
      \<and> f_buf fp' = Some d \<and> length d = bsz fs \<and> take (blksize_of fs (f_di fp) n) d = data_block m fs (f_di fp) n
      \<and> f_buf_blkno fp' = int n"
    and "0 < c" "off + c \<le> blksize_of fs (f_di fp) n"
proof -
  let ?di = "f_di fp" let ?z = "blksize_of fs ?di n" and ?size = "unat (di_size (f_di fp))"
  have fo': "buffers_ok m fs fp" "data_ok m fs fp" "inode_ok rd m fs ?di" using fo by (simp_all add: file_ok_def)
  have fs: "f_fs fp = fs" using fo'(1) by (simp add: buffers_ok_def)
  have n: "block_ok rd m fs ?di n" "n < 2 ^ 31" using inode_blocks [OF ok fo'(3) p(2)] by (simp_all add: n_def)
  have "min ?size ((n + 1) * bsz fs) \<le> n * bsz fs + ?z" using blksize_of_ge [OF ok p(2)] by (simp add: n_def)
  moreover have pn: "p = n * bsz fs + off" "off < bsz fs"
    using bsz_bounds [OF ok] by (simp_all add: n_def off_def)
  ultimately have oz: "off < ?z" using p(2) by auto
  then show "0 < c" "off + c \<le> ?z" using p(2) by (auto simp: c_def)
  have z: "?z \<le> bsz fs" "?z < 2 ^ 64" using blksize_of_le(1) [OF ok, of ?di n] bsz_bounds [OF ok] by auto
  obtain fp' s' d where 1: "(if int n \<noteq> f_buf_blkno fp then fill_buf strat mem (int n) (of_nat ?z) fp s else Ret (0, fp, s)) = Ret (0, fp', s')"
      "good s'" "buffers_ok m fs fp'" "f_buf_blkno fp' = int n" "f_buf fp' = Some d" "take ?z d = data_block m fs ?di n"
  proof (cases "int n = f_buf_blkno fp")
    case True
    then obtain d where d: "f_buf fp = Some d" "take ?z d = data_block m fs ?di n" using fo'(2) by (auto simp: data_ok_def)
    show thesis by (rule that [of fp s d]) (use True [symmetric] s fo'(1) d in auto)
  next
    case False
    then show thesis using fill_buf_ok [OF ok fo'(1) s n(2) fo'(3) n(1)] that by auto
  qed
  have sm: "same_file fp fp'" using 1(1) by (auto simp: same_file_refl split: if_splits dest: fill_buf_same)
  have "of_nat ?z - of_nat off = (of_nat (?z - off) :: u64)" using oz by simp
  moreover have "di_size ?di - of_nat p = (of_nat (?size - p) :: u64)" using p(2) by simp
  moreover have "(of_nat (?size - p) < (of_nat (?z - off) :: u64)) = (?size - p < ?z - off)"
    using z unat_word_less [of "di_size ?di"] by (simp add: word_less_nat_alt unat_of_nat_small del: of_nat_diff)
  ultimately have w: "(if di_size ?di - of_nat p < of_nat ?z - of_nat off then di_size ?di - of_nat p else of_nat ?z - of_nat off) = (of_nat c :: u64)"
    by (simp add: c_def min_def)
  have lb: "lblkno fs (int p) = Ret (int n)" "blkoff fs (int p) = int off" "dblksize fs ?di (int n) = Ret (of_nat ?z)"
    using lblkno_div [OF ok, of p] n(2) by (simp_all add: n_def off_def blkoff_mod [OF ok] dblksize_eq [OF ok])
  have "buf_read_file strat mem fp s = Ret (0, int off, of_nat c, fp', s')"
    unfolding buf_read_file_def fs p(1) lb Let_def obind.simps 1(1) using sm w p(1) by (auto simp: same_file_def split: if_splits)
  moreover have "file_ok rd m fs fp'" "length d = bsz fs"
    using 1 sm fo'(3) by (auto simp: file_ok_def data_ok_def same_file_def buffers_ok_def)
  ultimately show "\<exists>fp' s' d. buf_read_file strat mem fp s = Ret (0, int off, of_nat c, fp', s') \<and> good s' \<and> file_ok rd m fs fp'
      \<and> f_buf fp' = Some d \<and> length d = bsz fs \<and> take ?z d = data_block m fs ?di n \<and> f_buf_blkno fp' = int n"
    using 1 by blast
qed

lemma ufs_read_ok:
  assumes ok: "fs_ok fs"
  shows "file_ok rd m fs fp \<Longrightarrow> good s \<Longrightarrow> f_seekp fp = int p \<Longrightarrow> p \<le> unat (di_size (f_di fp)) \<Longrightarrow> k = min n (unat (di_size (f_di fp)) - p) \<Longrightarrow>
    \<exists>fp' s'. ufs_read strat mem n fp s = Ret (0, file_bytes m fs (f_di fp) p k, n - k, fp', s') \<and> good s' \<and> file_ok rd m fs fp'
      \<and> f_di fp' = f_di fp \<and> f_seekp fp' = int (p + k)"
proof (induction n arbitrary: fp s p k rule: less_induct)
  case (less n)
  let ?di = "f_di fp" let ?size = "unat (di_size ?di)"
  have sz: "?size < 2 ^ 63" using inode_size [OF ok, of rd m ?di] less.prems(1) by (simp add: file_ok_def)
  then have eof: "at_eof fp \<longleftrightarrow> p = ?size"
    using less.prems(3,4) by (auto simp: at_eof_def word_le_nat_alt unat_of_nat_small)
  show ?case
  proof (cases "n = 0 \<or> p = ?size")
    case True
    then show ?thesis using less.prems eof by (subst ufs_read.simps) (auto simp: file_bytes_def)
  next
    case False
    then have p: "p < ?size" using less.prems(4) by simp
    define c where "c = min (blksize_of fs ?di (p div bsz fs) - p mod bsz fs) (?size - p)"
    define e where "e = min n c"
    obtain fp1 s1 d where 1: "buf_read_file strat mem fp s = Ret (0, int (p mod bsz fs), of_nat c, fp1, s1)" "good s1"
        "file_ok rd m fs fp1" "f_buf fp1 = Some d" "length d = bsz fs"
        "take (blksize_of fs ?di (p div bsz fs)) d = data_block m fs ?di (p div bsz fs)"
      and c: "0 < c" "p mod bsz fs + c \<le> blksize_of fs ?di (p div bsz fs)"
      using buf_read_ok [OF ok less.prems(1,2,3) p] unfolding c_def by blast
    have sm: "f_di fp1 = ?di" "f_seekp fp1 = int p"
      using buf_read_file_same(1) [OF 1(1)] less.prems(3) by (simp_all add: same_file_def)
    have c64: "unat (of_nat c :: u64) = c" using sz by (intro unat_of_nat_small) (simp add: c_def)
    have e: "0 < e" "e \<le> n" "p + e \<le> ?size" using False c(1) p by (auto simp: e_def c_def)
    have be: "p mod bsz fs + e \<le> blksize_of fs ?di (p div bsz fs)" using c(2) by (simp add: e_def)
    note fb = file_bytes_block [OF ok 1(6) be]
    have bd: "blksize_of fs ?di (p div bsz fs) \<le> length d" using blksize_of_le(1) [OF ok] 1(5) by simp
    have b: "buf_bytes fp1 (int (p mod bsz fs)) e = Ret (file_bytes m fs ?di p e)"
      using 1(4) be bd fb by (simp add: buf_bytes_def obj_bytes_def)
    have adv: "advance e fp1 = fp1\<lparr>f_seekp := int (p + e)\<rparr>"
      using sm(2) e(3) sz by (simp add: advance_def i64_def signed_take_bit_int_eq_self)
    have "file_ok rd m fs (advance e fp1)" using 1(3) by (simp add: adv)
    then obtain fp2 s2 where 2: "ufs_read strat mem (n - e) (advance e fp1) s1 =
        Ret (0, file_bytes m fs ?di (p + e) (min (n - e) (?size - (p + e))), n - e - min (n - e) (?size - (p + e)), fp2, s2)"
        "good s2" "file_ok rd m fs fp2" "f_di fp2 = ?di" "f_seekp fp2 = int (p + e + min (n - e) (?size - (p + e)))"
      using less.IH [of "n - e" "advance e fp1" s1 "p + e"] e 1(2) sm by (auto simp: adv)
    have "e + min (n - e) (?size - (p + e)) = k" using e less.prems(5) by auto
    then show ?thesis
      using 1(1) 2 b c64 e False eof file_bytes_add [of m fs ?di p e "min (n - e) (?size - (p + e))"] less.prems(5)
      by (subst ufs_read.simps) (auto simp: e_def [symmetric] Let_def)
  qed
qed

end

end
