(* ===== verification/Ufs_Dir.thy ===== *)
theory Ufs_Dir
  imports Ufs_Read
begin

unbundle bit_operations_syntax

text \<open>
  Directories and paths: on a tree of directories described by their entries, \<open>search_directory\<close> finds the first
  entry with the name, and \<open>ufs_open\<close> opens the inode the path leads to, or returns \<open>ENOENT\<close> or \<open>ENOTDIR\<close>.
\<close>

section \<open>Directories\<close>

text \<open>A directory block is a sequence of entries, each with its name, the end of the name and padding.\<close>

record dent =
  e_ino :: u32
  e_type :: u8
  e_name :: string
  e_pad :: "u8 list"

definition enc_dent :: "dent \<Rightarrow> u8 list" where
  "enc_dent e = le_enc 4 (unat (e_ino e)) @ le_enc 2 (9 + length (e_name e) + length (e_pad e))
     @ [e_type e, of_nat (length (e_name e))] @ map of_char (e_name e) @ [0] @ e_pad e"

definition dent_ok :: "dent \<Rightarrow> bool" where
  "dent_ok e \<longleftrightarrow> length (e_name e) \<le> MAXNAMLEN \<and> length (enc_dent e) < 2 ^ 16"

definition dir_bytes :: "dent list \<Rightarrow> u8 list" where "dir_bytes es = concat (map enc_dent es)"

definition lookup :: "dent list \<Rightarrow> string \<Rightarrow> u32 option" where
  "lookup es name = map_option e_ino (find (\<lambda>e. e_ino e \<noteq> 0 \<and> e_name e = name) es)"

definition dir_ok :: "(nat \<Rightarrow> u8 list) \<Rightarrow> fs \<Rightarrow> dinode \<Rightarrow> dent list list \<Rightarrow> bool" where
  "dir_ok m fs di ess \<longleftrightarrow> unat (di_size di) \<le> length ess * bsz fs \<and> list_all (list_all dent_ok) ess
     \<and> list_all (\<lambda>i. i * bsz fs < unat (di_size di)
          \<and> length (dir_bytes (ess ! i)) = min (bsz fs) (unat (di_size di) - i * bsz fs)
          \<and> file_bytes m fs di (i * bsz fs) (length (dir_bytes (ess ! i))) = dir_bytes (ess ! i)) [0..<length ess]"

lemma length_enc_dent: "length (enc_dent e) = 9 + length (e_name e) + length (e_pad e)"
  by (simp add: enc_dent_def)

lemma unat_of_char: "unat (of_char c :: u8) = of_char c"
proof -
  have "unat (of_nat (of_char c) :: u8) = of_char c" by (intro unat_of_nat_small) simp
  then show ?thesis by (simp add: of_nat_of_char)
qed

lemma of_char_inject: "(of_char c :: u8) = of_char d \<longleftrightarrow> c = d"
  by (metis char_of_char unat_of_char)

lemma name_at_eq:
  "length name = length nm \<Longrightarrow> name_at (xs @ map of_char nm @ 0 # ys) (length xs) name = Ret (name = nm)"
proof (induction name nm arbitrary: xs rule: list_induct2)
  case (Cons c cs d ds)
  have "name_at ((xs @ [of_char d]) @ map of_char ds @ 0 # ys) (length (xs @ [of_char d])) cs = Ret (cs = ds)" by (rule Cons.IH)
  then show ?case by (auto simp: aget_def of_char_inject nth_append)
qed (simp add: aget_def)

lemma dec_enc_dent:
  assumes "dent_ok e" "0 < sint (fs_maxsymlinklen fs)"
  shows "obj_bytes (xs @ enc_dent e @ ys) (length xs) 8 = Ret (take 8 (enc_dent e))"
    "dec_direct fs (take 8 (enc_dent e)) = \<lparr>d_ino = e_ino e, d_reclen = length (enc_dent e), d_namlen = length (e_name e)\<rparr>"
proof -
  have l: "length (e_name e) \<le> 255" "9 + length (e_name e) + length (e_pad e) < 65536"
    using assms(1) by (simp_all add: dent_ok_def MAXNAMLEN_def length_enc_dent)
  show "obj_bytes (xs @ enc_dent e @ ys) (length xs) 8 = Ret (take 8 (enc_dent e))"
    by (simp add: obj_bytes_def bytes_at_def length_enc_dent)
  have t: "take 8 (enc_dent e) = le_enc 4 (unat (e_ino e)) @ le_enc 2 (9 + length (e_name e) + length (e_pad e)) @ [e_type e, of_nat (length (e_name e))]"
    by (simp add: enc_dent_def)
  have "unat (of_nat (length (e_name e)) :: u8) = length (e_name e)" using l(1) by (intro unat_of_nat_small) simp
  moreover have "le_dec (le_enc 2 (9 + length (e_name e) + length (e_pad e))) = 9 + length (e_name e) + length (e_pad e)"
    using l(2) by (simp add: le_dec_enc)
  ultimately show "dec_direct fs (take 8 (enc_dent e)) = \<lparr>d_ino = e_ino e, d_reclen = length (enc_dent e), d_namlen = length (e_name e)\<rparr>"
    using assms(2) unfolding t by (simp add: dec_direct_def field32_def layout nth_append length_enc_dent)
qed

text \<open>The scan of a block finds the first entry in use with the name.\<close>

lemma scan_block_ok:
  assumes ms: "0 < sint (fs_maxsymlinklen fs)"
  shows "list_all dent_ok es \<Longrightarrow>
    scan_block fs (xs @ dir_bytes es @ ys) name (length xs) (length xs + length (dir_bytes es)) = Ret (lookup es name)"
proof (induction es arbitrary: xs)
  case Nil
  then show ?case by (subst scan_block.simps) (simp add: dir_bytes_def lookup_def)
next
  case (Cons e es)
  have e: "dent_ok e" using Cons.prems by simp
  let ?buf = "xs @ dir_bytes (e # es) @ ys" and ?edp = "length xs + length (dir_bytes (e # es))"
  have b: "?buf = xs @ enc_dent e @ (dir_bytes es @ ys)" "?buf = (xs @ enc_dent e) @ dir_bytes es @ ys"
    by (simp_all add: dir_bytes_def)
  have "scan_block fs ((xs @ enc_dent e) @ dir_bytes es @ ys) name (length (xs @ enc_dent e)) (length (xs @ enc_dent e) + length (dir_bytes es))
      = Ret (lookup es name)"
    using Cons.prems by (intro Cons.IH) simp
  then have rest: "scan_block fs ?buf name (length xs + length (enc_dent e)) ?edp = Ret (lookup es name)"
    by (simp add: dir_bytes_def add.assoc)
  have o: "obj_bytes ?buf (length xs) 8 = Ret (take 8 (enc_dent e))" unfolding b(1) by (rule dec_enc_dent(1) [OF e ms])
  have h: "take 8 (enc_dent e) = le_enc 4 (unat (e_ino e)) @ le_enc 2 (9 + length (e_name e) + length (e_pad e)) @ [e_type e, of_nat (length (e_name e))]"
    by (simp add: enc_dent_def)
  have n: "name_at ?buf (length xs + 8) name = Ret (name = e_name e)" if "length name = length (e_name e)"
    using name_at_eq [OF that, of "xs @ take 8 (enc_dent e)" "e_pad e @ dir_bytes es @ ys"]
    unfolding h by (simp add: dir_bytes_def enc_dent_def)
  have c: "(if e_ino e \<noteq> 0 \<and> length (e_name e) = length name then name_at ?buf (length xs + 8) name else Ret False)
      = Ret (e_ino e \<noteq> 0 \<and> e_name e = name)"
    using n by auto
  have "0 < length (dir_bytes (e # es))" "length (enc_dent e) \<noteq> 0" by (simp_all add: dir_bytes_def length_enc_dent)
  then show ?case
    using o rest c
    by (subst scan_block.simps) (simp add: dec_enc_dent(2) [OF e ms] Let_def lookup_def)
qed

lemma lookup_append: "lookup (xs @ ys) name = (case lookup xs name of None \<Rightarrow> lookup ys name | Some i \<Rightarrow> Some i)"
  by (induction xs) (simp_all add: lookup_def)

lemma lookup_in: "lookup es name = Some i \<Longrightarrow> i \<noteq> 0 \<and> (\<exists>e \<in> set es. e_ino e = i)"
  by (auto simp: lookup_def find_Some_iff)

section \<open>Listing a directory\<close>

abbreviation unused :: "dent \<Rightarrow> bool" where "unused e \<equiv> e_ino e = 0"

lemma dir_bytes_simps [simp]: "dir_bytes [] = []" "dir_bytes (e # es) = enc_dent e @ dir_bytes es"
    "dir_bytes (es @ es') = dir_bytes es @ dir_bytes es'"
  by (simp_all add: dir_bytes_def)

lemma skip_free_ok:
  assumes ms: "0 < sint (fs_maxsymlinklen fs)"
  shows "list_all dent_ok es \<Longrightarrow>
    skip_free fs (xs @ dir_bytes es @ ys) (length xs) (length xs + length (dir_bytes es)) = Ret (length xs + length (dir_bytes (takeWhile unused es)))"
proof (induction es arbitrary: xs)
  case Nil
  then show ?case by (subst skip_free.simps) simp
next
  case (Cons e es)
  have e: "dent_ok e" using Cons.prems by simp
  let ?buf = "xs @ dir_bytes (e # es) @ ys" and ?edp = "length xs + length (dir_bytes (e # es))"
  have "skip_free fs ((xs @ enc_dent e) @ dir_bytes es @ ys) (length (xs @ enc_dent e)) (length (xs @ enc_dent e) + length (dir_bytes es))
      = Ret (length (xs @ enc_dent e) + length (dir_bytes (takeWhile unused es)))"
    using Cons.prems by (intro Cons.IH) simp
  then have rest: "skip_free fs ?buf (length xs + length (enc_dent e)) ?edp
      = Ret (length xs + length (enc_dent e) + length (dir_bytes (takeWhile unused es)))"
    by (simp add: add.assoc)
  have "obj_bytes ?buf (length xs) 8 = Ret (take 8 (enc_dent e))" using dec_enc_dent(1) [OF e ms] by simp
  moreover have "length (enc_dent e) \<noteq> 0" by (simp add: length_enc_dent)
  ultimately show ?case
    using rest by (subst skip_free.simps) (simp add: dec_enc_dent(2) [OF e ms] Let_def)
qed

lemma strncpy_at_name:
  "CHR 0x00 \<notin> set nm \<Longrightarrow> strncpy_at (xs @ map of_char nm @ 0 # ys) (length xs) (length nm + 1) = Ret (map of_char nm)"
proof (induction nm arbitrary: xs)
  case (Cons c nm)
  have "(of_char c :: u8) \<noteq> 0"
    using Cons.prems of_char_inject [of c "CHR 0x00"] by (auto simp del: of_char_inject)
  moreover have "strncpy_at ((xs @ [of_char c]) @ map of_char nm @ 0 # ys) (length (xs @ [of_char c])) (length nm + 1) = Ret (map of_char nm)"
    using Cons.prems by (intro Cons.IH) simp
  ultimately show ?case by (simp add: aget_def nth_append)
qed (simp add: aget_def nth_append)

lemma char_of_of_char: "map (char_of \<circ> unat) (map of_char nm :: u8 list) = nm"
  by (induction nm) (simp_all add: unat_of_char)

section \<open>Inodes and paths\<close>

definition ino_addr :: "fs \<Rightarrow> u32 \<Rightarrow> u32" where
  "ino_addr fs ino = (case ino_to_fsba fs ino of Ret a \<Rightarrow> a | _ \<Rightarrow> 0)"

definition inode_at :: "(nat \<Rightarrow> u8 list) \<Rightarrow> fs \<Rightarrow> u32 \<Rightarrow> dinode" where
  "inode_at m fs ino = dec_dinode (bytes_at (128 * unat (ino_to_fsbo fs ino)) 128 (blk_at m fs (ino_addr fs ino)))"

function path_names :: "string \<Rightarrow> string list" where
  "path_names path =
     (let cp = dropWhile is_slash path in
      if cp = [] then [] else takeWhile (Not \<circ> is_slash) cp # path_names (dropWhile (Not \<circ> is_slash) cp))"
  by pat_completeness auto
termination by (relation "measure length") (auto intro: rest_shorter)

declare path_names.simps [simp del]

text \<open>Directories are given by their entries; what is not there is no directory.\<close>

fun resolve :: "(u32 \<Rightarrow> dent list list option) \<Rightarrow> u32 \<Rightarrow> string list \<Rightarrow> int + u32" where
  "resolve D ino [] = Inr ino"
| "resolve D ino (name # names) =
     (case D ino of
        None \<Rightarrow> Inl ENOTDIR
      | Some ess \<Rightarrow>
          if length name > MAXNAMLEN then Inl ENOENT
          else case lookup (concat ess) name of None \<Rightarrow> Inl ENOENT | Some i \<Rightarrow> resolve D i names)"

lemma resolve_error: "resolve D ino names = Inl e \<Longrightarrow> e \<noteq> 0"
  by (induction D ino names rule: resolve.induct) (auto simp: errno_defs split: option.splits if_splits)

text \<open>
  A set of inodes that is closed under the entries of its directories, all of them where the device can be read and
  none of them a symbolic link.
\<close>

definition tree_ok :: "(nat \<Rightarrow> nat \<Rightarrow> bool) \<Rightarrow> (nat \<Rightarrow> u8 list) \<Rightarrow> fs \<Rightarrow> (u32 \<Rightarrow> dent list list option) \<Rightarrow> u32 set \<Rightarrow> bool" where
  "tree_ok rd m fs D K \<longleftrightarrow> 0 < sint (fs_maxsymlinklen fs) \<and> ROOTINO \<in> K
     \<and> (\<forall>i \<in> K. frag_ok rd fs (ino_addr fs i) (bsz fs) \<and> di_mode (inode_at m fs i) AND IFMT \<noteq> IFLNK
         \<and> inode_ok rd m fs (inode_at m fs i)
         \<and> (case D i of
              None \<Rightarrow> di_mode (inode_at m fs i) AND IFMT \<noteq> IFDIR
            | Some ess \<Rightarrow> di_mode (inode_at m fs i) AND IFMT = IFDIR \<and> dir_ok m fs (inode_at m fs i) ess
                \<and> (\<forall>e \<in> set (concat ess). e_ino e \<noteq> 0 \<longrightarrow> e_ino e \<in> K)))"

context block_device
begin

lemma eof_iff:
  "f_seekp fp = int p \<Longrightarrow> p < 2 ^ 64 \<Longrightarrow> at_eof fp = (unat (di_size (f_di fp)) \<le> p)"
  by (simp add: at_eof_def word_le_nat_alt unat_of_nat_small)

lemma advance_small:
  assumes "f_seekp fp = int p" "p + c < 2 ^ 63"
  shows "advance c fp = fp\<lparr>f_seekp := int (p + c)\<rparr>"
proof -
  have "int p + int c < 2 ^ 63" using assms(2) by simp
  then have "i64 (int p + int c) = int p + int c" unfolding i64_def by (intro signed_take_bit_int_eq_self) simp_all
  then show ?thesis using assms(1) by (simp add: advance_def)
qed

text \<open>One block of a directory: it is read and scanned.\<close>

lemma search_block:
  assumes ok: "fs_ok fs" and ms: "0 < sint (fs_maxsymlinklen fs)" and fo: "file_ok rd m fs fp" and s: "good s"
    and di: "dir_ok m fs (f_di fp) ess" and i: "i < length ess" and sk: "f_seekp fp = int (i * bsz fs)"
  defines "c \<equiv> length (dir_bytes (ess ! i))" and "sz \<equiv> unat (di_size (f_di fp))"
  shows "\<exists>fp' s' buf. buf_read_file strat mem fp s = Ret (0, 0, of_nat c, fp', s') \<and> good s' \<and> file_ok rd m fs fp' \<and> same_file fp fp'
     \<and> f_buf fp' = Some buf \<and> scan_block fs buf name 0 c = Ret (lookup (ess ! i) name)"
    and "i * bsz fs < sz" "i * bsz fs + c = min (Suc i * bsz fs) sz" "0 < c"
proof -
  have d: "i * bsz fs < sz" "c = min (bsz fs) (sz - i * bsz fs)"
      "file_bytes m fs (f_di fp) (i * bsz fs) c = dir_bytes (ess ! i)" "list_all dent_ok (ess ! i)"
    using di i by (auto simp: dir_ok_def list_all_length c_def sz_def)
  have b: "0 < bsz fs" using bsz_bounds [OF ok] by simp
  then have p: "i * bsz fs div bsz fs = i" "i * bsz fs mod bsz fs = 0" by simp_all
  have "min sz ((i + 1) * bsz fs) \<le> i * bsz fs + blksize_of fs (f_di fp) i"
    using blksize_of_ge [OF ok d(1) [unfolded sz_def]] p(1) by (simp add: sz_def)
  then have c: "min (blksize_of fs (f_di fp) i) (sz - i * bsz fs) = c"
    using d(1,2) blksize_of_le(1) [OF ok, of "f_di fp" i] by auto
  obtain fp1 s1 buf where 1: "buf_read_file strat mem fp s = Ret (0, 0, of_nat c, fp1, s1)" "good s1" "file_ok rd m fs fp1"
      "f_buf fp1 = Some buf" "length buf = bsz fs" "take (blksize_of fs (f_di fp) i) buf = data_block m fs (f_di fp) i" "0 < c" "c \<le> blksize_of fs (f_di fp) i"
    using buf_read_ok [OF ok fo s sk d(1) [unfolded sz_def]] c unfolding p sz_def by auto
  have "file_bytes m fs (f_di fp) (i * bsz fs) c = bytes_at 0 c buf"
    using file_bytes_block [OF ok, of "f_di fp" "i * bsz fs" buf m c] 1(5,6,8) blksize_of_le(1) [OF ok, of "f_di fp" i] by (simp add: p)
  then have "take c buf = dir_bytes (ess ! i)" using d(3) by (simp add: bytes_at_def)
  then have "buf = [] @ dir_bytes (ess ! i) @ drop c buf" by (metis append_Nil append_take_drop_id)
  then have "scan_block fs buf name 0 c = Ret (lookup (ess ! i) name)"
    using scan_block_ok [OF ms d(4), of "[]" "drop c buf" name] by (metis add_0 list.size(3) c_def)
  then show "\<exists>fp' s' buf. buf_read_file strat mem fp s = Ret (0, 0, of_nat c, fp', s') \<and> good s' \<and> file_ok rd m fs fp' \<and> same_file fp fp'
     \<and> f_buf fp' = Some buf \<and> scan_block fs buf name 0 c = Ret (lookup (ess ! i) name)"
    using 1(1-4) buf_read_file_same(1) [OF 1(1)] by blast
  show "i * bsz fs < sz" "i * bsz fs + c = min (Suc i * bsz fs) sz" "0 < c" using d(1,2) 1(7) by auto
qed

lemma search_loop_ok:
  assumes ok: "fs_ok fs" and ms: "0 < sint (fs_maxsymlinklen fs)"
  shows "file_ok rd m fs fp \<Longrightarrow> good s \<Longrightarrow> dir_ok m fs (f_di fp) ess \<Longrightarrow> i \<le> length ess \<Longrightarrow>
    f_seekp fp = int (min (i * bsz fs) (unat (di_size (f_di fp)))) \<Longrightarrow>
    \<exists>fp' s'. search_loop strat mem name fp s =
        Ret (case lookup (concat (drop i ess)) name of None \<Rightarrow> (ENOENT, 0, fp', s') | Some ino \<Rightarrow> (0, ino, fp', s'))
      \<and> good s' \<and> buffers_ok m fs fp'"
proof (induction "length ess - i" arbitrary: i fp s)
  case 0
  let ?size = "unat (di_size (f_di fp))"
  have "?size < 2 ^ 63" using inode_size [OF ok, of rd m "f_di fp"] 0 by (simp add: file_ok_def)
  moreover have "i = length ess" using 0 by simp
  moreover have "min (length ess * bsz fs) ?size = ?size" using 0 by (simp add: dir_ok_def)
  ultimately have "at_eof fp" using 0 by (simp add: at_eof_def)
  then show ?case using 0 by (subst search_loop.simps) (auto simp: lookup_def file_ok_def)
next
  case (Suc k)
  let ?size = "unat (di_size (f_di fp))" and ?es = "ess ! i" let ?c = "length (dir_bytes ?es)"
  have i: "i < length ess" using Suc by simp
  then have p: "f_seekp fp = int (i * bsz fs)" using Suc.prems(3,5) by (auto simp: dir_ok_def list_all_length)
  note blk = search_block [OF ok ms Suc.prems(1-3) i p]
  obtain fp1 s1 buf where 1: "buf_read_file strat mem fp s = Ret (0, 0, of_nat ?c, fp1, s1)" "good s1" "file_ok rd m fs fp1"
      "same_file fp fp1" "f_buf fp1 = Some buf" "scan_block fs buf name 0 ?c = Ret (lookup ?es name)"
    using blk(1) [of name] by blast
  have sm: "f_di fp1 = f_di fp" "f_seekp fp1 = int (i * bsz fs)" "f_fs fp1 = fs"
    using 1(3,4) p by (simp_all add: same_file_def file_ok_def buffers_ok_def)
  have sz: "?size < 2 ^ 63" using inode_size [OF ok, of rd m "f_di fp"] Suc.prems(1) by (simp add: file_ok_def)
  have le: "i * bsz fs + ?c \<le> ?size" using blk(3) by simp
  then have c64: "unat (of_nat ?c :: u64) = ?c" using sz by (intro unat_of_nat_small) simp
  then have c0: "(of_nat ?c :: u64) \<noteq> 0" using blk(4) by (metis gr_implies_not0 unat_0)
  have neof: "\<not> at_eof fp" using eof_iff [OF p] blk(2) sz by simp
  have dr: "drop i ess = ?es # drop (Suc i) ess" using i by (simp add: Cons_nth_drop_Suc)
  show ?case
  proof (cases "lookup ?es name")
    case (Some ino)
    then show ?thesis using 1 c64 sm neof by (subst search_loop.simps) (auto simp: dr lookup_append file_ok_def)
  next
    case None
    let ?fp = "advance ?c fp1"
    have a: "?fp = fp1\<lparr>f_seekp := int (i * bsz fs + ?c)\<rparr>" using le sz by (intro advance_small [OF sm(2)]) simp
    have sk: "f_seekp ?fp = int (min (Suc i * bsz fs) (unat (di_size (f_di ?fp))))" using blk(3) by (simp add: a sm)
    have k: "k = length ess - Suc i" using Suc.hyps(2) by simp
    have di: "f_di ?fp = f_di fp" "file_ok rd m fs ?fp" using 1(3) by (simp_all add: a sm)
    then obtain fp' s' where 2: "search_loop strat mem name ?fp s1 =
        Ret (case lookup (concat (drop (Suc i) ess)) name of None \<Rightarrow> (ENOENT, 0, fp', s') | Some ino \<Rightarrow> (0, ino, fp', s'))"
        "good s'" "buffers_ok m fs fp'"
      using Suc.hyps(1) [OF k, of ?fp s1] Suc.prems(3) 1(2) i sk by auto
    have "search_loop strat mem name fp s = search_loop strat mem name ?fp s1"
      using 1 c64 c0 sm None neof by (subst search_loop.simps) simp
    then show ?thesis using 2 None by (auto simp: dr lookup_append)
  qed
qed

lemma read_inode_ok:
  assumes ok: "fs_ok fs" and bo: "buffers_ok m fs (fp\<lparr>f_blkno := replicate NIADDR (- 1)\<rparr>)" and s: "good s" and i: "frag_ok rd fs (ino_addr fs ino) (bsz fs)"
  shows "\<exists>fp' s'. read_inode strat mem ino fp s = Ret (0, fp', s') \<and> good s' \<and> f_di fp' = inode_at m fs ino
      \<and> f_seekp fp' = 0 \<and> buffers_ok m fs fp' \<and> data_ok m fs fp'"
proof -
  have fs: "f_fs fp = fs" using bo by (simp add: buffers_ok_def)
  have sh1: "unat (fs_fragshift fs) < 32" using fs_okD(2,3) [OF ok] by simp
  have sh2: "unat (fs_inopb fs) * 128 = bsz fs" by (rule shift_cases [OF ok]) (simp_all add: fs_okD(9) [OF ok] bsz_def)
  have inz: "fs_inopb fs \<noteq> 0" using sh2 bsz_bounds [OF ok] by auto
  then have a: "ino_to_fsba fs ino = Ret (ino_addr fs ino)"
    using sh1 fs_okD(10) [OF ok] by (simp add: ino_addr_def ino_to_fsba_def)
  have len: "length (mem (unat (fs_bsize fs))) = bsz fs" by (simp add: mem_size bsize_unat [OF ok])
  obtain x s' where x: "fsbtodb fs (ino_addr fs ino) = Ret x" "good s'"
      "strat x (scast (fs_bsize fs)) (mem (unat (fs_bsize fs))) s = Ret (0, blk_at m fs (ino_addr fs ino), scast (fs_bsize fs), s')"
    using read_frags [OF ok s i bsz_512 [OF ok] bsize_scast [OF ok], of "mem (unat (fs_bsize fs))"] len by (auto simp: blk_at_def)
  have "unat (ino_to_fsbo fs ino) < unat (fs_inopb fs)"
    using inz by (simp add: ino_to_fsbo_def unat_mod unat_gt_0)
  then have "128 * unat (ino_to_fsbo fs ino) + 128 \<le> length (blk_at m fs (ino_addr fs ino))"
    unfolding length_blk_at [OF ok] sh2 [symmetric] by linarith
  then have "read_inode strat mem ino fp s = Ret (0, fp\<lparr>f_di := inode_at m fs ino, f_blkno := replicate NIADDR (- 1), f_buf_blkno := - 1, f_seekp := 0\<rparr>, s')"
    using a x by (simp add: read_inode_def fs obj_bytes_def inode_at_def)
  moreover have "buffers_ok m fs (fp\<lparr>f_di := inode_at m fs ino, f_blkno := replicate NIADDR (- 1), f_buf_blkno := - 1, f_seekp := 0\<rparr>)"
    using bo by (simp add: buffers_ok_def)
  ultimately show ?thesis using x(2) by (simp add: data_ok_def)
qed

lemma search_directory_ok:
  assumes ok: "fs_ok fs" and ms: "0 < sint (fs_maxsymlinklen fs)" and fo: "file_ok rd m fs fp" and s: "good s"
    and d: "dir_ok m fs (f_di fp) ess"
  shows "\<exists>fp' s'. search_directory strat mem name fp s =
        Ret (case lookup (concat ess) name of None \<Rightarrow> (ENOENT, 0, fp', s') | Some ino \<Rightarrow> (0, ino, fp', s'))
      \<and> good s' \<and> buffers_ok m fs fp'"
  using search_loop_ok [OF ok ms, of "fp\<lparr>f_seekp := 0\<rparr>" s ess 0 name] fo s d
  by (simp add: search_directory_def)

text \<open>An open file at an inode of the tree.\<close>

lemma open_loop_ok:
  assumes ok: "fs_ok fs" and T: "tree_ok rd m fs D K"
  shows "ino \<in> K \<Longrightarrow> f_di fp = inode_at m fs ino \<Longrightarrow> f_seekp fp = 0 \<Longrightarrow> buffers_ok m fs fp \<Longrightarrow> data_ok m fs fp \<Longrightarrow> good s \<Longrightarrow>
    \<exists>fp' s'. open_loop strat mem path ino nlinks lb fp s =
        Ret (case resolve D ino (path_names path) of Inl e \<Rightarrow> e | Inr _ \<Rightarrow> 0, fp', s') \<and> good s'
      \<and> (\<forall>i. resolve D ino (path_names path) = Inr i \<longrightarrow> i \<in> K \<and> f_di fp' = inode_at m fs i \<and> f_seekp fp' = 0
            \<and> buffers_ok m fs fp' \<and> data_ok m fs fp')"
proof (induction path arbitrary: ino fp s rule: path_names.induct)
  case (1 path)
  let ?cp = "dropWhile is_slash path"
  let ?name = "takeWhile (Not \<circ> is_slash) ?cp" and ?rest = "dropWhile (Not \<circ> is_slash) ?cp"
  have pn: "path_names path = (if ?cp = [] then [] else ?name # path_names ?rest)"
    by (subst path_names.simps) (simp add: Let_def)
  have K: "di_mode (inode_at m fs i) AND IFMT \<noteq> IFLNK" "frag_ok rd fs (ino_addr fs i) (bsz fs)" "inode_ok rd m fs (inode_at m fs i)"
    if "i \<in> K" for i
    using T that by (auto simp: tree_ok_def)
  show ?case
  proof (cases "?cp = [] \<or> D ino = None \<or> length ?name > MAXNAMLEN")
    case True
    have "di_mode (f_di fp) AND IFMT = IFDIR \<longleftrightarrow> D ino \<noteq> None"
      using T 1(2,3) by (cases "D ino") (auto simp: tree_ok_def)
    then show ?thesis
      using True 1(2-) by (subst open_loop.simps) (auto simp: pn Let_def split: option.splits)
  next
    case False
    then obtain ess where ess: "D ino = Some ess" by auto
    have d: "di_mode (f_di fp) AND IFMT = IFDIR" "dir_ok m fs (f_di fp) ess" "\<forall>e \<in> set (concat ess). e_ino e \<noteq> 0 \<longrightarrow> e_ino e \<in> K"
      using T 1(2,3) ess by (auto simp: tree_ok_def)
    have fo: "file_ok rd m fs fp" using K(3) 1(2-) by (simp add: file_ok_def)
    have ms: "0 < sint (fs_maxsymlinklen fs)" using T by (simp add: tree_ok_def)
    obtain fp1 s1 where s1: "search_directory strat mem ?name fp s =
        Ret (case lookup (concat ess) ?name of None \<Rightarrow> (ENOENT, 0, fp1, s1) | Some i \<Rightarrow> (0, i, fp1, s1))" "good s1" "buffers_ok m fs fp1"
      using search_directory_ok [OF ok ms fo 1(7) d(2)] by blast
    show ?thesis
    proof (cases "lookup (concat ess) ?name")
      case None
      then show ?thesis
        using False s1 d(1) ess by (subst open_loop.simps) (auto simp: pn Let_def ENOENT_def)
    next
      case (Some i)
      then have i: "i \<in> K" using lookup_in [OF Some] d(3) by auto
      obtain fp2 s2 where s2: "read_inode strat mem i fp1 s1 = Ret (0, fp2, s2)" "good s2" "f_di fp2 = inode_at m fs i" "f_seekp fp2 = 0"
          "buffers_ok m fs fp2" "data_ok m fs fp2"
        using read_inode_ok [OF ok _ s1(2) K(2) [OF i], of fp1] s1(3) by (auto simp: buffers_ok_def)
      have "open_loop strat mem path ino nlinks lb fp s = open_loop strat mem ?rest i nlinks lb fp2 s2"
        using False s1(1) s2(1,3) K(1) [OF i] d(1) Some by (subst open_loop.simps) (auto simp: Let_def)
      moreover have "resolve D ino (path_names path) = resolve D i (path_names ?rest)"
        using False ess Some by (auto simp: pn)
      ultimately show ?thesis
        using 1(1) [OF refl _ i s2(3,4,5,6,2)] False by simp
    qed
  qed
qed

lemma ufs_open_ok:
  assumes ok: "fs_ok fs" and T: "tree_ok rd m fs D K" and s: "good s"
    and sb: "fs = dec_fs (secs m 16 16)" "rd 16 16" "fs_magic fs = FS_MAGIC"
  shows "\<exists>fp s'. ufs_open strat mem path s =
        Ret (case resolve D ROOTINO (path_names path) of Inl e \<Rightarrow> Inl e | Inr _ \<Rightarrow> Inr fp, s') \<and> good s'
      \<and> (\<forall>i. resolve D ROOTINO (path_names path) = Inr i \<longrightarrow> f_di fp = inode_at m fs i \<and> f_seekp fp = 0 \<and> file_ok rd m fs fp)"
proof -
  obtain s0 where s0: "strat SBLOCK (of_nat SBSIZE) (mem SBSIZE) s = Ret (0, secs m 16 16, of_nat SBSIZE, s0)" "good s0"
    using strat_reads [OF s, of SBLOCK 16 "of_nat SBSIZE" "mem SBSIZE"] sb(2) by (auto simp: SBLOCK_def SBSIZE_def mem_size)
  let ?fp = "\<lparr>f_seekp = 0, f_fs = fs, f_di = dec_dinode (replicate 128 0), f_nindir = nindirs fs,
     f_blk = replicate NIADDR None, f_blkno = replicate NIADDR 0, f_buf = None, f_buf_blkno = 0\<rparr>"
  have "unat (fs_bsize fs) < 2 ^ 31" "unat (fs_bsize fs) \<le> 65536" using bsz_bounds [OF ok] by (simp_all add: bsize_unat [OF ok])
  moreover have "int (unat (fs_bsize fs)) \<le> 65536" using calculation(2) by linarith
  moreover have "sint (fs_bsize fs) = int (unat (fs_bsize fs))" using calculation(1) by (intro sint_small) simp
  ultimately have "sint (fs_bsize fs) \<le> MAXBSIZE" by (simp add: MAXBSIZE_def)
  moreover have "\<not> scast (fs_bsize fs) < sizeof_fs"
    using bsz_bounds [OF ok] by (simp add: word_less_nat_alt bsize_scast [OF ok] sizeof_fs_def)
  ultimately have o: "ufs_open strat mem path s = obind (read_inode strat mem ROOTINO ?fp s0) (\<lambda>(rc, fp, s).
      if rc \<noteq> 0 then Ret (Inl rc, s)
      else obind (open_loop strat mem path ROOTINO 0 None fp s) (\<lambda>(rc, fp, s). if rc \<noteq> 0 then Ret (Inl rc, s) else Ret (Inr fp, s)))"
    using s0(1) sb(3) by (simp add: ufs_open_def Let_def sb(1) [symmetric])
  have R: "ROOTINO \<in> K" "frag_ok rd fs (ino_addr fs ROOTINO) (bsz fs)" using T by (auto simp: tree_ok_def)
  have "buffers_ok m fs (?fp\<lparr>f_blkno := replicate NIADDR (- 1)\<rparr>)" by (simp add: buffers_ok_def)
  from read_inode_ok [OF ok this s0(2) R(2)] obtain fp1 s1 where 1: "read_inode strat mem ROOTINO ?fp s0 = Ret (0, fp1, s1)" "good s1"
      "f_di fp1 = inode_at m fs ROOTINO" "f_seekp fp1 = 0" "buffers_ok m fs fp1" "data_ok m fs fp1"
    by blast
  obtain fp2 s2 where 2: "open_loop strat mem path ROOTINO 0 None fp1 s1 =
        Ret (case resolve D ROOTINO (path_names path) of Inl e \<Rightarrow> e | Inr _ \<Rightarrow> 0, fp2, s2)" "good s2"
      "\<forall>i. resolve D ROOTINO (path_names path) = Inr i \<longrightarrow> i \<in> K \<and> f_di fp2 = inode_at m fs i \<and> f_seekp fp2 = 0
            \<and> buffers_ok m fs fp2 \<and> data_ok m fs fp2"
    using open_loop_ok [OF ok T R(1) 1(3-6,2)] by blast
  have "inode_ok rd m fs (inode_at m fs i)" if "i \<in> K" for i using T that by (auto simp: tree_ok_def)
  then show ?thesis
    using 1(1) 2 resolve_error [of D ROOTINO "path_names path"]
    by (intro exI [of _ fp2] exI [of _ s2]) (auto simp: o file_ok_def split: sum.splits)
qed

text \<open>A directory in a part of its first block: what \<open>ufs_readdir\<close> returns behind the entries \<open>es\<close>.\<close>

lemma dir_buffer:
  assumes ok: "fs_ok fs" and fo: "file_ok rd m fs fp" and s: "good s" and d: "dir_ok m fs (f_di fp) [es @ es']"
    and sz: "unat (di_size (f_di fp)) < bsz fs" and p: "f_seekp fp = int (length (dir_bytes es))" and ne: "es' \<noteq> []"
  shows "\<exists>fp' s' ys. buf_read_file strat mem fp s = Ret (0, int (length (dir_bytes es)), of_nat (length (dir_bytes es')), fp', s') \<and> good s'
      \<and> file_ok rd m fs fp' \<and> same_file fp fp' \<and> f_buf_blkno fp' = 0 \<and> f_buf fp' = Some (dir_bytes es @ dir_bytes es' @ ys)"
proof -
  let ?di = "f_di fp" let ?size = "unat (di_size ?di)" and ?p = "length (dir_bytes es)"
  have size: "?size = length (dir_bytes (es @ es'))" "file_bytes m fs ?di 0 ?size = dir_bytes (es @ es')"
    using d sz by (auto simp: dir_ok_def)
  have p0: "?p < ?size" using ne size(1) by (cases es') (simp_all add: length_enc_dent)
  then have n: "?p div bsz fs = 0" "?p mod bsz fs = ?p" using sz by simp_all
  have "min ?size ((?p div bsz fs + 1) * bsz fs) \<le> ?p div bsz fs * bsz fs + blksize_of fs ?di (?p div bsz fs)"
    by (rule blksize_of_ge [OF ok p0])
  then have bz: "?size \<le> blksize_of fs ?di 0" using sz by (simp add: n)
  then have c: "min (blksize_of fs ?di 0 - ?p) (?size - ?p) = length (dir_bytes es')" using size(1) by simp
  obtain fp' s' b where 1: "buf_read_file strat mem fp s = Ret (0, int ?p, of_nat (length (dir_bytes es')), fp', s')" "good s'"
      "file_ok rd m fs fp'" "f_buf fp' = Some b" "length b = bsz fs" "take (blksize_of fs ?di 0) b = data_block m fs ?di 0"
      "f_buf_blkno fp' = 0"
    using buf_read_ok(1) [OF ok fo s p p0] unfolding n c by auto
  have "file_bytes m fs ?di 0 ?size = bytes_at 0 ?size b"
    using file_bytes_block [OF ok, of ?di 0 b m ?size] 1(5,6) bz blksize_of_le(1) [OF ok, of ?di 0] by simp
  then have "b = dir_bytes (es @ es') @ drop ?size b" using size(2) by (metis append_take_drop_id bytes_at_def drop_0)
  then show ?thesis using 1 buf_read_file_same(1) [OF 1(1)] by (metis append.assoc dir_bytes_simps(3))
qed

text \<open>Behind the last entry the block in the buffer has no more bytes, and the loop does not end.\<close>

lemma readdir_at_end:
  assumes ok: "fs_ok fs" and fp: "f_fs fp = fs" "f_buf_blkno fp = 0" "f_buf fp = Some b" and sz: "unat (di_size (f_di fp)) < bsz fs"
    and p: "f_seekp fp = int (unat (di_size (f_di fp)))"
  shows "readdir_loop strat mem fp s = Hang"
proof -
  let ?size = "unat (di_size (f_di fp))"
  have "lblkno fs (int ?size) = Ret 0" "blkoff fs (int ?size) = int ?size"
    using lblkno_div [OF ok, of ?size] blkoff_mod [OF ok, of ?size] sz by simp_all
  then have "buf_read_file strat mem fp s = Ret (0, int ?size, 0, fp, s)"
    using fp p dblksize_eq [OF ok, of "f_di fp" 0] by (simp add: buf_read_file_def Let_def word_gt_0)
  moreover have "?size < 2 ^ 63" using sz bsz_bounds [OF ok] by simp
  then have "int ?size < 2 ^ 63" by (metis of_nat_less_iff of_nat_numeral of_nat_power)
  ultimately show ?thesis using fp p by (subst readdir_loop.simps) (simp add: skip_free.simps Let_def)
qed

text \<open>The name of the entry behind the bytes \<open>xs\<close>.\<close>

lemma strncpy_at_entry:
  assumes "dent_ok e" "CHR 0x00 \<notin> set (e_name e)" "q = length xs"
  shows "strncpy_at (xs @ enc_dent e @ ys) (q + 8) (length (e_name e) + 1) = Ret (map of_char (e_name e))"
proof -
  have "strncpy_at ((xs @ take 8 (enc_dent e)) @ map of_char (e_name e) @ 0 # (e_pad e @ ys))
      (length (xs @ take 8 (enc_dent e))) (length (e_name e) + 1) = Ret (map of_char (e_name e))"
    by (rule strncpy_at_name [OF assms(2)])
  moreover have "(xs @ take 8 (enc_dent e)) @ map of_char (e_name e) @ 0 # (e_pad e @ ys) = xs @ enc_dent e @ ys" by (simp add: enc_dent_def)
  moreover have "length (xs @ take 8 (enc_dent e)) = q + 8" by (simp add: length_enc_dent assms(3))
  ultimately show ?thesis by (simp only:)
qed

lemma ufs_readdir_ok:
  assumes ok: "fs_ok fs" and ms: "0 < sint (fs_maxsymlinklen fs)" and fo: "file_ok rd m fs fp" and s: "good s"
    and d: "dir_ok m fs (f_di fp) [es @ es']" "list_all (\<lambda>e. CHR 0x00 \<notin> set (e_name e)) es'"
    and sz: "unat (di_size (f_di fp)) < bsz fs" and p: "f_seekp fp = int (length (dir_bytes es))"
  shows "case dropWhile unused es' of
      [] \<Rightarrow> ufs_readdir strat mem fp s = (if es' = [] then Ret (- 1, [], fp, s) else Hang)
    | e # _ \<Rightarrow> \<exists>fp' s'. ufs_readdir strat mem fp s = Ret (0, e_name e, fp', s') \<and> good s' \<and> file_ok rd m fs fp' \<and> f_di fp' = f_di fp
        \<and> f_seekp fp' = int (length (dir_bytes (es @ takeWhile unused es' @ [e])))"
proof (cases "es' = []")
  case True
  have "unat (di_size (f_di fp)) = length (dir_bytes es)" using d(1) sz True by (auto simp: dir_ok_def)
  then have "at_eof fp" using p unat_word_less [of "di_size (f_di fp)"] by (subst eof_iff [OF p]) auto
  then show ?thesis using True by (simp add: ufs_readdir_def)
next
  case ne: False
  let ?size = "unat (di_size (f_di fp))" and ?p = "length (dir_bytes es)" and ?us = "takeWhile unused es'"
  let ?q = "?p + length (dir_bytes ?us)"
  have size: "?size = ?p + length (dir_bytes es')" using d(1) sz by (auto simp: dir_ok_def)
  have s63: "?size < 2 ^ 63" using inode_size [OF ok, of rd m "f_di fp"] fo by (simp add: file_ok_def)
  have "0 < length (dir_bytes es')" using ne by (cases es') (simp_all add: length_enc_dent)
  then have neof: "\<not> at_eof fp" using size s63 by (subst eof_iff [OF p]) auto
  have oks: "list_all dent_ok es'" using d(1) by (simp add: dir_ok_def)
  obtain fp' s' ys where 1: "buf_read_file strat mem fp s = Ret (0, int ?p, of_nat (length (dir_bytes es')), fp', s')" "good s'"
      "file_ok rd m fs fp'" "same_file fp fp'" "f_buf_blkno fp' = 0" "f_buf fp' = Some (dir_bytes es @ dir_bytes es' @ ys)"
    using dir_buffer [OF ok fo s d(1) sz p ne] by blast
  have sk: "skip_free fs (dir_bytes es @ dir_bytes es' @ ys) ?p (?p + length (dir_bytes es')) = Ret ?q" by (rule skip_free_ok [OF ms oks])
  have f: "f_fs fp' = fs" "f_seekp fp' = int ?p" "f_di fp' = f_di fp" using 1(3,4) p by (simp_all add: file_ok_def buffers_ok_def same_file_def)
  have c64: "unat (of_nat (length (dir_bytes es')) :: u64) = length (dir_bytes es')" using size s63 by (intro unat_of_nat_small) simp
  have split: "es' = ?us @ dropWhile unused es'" by simp
  have "length (dir_bytes ?us) \<le> length (dir_bytes es')" by (subst (2) split) (simp del: takeWhile_dropWhile_id)
  then have q: "?q \<le> ?size" using size by simp
  have loop: "readdir_loop strat mem fp s =
      (if ?q < ?size then Ret (0, ?q, fp'\<lparr>f_seekp := int ?q\<rparr>, s')
       else if ?q = ?p then Hang else readdir_loop strat mem (fp'\<lparr>f_seekp := int ?q\<rparr>) s')"
    using 1(1,6) sk f c64 q s63 size by (subst readdir_loop.simps) (simp add: Let_def)
  show ?thesis
  proof (cases "dropWhile unused es'")
    case Nil
    then have u: "?us = es'" using split by (metis append_Nil2)
    have stuck: "readdir_loop strat mem (fp'\<lparr>f_seekp := int ?size\<rparr>) s' = Hang"
      using readdir_at_end [OF ok, of "fp'\<lparr>f_seekp := int ?size\<rparr>"] 1(5,6) f sz by simp
    have q2: "?q = ?size" "?q \<noteq> ?p" unfolding u using size \<open>0 < length (dir_bytes es')\<close> by simp_all
    have "readdir_loop strat mem fp s = Hang" unfolding loop q2(1) stuck using q2(2) q2(1) by simp
    then have "ufs_readdir strat mem fp s = Hang" using neof by (simp add: ufs_readdir_def)
    then show ?thesis unfolding Nil using ne by simp
  next
    case (Cons e es2)
    let ?xs = "dir_bytes es @ dir_bytes ?us"
    have es': "es' = ?us @ e # es2" using split Cons by simp
    have buf: "dir_bytes es @ dir_bytes es' @ ys = ?xs @ enc_dent e @ dir_bytes es2 @ ys" by (subst es') (simp del: takeWhile_dropWhile_id)
    have "e \<in> set es'" using Cons by (metis list.set_intros(1) set_dropWhileD)
    then have e: "dent_ok e" "CHR 0x00 \<notin> set (e_name e)" using oks d(2) by (simp_all add: list_all_iff)
    have "?q < ?size" unfolding size by (subst (2) es') (simp add: length_enc_dent)
    then have l: "readdir_loop strat mem fp s = Ret (0, ?q, fp'\<lparr>f_seekp := int ?q\<rparr>, s')" using loop by simp
    have h: "obj_bytes (dir_bytes es @ dir_bytes es' @ ys) ?q 8 = Ret (take 8 (enc_dent e))"
      unfolding buf using dec_enc_dent(1) [OF e(1) ms, of ?xs "dir_bytes es2 @ ys"] by simp
    have nm: "strncpy_at (dir_bytes es @ dir_bytes es' @ ys) (?q + 8) (length (e_name e) + 1) = Ret (map of_char (e_name e))"
      unfolding buf by (rule strncpy_at_entry [OF e]) simp
    have "ufs_readdir strat mem fp s = Ret (0, e_name e, fp'\<lparr>f_seekp := int ?q + int (length (enc_dent e))\<rparr>, s')"
      using neof l h nm 1(6) f by (simp add: ufs_readdir_def dec_enc_dent(2) [OF e(1) ms] char_of_of_char [simplified] del: strncpy_at.simps)
    then show ?thesis using Cons 1(2,3) f by simp
  qed
qed

end

end
