(* ===== verification/Efi_Files.thy ===== *)
theory Efi_Files
  imports Ufs_Dir Efi_Open
begin

unbundle bit_operations_syntax

text \<open>
  Files on a disk of the firmware: \<open>ufs.c\<close> on top of \<open>efistrategy\<close>. The partition of a disk that reads well is a
  \<open>block_device\<close>, so what was proved of the file system holds of the files the EFI boot program opens.
\<close>

section \<open>The partition as a block device\<close>

definition vol_ok :: "diskinfo \<Rightarrow> efi_diskinfo \<Rightarrow> (nat \<Rightarrow> u8 list) \<Rightarrow> nat \<Rightarrow> bool" where
  "vol_ok dip ed m nblk \<longleftrightarrow> sr_vol dip = None \<and> efi_info dip = Some ed \<and> unat (B_PARTITION (bsddev dip)) < 16 \<and> medium ed m nblk"

definition vol_start :: "diskinfo \<Rightarrow> nat" where
  "vol_start dip = unat (p_offset (disklabel_of dip) (unat (B_PARTITION (bsddev dip))))"

definition vol_sector :: "diskinfo \<Rightarrow> efi_diskinfo \<Rightarrow> (nat \<Rightarrow> u8 list) \<Rightarrow> nat \<Rightarrow> nat \<Rightarrow> u8 list" where
  "vol_sector dip ed m nblk i = (if vol_ok dip ed m nblk then m (vol_start dip + i) else replicate 512 0)"

text \<open>Reads have to start on a block of the medium and to end within it.\<close>

definition vol_readable :: "diskinfo \<Rightarrow> efi_diskinfo \<Rightarrow> (nat \<Rightarrow> u8 list) \<Rightarrow> nat \<Rightarrow> nat \<Rightarrow> nat \<Rightarrow> bool" where
  "vol_readable dip ed m nblk a n \<longleftrightarrow> vol_ok dip ed m nblk \<and> vol_start dip + a < 2 ^ 31
     \<and> (vol_start dip + a) mod unat (EFI_BLKSPERSEC ed) = 0
     \<and> vol_start dip + a + n \<le> nblk * unat (EFI_BLKSPERSEC ed) \<and> 512 * n < 2 ^ 32"

definition sized :: "(nat \<Rightarrow> u8 list) \<Rightarrow> nat \<Rightarrow> u8 list" where
  "sized mem n = take n (mem n @ replicate n 0)"

lemma secs_vol: "vol_ok dip ed m nblk \<Longrightarrow> secs (vol_sector dip ed m nblk) a n = secs m (vol_start dip + a) n"
  by (induction n) (simp_all add: secs_def vol_sector_def add.assoc)

interpretation efi_vol: block_device "efistrategy ops dip F_READ" "iblk_ok ed" "vol_sector dip ed m nblk"
    "vol_readable dip ed m nblk" "sized mem" for ops dip ed m nblk mem
proof
  show "length (vol_sector dip ed m nblk i) = 512" for i
    by (simp add: vol_sector_def vol_ok_def medium_def)
  show "length (sized mem n) = n" for n by (simp add: sized_def)
  show "\<exists>ib'. efistrategy ops dip F_READ blk sz buf ib =
      Ret (0, secs (vol_sector dip ed m nblk) (unat blk) n @ drop (512 * n) buf, sz, ib') \<and> iblk_ok ed ib'"
    if "iblk_ok ed ib" "vol_readable dip ed m nblk (unat blk) n" "unat sz = 512 * n" "512 * n \<le> length buf" for ib blk n sz buf
  proof -
    have v: "vol_ok dip ed m nblk" using that(2) by (simp add: vol_readable_def)
    have sz: "sz = of_nat (512 * n)" using that(3) by (metis of_nat_unat ucast_id)
    have "\<exists>ib'. efistrategy ops dip F_READ blk sz buf ib =
        Ret (0, secs m (vol_start dip + unat blk) n @ drop (512 * n) buf, of_nat (512 * n), ib') \<and> iblk_ok ed ib'"
      using that v by (intro efistrategy_medium) (auto simp: vol_ok_def vol_readable_def vol_start_def add.commute)
    then show ?thesis using v sz by (simp add: secs_vol)
  qed
qed

section \<open>Opening and reading\<close>

text \<open>
  C6: What the path names is what is read. On a partition with a file system whose directories are \<open>D\<close>, opening a
  path gives the error the walk along the path comes to, or a file; from it any part of the contents of the
  inode the path leads to can be read: after a seek to \<open>p\<close>, reading \<open>n\<close> bytes returns the bytes from \<open>p\<close> on,
  as far as there are any, and the number of bytes that are missing.
\<close>

theorem boot_reads_file:
  assumes v: "vol_ok dip ed m nblk" "iblk_ok ed ib" "\<forall>n. length (mem n) = n"
    and fs: "fs = dec_fs (secs (vol_sector dip ed m nblk) 16 16)" "vol_readable dip ed m nblk 16 16" "fs_magic fs = FS_MAGIC" "fs_ok fs"
    and T: "tree_ok (vol_readable dip ed m nblk) (vol_sector dip ed m nblk) fs D K"
  shows "case resolve D ROOTINO (path_names path) of
      Inl e \<Rightarrow> \<exists>ib'. ufs_open (efistrategy ops dip F_READ) mem path ib = Ret (Inl e, ib')
    | Inr ino \<Rightarrow>
        let di = inode_at (vol_sector dip ed m nblk) fs ino; size = unat (di_size di);
            contents = file_bytes (vol_sector dip ed m nblk) fs di 0 size in
        \<exists>fp ib'. ufs_open (efistrategy ops dip F_READ) mem path ib = Ret (Inr fp, ib')
          \<and> (\<forall>p n. p \<le> size \<longrightarrow> (\<exists>fp1 fp2 ib''. ufs_seek (int p) SEEK_SET fp = Ret (int p, fp1)
               \<and> ufs_read (efistrategy ops dip F_READ) mem n fp1 ib' = Ret (0, take n (drop p contents), n - (size - p), fp2, ib'')))"
proof -
  let ?strat = "efistrategy ops dip F_READ" and ?t = "resolve D ROOTINO (path_names path)"
  have mem: "sized mem = mem" using v(3) by (auto simp: sized_def fun_eq_iff)
  obtain fp ib' where o: "ufs_open ?strat mem path ib = Ret (case ?t of Inl e \<Rightarrow> Inl e | Inr _ \<Rightarrow> Inr fp, ib')" "iblk_ok ed ib'"
      "\<And>i. ?t = Inr i \<Longrightarrow> f_di fp = inode_at (vol_sector dip ed m nblk) fs i \<and> f_seekp fp = 0
         \<and> file_ok (vol_readable dip ed m nblk) (vol_sector dip ed m nblk) fs fp"
    using efi_vol.ufs_open_ok [OF fs(4) T v(2) fs(1-3), of ops mem path] unfolding mem by blast
  show ?thesis
  proof (cases ?t)
    case (Inl e)
    then show ?thesis using o(1) by simp
  next
    case (Inr ino)
    let ?m = "vol_sector dip ed m nblk" and ?di = "f_di fp" let ?size = "unat (di_size ?di)"
    note f = o(3) [OF Inr]
    have "\<exists>fp1 fp2 ib''. ufs_seek (int p) SEEK_SET fp = Ret (int p, fp1)
        \<and> ufs_read ?strat mem n fp1 ib' = Ret (0, take n (drop p (file_bytes ?m fs ?di 0 ?size)), n - (?size - p), fp2, ib'')"
      if p: "p \<le> ?size" for p n
    proof -
      let ?fp = "fp\<lparr>f_seekp := int p\<rparr>" and ?k = "min n (?size - p)"
      have "file_ok (vol_readable dip ed m nblk) ?m fs ?fp" using f by simp
      from efi_vol.ufs_read_ok [OF fs(4) this o(2), of p ?k n ops mem] obtain fp2 ib'' where "ufs_read ?strat mem n ?fp ib' = Ret (0, file_bytes ?m fs ?di p ?k, n - ?k, fp2, ib'')"
        using p unfolding mem by auto
      moreover have "file_bytes ?m fs ?di p ?k = take n (drop p (file_bytes ?m fs ?di 0 ?size))"
        using p by (cases "n \<le> ?size - p") (simp_all add: file_bytes_def drop_map take_map min_def)
      moreover have "n - ?k = n - (?size - p)" by auto
      ultimately show ?thesis by (simp add: ufs_seek_def)
    qed
    then show ?thesis using o(1) Inr f by (auto simp: Let_def)
  qed
qed

text \<open>
  C30: Listing a directory that ends inside its first block: behind the entries \<open>es\<close>, \<open>ufs_readdir\<close> returns the name
  of the next entry in use and steps behind it, and at the end it says so; but when only unused entries follow,
  it does not return.
\<close>

theorem readdir_next_entry:
  assumes v: "vol_ok dip ed m nblk" "iblk_ok ed ib" "\<forall>n. length (mem n) = n"
    and fs: "fs_ok fs" "0 < sint (fs_maxsymlinklen fs)"
    and fp: "file_ok (vol_readable dip ed m nblk) (vol_sector dip ed m nblk) fs fp"
    and d: "dir_ok (vol_sector dip ed m nblk) fs (f_di fp) [es @ es']" "list_all (\<lambda>e. CHR 0x00 \<notin> set (e_name e)) es'"
    and sz: "unat (di_size (f_di fp)) < bsz fs" and p: "f_seekp fp = int (length (dir_bytes es))"
  shows "case dropWhile unused es' of
      [] \<Rightarrow> ufs_readdir (efistrategy ops dip F_READ) mem fp ib = (if es' = [] then Ret (- 1, [], fp, ib) else Hang)
    | e # _ \<Rightarrow> \<exists>fp' ib'. ufs_readdir (efistrategy ops dip F_READ) mem fp ib = Ret (0, e_name e, fp', ib') \<and> f_di fp' = f_di fp
        \<and> f_seekp fp' = int (length (dir_bytes (es @ takeWhile unused es' @ [e])))"
proof -
  have mem: "sized mem = mem" using v(3) by (auto simp: sized_def fun_eq_iff)
  show ?thesis
    using efi_vol.ufs_readdir_ok [OF fs fp v(2) d sz p, of ops mem] unfolding mem
    by (cases "dropWhile unused es'") (auto simp del: dropWhile_eq_Nil_conv)
qed

section \<open>A small file system\<close>

text \<open>
  An image of 38 sectors: superblock, one block of inodes, the root directory with one file, and the contents of
  the file, in blocks of 2048 and fragments of 512 bytes. The size of the file and the fragment with its contents are
  parameters.
\<close>

definition sb0 :: "u8 list" where
  "sb0 = replicate 16 0 @ le_enc 4 32 @ replicate 4 0 @ le_enc 4 0 @ le_enc 4 0xFFFFFFFF @ replicate 16 0 @ le_enc 4 2048
     @ replicate 24 0 @ le_enc 4 0xFFFFFE00 @ le_enc 4 11 @ replicate 12 0 @ le_enc 4 2 @ le_enc 4 0 @ replicate 12 0
     @ le_enc 4 512 @ le_enc 4 16 @ replicate 60 0 @ le_enc 4 16 @ le_enc 4 100 @ replicate 1128 0 @ le_enc 4 60
     @ replicate 12 0 @ le_enc 8 2047 @ le_enc 8 511 @ replicate 20 0 @ le_enc 4 0x011954 @ replicate 6816 0"

definition enc_inode0 :: "nat \<Rightarrow> nat \<Rightarrow> nat \<Rightarrow> u8 list" where
  "enc_inode0 mode sz db = le_enc 2 mode @ replicate 6 0 @ le_enc 8 sz @ replicate 24 0 @ le_enc 4 db @ replicate 84 0"

definition inodes0 :: "nat \<Rightarrow> u8 list" where
  "inodes0 sz = replicate 256 0 @ enc_inode0 0x41ED 512 36 @ enc_inode0 0x81A4 sz 37 @ replicate 1536 0"

definition es0 :: "dent list" where
  "es0 = [\<lparr>e_ino = 2, e_type = 4, e_name = ''.'', e_pad = replicate 2 0\<rparr>, \<lparr>e_ino = 2, e_type = 4, e_name = ''..'', e_pad = replicate 1 0\<rparr>,
     \<lparr>e_ino = 3, e_type = 8, e_name = ''bsd'', e_pad = replicate 476 0\<rparr>]"

definition data0 :: "u8 list" where "data0 = map of_char ''hello'' @ replicate 507 0"

definition image0 :: "nat \<Rightarrow> u8 list \<Rightarrow> u8 list" where "image0 sz d = replicate 8192 0 @ sb0 @ inodes0 sz @ dir_bytes es0 @ d"

definition sector0 :: "nat \<Rightarrow> u8 list \<Rightarrow> nat \<Rightarrow> u8 list" where
  "sector0 sz d i = bytes_at (512 * i) 512 (image0 sz d @ replicate (512 * (i + 1)) 0)"

definition disk_512 :: "(nat \<Rightarrow> u8 list) \<Rightarrow> efi_diskinfo" where
  "disk_512 m = \<lparr>BlockSize = 512, LastBlock = 37, ReadOnly = False, ReadBlocks = (\<lambda>lba n. Some (secs m (unat lba) (n div 512)))\<rparr>"

text \<open>A disk with this image, without a label, so that every partition starts at its first sector.\<close>

definition image_disk :: "nat \<Rightarrow> u8 list \<Rightarrow> diskinfo \<Rightarrow> bool" where
  "image_disk sz d dip \<longleftrightarrow> 0 < sz \<and> sz \<le> 512 \<and> length d = 512 \<and> sr_vol dip = None \<and> efi_info dip = Some (disk_512 (sector0 sz d))
     \<and> unat (B_PARTITION (bsddev dip)) < 16 \<and> disklabel_of dip = replicate sizeof_disklabel 0"

lemma length_image0:
  "length sb0 = 8192" "length (inodes0 sz) = 2048" "length (dir_bytes es0) = 512" "length d = 512 \<Longrightarrow> length (image0 sz d) = 512 * 38"
  by (simp_all add: sb0_def inodes0_def enc_inode0_def es0_def dir_bytes_def enc_dent_def image0_def)

lemma length_sector0: "length (sector0 sz d i) = 512"
  by (simp add: sector0_def bytes_at_def)

lemma secs_sector0: "length d = 512 \<Longrightarrow> a + n \<le> 38 \<Longrightarrow> secs (sector0 sz d) a n = bytes_at (512 * a) (512 * n) (image0 sz d)"
proof (induction n)
  case (Suc n)
  have "sector0 sz d (a + n) = bytes_at (512 * (a + n)) 512 (image0 sz d)"
    using Suc.prems by (simp add: sector0_def bytes_at_def length_image0)
  moreover have "secs (sector0 sz d) a (Suc n) = secs (sector0 sz d) a n @ sector0 sz d (a + n)"
    using secs_append [of "sector0 sz d" a n 1] by (simp add: secs_def)
  ultimately show ?case
    using Suc take_add [of "512 * n" 512 "drop (512 * a) (image0 sz d)"] by (simp add: bytes_at_def distrib_left add.commute)
qed (simp add: bytes_at_def)

lemma image0_parts:
  assumes "length d = 512"
  shows "secs (sector0 sz d) 16 16 = sb0" "secs (sector0 sz d) 32 4 = inodes0 sz" "secs (sector0 sz d) 36 1 = dir_bytes es0" "secs (sector0 sz d) 37 1 = d"
  using assms by (simp_all add: secs_sector0 image0_def layout length_image0)

lemma medium0: "medium (disk_512 (sector0 sz d)) (sector0 sz d) 38" "EFI_BLKSPERSEC (disk_512 (sector0 sz d)) = 1"
  by (simp_all add: medium_def disk_512_def EFI_BLKSPERSEC_def length_sector0)

lemma vol0:
  assumes "image_disk sz d dip"
  shows "vol_ok dip (disk_512 (sector0 sz d)) (sector0 sz d) 38" "vol_start dip = 0"
    "vol_sector dip (disk_512 (sector0 sz d)) (sector0 sz d) 38 = sector0 sz d"
proof -
  show v: "vol_ok dip (disk_512 (sector0 sz d)) (sector0 sz d) 38"
    using assms by (simp add: vol_ok_def image_disk_def medium0)
  show s: "vol_start dip = 0"
    using assms by (simp add: vol_start_def image_disk_def p_offset_def bytes_at_def le_dec_zeros sizeof_disklabel_def)
  show "vol_sector dip (disk_512 (sector0 sz d)) (sector0 sz d) 38 = sector0 sz d"
    using v s by (simp add: vol_sector_def fun_eq_iff)
qed

lemma readable0:
  assumes "image_disk sz d dip"
  shows "vol_readable dip (disk_512 (sector0 sz d)) (sector0 sz d) 38 a n \<longleftrightarrow> a + n \<le> 38 \<and> a < 2 ^ 31"
  using vol0 [OF assms] by (auto simp: vol_readable_def medium0)

definition fs0 :: fs where
  "fs0 = \<lparr>fs_iblkno = 32, fs_cgoffset = 0, fs_cgmask = 0xFFFFFFFF, fs_bsize = 2048, fs_fmask = 0xFFFFFE00, fs_bshift = 11,
     fs_fragshift = 2, fs_fsbtodb = 0, fs_nindir = 512, fs_inopb = 16, fs_ipg = 16, fs_fpg = 100, fs_maxsymlinklen = 60,
     fs_qbmask = 2047, fs_qfmask = 511, fs_magic = FS_MAGIC\<rparr>"

lemma dec_fs0: "dec_fs sb0 = fs0"
  by (simp add: dec_fs_def fs0_def field32_def field64_def sb0_def layout le_dec_enc FS_MAGIC_def)

lemma fs0_ok: "fs_ok fs0" "bsz fs0 = 2048" "fsz fs0 = 512"
  by (simp_all add: fs_ok_def fs0_def bsz_def fsz_def mask_eq_exp_minus_1)

definition D0 :: "u32 \<Rightarrow> dent list list option" where "D0 = [2 \<mapsto> [es0]]"

definition inode0 :: "nat \<Rightarrow> nat \<Rightarrow> nat \<Rightarrow> dinode" where
  "inode0 mode sz db = \<lparr>di_mode = of_nat mode, di_size = of_nat sz, di_db = [of_nat db, 0, 0, 0, 0, 0, 0, 0, 0, 0, 0, 0], di_ib = [0, 0, 0],
     di_uid = 0, di_gid = 0\<rparr>"

lemma dec_inode0: "dec_dinode (enc_inode0 mode sz db) = inode0 mode sz db"
  if "mode < 2 ^ 16" "sz < 2 ^ 64" "db < 2 ^ 32"
  using that
  by (simp add: dec_dinode_def enc_inode0_def inode0_def NDADDR_def NIADDR_def field32_def field64_def upt_rec layout le_dec_enc) (simp add: bytes_at_def le_dec_zeros)

lemma length_enc_inode0: "length (enc_inode0 mode sz db) = 128"
  by (simp add: enc_inode0_def)

lemma inodes_at0:
  assumes "image_disk sz d dip"
  shows "inode_at (sector0 sz d) fs0 2 = inode0 0x41ED 512 36" "inode_at (sector0 sz d) fs0 3 = inode0 0x81A4 sz 37"
proof -
  have d: "length d = 512" "sz < 2 ^ 64" using assms by (auto simp: image_disk_def)
  have "ino_addr fs0 2 = 32" "ino_addr fs0 3 = 32" "ino_to_fsbo fs0 2 = 2" "ino_to_fsbo fs0 3 = 3"
    by (simp_all add: ino_addr_def ino_to_fsba_def cgstart_def ino_to_fsbo_def fs0_def)
  moreover have "blk_at (sector0 sz d) fs0 32 = inodes0 sz"
    by (simp add: blk_at_def fs0_ok image0_parts [OF d(1)]) (simp add: fs0_def image0_parts [OF d(1)])
  moreover have "bytes_at 256 128 (inodes0 sz) = enc_inode0 0x41ED 512 36" "bytes_at 384 128 (inodes0 sz) = enc_inode0 0x81A4 sz 37"
    by (simp_all add: inodes0_def layout length_enc_inode0)
  ultimately show "inode_at (sector0 sz d) fs0 2 = inode0 0x41ED 512 36" "inode_at (sector0 sz d) fs0 3 = inode0 0x81A4 sz 37"
    using d(2) by (simp_all add: inode_at_def dec_inode0)
qed

lemma one_fragment: "0 < (n :: nat) \<Longrightarrow> n \<le> 512 \<Longrightarrow> (n + 511) div 512 = 1"
  by (rule div_nat_eqI) auto

lemma blocks0:
  assumes "0 < n" "n \<le> 512"
  shows "unat (di_size (inode0 mode n db)) = n" "blksize_of fs0 (inode0 mode n db) 0 = 512" "bmap m fs0 (inode0 mode n db) 0 = of_nat db"
proof -
  show u: "unat (di_size (inode0 mode n db)) = n" using assms by (simp add: inode0_def unat_of_nat_small)
  show "bmap m fs0 (inode0 mode n db) 0 = of_nat db" by (simp add: inode0_def NDADDR_def bmap_def)
  show "blksize_of fs0 (inode0 mode n db) 0 = 512" using assms one_fragment [OF assms] by (simp add: blksize_of_def u fs0_ok NDADDR_def)
qed

lemma file0:
  assumes img: "image_disk sz d dip" and "0 < n" "n \<le> 512" "0 < db" "db < 38" and blk: "secs (sector0 sz d) db 1 = b" "length b = 512"
  shows "file_bytes (sector0 sz d) fs0 (inode0 mode n db) 0 n = take n b"
    "inode_ok (vol_readable dip (disk_512 (sector0 sz d)) (sector0 sz d) 38) (sector0 sz d) fs0 (inode0 mode n db)"
proof -
  have db: "unat (of_nat db :: u32) = db" using assms(5) by (simp add: unat_of_nat_small)
  then have nz: "(of_nat db :: u32) \<noteq> 0" using assms(4) by (metis gr_implies_not0 unat_0)
  note b = blocks0 [OF assms(2,3)]
  have "data_block (sector0 sz d) fs0 (inode0 mode n db) 0 = b"
    using blk db nz by (simp add: data_block_def b Let_def) (simp add: fs0_def)
  then show "file_bytes (sector0 sz d) fs0 (inode0 mode n db) 0 n = take n b"
    using file_bytes_block [OF fs0_ok(1), of "inode0 mode n db" 0 b "sector0 sz d" n] assms(2,3) blk by (simp add: b fs0_ok bytes_at_def)
  have "(unat (di_size (inode0 mode n db)) + bsz fs0 - 1) div bsz fs0 = 1"
    unfolding b fs0_ok using assms(2,3) by (intro div_nat_eqI) auto
  moreover have "block_ok (vol_readable dip (disk_512 (sector0 sz d)) (sector0 sz d) 38) (sector0 sz d) fs0 (inode0 mode n db) 0"
    using assms(5) db by (simp add: block_ok_def NDADDR_def b frag_ok_def readable0 [OF img]) (simp add: fs0_def)
  ultimately show "inode_ok (vol_readable dip (disk_512 (sector0 sz d)) (sector0 sz d) 38) (sector0 sz d) fs0 (inode0 mode n db)"
    by (simp add: inode_ok_def) (simp add: inode0_def NDADDR_def NIADDR_def)
qed

lemma root_dir0:
  assumes img: "image_disk sz d dip"
  shows "inode_ok (vol_readable dip (disk_512 (sector0 sz d)) (sector0 sz d) 38) (sector0 sz d) fs0 (inode0 0x41ED 512 36)"
    "dir_ok (sector0 sz d) fs0 (inode0 0x41ED 512 36) [es0]"
proof -
  have d: "length d = 512" using img by (simp add: image_disk_def)
  show "inode_ok (vol_readable dip (disk_512 (sector0 sz d)) (sector0 sz d) 38) (sector0 sz d) fs0 (inode0 0x41ED 512 36)"
    by (rule file0(2) [OF img _ _ _ _ image0_parts(3) [OF d] length_image0(3)]) simp_all
  have "file_bytes (sector0 sz d) fs0 (inode0 0x41ED 512 36) 0 512 = take 512 (dir_bytes es0)"
    by (rule file0(1) [OF img _ _ _ _ image0_parts(3) [OF d] length_image0(3)]) simp_all
  then have fb: "file_bytes (sector0 sz d) fs0 (inode0 0x41ED 512 36) 0 512 = dir_bytes es0" by (simp add: length_image0)
  have "list_all dent_ok es0" by (simp add: es0_def dent_ok_def MAXNAMLEN_def enc_dent_def)
  then show "dir_ok (sector0 sz d) fs0 (inode0 0x41ED 512 36) [es0]"
    using fb by (simp add: dir_ok_def fs0_ok length_image0) (simp add: inode0_def)
qed

lemma tree0:
  assumes img: "image_disk sz d dip"
  shows "tree_ok (vol_readable dip (disk_512 (sector0 sz d)) (sector0 sz d) 38) (sector0 sz d) fs0 D0 {2, 3}"
proof -
  let ?rd = "vol_readable dip (disk_512 (sector0 sz d)) (sector0 sz d) 38"
  have sz: "0 < sz" "sz \<le> 512" "length d = 512" using img by (auto simp: image_disk_def)
  have a: "frag_ok ?rd fs0 (ino_addr fs0 i) (bsz fs0)" if "i \<in> {2, 3}" for i
    using that by (auto simp: frag_ok_def readable0 [OF img] fs0_ok ino_addr_def ino_to_fsba_def cgstart_def) (auto simp: fs0_def)
  have i3: "inode_ok ?rd (sector0 sz d) fs0 (inode0 0x81A4 sz 37)"
    by (rule file0(2) [OF img sz(1,2) _ _ image0_parts(4) [OF sz(3)] sz(3)]) simp_all
  have m: "di_mode (inode0 0x41ED 512 36) AND IFMT = IFDIR" "di_mode (inode0 0x81A4 sz 37) AND IFMT = 0x8000"
    by (simp_all add: inode0_def IFMT_def IFDIR_def)
  have es: "\<forall>e \<in> set es0. e_ino e \<in> {2, 3}" by (simp add: es0_def)
  have "0 < sint (fs_maxsymlinklen fs0)" by (simp add: fs0_def)
  then show ?thesis
    using a root_dir0 [OF img] i3 m es by (simp add: tree_ok_def inodes_at0 [OF img] D0_def ROOTINO_def IFLNK_def) (simp add: IFDIR_def)
qed

lemma path0: "resolve D0 ROOTINO (path_names ''/bsd'') = Inr 3"
proof -
  have "path_names ''/bsd'' = [''bsd'']" by (simp add: path_names.simps is_slash_def)
  then show ?thesis by (simp add: D0_def ROOTINO_def lookup_def es0_def MAXNAMLEN_def)
qed

lemma file_data0: "image_disk sz d dip \<Longrightarrow> file_bytes (sector0 sz d) fs0 (inode0 0x81A4 sz 37) 0 sz = take sz d"
  by (rule file0(1) [OF _ _ _ _ _ image0_parts(4)]) (auto simp: image_disk_def)

definition dip0 :: diskinfo where "dip0 = efid_init (disk_512 (sector0 5 data0))"

lemma image_dip0: "image_disk 5 data0 dip0"
  by (simp add: image_disk_def dip0_def efid_init_def B_PARTITION_def data0_def)

theorem boot_reads_file_witness:
  "\<exists>fp ib' fp1 fp2 ib''. ufs_open (efistrategy ops0 dip0 F_READ) (\<lambda>n. replicate n 0) ''/bsd'' No_iblk = Ret (Inr fp, ib')
     \<and> ufs_seek 1 SEEK_SET fp = Ret (1, fp1)
     \<and> ufs_read (efistrategy ops0 dip0 F_READ) (\<lambda>n. replicate n 0) 3 fp1 ib' = Ret (0, map of_char ''ell'', 0, fp2, ib'')"
proof -
  note v = vol0 [OF image_dip0] and rd = readable0 [OF image_dip0] and i = inodes_at0 [OF image_dip0]
  have c: "file_bytes (sector0 5 data0) fs0 (inode0 0x81A4 5 37) 0 5 = map of_char ''hello''"
    using file_data0 [OF image_dip0] by (simp add: data0_def)
  have sz: "unat (di_size (inode0 0x81A4 5 37)) = 5" by (simp add: inode0_def)
  have "length data0 = 512" by (simp add: data0_def)
  note p = image0_parts [OF this]
  have "iblk_ok (disk_512 (sector0 5 data0)) No_iblk" by (simp add: iblk_ok_def)
  from boot_reads_file [OF v(1) this _ _ _ _ fs0_ok(1), of "\<lambda>n. replicate n 0" D0 "{2, 3}" ops0 "''/bsd''"]
  have "\<exists>fp ib'. ufs_open (efistrategy ops0 dip0 F_READ) (\<lambda>n. replicate n 0) ''/bsd'' No_iblk = Ret (Inr fp, ib')
     \<and> (\<forall>p n. p \<le> 5 \<longrightarrow> (\<exists>fp1 fp2 ib''. ufs_seek (int p) SEEK_SET fp = Ret (int p, fp1)
       \<and> ufs_read (efistrategy ops0 dip0 F_READ) (\<lambda>n. replicate n 0) n fp1 ib' =
          Ret (0, take n (drop p (map of_char ''hello'')), n - (5 - p), fp2, ib'')))"
    using tree0 [OF image_dip0] by (simp add: path0 v(3) p dec_fs0 rd i sz c Let_def) (simp add: fs0_def)
  then obtain fp ib' where 1: "ufs_open (efistrategy ops0 dip0 F_READ) (\<lambda>n. replicate n 0) ''/bsd'' No_iblk = Ret (Inr fp, ib')"
      "\<And>p n. p \<le> 5 \<Longrightarrow> \<exists>fp1 fp2 ib''. ufs_seek (int p) SEEK_SET fp = Ret (int p, fp1)
       \<and> ufs_read (efistrategy ops0 dip0 F_READ) (\<lambda>n. replicate n 0) n fp1 ib' =
          Ret (0, take n (drop p (map of_char ''hello'')), n - (5 - p), fp2, ib'')"
    by blast
  from 1(2) [of 1 3] 1(1) show ?thesis by auto
qed

definition root0 :: ufs_file where
  "root0 = \<lparr>f_seekp = 24, f_fs = fs0, f_di = inode0 0x41ED 512 36, f_nindir = nindirs fs0, f_blk = replicate NIADDR None,
     f_blkno = replicate NIADDR (- 1), f_buf = None, f_buf_blkno = - 1\<rparr>"

theorem readdir_next_entry_witness:
  "\<exists>fp' ib'. ufs_readdir (efistrategy ops0 dip0 F_READ) (\<lambda>n. replicate n 0) root0 No_iblk = Ret (0, ''bsd'', fp', ib') \<and> f_seekp fp' = 512"
proof -
  let ?rd = "vol_readable dip0 (disk_512 (sector0 5 data0)) (sector0 5 data0) 38"
  note K = root_dir0 [OF image_dip0]
  have es: "es0 = take 2 es0 @ [es0 ! 2]" "length (dir_bytes (take 2 es0)) = 24" "e_name (es0 ! 2) = ''bsd''" "e_ino (es0 ! 2) = 3"
    by (simp_all add: es0_def enc_dent_def)
  have l: "length (dir_bytes (take 2 es0 @ [es0 ! 2])) = 512" using es(1) length_image0(3) by metis
  have fp: "file_ok ?rd (sector0 5 data0) fs0 root0" using K(1) by (simp add: file_ok_def buffers_ok_def data_ok_def root0_def)
  have r: "f_di root0 = inode0 0x41ED 512 36" "f_seekp root0 = 24" "0 < sint (fs_maxsymlinklen fs0)" "unat (di_size (inode0 0x41ED 512 36)) = 512"
    by (simp_all add: root0_def fs0_def inode0_def)
  have "iblk_ok (disk_512 (sector0 5 data0)) No_iblk" by (simp add: iblk_ok_def)
  from readdir_next_entry [OF vol0(1) [OF image_dip0] this _ fs0_ok(1), of "\<lambda>n. replicate n 0" root0 "take 2 es0" "[es0 ! 2]" ops0]
  have "\<exists>fp' ib'. ufs_readdir (efistrategy ops0 dip0 F_READ) (\<lambda>n. replicate n 0) root0 No_iblk = Ret (0, ''bsd'', fp', ib')
     \<and> f_seekp fp' = int (length (dir_bytes (take 2 es0 @ [es0 ! 2])))"
    using K(2) fp es(2-) r by (simp add: vol0(3) [OF image_dip0] fs0_ok es(1) [symmetric]) blast
  then show ?thesis unfolding l by simp
qed

end
