(* ===== verification/Efi_Load.thy ===== *)
theory Efi_Load
  imports Elf_Image Efi_Files
begin

unbundle bit_operations_syntax

text \<open>
  Loading a kernel from a disk of the firmware: the descriptors of \<open>Libsa_File\<close> and the streams of \<open>Libsa_Cread\<close> on
  top of a partition are a \<open>seekable\<close> file, so \<open>loadfile\<close> puts the file the path names into memory.
\<close>

section \<open>An open file\<close>

text \<open>A place on a disk: the disk, its firmware interface, its sectors and their number, the file system and the inode.\<close>

record kfile =
  k_dip :: diskinfo
  k_ed :: efi_diskinfo
  k_med :: "nat \<Rightarrow> u8 list"
  k_nblk :: nat
  k_fs :: fs
  k_di :: dinode

definition k_sector :: "kfile \<Rightarrow> nat \<Rightarrow> u8 list" where "k_sector k = vol_sector (k_dip k) (k_ed k) (k_med k) (k_nblk k)"

definition k_readable :: "kfile \<Rightarrow> nat \<Rightarrow> nat \<Rightarrow> bool" where "k_readable k = vol_readable (k_dip k) (k_ed k) (k_med k) (k_nblk k)"

definition k_size :: "kfile \<Rightarrow> nat" where "k_size k = unat (di_size (k_di k))"

definition k_data :: "kfile \<Rightarrow> u8 list" where
  "k_data k = (if k_size k < 2 ^ 31 then file_bytes (k_sector k) (k_fs k) (k_di k) 0 (k_size k) else [])"

definition k_ok :: "kfile \<Rightarrow> bool" where
  "k_ok k \<longleftrightarrow> vol_ok (k_dip k) (k_ed k) (k_med k) (k_nblk k) \<and> fs_ok (k_fs k) \<and> k_size k < 2 ^ 31"

text \<open>Descriptor \<open>fd\<close> is the file, at position \<open>q\<close>.\<close>

definition file_at :: "kfile \<Rightarrow> int \<Rightarrow> nat \<Rightarrow> 'a sa_world_scheme \<Rightarrow> bool" where
  "file_at k fd q w \<longleftrightarrow> k_ok k \<and> 0 \<le> fd \<and> nat fd < SOPEN_MAX \<and> length (files w) = SOPEN_MAX \<and> iblk_ok (k_ed k) (iblk_of w)
     \<and> (let f = files w ! nat fd in f_flags f = FF_READ \<and> f_ops f \<and> dip_of (f_data f) (efi_of w) = Some (k_dip k)
         \<and> (case f_fsdata f of None \<Rightarrow> False
            | Some fp \<Rightarrow> f_di fp = k_di k \<and> f_seekp fp = int q \<and> file_ok (k_readable k) (k_sector k) (k_fs k) fp))"

lemma length_k_data: "k_ok k \<Longrightarrow> length (k_data k) = k_size k"
  by (simp add: k_data_def k_ok_def file_bytes_def)

lemma bytes_k_data: "k_ok k \<Longrightarrow> q + n \<le> k_size k \<Longrightarrow> file_bytes (k_sector k) (k_fs k) (k_di k) q n = bytes_at q n (k_data k)"
  by (simp add: k_data_def k_ok_def file_bytes_def bytes_at_def drop_map take_map min_def)

lemma file_at_errno [simp]: "file_at k fd q (w\<lparr>errno := e\<rparr>) = file_at k fd q w" by (simp add: file_at_def)

lemma file_at_ss_update [simp]: "file_at k fd q (w\<lparr>ss := x\<rparr>) = file_at k fd q w" by (simp add: file_at_def)

lemma file_at_ss [simp]: "file_at k fd q (set_ss fd' s w) = file_at k fd q w" by (simp add: file_at_def set_ss_def)

lemma flag_READ: "has_flag FF_READ f" "\<not> has_flag FF_RAW f" "\<not> has_flag FF_NODEV f" "f_flags f \<noteq> 0" if "f_flags f = FF_READ"
  using that by (simp_all add: has_flag_def FF_READ_def FF_RAW_def FF_NODEV_def)

lemma oread_ok:
  assumes "file_at k fd q w" "q \<le> k_size k" "\<forall>n. length (al n) = n" and n: "n = min (length buf) (k_size k - q)"
  shows "\<exists>w'. oread ops al fd buf w = Ret (int n, overlay buf 0 (bytes_at q n (k_data k)), w') \<and> file_at k fd (q + n) w' \<and> errno w' = 0
     \<and> sa_world.more w' = sa_world.more w"
proof -
  let ?f = "files w ! nat fd"
  obtain fp where f: "f_flags ?f = FF_READ" "f_ops ?f" "dip_of (f_data ?f) (efi_of w) = Some (k_dip k)" "f_fsdata ?f = Some fp"
      "f_di fp = k_di k" "f_seekp fp = int q" "file_ok (k_readable k) (k_sector k) (k_fs k) fp"
    and k: "k_ok k" "0 \<le> fd" "nat fd < SOPEN_MAX" "length (files w) = SOPEN_MAX" "iblk_ok (k_ed k) (iblk_of w)"
    using assms(1) by (auto simp: file_at_def Let_def split: option.splits)
  have st: "dv_strategy ops F_READ (f_data ?f) (efi_of w) = efistrategy ops (k_dip k) F_READ" using f(3) by (simp add: dv_strategy_def fun_eq_iff)
  have al: "sized al = al" using assms(3) by (auto simp: sized_def fun_eq_iff)
  obtain fp' ib where r: "ufs_read (efistrategy ops (k_dip k) F_READ) al (length buf) fp (iblk_of w)
        = Ret (0, bytes_at q n (k_data k), length buf - n, fp', ib)" "iblk_ok (k_ed k) ib"
      "file_ok (k_readable k) (k_sector k) (k_fs k) fp'" "f_di fp' = k_di k" "f_seekp fp' = int (q + n)"
    using efi_vol.ufs_read_ok [of "k_fs k" "k_dip k" "k_ed k" "k_med k" "k_nblk k" fp "iblk_of w" q n "length buf" ops al] f k assms(2) n bytes_k_data [OF k(1), of q n]
    unfolding al by (auto simp: k_ok_def k_readable_def k_sector_def k_size_def)
  have "int (length buf) - int (length buf - n) = int n" using n by simp
  then show ?thesis using k r f flag_READ [OF f(1)]
    by (auto simp: oread_def the_file_def st file_at_def Let_def set_file_def)
qed

lemma olseek_ok:
  assumes "file_at k fd q w"
  shows "\<exists>w'. olseek fd (int p) SEEK_SET w = Ret (int p, w') \<and> file_at k fd p w' \<and> sa_world.more w' = sa_world.more w"
  using assms flag_READ [of "files w ! nat fd"]
  by (auto simp: olseek_def the_file_def file_at_def Let_def set_file_def ufs_seek_def split: option.splits)

section \<open>An open stream\<close>

text \<open>
  The stream of a file that is not compressed, at position \<open>p\<close>: the bytes in its buffer are the next ones, and the file
  itself is behind them.
\<close>

definition stream_at :: "kfile \<Rightarrow> int \<Rightarrow> nat \<Rightarrow> 'z c_world \<Rightarrow> bool" where
  "stream_at k fd p w \<longleftrightarrow> length (ss w) = SOPEN_MAX \<and> (case ss w ! nat fd of None \<Rightarrow> False | Some s \<Rightarrow>
     let a = unat (avail_in s) in
     file_at k fd (p + a) w \<and> transparent s \<and> z_err s = Z_OK \<and> p + a \<le> k_size k \<and> next_in s + a \<le> length (inbuf s)
     \<and> bytes_at (next_in s) a (inbuf s) = bytes_at p a (k_data k))"

lemma more_ss: "sa_world.more w' = sa_world.more w \<Longrightarrow> ss w' = ss w"
  by (cases w; cases w') simp

lemma stream_seek:
  assumes "stream_at k fd q w" "p \<le> k_size k"
  shows "\<exists>w'. sa_lseek z ops al fuel fd (int p) SEEK_SET w = Ret (int p, w') \<and> stream_at k fd p w'"
proof -
  obtain s where s: "ss w ! nat fd = Some s" "length (ss w) = SOPEN_MAX" "transparent s" "z_err s = Z_OK" "file_at k fd (q + unat (avail_in s)) w"
      "next_in s + unat (avail_in s) \<le> length (inbuf s)"
    using assms(1) by (auto simp: stream_at_def Let_def split: option.splits)
  then have fd: "0 \<le> fd" "nat fd < SOPEN_MAX" "has_flag FF_READ (files w ! nat fd)"
    by (auto simp: file_at_def Let_def flag_READ)
  obtain w' where w': "olseek fd (int p) SEEK_SET w = Ret (int p, w')" "file_at k fd p w'" "ss w' = ss w"
    using olseek_ok [OF s(5)] more_ss by blast
  then show ?thesis using s fd assms(2)
    by (auto simp: sa_lseek_def aget_def stream_at_def set_ss_def bytes_at_def)
qed

lemma bytes_at_take_drop: "bytes_at p a xs @ bytes_at (p + a) b xs = bytes_at p (a + b) xs"
  by (simp add: bytes_at_def take_add add.commute)

lemma overlay_append: "length xs = a \<Longrightarrow> a + length ys = length buf \<Longrightarrow> overlay (overlay buf 0 xs) a ys = xs @ ys"
  by (simp add: overlay_def)

lemma i32_id: "n < 2 ^ 31 \<Longrightarrow> i32 (int n) = int n"
  by (simp add: i32_def signed_take_bit_int_eq_self)

lemma bytes_at_none [simp]: "bytes_at q 0 xs = []" by (simp add: bytes_at_def)

lemma length_sized: "length (sized al n) = n" by (simp add: sized_def)

lemma read_plain_ok:
  assumes s: "file_at k fd (p + unat (avail_in s)) w" "next_in s + unat (avail_in s) \<le> length (inbuf s)"
      "bytes_at (next_in s) (unat (avail_in s)) (inbuf s) = bytes_at p (unat (avail_in s)) (k_data k)"
    and "p + length buf \<le> k_size k" "p + unat (avail_in s) \<le> k_size k" "\<forall>n. length (al n) = n" "buf \<noteq> []"
  shows "\<exists>s' w'. read_plain z ops al fd buf 0 0 (of_nat (length buf)) s w = Ret (int (length buf), bytes_at p (length buf) (k_data k), s', w')
     \<and> ss w' = ss w \<and> transparent s' = transparent s \<and> z_err s' = z_err s \<and> file_at k fd (p + length buf + unat (avail_in s')) w'
     \<and> p + length buf + unat (avail_in s') \<le> k_size k \<and> next_in s' + unat (avail_in s') \<le> length (inbuf s')
     \<and> bytes_at (next_in s') (unat (avail_in s')) (inbuf s') = bytes_at (p + length buf) (unat (avail_in s')) (k_data k)"
proof -
  let ?a = "unat (avail_in s)" and ?len = "length buf" let ?n = "min ?a ?len" and ?room = "of_nat (length buf) :: u32"
  let ?look = "bytes_at p ?n (k_data k)" let ?buf = "overlay buf 0 ?look" and ?s = "s\<lparr>next_in := next_in s + ?n, avail_in := avail_in s - of_nat ?n\<rparr>"
  have k: "k_ok k" "k_size k < 2 ^ 31" using s(1) by (auto simp: file_at_def k_ok_def)
  have room: "unat ?room = ?len" using assms(4) k(2) by (intro unat_of_nat_small) simp
  have "unat (of_nat ?n :: u32) = ?n" using assms(5) k(2) by (intro unat_of_nat_small) simp
  then have av: "unat (avail_in s - of_nat ?n) = ?a - ?n" "unat (?room - of_nat ?n) = ?len - ?n"
    by (simp_all add: unat_sub word_le_nat_alt room)
  have look: "obj_bytes (inbuf s) (next_in s) ?n = Ret ?look" "length ?look = ?n"
  proof -
    have "bytes_at (next_in s) ?n (inbuf s) = take ?n (bytes_at (next_in s) ?a (inbuf s))" by (simp add: bytes_at_def min_def)
    also have "\<dots> = ?look" unfolding s(3) by (simp add: bytes_at_def min_def)
    finally show "obj_bytes (inbuf s) (next_in s) ?n = Ret ?look" using s(2) by (simp add: obj_bytes_def)
    show "length ?look = ?n" using assms(4) length_k_data [OF k(1)] by (intro length_bytes_at) simp
  qed
  have put: "put_bytes buf 0 ?look = Ret ?buf" "length ?buf = ?len" using look(2) by (simp_all add: put_bytes_def length_overlay)
  show ?thesis
  proof (cases "?len \<le> ?a")
    case True
    then have n: "?n = ?len" by simp
    have "?buf = bytes_at p ?len (k_data k)" using look(2) unfolding n by (simp add: overlay_def)
    moreover have "bytes_at (next_in s + ?len) (?a - ?len) (inbuf s) = bytes_at (p + ?len) (?a - ?len) (k_data k)"
      using arg_cong [OF s(3), of "drop ?len"] True by (simp add: bytes_at_def drop_take add.commute)
    moreover have "p + ?len + (?a - ?len) = p + ?a" using True by simp
    ultimately show ?thesis using s(1,2) assms(4,5,7) look put(1) av k(2) True
      by (simp add: read_plain_def Let_def room n i32_id word_less_nat_alt)
  next
    case False
    then have n: "?n = ?a" by simp
    let ?b = "bytes_at ?a (?len - ?a) ?buf"
    have b: "length ?b = ?len - ?a" "?len - ?a = min (length ?b) (k_size k - (p + ?a))"
      using put(2) False assms(4) unfolding n by (simp_all add: bytes_at_def)
    obtain w' where w': "oread ops al fd ?b w = Ret (int (?len - ?a), overlay ?b 0 (bytes_at (p + ?a) (?len - ?a) (k_data k)), w')"
        "file_at k fd (p + ?a + (?len - ?a)) w'" "errno w' = 0" "ss w' = ss w"
      using oread_ok [OF s(1) assms(5,6) b(2)] more_ss by blast
    have d: "length (bytes_at (p + ?a) (?len - ?a) (k_data k)) = ?len - ?a" using assms(4) False length_k_data [OF k(1)] by (intro length_bytes_at) simp
    then have "overlay ?b 0 (bytes_at (p + ?a) (?len - ?a) (k_data k)) = bytes_at (p + ?a) (?len - ?a) (k_data k)"
      using b(1) by (simp add: overlay_def)
    moreover have "overlay ?buf ?a (bytes_at (p + ?a) (?len - ?a) (k_data k)) = bytes_at p ?len (k_data k)"
      using look(2) d False unfolding n by (subst overlay_append) (simp_all add: bytes_at_take_drop)
    moreover have "length (bytes_at p ?len (k_data k)) = ?len" using assms(4) length_k_data [OF k(1)] by (intro length_bytes_at) simp
    moreover have "i32 (int ?len - uint (avail_in s)) = int ?len - uint (avail_in s)" "i32 (int ?len) = int ?len"
      using i32_id [of "?len - ?a"] i32_id [of ?len] False assms(4) k(2) by simp_all
    moreover have "?room - avail_in s - word_of_int (int ?len - uint (avail_in s)) = 0" by (simp flip: wi_hom_sub)
    ultimately show ?thesis using s(1,2) assms(4,5,7) look(1) put(1) av False w' b(1)
      by (simp add: read_plain_def Let_def room n word_less_nat_alt)
  qed
qed

lemma stream_read:
  assumes "stream_at k fd p w" "p + length buf \<le> k_size k" "\<forall>n. length (al n) = n"
  shows "\<exists>w'. sa_read z ops al fuel fd buf w = Ret (int (length buf), bytes_at p (length buf) (k_data k), w') \<and> stream_at k fd (p + length buf) w'"
proof -
  obtain s where s: "ss w ! nat fd = Some s" "length (ss w) = SOPEN_MAX" "transparent s" "z_err s = Z_OK" "file_at k fd (p + unat (avail_in s)) w"
      "p + unat (avail_in s) \<le> k_size k" "next_in s + unat (avail_in s) \<le> length (inbuf s)"
      "bytes_at (next_in s) (unat (avail_in s)) (inbuf s) = bytes_at p (unat (avail_in s)) (k_data k)"
    using assms(1) by (auto simp: stream_at_def Let_def split: option.splits)
  then have fd: "0 \<le> fd" "nat fd < SOPEN_MAX" "k_size k < 2 ^ 31" by (auto simp: file_at_def k_ok_def)
  have z: "z_err s \<noteq> Z_DATA_ERROR" "z_err s \<noteq> Z_ERRNO" "z_err s \<noteq> Z_STREAM_END"
    using s(4) by (simp_all add: Z_OK_def Z_DATA_ERROR_def Z_ERRNO_def Z_STREAM_END_def)
  show ?thesis
  proof (cases "buf = []")
    case True
    then show ?thesis using s fd z
      by (auto simp: sa_read_def aget_def read_loop.simps read_end_def stream_at_def set_ss_def bytes_at_def Let_def i32_def)
  next
    case False
    have "unat (of_nat (length buf) :: u32) = length buf" using assms(2) fd(3) by (intro unat_of_nat_small) simp
    then have "(of_nat (length buf) :: u32) \<noteq> 0" using False by auto
    then have l: "read_loop z ops al fuel fd buf 0 0 (of_nat (length buf)) s w = read_plain z ops al fd buf 0 0 (of_nat (length buf)) s w"
      using s(3) by (subst read_loop.simps) simp
    from read_plain_ok [OF s(5,7,8) assms(2) s(6) assms(3) False, of z ops] show ?thesis
      using s fd z by (auto simp: sa_read_def aget_def l stream_at_def set_ss_def Let_def)
  qed
qed

text \<open>So a stream is a file as the loader wants it.\<close>

interpretation efi_stream: seekable "sa_read z ops (sized al) fuel fd" "\<lambda>off. sa_lseek z ops (sized al) fuel fd off SEEK_SET" "k_data k"
    "stream_at k fd" for z ops al fuel fd k
proof
  show "length (k_data k) < 2 ^ 31" by (simp add: k_data_def file_bytes_def)
  have k: "k_ok k" if "stream_at k fd p w" for p and w :: "'z c_world" using that by (auto simp: stream_at_def Let_def file_at_def split: option.splits)
  show "\<exists>s'. sa_lseek z ops (sized al) fuel fd (int p) SEEK_SET s = Ret (int p, s') \<and> stream_at k fd p s'"
    if "stream_at k fd q s" "p \<le> length (k_data k)" for q s p
    using stream_seek [OF that(1)] that(2) length_k_data [OF k [OF that(1)]] by simp
  show "\<exists>s'. sa_read z ops (sized al) fuel fd buf s = Ret (int (length buf), bytes_at p (length buf) (k_data k), s') \<and> stream_at k fd (p + length buf) s'"
    if "stream_at k fd p s" "p + length buf \<le> length (k_data k)" for p s buf
    using stream_read [OF that(1), of buf "sized al"] that(2) length_k_data [OF k [OF that(1)]] by (simp add: length_sized)
qed

section \<open>Opening\<close>

text \<open>The name of a file on a partition of a disk, the disk as opening leaves it, and the file the path leads to.\<close>

definition dev_name :: "string \<Rightarrow> nat \<Rightarrow> nat \<Rightarrow> string \<Rightarrow> string" where
  "dev_name dev un prt path = dev @ [char_of (48 + un), char_of (97 + prt), CHR '':''] @ path"

definition names_file :: "kfile \<Rightarrow> (u32 \<Rightarrow> dent list list option) \<Rightarrow> u32 set \<Rightarrow> string \<Rightarrow> bool" where
  "names_file k D K path \<longleftrightarrow> k_ok k \<and> k_fs k = dec_fs (secs (k_sector k) 16 16) \<and> k_readable k 16 16 \<and> fs_magic (k_fs k) = FS_MAGIC
     \<and> tree_ok (k_readable k) (k_sector k) (k_fs k) D K
     \<and> (case resolve D ROOTINO (path_names path) of Inl e \<Rightarrow> False | Inr ino \<Rightarrow> k_di k = inode_at (k_sector k) (k_fs k) ino)"

definition on_disk :: "kfile \<Rightarrow> string \<Rightarrow> nat \<Rightarrow> nat \<Rightarrow> 'a sa_world_scheme \<Rightarrow> bool" where
  "on_disk k dev un prt w \<longleftrightarrow> dev \<in> {''wd'', ''sd'', ''hd''} \<and> un < 10 \<and> prt < 16
     \<and> (case find_index (\<lambda>dip. bios_number (bios_info dip) = of_nat un OR 0x80) (disklist (efi_of w)) of
          None \<Rightarrow> False | Some i \<Rightarrow> k_dip k = fix_bootdev un prt (disklist (efi_of w) ! i))
     \<and> iblk_ok (k_ed k) (iblk_of w) \<and> length (files w) = SOPEN_MAX"

text \<open>What \<open>oopen\<close> does once the device is open.\<close>

lemma oopen_disk:
  assumes k: "on_disk k dev un prt w" and path: "path \<noteq> []" and fd: "find_index (\<lambda>f. f_flags f = 0) (files w) = Some fd"
  shows "\<exists>i f. find_index (\<lambda>dip. bios_number (bios_info dip) = of_nat un OR 0x80) (disklist (efi_of w)) = Some i \<and> i < length (disklist (efi_of w)) \<and> k_dip k = fix_bootdev un prt (disklist (efi_of w) ! i) \<and> f_flags f = FF_READ \<and> f_data f = Some (Disk i)
     \<and> oopen ops al (dev_name dev un prt path) 0 w = obind (ufs_open (efistrategy ops (k_dip k) F_READ) al path (iblk_of w)) (\<lambda>(r, ib).
         let w' = w\<lparr>efi_of := (efi_of w)\<lparr>bootdev_dip := Some (Disk i), disklist := (disklist (efi_of w))[i := k_dip k]\<rparr>, iblk_of := ib\<rparr> in
         case r of Inr fp \<Rightarrow> Ret (int fd, set_file fd (f\<lparr>f_fsdata := Some fp, f_ops := True\<rparr>) w')
         | Inl e \<Rightarrow> fail e (set_file fd (f\<lparr>f_fsdata := None, f_data := None, f_flags := 0\<rparr>) w'))"
proof -
  obtain i where i: "find_index (\<lambda>dip. bios_number (bios_info dip) = of_nat un OR 0x80) (disklist (efi_of w)) = Some i"
      "k_dip k = fix_bootdev un prt (disklist (efi_of w) ! i)" "i < length (disklist (efi_of w))"
    using k find_index_Some by (fastforce simp: on_disk_def split: option.splits)
  let ?ew = "(efi_of w)\<lparr>bootdev_dip := Some (Disk i), disklist := (disklist (efi_of w))[i := k_dip k]\<rparr>"
  let ?f = "(files w ! fd)\<lparr>f_flags := 1, f_dev := True, f_ops := False, f_data := Some (Disk i)\<rparr>"
  have st: "dv_strategy ops F_READ (Some (Disk i)) ?ew = efistrategy ops (k_dip k) F_READ" using i(3) by (simp add: dv_strategy_def dip_of_def fun_eq_iff)
  have dev: "dev \<in> {''wd'', ''sd'', ''hd''}" "un < 10" "prt < 16" using k by (auto simp: on_disk_def)
  have d: "devopen ops ((files w ! fd)\<lparr>f_flags := 1, f_dev := False, f_ops := False\<rparr>) (dev_name dev un prt path) (efi_of w) = Ret (0, path, ?f, ?ew)"
    using efiopen_disk [OF dev path i(1), of ops] by (simp add: devopen_def dev_name_def i(2) has_flag_def FF_RAW_def)
  have "oopen ops al (dev_name dev un prt path) 0 w = obind (ufs_open (efistrategy ops (k_dip k) F_READ) al path (iblk_of w)) (\<lambda>(r, ib).
         let w' = w\<lparr>efi_of := ?ew, iblk_of := ib\<rparr> in
         case r of Inr fp \<Rightarrow> Ret (int fd, set_file fd (?f\<lparr>f_fsdata := Some fp, f_ops := True\<rparr>) w')
         | Inl e \<Rightarrow> fail e (set_file fd (?f\<lparr>f_fsdata := None, f_data := None, f_flags := 0\<rparr>) w'))"
    using fd d path by (simp add: oopen_def Let_def st has_flag_def FF_NODEV_def)
  then show ?thesis using i by (intro exI [of _ i] exI [of _ ?f]) (simp add: FF_READ_def)
qed

lemma oopen_ok:
  assumes k: "names_file k D K path" "on_disk k dev un prt w" and "path \<noteq> []" "\<forall>n. length (al n) = n"
    and fd: "find_index (\<lambda>f. f_flags f = 0) (files w) = Some fd"
  shows "\<exists>w'. oopen ops al (dev_name dev un prt path) 0 w = Ret (int fd, w') \<and> file_at k (int fd) 0 w' \<and> sa_world.more w' = sa_world.more w"
proof -
  obtain ino where ino: "resolve D ROOTINO (path_names path) = Inr ino" "k_di k = inode_at (k_sector k) (k_fs k) ino"
    using k(1) by (auto simp: names_file_def split: sum.splits)
  have al: "sized al = al" using assms(4) by (auto simp: sized_def fun_eq_iff)
  obtain fp ib where o: "ufs_open (efistrategy ops (k_dip k) F_READ) al path (iblk_of w) = Ret (Inr fp, ib)" "iblk_ok (k_ed k) ib"
      "f_di fp = k_di k" "f_seekp fp = 0" "file_ok (k_readable k) (k_sector k) (k_fs k) fp"
    using efi_vol.ufs_open_ok [of "k_fs k" "k_dip k" "k_ed k" "k_med k" "k_nblk k" D K "iblk_of w" ops al path] k ino
    unfolding al by (auto simp: names_file_def on_disk_def k_ok_def k_sector_def k_readable_def)
  have fd': "fd < SOPEN_MAX" "length (files w) = SOPEN_MAX" using find_index_Some [OF fd] k(2) by (auto simp: on_disk_def)
  show ?thesis
    using oopen_disk [OF k(2) assms(3) fd, of ops al] o fd' k(1) by (auto simp: Let_def file_at_def set_file_def names_file_def dip_of_def)
qed

lemma check_header_plain:
  assumes "file_at k fd 0 w" "s = new_sd z (al Z_BUFSIZE) fd" "0 < k_size k" "k_data k ! 0 \<noteq> 0x1f" "\<forall>n. length (al n) = n"
  shows "\<exists>s' w'. check_header ops al fuel s w = Ret (s', w') \<and> sa_world.more w' = sa_world.more w \<and> transparent s' \<and> z_err s' = Z_OK
     \<and> file_at k fd (unat (avail_in s')) w' \<and> unat (avail_in s') \<le> k_size k \<and> next_in s' + unat (avail_in s') \<le> length (inbuf s')
     \<and> bytes_at (next_in s') (unat (avail_in s')) (inbuf s') = bytes_at 0 (unat (avail_in s')) (k_data k)"
proof -
  define n where "n = min (length (al Z_BUFSIZE)) (k_size k - 0)"
  let ?b = "al Z_BUFSIZE" let ?in = "overlay ?b 0 (bytes_at 0 n (k_data k))"
  have k: "k_ok k" using assms(1) by (simp add: file_at_def)
  have n: "0 < n" "n \<le> 4096" "n \<le> k_size k" "n \<le> length ?b" using assms(3,5) by (auto simp: Z_BUFSIZE_def n_def)
  then have av: "unat (of_nat n :: u32) = n" by (intro unat_of_nat_small) simp
  then have av0: "(of_nat n :: u32) \<noteq> 0" using n(1) by auto
  obtain w1 where w1: "oread ops al fd ?b (w\<lparr>errno := 0\<rparr>) = Ret (int n, ?in, w1)" "file_at k fd n w1" "sa_world.more w1 = sa_world.more w"
    using oread_ok [OF _ _ assms(5) n_def, of fd "w\<lparr>errno := 0\<rparr>" ops] assms(1) by auto
  have l: "length (bytes_at 0 n (k_data k)) = n" using n(3) length_k_data [OF k] by (intro length_bytes_at) simp
  then have i: "bytes_at 0 n ?in = bytes_at 0 n (k_data k)" "length ?in = length ?b" using n(4) by (simp_all add: overlay_def bytes_at_def)
  have "?in ! 0 = k_data k ! 0" using l n(1) by (simp add: overlay_def nth_append bytes_at_def)
  moreover have "uint (k_data k ! 0) \<noteq> 0x1f" using assms(4) by (metis word_of_int_numeral word_of_int_uint)
  moreover have "uint (k_data k ! 0) \<noteq> - 1" using uint_ge_0 [of "k_data k ! 0"] by linarith
  moreover have "?in \<noteq> []" using i(2) n by auto
  ultimately have "check_header ops al fuel s w = Ret (s\<lparr>inbuf := ?in, avail_in := of_nat n, transparent := True\<rparr>, w1)"
    using w1(1) av0 by (simp add: assms(2) check_header_def gz_magic_def get_byte_def new_sd_def aget_def unget_def Z_EOF_def Let_def)
  then show ?thesis using w1(2,3) n(3,4) i av by (simp add: assms(2) new_sd_def)
qed

text \<open>What is needed of the state to load a file, and the class of the kernel.\<close>

definition can_load :: "'z zlib \<Rightarrow> (nat \<Rightarrow> u8 list) \<Rightarrow> kfile \<Rightarrow> string \<Rightarrow> nat \<Rightarrow> nat \<Rightarrow> string \<Rightarrow> 'z c_world \<Rightarrow> bool" where
  "can_load z al k dev un prt path w \<longleftrightarrow> on_disk k dev un prt w \<and> path \<noteq> [] \<and> (\<forall>n. length (al n) = n)
     \<and> (\<exists>f \<in> set (files w). f_flags f = 0) \<and> length (ss w) = SOPEN_MAX \<and> fst (inflateInit2 z) = Z_OK \<and> HDRSIZE \<le> k_size k \<and> k_data k ! 0 \<noteq> 0x1f"

lemma find_index_ex: "\<exists>x \<in> set xs. P x \<Longrightarrow> \<exists>i. find_index P xs = Some i"
  by (induction xs) auto

lemma sa_open_ok:
  assumes "names_file k D K path" "can_load z al k dev un prt path w"
  shows "\<exists>fd w'. sa_open z ops al fuel (dev_name dev un prt path) 0 w = Ret (int fd, w') \<and> stream_at k (int fd) 0 w'"
proof -
  obtain fd where fd: "find_index (\<lambda>f. f_flags f = 0) (files w) = Some fd"
    using assms(2) find_index_ex [of "files w" "\<lambda>f. f_flags f = 0"] by (auto simp: can_load_def)
  have al: "\<forall>n. length (al n) = n" using assms(2) by (simp add: can_load_def)
  obtain w1 where w1: "oopen ops al (dev_name dev un prt path) 0 w = Ret (int fd, w1)" "file_at k (int fd) 0 w1" "sa_world.more w1 = sa_world.more w"
    using oopen_ok [OF assms(1) _ _ al fd, of dev un prt ops] assms(2) by (auto simp: can_load_def)
  let ?s = "new_sd z (al Z_BUFSIZE) (int fd)"
  obtain s w2 where s: "check_header ops al fuel ?s w1 = Ret (s, w2)" "sa_world.more w2 = sa_world.more w1" "transparent s" "z_err s = Z_OK"
      "file_at k (int fd) (unat (avail_in s)) w2" "unat (avail_in s) \<le> k_size k" "next_in s + unat (avail_in s) \<le> length (inbuf s)"
      "bytes_at (next_in s) (unat (avail_in s)) (inbuf s) = bytes_at 0 (unat (avail_in s)) (k_data k)"
    using check_header_plain [where z = z and ops = ops and fuel = fuel, OF w1(2) refl _ _ al] assms(2) by (auto simp: can_load_def HDRSIZE_def)
  have "length (ss w2) = SOPEN_MAX" using assms(2) more_ss [OF s(2)] more_ss [OF w1(3)] by (simp add: can_load_def)
  moreover have "fd < SOPEN_MAX" using w1(2) by (simp add: file_at_def)
  moreover have "sa_open z ops al fuel (dev_name dev un prt path) 0 w = Ret (int fd, set_ss (int fd) s w2)"
    using w1(1) s(1) assms(2) by (simp add: sa_open_def Let_def can_load_def)
  ultimately show ?thesis using s by (auto simp: stream_at_def set_ss_def Let_def)
qed

lemma loadfile_header:
  assumes "names_file k D K path" "can_load z al k dev un prt path w"
  shows "\<exists>fd w'. sa_open z ops al fuel (dev_name dev un prt path) 0 w = Ret (int fd, w')
     \<and> (\<exists>w''. sa_read z ops al fuel (int fd) (al HDRSIZE) w' = Ret (int HDRSIZE, take HDRSIZE (k_data k), w'') \<and> stream_at k (int fd) HDRSIZE w'')"
proof -
  have al: "\<forall>n. length (al n) = n" and h: "HDRSIZE \<le> k_size k" using assms(2) by (auto simp: can_load_def)
  from sa_open_ok [OF assms, of ops fuel] obtain fd w' where
    "sa_open z ops al fuel (dev_name dev un prt path) 0 w = Ret (int fd, w')" "stream_at k (int fd) 0 w'" by blast
  then show ?thesis using stream_read [of k "int fd" 0 w' "al HDRSIZE" al z ops fuel] al h by (auto simp: bytes_at_def)
qed

lemma loadfile_ok:
  assumes k: "names_file k D K path" "can_load z al k dev un prt path w" and "length rnddata = RNDSIZE" "length marks = 7"
    and c: "class_of (take HDRSIZE (k_data k)) = Some c" "kernel_ok (k_data k) c base (marks ! MARK_START) (dec_ehdr c (take HDRSIZE (k_data k)))"
  shows "\<exists>fd marks' m' w'. loadfile z ops al fuel rnddata (dev_name dev un prt path) marks LOAD_ALL m w = Ret (int fd, marks', m', w')
     \<and> kernel_loaded (k_data k) rnddata c base (marks ! MARK_START) (take HDRSIZE (k_data k)) m marks' m'"
proof -
  have al: "sized al = al" "\<forall>n. length (al n) = n" using k(2) by (auto simp: can_load_def sized_def fun_eq_iff)
  have "class_ok c" using c(1) by (auto simp: class_of_def class_ok_def split: if_splits)
  moreover have "length (take HDRSIZE (k_data k)) = HDRSIZE" using k by (simp add: can_load_def names_file_def length_k_data)
  moreover obtain fd w1 w2 where w: "sa_open z ops al fuel (dev_name dev un prt path) 0 w = Ret (int fd, w1)"
      "sa_read z ops al fuel (int fd) (al HDRSIZE) w1 = Ret (int HDRSIZE, take HDRSIZE (k_data k), w2)" "stream_at k (int fd) HDRSIZE w2"
    using loadfile_header [OF k, of ops fuel] by blast
  moreover have "efi_stream.opened k (int fd) w2" unfolding efi_stream.opened_def using w(3) by blast
  ultimately obtain marks' m' w' where "elf_exec (sa_read z ops al fuel (int fd)) (\<lambda>off. sa_lseek z ops al fuel (int fd) off SEEK_SET) al rnddata c
        (take HDRSIZE (k_data k)) marks LOAD_ALL m w2 = Ret (0, marks', m', w')"
      "kernel_loaded (k_data k) rnddata c base (marks ! MARK_START) (take HDRSIZE (k_data k)) m marks' m'"
    using efi_stream.elf_exec_ok [OF _ _ c(2) al(2) assms(3) refl _ refl assms(4), of "int fd" w2 z ops al fuel m] unfolding al by blast
  then show ?thesis using w c(1) by (auto simp: loadfile_def HDRSIZE_def)
qed

lemma dec_frob:
  assumes "class_ok c" "length elf = HDRSIZE"
  defines "e \<equiv> dec_ehdr c elf" and "e' \<equiv> dec_ehdr c (take (c_ehdr c) (frob c elf))"
  shows "e_entry e' = e_entry e" "e_shnum e' = e_shnum e" "e_shstrndx e' = e_shstrndx e" "unat (e_shoff e') = c_ehdr c" "e_phnum e' = 0"
proof -
  have t: "getn n q (take k b) = getn n q b" if "q + n \<le> k" for n q k b using that getn_at [of q n k 0 b] by (simp add: bytes_at_def)
  have num: "le_dec (bytes_at q n (take k b)) = le_dec (bytes_at q n b)" if "q + n \<le> k" for q n k and b :: "u8 list"
    using that by (simp add: bytes_at_def drop_take min_def)
  note sizes = assms(2) [unfolded HDRSIZE_def]
  show "e_entry e' = e_entry e" "e_shnum e' = e_shnum e" "e_shstrndx e' = e_shstrndx e"
    using assms(1) sizes unfolding e_def e'_def
    by (elim class_cases; simp add: dec_ehdr_def Let_def frob_def elf32_def elf64_def t num getn_overlay_outside bytes_at_overlay_outside length_overlay)+
  have z: "bytes_at q 2 (overlay b p (replicate 4 (0 :: u8))) = [0, 0]" if "q = p + 2" "p + 4 \<le> length b" for q p b
    using that by (simp add: bytes_at_def overlay_def numeral_eq_Suc)
  show "e_phnum e' = 0"
    using assms(1) sizes unfolding e'_def
    by (elim class_cases; simp add: dec_ehdr_def Let_def frob_def elf32_def elf64_def num z length_overlay)
  show "unat (e_shoff e') = c_ehdr c"
    using assms(1) sizes getn_overlay_same [of _ _ _ "52 :: u64"] getn_overlay_same [of _ _ _ "64 :: u64"] unfolding e'_def
    by (elim class_cases; simp add: dec_ehdr_def Let_def frob_def elf32_def elf64_def t getn_overlay_outside length_overlay)
qed

section \<open>Kernels\<close>

text \<open>
  C5: \<open>loadfile\<close> brings the kernel the path names into memory. Below the symbols every byte comes from the last
  program header that covers its address: the byte of the file, zero behind the end of the segment's bytes in the file,
  or random data; every other byte keeps its value. The marks are the start of the lowest segment, the entry point,
  the start of the symbols and the end of them.
\<close>

theorem loadfile_loads_kernel:
  assumes k: "names_file k D K path" "can_load z al k dev un prt path w" and "length rnddata = RNDSIZE" "length marks = 7"
    and c: "class_of (take HDRSIZE (k_data k)) = Some c" "kernel_ok (k_data k) c base (marks ! MARK_START) (dec_ehdr c (take HDRSIZE (k_data k)))"
  shows "let offset = marks ! MARK_START; e = dec_ehdr c (take HDRSIZE (k_data k)); phs = phdrs_of (k_data k) c e;
            symp = up (c_addr c) (high_addr 0 phs) + unat offset - base in
     \<exists>fd marks' m' w'. loadfile z ops al fuel rnddata (dev_name dev un prt path) marks LOAD_ALL m w = Ret (int fd, marks', m', w')
       \<and> (\<forall>x < symp. m' x = kernel_image (k_data k) rnddata base offset phs m x)
       \<and> marks' ! MARK_START = of_nat (LOADADDR offset (low_addr (- 1) phs)) \<and> marks' ! MARK_ENTRY = of_nat (LOADADDR offset (e_entry e))
       \<and> marks' ! MARK_SYM = of_nat symp \<and> marks' ! MARK_END = of_nat (symp + c_ehdr c + room_of (k_data k) c e)"
  using loadfile_ok [OF assms, of ops fuel m] by (auto simp: kernel_loaded_def Let_def)

text \<open>
  C7: The symbols of the kernel are found through the headers behind it. At the address in \<open>MARK_SYM\<close> is a header of the
  same class with the entry point and the number of sections of the file's, which places the section headers right behind
  itself; and each of these that belongs to a symbol table, a string table or \<open>.debug_line\<close> gives, relative to the
  same address, the place where the bytes of the section are.
\<close>

theorem loadfile_symbols_found:
  assumes k: "names_file k D K path" "can_load z al k dev un prt path w" and "length rnddata = RNDSIZE" "length marks = 7"
    and c: "class_of (take HDRSIZE (k_data k)) = Some c" "kernel_ok (k_data k) c base (marks ! MARK_START) (dec_ehdr c (take HDRSIZE (k_data k)))"
  shows "\<exists>fd marks' m' w'. loadfile z ops al fuel rnddata (dev_name dev un prt path) marks LOAD_ALL m w = Ret (int fd, marks', m', w')
     \<and> (let dat = k_data k; e = dec_ehdr c (take HDRSIZE dat); a = unat (marks' ! MARK_SYM); e' = dec_ehdr c (mem_get m' a (c_ehdr c));
            hs = mem_get m' (a + unat (e_shoff e')) (e_shnum e' * c_shdr c) in
        e_entry e' = e_entry e \<and> e_shnum e' = e_shnum e \<and> e_shstrndx e' = e_shstrndx e \<and> e_phnum e' = 0 \<and> unat (e_shoff e') = c_ehdr c
        \<and> (\<forall>i < e_shnum e. let h = shdr_at c (shtab dat c e) i; h' = shdr_at c hs i in
             if wanted (shnames dat c e) h = Ret True
             then sh_name h' = sh_name h \<and> sh_type h' = sh_type h \<and> sh_size h' = sh_size h
               \<and> mem_get m' (a + unat (sh_offset h')) (unat (sh_size h')) = bytes_at (unat (sh_offset h)) (unat (sh_size h)) dat
             else h' = h))"
proof -
  let ?dat = "k_data k" let ?hdr = "take HDRSIZE ?dat" let ?e = "dec_ehdr c ?hdr" and ?offset = "marks ! MARK_START"
  let ?top = "up (c_addr c) (high_addr 0 (phdrs_of ?dat c ?e)) + unat ?offset - base"
  obtain fd marks' m' w' where l: "loadfile z ops al fuel rnddata (dev_name dev un prt path) marks LOAD_ALL m w = Ret (int fd, marks', m', w')"
      "kernel_loaded ?dat rnddata c base ?offset ?hdr m marks' m'"
    using loadfile_ok [OF assms, of ops fuel m] by blast
  have co: "class_ok c" using c(1) by (auto simp: class_of_def class_ok_def split: if_splits)
  have len: "length ?hdr = HDRSIZE" using k by (simp add: can_load_def names_file_def length_k_data)
  have "?top < 2 ^ 64"
    using c(2) up_bounds(2) [of "c_addr c" "high_addr 0 (phdrs_of ?dat c ?e)"] class_addr [OF co] by (auto simp: kernel_ok_def window_ok_def)
  then have a: "unat (of_nat ?top :: u64) = ?top" by (intro unat_of_nat_small) simp
  show ?thesis
    using l dec_frob [OF co len] by (auto simp: kernel_loaded_def Let_def a sec_moved_def)
qed

section \<open>A small kernel\<close>

text \<open>A 64-bit file with one segment of four bytes and four zeroes, a table of names and a table of symbols.\<close>

definition ident0 :: "u8 list" where "ident0 = [0x7f, 0x45, 0x4c, 0x46, 2] @ replicate 11 0"
definition syms0 :: "u8 list" where "syms0 = [1, 2, 3, 4, 5, 6, 7, 8]"
definition text0 :: "u8 list" where "text0 = [0xde, 0xad, 0xbe, 0xef]"

definition elf0 :: "u8 list" where
  "elf0 = ident0 @ le_enc 2 2 @ le_enc 2 62 @ le_enc 4 1 @ le_enc 8 0x1000000 @ le_enc 8 64 @ le_enc 8 120
     @ le_enc 4 0 @ le_enc 2 64 @ le_enc 2 56 @ le_enc 2 1 @ le_enc 2 64 @ le_enc 2 2 @ le_enc 2 0
     @ (le_enc 4 1 @ le_enc 4 5 @ le_enc 8 264 @ le_enc 8 0x1000000 @ le_enc 8 0x1000000 @ le_enc 8 4 @ le_enc 8 8 @ le_enc 8 4096)
     @ (le_enc 4 0 @ le_enc 4 3 @ le_enc 8 0 @ le_enc 8 0 @ le_enc 8 248 @ le_enc 8 8 @ replicate 24 0)
     @ (le_enc 4 0 @ le_enc 4 2 @ le_enc 8 0 @ le_enc 8 0 @ le_enc 8 256 @ le_enc 8 8 @ replicate 24 0)
     @ replicate 8 0 @ syms0 @ text0"

definition bsd0 :: "u8 list" where "bsd0 = elf0 @ replicate 244 0"

lemma length_elf0: "length ident0 = 16" "length syms0 = 8" "length text0 = 4" "length elf0 = 268"
  by (simp_all add: elf0_def ident0_def syms0_def text0_def)

definition ehdr0 :: Elf_Ehdr where
  "ehdr0 = \<lparr>e_entry = 0x1000000, e_phoff = 64, e_shoff = 120, e_phnum = 1, e_shnum = 2, e_shstrndx = 0\<rparr>"

definition phdr0 :: Elf_Phdr where
  "phdr0 = \<lparr>ph_type = 1, ph_flags = 5, ph_offset = 264, ph_paddr = 0x1000000, ph_filesz = 4, ph_memsz = 8\<rparr>"

definition shdr0 :: "nat \<Rightarrow> Elf_Shdr" where
  "shdr0 i = \<lparr>sh_name = 0, sh_type = (if i = 0 then 3 else 2), sh_flags = 0, sh_offset = (if i = 0 then 248 else 256), sh_size = 8\<rparr>"

lemma dec_elf0:
  "class_of (take HDRSIZE elf0) = Some elf64" "dec_ehdr elf64 (take HDRSIZE elf0) = ehdr0" "phdrs_of elf0 elf64 ehdr0 = [phdr0]"
  "shdr_at elf64 (shtab elf0 elf64 ehdr0) 0 = shdr0 0" "shdr_at elf64 (shtab elf0 elf64 ehdr0) 1 = shdr0 1"
  subgoal by (simp add: class_of_def elf0_def ident0_def HDRSIZE_def ELFMAG_def ELFCLASS32_def ELFCLASS64_def)
  subgoal by (simp add: dec_ehdr_def elf0_def HDRSIZE_def elf64_def ehdr0_def getn_def layout length_elf0 le_dec_enc Let_def)
  subgoal by (simp add: phdrs_of_def phdr_at_def dec_phdr_def elf0_def elf64_def ehdr0_def phdr0_def getn_def bytes_at_bytes_at [symmetric] layout length_elf0 le_dec_enc)
  subgoal by (simp add: shtab_def shdr_at_def dec_shdr_def elf0_def elf64_def ehdr0_def shdr0_def getn_def bytes_at_bytes_at [symmetric] layout length_elf0 le_dec_enc)
  subgoal by (simp add: shtab_def shdr_at_def dec_shdr_def elf0_def elf64_def ehdr0_def shdr0_def getn_def bytes_at_bytes_at [symmetric] layout length_elf0 le_dec_enc)
  done

lemma phdr0_simps: "loadable phdr0" "\<not> is_random phdr0" "extent phdr0 = 8" "high_addr 0 [phdr0] = 0x1000008" "low_addr (- 1) [phdr0] = 0x1000000"
proof -
  show l: "loadable phdr0" "\<not> is_random phdr0"
    by (simp_all add: loadable_def is_random_def phdr0_def PT_LOAD_def PT_OPENBSD_RANDOMIZE_def PF_W_def PF_R_def PF_X_def)
  then show e: "extent phdr0 = 8" by (simp add: extent_def phdr0_def)
  have "ph_paddr phdr0 < - 1" by code_simp
  then show "high_addr 0 [phdr0] = 0x1000008" "low_addr (- 1) [phdr0] = 0x1000000"
    using l e by (simp_all add: high_addr_def low_addr_def) (simp_all add: phdr0_def)
qed

lemma kernel0: "kernel_ok elf0 elf64 0 0 ehdr0" "room_of elf0 elf64 ehdr0 = 144"
proof -
  have w: "wanted nm (shdr0 i) = Ret True" for nm i by (simp add: wanted_def shdr0_def SHT_SYMTAB_def SHT_STRTAB_def)
  have z: "sh_size (shdr0 i) = 8" for i by (simp add: shdr0_def)
  have u: "up 8 128 = 128" "up 8 8 = 8" by (simp_all add: up_def)
  have e: "e_shnum ehdr0 = 2" "e_shoff ehdr0 = 120" "e_shstrndx ehdr0 = 0" "e_phnum ehdr0 = 1" "e_phoff ehdr0 = 64"
      "c_shdr elf64 = 64" "c_phdr elf64 = 56" "c_addr elf64 = 8" "c_ehdr elf64 = 64" by (simp_all add: ehdr0_def elf64_def)
  have two: "[0..<2] = [0, 1 :: nat]" by (simp add: upt_rec)
  show r: "room_of elf0 elf64 ehdr0 = 144" by (simp add: room_of_def sym_room_def e two dec_elf0 [simplified] w u z)
  have "symbols_ok elf0 elf64 ehdr0"
    by (simp add: symbols_ok_def e two dec_elf0 [simplified] length_elf0 sec_ok_def w Let_def) (simp add: shdr0_def SHT_SYMTAB_def)
  moreover have "phdr_ok elf0 0 0 phdr0" by (simp add: phdr_ok_def phdr0_simps in_window_def) (simp add: phdr0_def length_elf0)
  ultimately show "kernel_ok elf0 elf64 0 0 ehdr0"
    by (simp add: kernel_ok_def window_ok_def e dec_elf0(3) phdr0_simps r length_elf0)
qed

definition dip1 :: diskinfo where
  "dip1 = (efid_init (disk_512 (sector0 268 bsd0)))\<lparr>bios_info := zero_bios\<lparr>bios_number := 0x80\<rparr>\<rparr>"

definition cw0 :: "unit c_world" where
  "cw0 = \<lparr>files = replicate SOPEN_MAX closed_file, errno = 0,
     efi_of = \<lparr>disklist = [dip1], sr_volumes = [], bootdev_dip = None, bios_bootdev = 0\<rparr>, iblk_of = No_iblk, ss = replicate SOPEN_MAX None\<rparr>"

definition z0 :: "unit zlib" where
  "z0 = \<lparr>inflateInit2 = (Z_OK, ()), inflate = (\<lambda>s b n. (Z_DATA_ERROR, 0, [], s)), inflateReset = id, crc32 = (\<lambda>c b. c)\<rparr>"

definition kfile0 :: kfile where
  "kfile0 = \<lparr>k_dip = fix_bootdev 0 0 dip1, k_ed = disk_512 (sector0 268 bsd0), k_med = sector0 268 bsd0, k_nblk = 38, k_fs = fs0, k_di = inode0 0x81A4 268 37\<rparr>"

lemma length_bsd0: "length bsd0 = 512" by (simp add: bsd0_def length_elf0)

lemma image_dip1: "image_disk 268 bsd0 (fix_bootdev 0 0 dip1)"
proof -
  have "B_PARTITION (bsddev (fix_bootdev 0 0 dip1)) = 0" using fix_bootdev_fields [of 0 0 dip1] by simp
  then show ?thesis by (simp add: image_disk_def length_bsd0) (simp add: fix_bootdev_def dip1_def efid_init_def Let_def)
qed

lemma kfile0: "names_file kfile0 D0 {2, 3} ''/bsd''" "k_data kfile0 = elf0" "can_load z0 (\<lambda>n. replicate n 0) kfile0 ''sd'' 0 0 ''/bsd'' cw0"
proof -
  note v = vol0 [OF image_dip1] and rd = readable0 [OF image_dip1] and i = inodes_at0 [OF image_dip1]
  have sz: "unat (di_size (inode0 0x81A4 268 37)) = 268" by (simp add: inode0_def)
  have kf: "k_dip kfile0 = fix_bootdev 0 0 dip1" "k_ed kfile0 = disk_512 (sector0 268 bsd0)" "k_med kfile0 = sector0 268 bsd0" "k_nblk kfile0 = 38"
      "k_fs kfile0 = fs0" "k_di kfile0 = inode0 0x81A4 268 37" by (simp_all add: kfile0_def)
  have sec: "k_sector kfile0 = sector0 268 bsd0" by (simp add: k_sector_def kfile0_def v)
  have "take 268 bsd0 = elf0" by (simp add: bsd0_def length_elf0)
  then show d: "k_data kfile0 = elf0"
    using file_data0 [OF image_dip1] by (simp add: k_data_def k_size_def sec) (simp add: kfile0_def sz)
  note p = image0_parts [OF length_bsd0]
  show "names_file kfile0 D0 {2, 3} ''/bsd''"
    using tree0 [OF image_dip1] v(1)
    by (simp add: names_file_def k_ok_def k_size_def sec k_readable_def kf path0 p dec_fs0 fs0_ok rd i sz) (simp add: fs0_def)
  have "k_data kfile0 ! 0 \<noteq> 0x1f" "HDRSIZE \<le> k_size kfile0"
    unfolding d by (simp_all add: elf0_def ident0_def k_size_def kfile0_def sz HDRSIZE_def)
  then show "can_load z0 (\<lambda>n. replicate n 0) kfile0 ''sd'' 0 0 ''/bsd'' cw0"
    by (simp add: can_load_def on_disk_def cw0_def z0_def SOPEN_MAX_def closed_file_def iblk_ok_def) (simp add: kfile0_def dip1_def zero_bios_def)
qed

theorem loadfile_loads_kernel_witness:
  "\<exists>fd marks' m' w'. loadfile z0 ops0 (\<lambda>n. replicate n 0) 0 (replicate 512 7) ''sd0a:/bsd'' (replicate 7 0) LOAD_ALL (\<lambda>_. 1) cw0 = Ret (int fd, marks', m', w')
     \<and> m' 0x1000001 = 0xad \<and> m' 0x1000005 = 0 \<and> m' 0xfff = 1 \<and> marks' ! MARK_START = 0x1000000 \<and> marks' ! MARK_SYM = 0x1000008"
proof -
  have n: "dev_name ''sd'' 0 0 ''/bsd'' = ''sd0a:/bsd''" by code_simp
  have mk: "replicate 7 (0 :: u64) ! MARK_START = 0" by (simp add: MARK_START_def)
  have c: "elf0 ! 265 = 0xad" "covers 0 0 0x1000001 phdr0" "covers 0 0 0x1000005 phdr0" "\<not> covers 0 0 0xfff phdr0" "LOADADDR 0 0x1000000 = 0x1000000"
    "seg_byte elf0 (replicate 512 7) phdr0 1 = 0xad" "seg_byte elf0 (replicate 512 7) phdr0 5 = 0" "place 0 0 (ph_paddr phdr0) = 0x1000000"
  proof -
    have "drop 264 elf0 = text0" by (simp add: elf0_def length_elf0)
    then have "elf0 ! 265 = text0 ! 1" using nth_drop [of 264 elf0 1] by (simp add: length_elf0)
    then show "elf0 ! 265 = 0xad" by (simp add: text0_def)
    then show "seg_byte elf0 (replicate 512 7) phdr0 1 = 0xad" by (simp add: seg_byte_def phdr0_simps) (simp add: phdr0_def)
  qed (simp_all add: covers_def phdr0_simps place_def LOADADDR_mod seg_byte_def, simp_all add: phdr0_def)
  have u: "up (c_addr elf64) 0x1000008 = 0x1000008" by (simp add: up_def elf64_def)
  let ?img = "kernel_image elf0 (replicate 512 7) 0 0 [phdr0] (\<lambda>_. 1)"
  have "length (replicate 512 (7 :: u8)) = RNDSIZE" by (simp add: RNDSIZE_def)
  from loadfile_loads_kernel [OF kfile0(1,3) this, of "replicate 7 0" elf64 0 ops0 0 "\<lambda>_. 1"]
  obtain fd marks' m' w' where "loadfile z0 ops0 (\<lambda>n. replicate n 0) 0 (replicate 512 7) ''sd0a:/bsd'' (replicate 7 0) LOAD_ALL (\<lambda>_. 1) cw0 = Ret (int fd, marks', m', w')"
      "\<forall>x < 0x1000008. m' x = ?img x" "marks' ! MARK_START = 0x1000000" "marks' ! MARK_SYM = 0x1000008"
    unfolding kfile0(2) dec_elf0 mk n using kernel0 c(5) by (auto simp: dec_elf0 phdr0_simps u Let_def)
  moreover have "?img 0x1000001 = 0xad" "?img 0x1000005 = 0" "?img 0xfff = 1" using c by (simp_all add: kernel_image_def)
  ultimately show ?thesis by (intro exI [of _ fd] exI [of _ marks'] exI [of _ m'] exI [of _ w']) simp
qed

theorem loadfile_symbols_found_witness:
  "\<exists>fd marks' m' w' (h :: Elf_Shdr). loadfile z0 ops0 (\<lambda>n. replicate n 0) 0 (replicate 512 7) ''sd0a:/bsd'' (replicate 7 0) LOAD_ALL (\<lambda>_. 1) cw0 = Ret (int fd, marks', m', w')
     \<and> sh_type h = SHT_SYMTAB \<and> sh_size h = 8 \<and> mem_get m' (unat (marks' ! MARK_SYM) + unat (sh_offset h)) 8 = [1, 2, 3, 4, 5, 6, 7, 8]"
proof -
  have n: "dev_name ''sd'' 0 0 ''/bsd'' = ''sd0a:/bsd''" by code_simp
  have mk: "replicate 7 (0 :: u64) ! MARK_START = 0" by (simp add: MARK_START_def)
  have b: "bytes_at 256 8 elf0 = syms0" by (simp add: elf0_def layout length_elf0)
  have w: "wanted nm (shdr0 1) = Ret True" for nm by (simp add: wanted_def shdr0_def SHT_SYMTAB_def SHT_STRTAB_def)
  have e: "1 < e_shnum ehdr0" by (simp add: ehdr0_def)
  have r: "length (replicate 512 (7 :: u8)) = RNDSIZE" "length (replicate 7 (0 :: u64)) = 7" by (simp_all add: RNDSIZE_def)
  have k: "class_of (take HDRSIZE (k_data kfile0)) = Some elf64"
      "kernel_ok (k_data kfile0) elf64 0 (replicate 7 0 ! MARK_START) (dec_ehdr elf64 (take HDRSIZE (k_data kfile0)))"
    unfolding mk kfile0(2) dec_elf0 using kernel0(1) by simp_all
  obtain fd marks' m' w' hs where
    l: "loadfile z0 ops0 (\<lambda>n. replicate n 0) 0 (replicate 512 7) ''sd0a:/bsd'' (replicate 7 0) LOAD_ALL (\<lambda>_. 1) cw0 = Ret (int fd, marks', m', w')"
    and q: "\<forall>i<e_shnum ehdr0. let h = shdr_at elf64 (shtab elf0 elf64 ehdr0) i; h' = shdr_at elf64 hs i in
       if wanted (shnames elf0 elf64 ehdr0) h = Ret True
       then sh_name h' = sh_name h \<and> sh_type h' = sh_type h \<and> sh_size h' = sh_size h
         \<and> mem_get m' (unat (marks' ! MARK_SYM) + unat (sh_offset h')) (unat (sh_size h')) = bytes_at (unat (sh_offset h)) (unat (sh_size h)) elf0
       else h' = h"
    using loadfile_symbols_found [OF kfile0(1,3) r k, of ops0 0 "\<lambda>_. 1"] unfolding kfile0(2) dec_elf0 n Let_def by metis
  define h where "h = shdr_at elf64 hs 1"
  have h: "sh_type h = sh_type (shdr0 1)" "sh_size h = sh_size (shdr0 1)"
      "mem_get m' (unat (marks' ! MARK_SYM) + unat (sh_offset h)) (unat (sh_size h)) = bytes_at (unat (sh_offset (shdr0 1))) (unat (sh_size (shdr0 1))) elf0"
    using q [rule_format, OF e] w unfolding dec_elf0(5) Let_def h_def by auto
  have "mem_get m' (unat (marks' ! MARK_SYM) + unat (sh_offset h)) 8 = syms0" using h(2,3) b by (simp add: shdr0_def)
  moreover have "sh_type h = SHT_SYMTAB" "sh_size h = 8" using h by (simp_all add: shdr0_def SHT_SYMTAB_def)
  ultimately show ?thesis unfolding syms0_def using l by blast
qed

end
