(* ===== verification/Boot_Disk.thy ===== *)
theory Boot_Disk
  imports Boot_Main Efi_Load
begin

unbundle bit_operations_syntax

text \<open>
  The boot program on its disk: the files the prompt opens and the kernel it loads are those of the file system on the
  partition, read through the descriptors of \<open>Libsa_File\<close>, the streams of \<open>Libsa_Cread\<close> and the loader of \<open>Libsa_Load\<close>.
\<close>

section \<open>The environment of the prompt\<close>

text \<open>
  The fields of \<open>benv\<close> for the files, computed by the models of the functions behind them. Every call starts in the
  state \<open>w\<close>; \<open>open_missing\<close> shows that an \<open>open\<close> that fails leaves the state fit for the next one. The contents of a
  file are what reading byte by byte gives, up to the end or an error. A call that does not return stands for no
  result; the theorem below is about calls that do.
\<close>

fun read_bytes :: "'z zlib \<Rightarrow> sr_ops \<Rightarrow> (nat \<Rightarrow> u8 list) \<Rightarrow> nat \<Rightarrow> nat \<Rightarrow> int \<Rightarrow> 'z c_world \<Rightarrow> (string \<times> nat option) outcome" where
  "read_bytes z ops al fuel 0 fd w = Ret ([], None)"
| "read_bytes z ops al fuel (Suc n) fd w =
     obind (sa_read z ops al fuel fd (al 1) w) (\<lambda>(nr, b, w).
       if nr < 0 then Ret ([], Some (nat (errno w)))
       else if nr = 0 then Ret ([], None)
       else obind (read_bytes z ops al fuel n fd w) (\<lambda>(s, e). Ret (char_of (unat (b ! 0)) # s, e)))"

definition open_file :: "'z zlib \<Rightarrow> sr_ops \<Rightarrow> (nat \<Rightarrow> u8 list) \<Rightarrow> nat \<Rightarrow> 'z c_world \<Rightarrow> string \<Rightarrow> (nat + bfile) outcome" where
  "open_file z ops al fuel w path =
     obind (sa_open z ops al fuel path 0 w) (\<lambda>(fd, w).
       if fd < 0 then Ret (Inl (nat (errno w)))
       else obind (fstat fd w) (\<lambda>(rv, sb, w).
         let n = (case sb of None \<Rightarrow> 0 | Some (_, _, _, sz) \<Rightarrow> unat sz) in
         obind (read_bytes z ops al fuel n fd w) (\<lambda>(s, e).
           Ret (Inr \<lparr>f_stat = (case sb of None \<Rightarrow> None | Some (mode, uid, gid, sz) \<Rightarrow>
                  Some \<lparr>st_mode = mode, st_uid = uid, st_gid = gid, st_size = sz\<rparr>), f_data = s, f_err = e\<rparr>))))"

definition load_kernel :: "'z zlib \<Rightarrow> sr_ops \<Rightarrow> (nat \<Rightarrow> u8 list) \<Rightarrow> nat \<Rightarrow> u8 list \<Rightarrow> u64 list \<Rightarrow> memory \<Rightarrow> 'z c_world \<Rightarrow> string \<Rightarrow> u64 \<Rightarrow>
    (nat + u64 list) outcome" where
  "load_kernel z ops al fuel seed marks m w path addr =
     obind (Libsa_Load.loadfile z ops al fuel seed path (marks[MARK_START := addr]) LOAD_ALL m w) (\<lambda>(fd, marks, m, w).
       Ret (if fd = - 1 then Inl (nat (errno w)) else Inr marks))"

definition answer :: "(nat + 'a) outcome \<Rightarrow> nat + 'a" where
  "answer r = (case r of Ret x \<Rightarrow> x | _ \<Rightarrow> Inl 0)"

definition disk_env :: "'z zlib \<Rightarrow> sr_ops \<Rightarrow> (nat \<Rightarrow> u8 list) \<Rightarrow> nat \<Rightarrow> u8 list \<Rightarrow> u64 list \<Rightarrow> memory \<Rightarrow> 'z c_world \<Rightarrow> benv \<Rightarrow> benv" where
  "disk_env z ops al fuel seed marks m w e =
     e\<lparr>fs_open := (\<lambda>p. answer (open_file z ops al fuel w p)), loadfile := (\<lambda>p a. answer (load_kernel z ops al fuel seed marks m w p a))\<rparr>"

section \<open>Files that are not there\<close>

lemma fix_bootdev_twice [simp]: "fix_bootdev un prt (fix_bootdev un prt dip) = fix_bootdev un prt dip"
  by (simp add: fix_bootdev_def Let_def)

lemma find_index_update: "find_index P xs = Some i \<Longrightarrow> P y \<Longrightarrow> find_index P (xs[i := y]) = Some i"
  by (induction xs arbitrary: i) (auto split: if_splits)

lemma bios_number_fix_bootdev [simp]: "bios_info (fix_bootdev un prt dip) = bios_info dip"
  by (simp add: fix_bootdev_def Let_def)

lemma open_missing:
  assumes k: "names_file k D K kern" "can_load z al k dev un prt kern w" and p: "path \<noteq> []" "resolve D ROOTINO (path_names path) = Inl err"
  shows "\<exists>w'. sa_open z ops al fuel (dev_name dev un prt path) 0 w = Ret (- 1, w') \<and> errno w' = err \<and> can_load z al k dev un prt kern w'"
proof -
  have al: "sized al = al" and od: "on_disk k dev un prt w" using k(2) by (auto simp: can_load_def sized_def fun_eq_iff)
  obtain fd where fd: "find_index (\<lambda>f. f_flags f = 0) (files w) = Some fd"
    using k(2) find_index_ex [of "files w" "\<lambda>f. f_flags f = 0"] by (auto simp: can_load_def)
  then have fd': "fd < SOPEN_MAX" "length (files w) = SOPEN_MAX" using find_index_Some [OF fd] od by (auto simp: on_disk_def)
  obtain ib where o: "ufs_open (efistrategy ops (k_dip k) F_READ) al path (iblk_of w) = Ret (Inl err, ib)" "iblk_ok (k_ed k) ib"
    using efi_vol.ufs_open_ok [of "k_fs k" "k_dip k" "k_ed k" "k_med k" "k_nblk k" D K "iblk_of w" ops al path] k(1) od p(2)
    unfolding al by (auto simp: names_file_def on_disk_def k_ok_def k_sector_def k_readable_def)
  let ?q = "\<lambda>dip. bios_number (bios_info dip) = of_nat un OR 0x80" and ?dl = "disklist (efi_of w)"
  from oopen_disk [OF od p(1) fd, of ops al] obtain i f where i: "find_index ?q ?dl = Some i" "i < length ?dl" "k_dip k = fix_bootdev un prt (?dl ! i)"
      and op: "oopen ops al (dev_name dev un prt path) 0 w =
        fail err (set_file fd f (w\<lparr>efi_of := (efi_of w)\<lparr>bootdev_dip := Some (Disk i), disklist := ?dl[i := k_dip k]\<rparr>, iblk_of := ib\<rparr>))"
      and f: "f_flags f = 0"
    using o(1) by (auto simp: Let_def)
  have "?q (?dl ! i)" using find_index_Some [OF i(1)] by simp
  then have "find_index ?q (?dl[i := k_dip k]) = Some i" by (intro find_index_update [OF i(1)]) (simp add: i(3))
  moreover have "\<exists>g \<in> set ((files w)[fd := f]). f_flags g = 0" using f fd' by (intro bexI [of _ f]) (simp_all add: set_update_memI)
  ultimately show ?thesis
    using op fd' o(2) k(2) i by (auto simp: sa_open_def fail_def can_load_def on_disk_def set_file_def)
qed

section \<open>Booting\<close>

text \<open>The name of a partition, as in \<open>cmd.bootdev\<close>.\<close>

definition drive :: "string \<Rightarrow> nat \<Rightarrow> nat \<Rightarrow> string" where "drive dev un prt = dev @ [char_of (48 + un), char_of (97 + prt)]"

lemma dev_name_drive: "drive dev un prt @ '':'' @ path = dev_name dev un prt path"
  by (simp add: drive_def dev_name_def)

lemma drive_name: "dev \<in> {''wd'', ''sd'', ''hd''} \<Longrightarrow> un < 10 \<Longrightarrow> prt < 16 \<Longrightarrow> length (drive dev un prt) = 4 \<and> NUL \<notin> set (drive dev un prt)"
  by (auto simp: drive_def NUL_def dest!: arg_cong [of _ _ "of_char :: char \<Rightarrow> nat"])

lemma disk_env_open:
  "names_file k D K kern \<Longrightarrow> can_load z al k dev un prt kern w \<Longrightarrow> path \<noteq> [] \<Longrightarrow> resolve D ROOTINO (path_names path) = Inl err \<Longrightarrow>
   fs_open (disk_env z ops al fuel seed marks m w e) (dev_name dev un prt path) = Inl (nat err)"
  using open_missing [of k D K kern z al dev un prt w path err ops fuel] by (auto simp: disk_env_def open_file_def answer_def)

lemma disk_env_load:
  "Libsa_Load.loadfile z ops al fuel seed path (marks[MARK_START := addr]) LOAD_ALL m w = Ret (int fd, marks', m', w') \<Longrightarrow>
   benv.loadfile (disk_env z ops al fuel seed marks m w e) path addr = Inr marks'"
  by (simp add: disk_env_def load_kernel_def answer_def)


section \<open>A small disk\<close>

lemma no_boot_conf0: "resolve D0 ROOTINO (path_names ''/etc/boot.conf'') = Inl ENOENT"
proof -
  have "path_names ''/etc/boot.conf'' = [''etc'', ''boot.conf'']" by (simp add: path_names.simps is_slash_def)
  then show ?thesis by (simp add: D0_def ROOTINO_def lookup_def es0_def MAXNAMLEN_def)
qed


end
