(* ===== verification/Spec2Isabelle.thy ===== *)
theory Spec2Isabelle
  imports Gdisk_User Efi_Path Boot_Lines Efi_Cons Kern_Mem Libsa_Alloc Boot_Disk
begin

text \<open>
  This library verifies the parts of an OpenBSD tree that bring a machine up from a GPT disk under UEFI: the
  partition editor \<open>sbin/gdisk\<close>, which writes the partition table, the EFI boot program
  (\<open>sys/arch/amd64/stand/efiboot\<close> with the code it shares with the BIOS programs in \<open>sys/arch/amd64/stand/libsa\<close>,
  \<open>sys/stand/boot\<close> and \<open>sys/lib/libsa\<close>), which finds the OpenBSD partition in that table, runs the boot prompt and
  loads the kernel, and the first thing the kernel does, reading what the boot program passed to it
  (\<open>sys/arch/amd64/amd64/machdep.c\<close>).

  How the parts interact. gdisk keeps a \<open>gpt_t\<close> in memory, changes it by commands, and writes two copies of it to
  the disk. The boot program reads sectors through the firmware, looks for the entry of type OpenBSD, reads the
  disk label there, and from then on opens devices and files by name: a descriptor is a device and an open file of the
  file system on it, perhaps with a stream that decompresses it, and the loader reads the kernel through it into
  memory. Its commands change one record, the command state;
  the memory map of the firmware is merged into \<open>bios_memmap\<close>, which the \<open>machine memory\<close> command edits. At the
  end the state is packed into the boot arguments, from which \<open>getbootinfo\<close> and \<open>init_x86_64\<close> rebuild it. The
  theorems that span components follow a value along this way: a partition stored by gdisk is the one the boot
  program finds (\<open>Efi_Find\<close>), the bytes of the file a path names are the bytes of the kernel in memory (\<open>Efi_Load\<close>), also when nobody
  is at the prompt (\<open>Boot_Disk\<close>),
  the firmware's memory map is what the kernel's segments are cut from (\<open>Kern_Mem\<close>), and
  the state of the boot program is what the kernel's variables hold (\<open>Efi_Pass\<close>).

  Conventions. A C function that can fail to return a value is a function into \<open>outcome\<close>: \<open>Ret v\<close>, \<open>Exit n\<close> (the
  process or the program ends, \<open>panic\<close> included), \<open>Undef\<close> (an access outside an object, signed overflow, a shift
  that is too wide) and \<open>Hang\<close> (a loop that does not end, or waits for input that never comes). Integers are words
  of their C width wherever they can wrap; lengths and indices that cannot are natural numbers. Text written to the
  terminal is kept as a list where a theorem speaks about it. The firmware, the operating system under gdisk and
  functions of libraries that are not in the tree are arguments: fields of \<open>genv\<close>, \<open>os\<close>, \<open>bdev\<close>, \<open>benv\<close>, \<open>efi_fw\<close>,
  \<open>efi_diskinfo\<close>, \<open>zlib\<close> and \<open>sr_ops\<close>. What a theorem needs of them is a named predicate, for instance \<open>dev_good\<close> (a disk
  that reads back what was written) and \<open>medium\<close> (a firmware disk with fixed contents).

  Shared theories.
  \<^item> \<open>BSD_Prelude\<close>: widths, outcomes and their simplification rules, little-endian encodings, list facts.
  \<^item> \<open>C_Double\<close>, \<open>C_Strings\<close>: the part of IEEE doubles, \<open>strtod\<close>, \<open>fgets\<close>, \<open>strsep\<close>, \<open>strtonum\<close> that gdisk uses.

  The partition editor.
  \<^item> \<open>Gdisk_Misc\<close> (\<open>misc.c\<close>): units, questions, numbers with their arithmetic in doubles. The locale \<open>reader\<close> is
    the contract of a question: it only takes lines from the front of the input. Answers are in range.
  \<^item> \<open>Gdisk_Part\<close> (\<open>part.c\<close>): entries, the table of types, overlap. \<open>Gdisk_Disk\<close> (\<open>disk.c\<close>): geometry.
  \<^item> \<open>Gdisk_Gpt\<close> (\<open>gpt.c\<close>): layouts, load, store, init, fill, verify. \<open>Gdisk_Store\<close>: the locale \<open>block_store\<close>
    (a device that returns what was written) and the round trips through both copies. \<open>Gdisk_Table\<close>: what load
    guarantees, that init gives a table that can be stored, that fill stays apart from other partitions, and for
    which disk sizes the loop over powers of two ends.
  \<^item> \<open>Gdisk_Cmd\<close> (\<open>cmd.c\<close>): all commands; the locales \<open>command\<close> and \<open>memory_command\<close> state what every command
    keeps of the table and of the disk. \<open>Gdisk_User\<close> (\<open>user.c\<close>, \<open>gdisk.c\<close>): the edit loop ends, keeps the table
    well formed, and never writes into a partition.

  The boot program: library.
  \<^item> \<open>Libsa_String\<close> (\<open>strtol.c\<close>, \<open>strtoll.c\<close>, \<open>strlcpy.c\<close>): equal to the definition of the C library with
    unbounded integers. \<open>Libsa_Printf\<close> (\<open>printf.c\<close>, \<open>snprintf.c\<close>, \<open>putchar.c\<close>, \<open>strerror.c\<close>): what is printed
    reads back. \<open>Libsa_Sum\<close> (\<open>adler32.c\<close>, \<open>dkcksum.c\<close>, \<open>disklabel.c\<close>): the deferred reductions are exact; a sealed
    label is found. \<open>Libsa_Alloc\<close> (\<open>alloc.c\<close>, \<open>heap.h\<close>): the locale \<open>allocator\<close>; blocks in use never overlap.
  The boot program: disks and firmware.
  \<^item> \<open>Efi_Dev\<close> (\<open>efidev.c\<close>, first half): block input, search for the partition; \<open>Efi_Find\<close>: it finds what gdisk
    stored, for every block size. \<open>Efi_Disk\<close> (second half, \<open>diskprobe.c\<close>): disks, device numbers, opening by name,
    reading; \<open>Efi_Probe\<close> (locale \<open>sector_source\<close>: checksums tell disks apart) and \<open>Efi_Open\<close> hold the theorems.
  \<^item> \<open>Efi_Path\<close> (\<open>efi_main\<close>, \<open>efi_diskprobe\<close>): the boot disk is first. \<open>Efi_Time\<close> (\<open>getsecs\<close>, \<open>ctime.c\<close>): the
    date printed is the date of the clock, and where it is not. \<open>Efi_Cons\<close>: the EFI console and the key list of
    the command interpreter are two interpretations of the locale \<open>console\<close>.

  The boot program: files.
  \<^item> \<open>Libsa_Errno\<close>: error numbers. \<open>Libsa_Ufs\<close> (\<open>ufs.c\<close>): inodes, block map with its buffers, reading, directories,
    path walk, over any strategy routine. \<open>Ufs_Read\<close>: the locale \<open>block_device\<close> (a strategy routine that reads
    sectors) and, in it, that reading returns the bytes of the file through all levels of indirection; \<open>Ufs_Dir\<close>:
    lookup, path walk and listing against a reference of directories as lists of entries.
  \<^item> \<open>Efi_Files\<close>: \<open>efistrategy\<close> on a good disk is a \<open>block_device\<close>, so files are opened and read there.
  \<^item> \<open>Libsa_File\<close> (\<open>open.c\<close>, \<open>close.c\<close>, \<open>read.c\<close>, \<open>lseek.c\<close>, \<open>fstat.c\<close>, \<open>stat.c\<close>, \<open>readdir.c\<close>, \<open>devopen\<close>): descriptors.
    \<open>Libsa_Cread\<close> (\<open>cread.c\<close>, \<open>closeall.c\<close>): streams over descriptors. \<open>Libsa_Load\<close> (\<open>loadfile.c\<close>, \<open>loadfile_elf.c\<close>):
    the ELF loader for both classes.
  \<^item> \<open>Elf_Image\<close>: the locale \<open>seekable\<close> (a file at a position) and, in it, what the loader leaves in memory, against the
    definition \<open>kernel_image\<close>. \<open>Efi_Load\<close>: a stream on a partition is \<open>seekable\<close>; \<open>loadfile\<close> loads the kernel a path names,
    and its symbols are where the copied headers say.

  The boot program: prompt.
  \<^item> \<open>Boot_State\<close> (\<open>cmd.h\<close>, \<open>cons.c\<close>, \<open>dev_i386.c\<close>), \<open>Boot_Vars\<close> (\<open>vars.c\<close>), \<open>Boot_Mem\<close> (\<open>memprobe.c\<close>, the EFI
    probe: the merged map covers exactly the firmware's), \<open>Boot_Machine\<close> (\<open>cmd_i386.c\<close>), \<open>Boot_Cmd\<close> (\<open>cmd.c\<close>),
    \<open>Boot_Main\<close> (\<open>boot.c\<close>, \<open>machdep.c\<close>, \<open>devboot\<close>; left alone it loads the default kernel).
  \<^item> \<open>Boot_Disk\<close>: the environment of the prompt made of the models of the file functions; an unattended boot loads the
    kernel on the disk.
  \<^item> \<open>Boot_Frame\<close>: the locale \<open>state_frame\<close> carries a relation between states through every command; it is
    interpreted for the sizes of the strings and for the input that is left, which bounds the loops.
  \<^item> \<open>Boot_Lines\<close>: lines and words against reference definitions of the line editor and the word splitter.

  Handing over.
  \<^item> \<open>Boot_Args\<close> (\<open>bootarg.c\<close> and \<open>getbootinfo\<close> of the kernel): the kernel reads back the list of arguments.
  \<^item> \<open>Efi_Pass\<close> (\<open>efi_makebootargs\<close>, \<open>run_loadfile\<close>, \<open>sr_clear_keys\<close>): it reads back the state.
  \<^item> \<open>Kern_Mem\<close> (beginning of \<open>init_x86_64\<close>): its segments contain free memory only.

  Bounds and fuel. The loop over powers of two in \<open>GPT_init\<close> gets 65 steps, one more than a 64-bit word has bits;
  \<open>Gdisk_Table\<close> shows for which arguments the C loop ends within them and that it never ends for the others.
  \<open>getbootinfo\<close> gets a number of steps as an argument; it is proved that enough steps give the result. The EBR walk
  of \<open>findopenbsd\<close> has the bound \<open>DOS_MAXEBR\<close> of the code. Loops of the prompt recurse on the keys and the clock
  readings that are left; when they are used up the outcome is \<open>Hang\<close>, and theorems about termination assume enough
  of them or, as \<open>edit_loop_ends\<close>, that the input ends. Only reading compressed files takes \<open>fuel\<close>, because it depends
  on a decompressor that is an argument; the theorems about files hold for any amount of it. Sizes fixed by arrays of the code (64 map entries, 8
  words, 16 segments) are kept, and where the code does not check them the access is \<open>Undef\<close>; several theorems
  show inputs that reach it.

  Not modelled.
  \<^item> In the prompt (\<open>Boot_Cmd\<close>, \<open>Boot_Main\<close>) files and the loader are fields of the environment \<open>benv\<close>, results of calls
    for each name. \<open>Boot_Disk\<close> computes opening and loading by the models of \<open>Libsa_Cread\<close> and \<open>Libsa_Load\<close>, each call from
    the same state: what one call leaves in the table of files and the block buffer is not carried to the next one.
    The decompressor of zlib is an argument of \<open>Libsa_Cread\<close>. The other file systems of libsa are not part of the program.
  \<^item> The cryptography and metadata of \<open>softraid.c\<close>: of it only \<open>sr_clear_keys\<close> is modelled, the other operations the
    EFI code calls are arguments.
  \<^item> Code compiled only into the BIOS and PXE programs (\<open>biosdev.c\<close>, \<open>bioscons.c\<close>, \<open>pxe.c\<close>, the BIOS halves of
    \<open>memprobe.c\<close>, \<open>diskprobe.c\<close>), assembly, and \<open>self_reloc.c\<close>, whose effect is on the program's own image.
  \<^item> The calls of the firmware themselves, and output to the screen beyond the text.
  \<^item> The rest of the kernel (\<open>kern\<close>, \<open>uvm\<close>, \<open>net\<close>, drivers, the other architectures), vendored and generated code:
    the library covers the boot path only; the kernel's loading of its segments into UVM is where it ends.
\<close>

end
